(* ===== verification/Prelude.thy ===== *)
theory Prelude
  imports Main "HOL-Library.Word" "HOL-Library.Signed_Division"
begin

text \<open>
  Shared vocabulary of the development: the C integer types of the kernel (every
  \<open>uintN_t\<close> is a word of that width, so arithmetic wraps as on the i686), signed
  reading of 32-bit words, the loop combinators the models use for the C \<open>for\<close> loops,
  and the collections of facts the component theories add to.

  \<^item> \<open>for (i = 0; i < n; i++) body\<close> without an early exit is
    \<open>fold body [0..<n]\<close>;
  \<^item> the same loop with a \<open>return\<close> in its body is \<open>scan body 0 n\<close>, the first
    \<open>Some\<close> result of the body.
\<close>

unbundle bit_operations_syntax

type_synonym u8 = "8 word"
type_synonym u16 = "16 word"
type_synonym u32 = "32 word"
type_synonym u64 = "64 word"

named_theorems frame_facts \<comment> \<open>what an operation leaves unchanged\<close>

section \<open>Signed division of 32-bit words\<close>

text \<open>
  C divides an \<open>int\<close> by truncating towards zero. On values below \<open>2^31\<close> this is
  the unsigned division.
\<close>

definition sdiv32 :: "u32 \<Rightarrow> u32 \<Rightarrow> u32" where
  "sdiv32 a b = word_of_int (sint a sdiv sint b)"

definition smod32 :: "u32 \<Rightarrow> u32 \<Rightarrow> u32" where
  "smod32 a b = word_of_int (sint a smod sint b)"

lemma uint_small_iff: "(a :: u32) < 2147483648 \<longleftrightarrow> uint a < 2147483648"
  by (simp add: word_less_def)

lemma sint_eq_uint_small: "a < 2147483648 \<Longrightarrow> sint (a :: u32) = uint a"
  by (simp add: sint_uint signed_take_bit_int_eq_self_iff uint_small_iff
      order_trans [OF _ uint_ge_0])

lemma sgn_uint: "sgn (uint (a :: u32)) = (if uint a = 0 then 0 else 1)"
proof -
  have "0 < uint a" if "uint a \<noteq> 0" using that uint_ge_0 [of a] by linarith
  then show ?thesis by (simp add: sgn_if)
qed

lemma sdiv32_pos:
  assumes "a < 2147483648" "b < 2147483648"
  shows "sdiv32 a b = a div b"
proof -
  have "uint a sdiv uint b = uint a div uint b"
    by (auto simp: signed_divide_int_def sgn_uint)
  then show ?thesis
    using assms by (simp add: sdiv32_def word_div_def sint_eq_uint_small)
qed

lemma smod32_pos:
  assumes "a < 2147483648" "b < 2147483648"
  shows "smod32 a b = a mod b"
proof -
  have "uint a smod uint b = uint a mod uint b"
    by (auto simp: signed_modulo_int_def sgn_uint)
  then show ?thesis
    using assms by (simp add: smod32_def word_mod_def sint_eq_uint_small)
qed

section \<open>Loops\<close>

fun scan :: "(nat \<Rightarrow> 'r option) \<Rightarrow> nat \<Rightarrow> nat \<Rightarrow> 'r option" where
  "scan f lo 0 = None"
| "scan f lo (Suc n) = (case f lo of Some r \<Rightarrow> Some r | None \<Rightarrow> scan f (Suc lo) n)"

lemma scan_numeral [simp]:
  "scan f lo (numeral k) =
     (case f lo of Some r \<Rightarrow> Some r | None \<Rightarrow> scan f (Suc lo) (pred_numeral k))"
  by (simp add: numeral_eq_Suc)

lemma scan_None_iff: "scan f lo n = None \<longleftrightarrow> (\<forall>i\<in>{lo..<lo + n}. f i = None)"
proof (induction n arbitrary: lo)
  case (Suc n)
  have "{lo..<lo + Suc n} = insert lo {Suc lo..<Suc lo + n}" by auto
  then show ?case by (simp add: Suc.IH split: option.split)
qed simp

lemma scan_Some_iff:
  "scan f lo n = Some r \<longleftrightarrow>
     (\<exists>i\<in>{lo..<lo + n}. f i = Some r \<and> (\<forall>j\<in>{lo..<i}. f j = None))"
proof (induction n arbitrary: lo)
  case (Suc n)
  have set: "{lo..<lo + Suc n} = insert lo {Suc lo..<Suc lo + n}" by auto
  have low: "{lo..<i} = insert lo {Suc lo..<i}" if "i \<in> {Suc lo..<Suc lo + n}" for i
    using that by auto
  show ?case
  proof (cases "f lo")
    case None
    then show ?thesis unfolding set by (simp add: Suc.IH low cong: bex_cong_simp)
  next
    case (Some x)
    then show ?thesis unfolding set by (auto simp: low)
  qed
qed simp

lemma fold_upt_Suc [simp]: "fold f [0..<Suc n] s = f n (fold f [0..<n] s)"
  by simp

lemma fold_invariant_upt:
  assumes "P s" and "\<And>i s. i < n \<Longrightarrow> P s \<Longrightarrow> P (f i s)"
  shows "P (fold f [0..<n] s)"
  using assms(2)
proof (induction n)
  case 0
  then show ?case using assms(1) by simp
next
  case (Suc n)
  then show ?case by simp
qed

section \<open>Arithmetic of addresses\<close>

lemma unat_u32_lt: "unat (a :: u32) < 4294967296"
  using unsigned_less [of a] by simp

lemma unat_u8_lt: "unat (a :: u8) < 256"
  using unsigned_less [of a, where 'a = nat] by simp

lemma unat_u16_lt: "unat (a :: u16) < 65536"
  using unsigned_less [of a] by simp

lemma unat_ucast16_32: "unat (ucast (a :: u16) :: u32) = unat a"
  using unat_u16_lt [of a] by (simp add: unsigned_ucast_eq take_bit_nat_eq_self_iff)

lemma unat_ucast8_32: "unat (ucast (a :: u8) :: u32) = unat a"
  using unat_u8_lt [of a] by (simp add: unsigned_ucast_eq take_bit_nat_eq_self_iff)

lemma unat_ucast32_64: "unat (ucast (a :: u32) :: u64) = unat a"
  using unat_u32_lt [of a] by (simp add: unsigned_ucast_eq take_bit_nat_eq_self_iff)

lemma unat_of_nat32: "n < 4294967296 \<Longrightarrow> unat (of_nat n :: u32) = n"
  by (simp add: unat_of_nat)

lemma of_nat32_inject:
  "m < 4294967296 \<Longrightarrow> n < 4294967296 \<Longrightarrow> (of_nat m :: u32) = of_nat n \<longleftrightarrow> m = n"
  by (metis unat_of_nat32)

lemma unat_sub_of_nat:
  assumes "unat (a - p :: u32) = k" shows "a = p + of_nat k"
proof -
  have "of_nat k = a - p" using assms of_nat_unat [of "a - p"] by (metis ucast_id)
  then show ?thesis by simp
qed

section \<open>Rounding to 4 KiB\<close>

lemma mask_12: "(0xFFF :: u32) = mask 12"
  by (simp add: mask_eq_exp_minus_1)

lemma and_not_FFF: "(x :: u32) AND NOT 0xFFF = x div 4096 * 4096"
proof -
  have "x AND NOT 0xFFF = push_bit 12 (drop_bit 12 x)"
    unfolding mask_12 by (rule bit_word_eqI) (auto simp: bit_simps)
  also have "\<dots> = x div 4096 * 4096"
    by (simp add: push_bit_eq_mult drop_bit_eq_div)
  finally show ?thesis .
qed

lemma unat_and_not_FFF: "unat ((x :: u32) AND NOT 0xFFF) = unat x div 4096 * 4096"
proof -
  have "unat x div 4096 * 4096 < 4294967296"
    using unat_u32_lt [of x] div_times_less_eq_dividend [of "unat x" 4096] by linarith
  then show ?thesis
    unfolding and_not_FFF by (simp add: unat_word_ariths unat_div)
qed

end
