(* ===== verification/CMemory.thy ===== *)
theory CMemory
  imports Prelude
begin

text \<open>
  The flat 32-bit memory the C code works on, and \<open>src/kernel/lib/string.c\<close>.

  A memory is a total function from byte addresses to bytes: the code runs without memory
  protection, so every address can be read and written, and address arithmetic wraps modulo
  \<open>2^32\<close>. \<open>load16\<close>, \<open>load32\<close>, \<open>store32\<close> are the little-endian accesses
  of the i686. \<open>memcpy\<close>, \<open>memset\<close> and \<open>memcmp\<close> are the loops of the C file; the
  lemmas give their closed forms, the form every other theory uses.
\<close>

type_synonym ram = "u32 \<Rightarrow> u8"

section \<open>Little-endian accesses\<close>

definition load16 :: "ram \<Rightarrow> u32 \<Rightarrow> u16" where
  "load16 m a = ucast (m a) OR push_bit 8 (ucast (m (a + 1)))"

definition load32 :: "ram \<Rightarrow> u32 \<Rightarrow> u32" where
  "load32 m a = ucast (m a) OR push_bit 8 (ucast (m (a + 1)))
     OR push_bit 16 (ucast (m (a + 2))) OR push_bit 24 (ucast (m (a + 3)))"

definition store32 :: "ram \<Rightarrow> u32 \<Rightarrow> u32 \<Rightarrow> ram" where
  "store32 m a v = m(a := ucast v, a + 1 := ucast (drop_bit 8 v),
     a + 2 := ucast (drop_bit 16 v), a + 3 := ucast (drop_bit 24 v))"

text \<open>The address \<open>a\<close> lies in the \<open>n\<close> bytes that start at \<open>p\<close>.\<close>

definition in_range :: "u32 \<Rightarrow> nat \<Rightarrow> u32 \<Rightarrow> bool" where
  "in_range p n a \<longleftrightarrow> unat (a - p) < n"

text \<open>The regions of \<open>n\<close> bytes at \<open>p\<close> and of \<open>k\<close> bytes at \<open>q\<close> do not meet.\<close>

definition apart :: "u32 \<Rightarrow> nat \<Rightarrow> u32 \<Rightarrow> nat \<Rightarrow> bool" where
  "apart p n q k \<longleftrightarrow> (\<forall>a. in_range p n a \<longrightarrow> \<not> in_range q k a)"

lemma in_range_0 [simp]: "\<not> in_range p 0 a"
  by (simp add: in_range_def)

lemma in_range_self [simp]: "0 < n \<Longrightarrow> in_range p n p"
  by (simp add: in_range_def)

lemma in_range_offset: "k < 4294967296 \<Longrightarrow> in_range p n (p + of_nat k) \<longleftrightarrow> k < n"
  by (simp add: in_range_def unat_of_nat32)

lemma in_range_off_num [simp]: "in_range p n (p + numeral k) \<longleftrightarrow> unat (numeral k :: u32) < n"
  by (simp add: in_range_def)

lemma in_range_off_1 [simp]: "in_range p n (p + 1) \<longleftrightarrow> 1 < n"
  by (simp add: in_range_def)

lemma in_range_Suc:
  assumes "n < 4294967296"
  shows "in_range p (Suc n) a \<longleftrightarrow> in_range p n a \<or> a = p + of_nat n"
proof -
  have "unat (a - p) = n \<longleftrightarrow> a = p + of_nat n"
    using unat_sub_of_nat assms by (auto simp: unat_of_nat32)
  then show ?thesis by (auto simp: in_range_def less_Suc_eq)
qed

lemma apart_sym: "apart p n q k \<longleftrightarrow> apart q k p n"
  by (auto simp: apart_def)

lemma apartD: "apart p n q k \<Longrightarrow> in_range p n a \<Longrightarrow> \<not> in_range q k a"
  by (simp add: apart_def)

lemma load32_cong:
  assumes "\<And>x. in_range a 4 x \<Longrightarrow> m x = m' x"
  shows "load32 m a = load32 m' a"
  using assms by (simp add: load32_def)

lemma load32_store32_same [simp]: "load32 (store32 m a v) a = v"
proof (rule bit_word_eqI)
  fix n assume "n < LENGTH(32)"
  then show "bit (load32 (store32 m a v) a) n = bit v n"
    by (cases "n < 8"; cases "n < 16"; cases "n < 24")
      (simp_all add: load32_def store32_def bit_simps, auto)
qed

lemma store32_outside: "\<not> in_range a 4 x \<Longrightarrow> store32 m a v x = m x"
  unfolding store32_def by (auto simp: in_range_def)

lemma load32_store32_apart: "apart b 4 a 4 \<Longrightarrow> load32 (store32 m a v) b = load32 m b"
  by (rule load32_cong) (auto simp: store32_outside dest: apartD)

section \<open>src/kernel/lib/string.c\<close>

text \<open>The C \<open>memcpy\<close> takes its count as a \<open>uint16_t\<close>; it copies upwards, byte by byte.\<close>

definition memcpy :: "ram \<Rightarrow> u32 \<Rightarrow> u32 \<Rightarrow> u16 \<Rightarrow> ram" where
  "memcpy m dst src num =
     fold (\<lambda>i m. m(dst + of_nat i := m (src + of_nat i))) [0..<unat num] m"

definition memset :: "ram \<Rightarrow> u32 \<Rightarrow> u32 \<Rightarrow> u32 \<Rightarrow> ram" where
  "memset m ptr value num =
     fold (\<lambda>i m. m(ptr + of_nat i := ucast value)) [0..<unat num] m"

definition memcmp :: "ram \<Rightarrow> u32 \<Rightarrow> u32 \<Rightarrow> u16 \<Rightarrow> u32" where
  "memcmp m ptr1 ptr2 num =
     (case scan (\<lambda>i. if m (ptr1 + of_nat i) \<noteq> m (ptr2 + of_nat i) then Some 1 else None)
        0 (unat num)
      of Some r \<Rightarrow> r | None \<Rightarrow> 0)"

lemma memset_loop:
  "n \<le> 4294967296 \<Longrightarrow>
   fold (\<lambda>i m. m(p + of_nat i := v)) [0..<n] m = (\<lambda>a. if in_range p n a then v else m a)"
proof (induction n)
  case (Suc n)
  then show ?case by (auto simp: in_range_Suc)
qed simp

lemma memset_apply: "memset m p v n a = (if in_range p (unat n) a then ucast v else m a)"
  using unat_u32_lt [of n] by (simp add: memset_def memset_loop)

lemma memcpy_loop:
  "n \<le> 4294967296 \<Longrightarrow> apart dst n src n \<Longrightarrow>
   fold (\<lambda>i m. m(dst + of_nat i := m (src + of_nat i))) [0..<n] m =
     (\<lambda>a. if in_range dst n a then m (src + (a - dst)) else m a)"
proof (induction n)
  case (Suc n)
  have n: "n < 4294967296" using Suc.prems by simp
  have apart: "apart dst n src n"
    using Suc.prems(2) by (auto simp: apart_def in_range_Suc n)
  have "\<not> in_range dst (Suc n) (src + of_nat n)"
    using Suc.prems(2) by (auto simp: apart_def in_range_Suc n in_range_offset)
  then show ?case
    using Suc.IH [OF _ apart] n by (auto simp: in_range_Suc)
qed simp

lemma memcpy_apply:
  assumes "apart dst (unat num) src (unat num)"
  shows "memcpy m dst src num a =
    (if in_range dst (unat num) a then m (src + (a - dst)) else m a)"
proof -
  have "unat num \<le> 4294967296" using unat_u16_lt [of num] by simp
  then show ?thesis using assms by (simp add: memcpy_def memcpy_loop)
qed

lemma memcpy_outside:
  "\<not> in_range dst (unat num) a \<Longrightarrow> memcpy m dst src num a = m a"
proof -
  assume out: "\<not> in_range dst (unat num) a"
  have lt: "unat num < 4294967296" using unat_u16_lt [of num] by simp
  show ?thesis unfolding memcpy_def
  proof (rule fold_invariant_upt [where P = "\<lambda>m'. m' a = m a"])
    fix i m' assume "i < unat num" "m' a = m a"
    then show "(m'(dst + of_nat i := m' (src + of_nat i))) a = m a"
      using out lt by (auto simp: in_range_offset)
  qed simp
qed

lemma memcmp_eq_0_iff:
  "memcmp m p q num = 0 \<longleftrightarrow> (\<forall>i\<in>{0..<unat num}. m (p + of_nat i) = m (q + of_nat i))"
proof -
  let ?f = "\<lambda>i. if m (p + of_nat i) \<noteq> m (q + of_nat i) then Some (1 :: u32) else None"
  have "memcmp m p q num = 0 \<longleftrightarrow> scan ?f 0 (unat num) = None"
  proof (cases "scan ?f 0 (unat num)")
    case (Some r)
    then have "r = 1" by (auto simp: scan_Some_iff split: if_splits)
    with Some show ?thesis by (simp add: memcmp_def)
  qed (simp add: memcmp_def)
  then show ?thesis by (auto simp: scan_None_iff split: if_splits)
qed

lemma load32_memset_apart:
  "apart a 4 p (unat n) \<Longrightarrow> load32 (memset m p v n) a = load32 m a"
  by (rule load32_cong) (auto simp: memset_apply dest: apartD)

lemma load32_memset_zero:
  "(\<And>x. in_range a 4 x \<Longrightarrow> in_range p (unat n) x) \<Longrightarrow> load32 (memset m p 0 n) a = 0"
  by (subst load32_cong [of a _ "\<lambda>_. 0"]) (auto simp: memset_apply load32_def)

section \<open>Separation of words and pages\<close>

text \<open>Two 4-byte cells of the same array, and a cell against a page, by their offsets.\<close>

lemma unat_minus_small:
  "unat (x - y :: u32) = (if unat y \<le> unat x then unat x - unat y
     else unat x + 4294967296 - unat y)"
  by (simp add: unat_sub_if')

lemma apart_cells:
  assumes "i \<noteq> j" "i < 1073741824" "j < 1073741824"
  shows "apart (p + 4 * of_nat i) 4 (p + 4 * of_nat j) 4"
proof -
  have "False" if "unat (a - (p + 4 * of_nat i)) < 4" "unat (a - (p + 4 * of_nat j)) < 4" for a
  proof -
    define b where "b = a - p"
    have i: "unat (4 * of_nat i :: u32) = 4 * i" "unat (4 * of_nat j :: u32) = 4 * j"
      using assms by (simp_all add: unat_word_ariths unat_of_nat32)
    have "unat (b - 4 * of_nat i) < 4" "unat (b - 4 * of_nat j) < 4"
      using that by (simp_all add: b_def diff_diff_eq)
    then show False
      using assms unat_u32_lt [of b] unfolding unat_minus_small i
      by (auto split: if_splits)
  qed
  then show ?thesis by (auto simp: apart_def in_range_def)
qed

lemma in_range_unat:
  "unat p + n \<le> 4294967296 \<Longrightarrow> in_range p n a \<longleftrightarrow> unat p \<le> unat a \<and> unat a < unat p + n"
  using unat_u32_lt [of a] unat_u32_lt [of p]
  by (auto simp: in_range_def unat_minus_small split: if_splits)

lemma apart_unat:
  "unat p + n \<le> 4294967296 \<Longrightarrow> unat q + k \<le> 4294967296 \<Longrightarrow>
   unat p + n \<le> unat q \<or> unat q + k \<le> unat p \<Longrightarrow> apart p n q k"
  by (auto simp: apart_def in_range_unat)

lemma apart_mono: "apart p n q k \<Longrightarrow> n' \<le> n \<Longrightarrow> k' \<le> k \<Longrightarrow> apart p n' q k'"
  unfolding apart_def in_range_def by (meson order_less_le_trans)

end
