(* ===== verification/Pmm.thy ===== *)
theory Pmm
  imports CMemory
begin

text \<open>
  The physical memory manager, \<open>src/kernel/mm/pmm/pmm.c\<close>: a bitmap with one bit per
  4 KiB frame.

  The state \<open>pmm\<close> has one field per static variable of the file and the flat memory. The
  bitmap is not a separate object: \<open>BIT_MAP\<close> is a pointer, \<open>BIT_MAP[i]\<close> is the 32-bit
  cell at \<open>BIT_MAP + 4 i\<close> of the memory, with no bounds check, exactly as in C. So the
  model shows what happens when the code indexes past the end of the bitmap, and the lemma that
  clearing a fresh frame never hits the bitmap has to be proved (\<open>pmm_inv\<close>). Frames are
  accessed through the identity mapping, as the comment in \<open>allocate_chunk\<close> states.

  The lemmas read the bitmap as a set of used frames (\<open>used\<close>), show that the search loops
  compute the first fit (\<open>first_run\<close>), and describe each operation on that set.
\<close>

section \<open>State\<close>

definition PER_BLOCK_SIZE :: u32 where "PER_BLOCK_SIZE = 4096"
definition INVALID_FRAME :: u32 where "INVALID_FRAME = 0xffffffff"

record MemoryRegion =
  Begin_Low :: u32
  Begin_High :: u32
  Length_Low :: u32
  Length_High :: u32
  Type :: u32
  ACPI :: u32

record MemoryInfo =
  RegionCount :: u32
  Regions :: "nat \<Rightarrow> MemoryRegion"

record BootModule =
  image_data :: u32
  image_size :: u32
  image_name :: "u8 list"

record BootParams =
  Memory :: MemoryInfo
  BootDevice :: u8
  ModuleCount :: u32
  Modules :: "nat \<Rightarrow> BootModule"

record pmm =
  mem :: ram
  TOTAL_MEMORY :: u32
  TOTAL_PAGES :: u32
  TOTAL_BLOCK :: u32
  TOTAL_USED_BLOCKS :: u32
  BIT_MAP :: u32
  BITMAP_SIZEB :: u32
  BIT_MAP_END :: u32
  KERNEL_START_ADDR :: u32
  KERNEL_END_ADDR :: u32

section \<open>Operations\<close>

definition region_length :: "MemoryRegion \<Rightarrow> u64" where
  "region_length r = push_bit 32 (ucast (Length_High r)) OR ucast (Length_Low r)"

definition usable_ram :: "MemoryInfo \<Rightarrow> u32" where
  "usable_ram memory =
     fold (\<lambda>i total. if Type (Regions memory i) = 1
                      then ucast (ucast total + region_length (Regions memory i))
                      else total)
       [0..<nat (sint (RegionCount memory))] 0"

definition get_memory_info :: "MemoryInfo \<Rightarrow> 'a pmm_scheme \<Rightarrow> 'a pmm_scheme" where
  "get_memory_info memory s =
     (let total = usable_ram memory; pages = total div PER_BLOCK_SIZE
      in s\<lparr>TOTAL_MEMORY := total,
           TOTAL_PAGES := pages,
           BITMAP_SIZEB := (pages + 7) div 8,
           TOTAL_BLOCK := (pages + 31) div 32\<rparr>)"

text \<open>The two linker symbols are parameters.\<close>

definition set_kernel_addr :: "u32 \<Rightarrow> u32 \<Rightarrow> 'a pmm_scheme \<Rightarrow> 'a pmm_scheme" where
  "set_kernel_addr kernel_start kernel_end s =
     s\<lparr>KERNEL_START_ADDR := kernel_start, KERNEL_END_ADDR := kernel_end\<rparr>"

text \<open>\<open>1 << k\<close>; the i686 masks the shift count to five bits.\<close>

definition shl1 :: "u32 \<Rightarrow> u32" where
  "shl1 k = push_bit (unat (k AND 31)) 1"

definition set_bit :: "u32 \<Rightarrow> 'a pmm_scheme \<Rightarrow> 'a pmm_scheme" where
  "set_bit b s =
     (let a = BIT_MAP s + 4 * sdiv32 b 32
      in s\<lparr>mem := store32 (mem s) a (load32 (mem s) a OR shl1 (smod32 b 32))\<rparr>)"

definition unset_bit :: "u32 \<Rightarrow> 'a pmm_scheme \<Rightarrow> 'a pmm_scheme" where
  "unset_bit b s =
     (let a = BIT_MAP s + 4 * sdiv32 b 32
      in s\<lparr>mem := store32 (mem s) a (load32 (mem s) a AND NOT (shl1 (smod32 b 32)))\<rparr>)"

definition test_bit :: "u32 \<Rightarrow> 'a pmm_scheme \<Rightarrow> u32" where
  "test_bit b s = load32 (mem s) (BIT_MAP s + 4 * (b div 32)) AND shl1 (b mod 32)"

definition setup_memory_bitmap :: "'a pmm_scheme \<Rightarrow> 'a pmm_scheme" where
  "setup_memory_bitmap s =
     (let bit_map_start = (KERNEL_END_ADDR s + 0xFFF) AND NOT 0xFFF
      in s\<lparr>BIT_MAP := bit_map_start,
           BIT_MAP_END := bit_map_start + BITMAP_SIZEB s,
           mem := memset (mem s) bit_map_start 0 (BITMAP_SIZEB s)\<rparr>)"

definition get_free_memory_block :: "'a pmm_scheme \<Rightarrow> u32" where
  "get_free_memory_block s =
     (case scan (\<lambda>i.
             if load32 (mem s) (BIT_MAP s + 4 * of_nat i) \<noteq> 0xffffffff
             then scan (\<lambda>j. let b = of_nat i * 32 + of_nat j
                            in if test_bit b s = 0 then Some b else None) 0 32
             else None) 0 (unat (TOTAL_BLOCK s))
      of Some b \<Rightarrow> b | None \<Rightarrow> INVALID_FRAME)"

definition used_inc :: "'a pmm_scheme \<Rightarrow> 'a pmm_scheme" where
  "used_inc s = s\<lparr>TOTAL_USED_BLOCKS := TOTAL_USED_BLOCKS s + 1\<rparr>"

definition used_dec :: "'a pmm_scheme \<Rightarrow> 'a pmm_scheme" where
  "used_dec s = s\<lparr>TOTAL_USED_BLOCKS := TOTAL_USED_BLOCKS s - 1\<rparr>"

text \<open>The number of frames that \<open>n\<close> bytes occupy: \<open>(n + PER_BLOCK_SIZE - 1) / PER_BLOCK_SIZE\<close>.\<close>

definition pages_of :: "u32 \<Rightarrow> u32" where
  "pages_of n = (n + PER_BLOCK_SIZE - 1) div PER_BLOCK_SIZE"

definition reserve_memory_block :: "u32 \<Rightarrow> u32 \<Rightarrow> 'a pmm_scheme \<Rightarrow> 'a pmm_scheme" where
  "reserve_memory_block base n s =
     (let start_page = base div PER_BLOCK_SIZE; pages = pages_of n
      in if TOTAL_USED_BLOCKS s \<ge> TOTAL_BLOCK s then s
         else fold (\<lambda>i s. if test_bit (start_page + of_nat i) s = 0
                          then used_inc (set_bit (start_page + of_nat i) s)
                          else s) [0..<unat pages] s)"

definition unreserve_memory_block :: "u32 \<Rightarrow> u32 \<Rightarrow> 'a pmm_scheme \<Rightarrow> 'a pmm_scheme" where
  "unreserve_memory_block base n s =
     (let start_page = base div PER_BLOCK_SIZE; pages = pages_of n
      in fold (\<lambda>i s. used_dec (unset_bit (start_page + of_nat i) s)) [0..<unat pages] s)"

definition reserve_memory :: "'a pmm_scheme \<Rightarrow> 'a pmm_scheme" where
  "reserve_memory s0 =
     (let s1 = reserve_memory_block 0x0 0x500 s0;
          s2 = reserve_memory_block 0x7c00 512 s1;
          s3 = reserve_memory_block (KERNEL_START_ADDR s2)
                 (KERNEL_END_ADDR s2 - KERNEL_START_ADDR s2) s2
      in reserve_memory_block (BIT_MAP s3) (BITMAP_SIZEB s3) s3)"

definition allocate_chunk :: "'a pmm_scheme \<Rightarrow> u32 \<times> 'a pmm_scheme" where
  "allocate_chunk s =
     (if TOTAL_USED_BLOCKS s \<ge> TOTAL_BLOCK s then (0, s)
      else let frame = get_free_memory_block s
           in if frame = INVALID_FRAME then (0, s)
              else (frame * PER_BLOCK_SIZE, used_inc (set_bit frame s)))"

text \<open>
  The inner loop of \<open>get_free_frame_by_size\<close>: \<open>count\<close> is the loop counter, the
  third argument the number of iterations left, \<open>free\<close> the frames counted so far. The
  \<open>break\<close> and the \<open>return\<close> of the loop are the two results.
\<close>

fun count_run :: "'a pmm_scheme \<Rightarrow> u32 \<Rightarrow> u32 \<Rightarrow> nat \<Rightarrow> nat \<Rightarrow> u32 \<Rightarrow> bool" where
  "count_run s b size' count 0 free = False"
| "count_run s b size' count (Suc n) free =
     (if test_bit (b + of_nat count) s = 0
      then if free + 1 = size' then True
           else count_run s b size' (Suc count) n (free + 1)
      else False)"

definition get_free_frame_by_size :: "u32 \<Rightarrow> 'a pmm_scheme \<Rightarrow> u32" where
  "get_free_frame_by_size n s =
     (if n = 0 then INVALID_FRAME
      else if TOTAL_USED_BLOCKS s \<ge> TOTAL_BLOCK s then INVALID_FRAME
      else if n = 1 then get_free_memory_block s
      else case scan (\<lambda>i.
             if load32 (mem s) (BIT_MAP s + 4 * of_nat i) \<noteq> 0xffffffff
             then scan (\<lambda>j. let b = of_nat i * 32 + of_nat j
                            in if test_bit b s = 0 \<and> count_run s b n 0 (unat n + 1) 0
                               then Some b else None) 0 32
             else None) 0 (unat (TOTAL_BLOCK s))
        of Some b \<Rightarrow> b | None \<Rightarrow> INVALID_FRAME)"

definition mark_run :: "u32 \<Rightarrow> nat \<Rightarrow> 'a pmm_scheme \<Rightarrow> 'a pmm_scheme" where
  "mark_run frame n s = fold (\<lambda>i s. used_inc (set_bit (frame + of_nat i) s)) [0..<n] s"

definition allocate_byte :: "u32 \<Rightarrow> 'a pmm_scheme \<Rightarrow> u32 \<times> 'a pmm_scheme" where
  "allocate_byte n s =
     (let frames = pages_of n; frame = get_free_frame_by_size frames s
      in if frame = INVALID_FRAME then (0, s)
         else let s1 = mark_run frame (unat frames) s; addr = frame * PER_BLOCK_SIZE
              in (addr, s1\<lparr>mem := memset (mem s1) addr 0 n\<rparr>))"

definition allocate_block :: "u32 \<Rightarrow> 'a pmm_scheme \<Rightarrow> u32 \<times> 'a pmm_scheme" where
  "allocate_block n s =
     (let frame = get_free_frame_by_size n s
      in if frame = INVALID_FRAME then (0, s)
         else let s1 = mark_run frame (unat n) s; addr = frame * PER_BLOCK_SIZE
              in (addr, s1\<lparr>mem := memset (mem s1) addr 0 (n * PER_BLOCK_SIZE)\<rparr>))"

definition deallocate_memory :: "u32 \<Rightarrow> 'a pmm_scheme \<Rightarrow> 'a pmm_scheme" where
  "deallocate_memory base s = used_dec (unset_bit (base div PER_BLOCK_SIZE) s)"

definition deallocate_memory_by_size :: "u32 \<Rightarrow> u32 \<Rightarrow> 'a pmm_scheme \<Rightarrow> 'a pmm_scheme" where
  "deallocate_memory_by_size base n s =
     (let pages = pages_of n; start = base div PER_BLOCK_SIZE
      in fold (\<lambda>i s. used_dec (unset_bit (start + of_nat i) s)) [0..<unat pages] s)"

definition INIT_MEMORY :: "u32 \<Rightarrow> u32 \<Rightarrow> BootParams \<Rightarrow> 'a pmm_scheme \<Rightarrow> 'a pmm_scheme" where
  "INIT_MEMORY kernel_start kernel_end bootParams s0 =
     (let s1 = reserve_memory (setup_memory_bitmap
                 (get_memory_info (Memory bootParams) (set_kernel_addr kernel_start kernel_end s0)))
      in fold (\<lambda>i. reserve_memory_block (image_data (Modules bootParams i))
                      (image_size (Modules bootParams i)))
           [0..<unat (ModuleCount bootParams)] s1)"

section \<open>The bitmap as a set of used frames\<close>

definition used :: "'a pmm_scheme \<Rightarrow> u32 \<Rightarrow> bool" where
  "used s b \<longleftrightarrow> test_bit b s \<noteq> 0"

text \<open>The number of bits the search loops look at.\<close>

definition nbits :: "'a pmm_scheme \<Rightarrow> nat" where
  "nbits s = 32 * unat (TOTAL_BLOCK s)"

definition cell :: "'a pmm_scheme \<Rightarrow> u32 \<Rightarrow> u32" where
  "cell s b = BIT_MAP s + 4 * (b div 32)"

lemma and_31: "(x :: u32) AND 31 = x mod 32"
  using take_bit_eq_mask [of 5 x] take_bit_eq_mod [of 5 x] by (simp add: mask_eq_exp_minus_1)

lemma unat_mod_32 [simp]: "unat (b mod 32 :: u32) = unat b mod 32"
  by (simp add: unat_mod)

lemma shl1_mod: "shl1 (b mod 32) = push_bit (unat b mod 32) 1"
  by (simp add: shl1_def and_31)

lemma unat_div_32 [simp]: "unat (b div 32 :: u32) = unat b div 32"
  by (simp add: unat_div)

lemma used_iff_bit: "used s b \<longleftrightarrow> bit (load32 (mem s) (cell s b)) (unat b mod 32)"
  by (simp add: used_def test_bit_def cell_def shl1_mod bit_iff_and_push_bit_not_eq_0
      del: push_bit_of_1)

lemma test_bit_0_iff [simp]: "test_bit b s = 0 \<longleftrightarrow> \<not> used s b"
  by (simp add: used_def)

lemma word_eq_div_mod: "(b :: u32) = c \<longleftrightarrow> b div 32 = c div 32 \<and> unat b mod 32 = unat c mod 32"
  by (metis div_mult_mod_eq unat_div_32 word_unat_eq_iff)

lemma div_32_of_nat: "(b div 32 :: u32) = of_nat (unat b div 32)"
  by (simp add: word_arith_nat_div)

lemma apart_cell:
  assumes "b div 32 \<noteq> c div 32"
  shows "apart (cell s b) 4 (cell s c) 4"
proof -
  have "unat b div 32 \<noteq> unat c div 32"
    using assms by (metis div_32_of_nat)
  then show ?thesis
    unfolding cell_def div_32_of_nat
    using unat_u32_lt [of b] unat_u32_lt [of c] by (intro apart_cells) auto
qed

section \<open>Single-bit updates\<close>

lemma sdiv32_frame: "b < 0x80000000 \<Longrightarrow> sdiv32 b 32 = b div 32"
  by (simp add: sdiv32_pos)

lemma smod32_frame: "b < 0x80000000 \<Longrightarrow> smod32 b 32 = b mod 32"
  by (simp add: smod32_pos)

lemma set_bit_eq:
  "b < 0x80000000 \<Longrightarrow> set_bit b s = s\<lparr>mem := store32 (mem s) (cell s b)
     (load32 (mem s) (cell s b) OR push_bit (unat b mod 32) 1)\<rparr>"
  by (simp add: set_bit_def Let_def cell_def sdiv32_frame smod32_frame shl1_mod)

lemma unset_bit_eq:
  "b < 0x80000000 \<Longrightarrow> unset_bit b s = s\<lparr>mem := store32 (mem s) (cell s b)
     (load32 (mem s) (cell s b) AND NOT (push_bit (unat b mod 32) 1))\<rparr>"
  by (simp add: unset_bit_def Let_def cell_def sdiv32_frame smod32_frame shl1_mod)

lemma cell_mem [simp]: "cell (s\<lparr>mem := m\<rparr>) b = cell s b"
  by (simp add: cell_def)

lemma used_store_cell:
  "used (s\<lparr>mem := store32 (mem s) (cell s b) v\<rparr>) c \<longleftrightarrow>
     (if c div 32 = b div 32 then bit v (unat c mod 32) else used s c)"
proof (cases "c div 32 = b div 32")
  case True
  then have "cell s c = cell s b" by (simp add: cell_def)
  with True show ?thesis by (simp add: used_iff_bit)
next
  case False
  then show ?thesis
    by (simp add: used_iff_bit load32_store32_apart apart_cell)
qed

lemma used_set_bit: "b < 0x80000000 \<Longrightarrow> used (set_bit b s) c \<longleftrightarrow> c = b \<or> used s c"
  unfolding set_bit_eq used_store_cell
  by (cases "c div 32 = b div 32")
    (auto simp: word_eq_div_mod [of c b] used_iff_bit cell_def bit_simps)

lemma used_unset_bit: "b < 0x80000000 \<Longrightarrow> used (unset_bit b s) c \<longleftrightarrow> c \<noteq> b \<and> used s c"
  unfolding unset_bit_eq used_store_cell
  by (cases "c div 32 = b div 32")
    (auto simp: word_eq_div_mod [of c b] used_iff_bit cell_def bit_simps)

lemma used_inc_simps [simp, frame_facts]:
  "mem (used_inc s) = mem s" "BIT_MAP (used_inc s) = BIT_MAP s"
  "TOTAL_BLOCK (used_inc s) = TOTAL_BLOCK s" "used (used_inc s) = used s"
  "TOTAL_USED_BLOCKS (used_inc s) = TOTAL_USED_BLOCKS s + 1"
  by (simp_all add: used_inc_def used_def test_bit_def fun_eq_iff)

lemma used_dec_simps [simp, frame_facts]:
  "mem (used_dec s) = mem s" "BIT_MAP (used_dec s) = BIT_MAP s"
  "TOTAL_BLOCK (used_dec s) = TOTAL_BLOCK s" "used (used_dec s) = used s"
  "TOTAL_USED_BLOCKS (used_dec s) = TOTAL_USED_BLOCKS s - 1"
  by (simp_all add: used_dec_def used_def test_bit_def fun_eq_iff)

lemma set_bit_frame [simp, frame_facts]:
  "BIT_MAP (set_bit b s) = BIT_MAP s" "TOTAL_BLOCK (set_bit b s) = TOTAL_BLOCK s"
  "TOTAL_USED_BLOCKS (set_bit b s) = TOTAL_USED_BLOCKS s"
  by (simp_all add: set_bit_def Let_def)

lemma unset_bit_frame [simp, frame_facts]:
  "BIT_MAP (unset_bit b s) = BIT_MAP s" "TOTAL_BLOCK (unset_bit b s) = TOTAL_BLOCK s"
  "TOTAL_USED_BLOCKS (unset_bit b s) = TOTAL_USED_BLOCKS s"
  by (simp_all add: unset_bit_def Let_def)

section \<open>Runs of frames\<close>

lemma frame_add_lt:
  "unat (f :: u32) + n \<le> 0x80000000 \<Longrightarrow> i < n \<Longrightarrow> f + of_nat i < 0x80000000"
  by (simp add: word_less_nat_alt unat_word_ariths unat_of_nat32)

lemma unat_add_of_nat:
  "unat (f :: u32) + i < 4294967296 \<Longrightarrow> unat (f + of_nat i) = unat f + i"
  by (simp add: unat_word_ariths unat_of_nat32)

lemma mark_run_Suc: "mark_run f (Suc n) s = used_inc (set_bit (f + of_nat n) (mark_run f n s))"
  by (simp add: mark_run_def)

lemma mark_run_0 [simp]: "mark_run f 0 s = s"
  by (simp add: mark_run_def)

lemma mark_run_frame [simp, frame_facts]:
  "BIT_MAP (mark_run f n s) = BIT_MAP s" "TOTAL_BLOCK (mark_run f n s) = TOTAL_BLOCK s"
  "TOTAL_USED_BLOCKS (mark_run f n s) = TOTAL_USED_BLOCKS s + of_nat n"
  by (induction n) (simp_all add: mark_run_Suc)

lemma used_mark_run:
  assumes "unat f + n \<le> 0x80000000"
  shows "used (mark_run f n s) c \<longleftrightarrow> used s c \<or> unat f \<le> unat c \<and> unat c < unat f + n"
  using assms
proof (induction n)
  case (Suc n)
  have "c = f + of_nat n \<longleftrightarrow> unat c = unat f + n"
    using Suc.prems by (simp add: word_unat_eq_iff unat_add_of_nat)
  moreover have "f + of_nat n < 0x80000000"
    using Suc.prems by (intro frame_add_lt [of f "Suc n"]) auto
  ultimately show ?case
    using Suc by (auto simp: mark_run_Suc used_set_bit)
qed auto

text \<open>A bit update writes inside the bitmap cell only.\<close>

lemma set_bit_mem_outside:
  "b < 0x80000000 \<Longrightarrow> \<not> in_range (cell s b) 4 a \<Longrightarrow> mem (set_bit b s) a = mem s a"
  by (simp add: set_bit_eq store32_outside)

section \<open>The search loops compute the first fit\<close>

definition run_free :: "'a pmm_scheme \<Rightarrow> nat \<Rightarrow> nat \<Rightarrow> bool" where
  "run_free s n b \<longleftrightarrow> (\<forall>k\<in>{0..<n}. \<not> used s (of_nat b + of_nat k))"

definition first_run :: "nat \<Rightarrow> 'a pmm_scheme \<Rightarrow> nat option" where
  "first_run n s = find (run_free s n) [0..<nbits s]"

lemma scan_find:
  "scan (\<lambda>b. if P b then Some (h b) else None) lo n = map_option h (find P [lo..<lo + n])"
proof (induction n arbitrary: lo)
  case (Suc n)
  have "[lo..<lo + Suc n] = lo # [Suc lo..<Suc lo + n]" by (simp add: upt_rec)
  then show ?case by (simp add: Suc.IH)
qed simp

lemma scan_append:
  "scan f lo (m + n) = (case scan f lo m of Some r \<Rightarrow> Some r | None \<Rightarrow> scan f (lo + m) n)"
  by (induction m arbitrary: lo) (auto split: option.splits)

lemma scan_shift: "scan (\<lambda>j. f (a + j)) lo n = scan f (a + lo) n"
  by (induction n arbitrary: lo) (auto split: option.splits)

lemma scan_blocks:
  "scan (\<lambda>i. scan (\<lambda>j. f (i * 32 + j)) 0 32) lo n = scan f (lo * 32) (32 * n)"
proof (induction n arbitrary: lo)
  case (Suc n)
  have "scan f (lo * 32) (32 * Suc n) = scan f (lo * 32) (32 + 32 * n)" by simp
  also have "\<dots> = (case scan f (lo * 32) 32 of Some r \<Rightarrow> Some r
                     | None \<Rightarrow> scan f (Suc lo * 32) (32 * n))"
    by (simp only: scan_append mult_Suc add.commute)
  finally show ?case
    using Suc.IH [of "Suc lo"] scan_shift [of f "lo * 32" 0 32]
    by (simp only: scan.simps add_0_right split: option.split)
qed simp

lemma scan_cong_upto:
  "(\<And>i. lo \<le> i \<Longrightarrow> i < lo + n \<Longrightarrow> f i = g i) \<Longrightarrow> scan f lo n = scan g lo n"
proof (induction n arbitrary: lo)
  case (Suc n)
  from Suc.prems [of lo] have "f lo = g lo" by simp
  moreover have "scan f (Suc lo) n = scan g (Suc lo) n"
    by (rule Suc.IH) (simp add: Suc.prems)
  ultimately show ?case by (simp split: option.split)
qed simp

text \<open>Skipping the full words does not change the result: every bit of a full word is used.\<close>

lemma full_word_used:
  assumes "load32 (mem s) (BIT_MAP s + 4 * of_nat i) = 0xffffffff" "i < 0x8000000" "j < 32"
  shows "used s (of_nat (i * 32 + j))"
proof -
  have "unat (of_nat (i * 32 + j) :: u32) = i * 32 + j"
    using assms by (intro unat_of_nat32) simp
  moreover from this have "cell s (of_nat (i * 32 + j)) = BIT_MAP s + 4 * of_nat i"
    using assms by (simp add: cell_def div_32_of_nat)
  moreover have "bit (0xffffffff :: u32) j"
  proof -
    have "(0xffffffff :: u32) = mask 32" by (simp add: mask_eq_exp_minus_1)
    then show ?thesis using assms(3) by (simp only: bit_mask_iff) simp
  qed
  ultimately show ?thesis
    using assms(1,3) by (simp add: used_iff_bit)
qed

lemma skip_scan:
  assumes "n \<le> 0x8000000" and "\<And>b. used s b \<Longrightarrow> \<not> P b"
  shows "scan (\<lambda>i. if load32 (mem s) (BIT_MAP s + 4 * of_nat i) \<noteq> 0xffffffff
             then scan (\<lambda>j. if P (of_nat i * 32 + of_nat j)
                            then Some (of_nat i * 32 + of_nat j :: u32) else None) 0 32
             else None) 0 n =
         map_option of_nat (find (\<lambda>b. P (of_nat b)) [0..<32 * n])"
proof -
  let ?f = "\<lambda>b. if P (of_nat b) then Some (of_nat b :: u32) else None"
  have "scan (\<lambda>i. if load32 (mem s) (BIT_MAP s + 4 * of_nat i) \<noteq> 0xffffffff
             then scan (\<lambda>j. if P (of_nat i * 32 + of_nat j)
                            then Some (of_nat i * 32 + of_nat j) else None) 0 32
             else None) 0 n = scan (\<lambda>i. scan (\<lambda>j. ?f (i * 32 + j)) 0 32) 0 n"
  proof (rule scan_cong_upto)
    fix i assume "i < 0 + n"
    then have i: "i < 0x8000000" using assms(1) by simp
    show "(if load32 (mem s) (BIT_MAP s + 4 * of_nat i) \<noteq> 0xffffffff
             then scan (\<lambda>j. if P (of_nat i * 32 + of_nat j)
                            then Some (of_nat i * 32 + of_nat j) else None) 0 32
             else None) = scan (\<lambda>j. ?f (i * 32 + j)) 0 32"
    proof (cases "load32 (mem s) (BIT_MAP s + 4 * of_nat i) = 0xffffffff")
      case True
      have "\<not> P (of_nat (i * 32 + j))" if "j < 32" for j
        using full_word_used [OF True i that] assms(2) by blast
      then have "scan (\<lambda>j. ?f (i * 32 + j)) 0 32 = None"
        unfolding scan_None_iff by simp
      with True show ?thesis by simp
    qed (simp del: scan_numeral cong: if_cong)
  qed
  also have "\<dots> = map_option of_nat (find (\<lambda>b. P (of_nat b)) [0..<32 * n])"
    using scan_blocks [of ?f 0 n] scan_find [of "\<lambda>b. P (of_nat b)" of_nat 0 "32 * n"] by simp
  finally show ?thesis .
qed

lemma count_run_iff:
  assumes "k \<le> unat n" "unat n < N + k" "k < unat n"
  shows "count_run s b n k N (of_nat k) \<longleftrightarrow> (\<forall>i\<in>{k..<unat n}. \<not> used s (b + of_nat i))"
  using assms
proof (induction N arbitrary: k)
  case (Suc N)
  have split: "{k..<unat n} = insert k {Suc k..<unat n}" using Suc.prems by auto
  have eq: "(of_nat k + 1 = n) \<longleftrightarrow> Suc k = unat n"
  proof -
    have "unat (of_nat (Suc k) :: u32) = Suc k"
      using Suc.prems unat_u32_lt [of n] by (intro unat_of_nat32) simp
    then show ?thesis by (metis Suc_eq_plus1 of_nat_Suc add.commute word_unat_eq_iff)
  qed
  show ?case
  proof (cases "Suc k = unat n")
    case True
    then have "{Suc k..<unat n} = {}" by simp
    with True eq show ?thesis unfolding split by simp
  next
    case False
    then have IH: "count_run s b n (Suc k) N (of_nat (Suc k)) \<longleftrightarrow>
        (\<forall>i\<in>{Suc k..<unat n}. \<not> used s (b + of_nat i))"
      using Suc.prems by (intro Suc.IH) auto
    from False eq show ?thesis
      unfolding split using IH by (simp add: add.commute)
  qed
qed simp

lemma get_free_memory_block_find:
  assumes "nbits s \<le> 0x80000000"
  shows "get_free_memory_block s =
    (case first_run 1 s of Some b \<Rightarrow> of_nat b | None \<Rightarrow> INVALID_FRAME)"
proof -
  have small: "unat (TOTAL_BLOCK s) \<le> 0x8000000" using assms by (simp add: nbits_def)
  have "run_free s 1 = (\<lambda>b. \<not> used s (of_nat b))"
    by (simp add: run_free_def fun_eq_iff)
  then have "scan (\<lambda>i.
             if load32 (mem s) (BIT_MAP s + 4 * of_nat i) \<noteq> 0xffffffff
             then scan (\<lambda>j. let b = of_nat i * 32 + of_nat j
                            in if test_bit b s = 0 then Some b else None) 0 32
             else None) 0 (unat (TOTAL_BLOCK s)) = map_option of_nat (first_run 1 s)"
    using skip_scan [OF small, of s "\<lambda>b. \<not> used s b"]
    by (simp add: Let_def first_run_def nbits_def del: scan_numeral cong: if_cong)
  then show ?thesis
    by (cases "first_run 1 s") (simp_all add: get_free_memory_block_def del: scan_numeral)
qed

lemma get_free_frame_by_size_first_run:
  assumes "nbits s \<le> 0x80000000"
  shows "get_free_frame_by_size n s =
    (if n = 0 \<or> TOTAL_BLOCK s \<le> TOTAL_USED_BLOCKS s then INVALID_FRAME
     else case first_run (unat n) s of Some b \<Rightarrow> of_nat b | None \<Rightarrow> INVALID_FRAME)"
proof (cases "n = 0 \<or> TOTAL_BLOCK s \<le> TOTAL_USED_BLOCKS s \<or> n = 1")
  case True
  then show ?thesis
    using get_free_memory_block_find [OF assms] by (auto simp: get_free_frame_by_size_def)
next
  case False
  let ?P = "\<lambda>b. test_bit b s = 0 \<and> count_run s b n 0 (unat n + 1) 0"
  have small: "unat (TOTAL_BLOCK s) \<le> 0x8000000" using assms by (simp add: nbits_def)
  have "?P (of_nat b) \<longleftrightarrow> run_free s (unat n) b" for b
  proof -
    have "0 < unat n" using False by (simp add: unat_gt_0)
    then have "count_run s (of_nat b) n 0 (unat n + 1) 0 \<longleftrightarrow> run_free s (unat n) b"
      and "0 \<in> {0..<unat n}"
      using count_run_iff [of 0 n "unat n + 1" s "of_nat b"]
      by (simp_all add: run_free_def del: count_run.simps)
    moreover have "\<not> used s (of_nat b)" if "run_free s (unat n) b"
    proof -
      have "\<not> used s (of_nat b + of_nat 0)"
        using that \<open>0 \<in> _\<close> unfolding run_free_def by (rule bspec)
      then show ?thesis by simp
    qed
    ultimately show ?thesis by (auto simp del: count_run.simps)
  qed
  then have "scan (\<lambda>i.
             if load32 (mem s) (BIT_MAP s + 4 * of_nat i) \<noteq> 0xffffffff
             then scan (\<lambda>j. let b = of_nat i * 32 + of_nat j
                            in if test_bit b s = 0 \<and> count_run s b n 0 (unat n + 1) 0
                               then Some b else None) 0 32
             else None) 0 (unat (TOTAL_BLOCK s)) = map_option of_nat (first_run (unat n) s)"
    using skip_scan [OF small, of s ?P]
    by (simp add: Let_def first_run_def nbits_def del: scan_numeral count_run.simps cong: if_cong)
  with False show ?thesis
    by (cases "first_run (unat n) s")
      (simp_all add: get_free_frame_by_size_def del: scan_numeral count_run.simps)
qed

section \<open>The allocator's invariant\<close>

text \<open>The frame that holds an address.\<close>

definition page :: "u32 \<Rightarrow> nat" where
  "page a = unat a div 4096"

definition in_bitmap :: "'a pmm_scheme \<Rightarrow> u32 \<Rightarrow> bool" where
  "in_bitmap s a \<longleftrightarrow> in_range (BIT_MAP s) (4 * unat (TOTAL_BLOCK s)) a"

text \<open>
  The bitmap describes at most \<open>2^20\<close> frames, frame 0 is used (so the address 0 always means
  failure), and every frame that holds a byte of the bitmap is used.
\<close>

definition pmm_inv :: "'a pmm_scheme \<Rightarrow> bool" where
  "pmm_inv s \<longleftrightarrow> nbits s \<le> 0x100000 \<and> used s 0 \<and>
     (\<forall>a. in_bitmap s a \<and> page a < nbits s \<longrightarrow> used s (of_nat (page a)))"

lemma page_lt: "page a < 0x100000"
  using unat_u32_lt [of a] by (simp add: page_def)

lemma unat_frame_addr: "f < 0x100000 \<Longrightarrow> unat (of_nat f * 4096 :: u32) = f * 4096"
  by (simp add: unat_word_ariths unat_of_nat32)

lemma page_frame_addr: "f < 0x100000 \<Longrightarrow> page (of_nat f * 4096) = f"
  by (simp add: page_def unat_frame_addr)

lemma in_frames_iff:
  "f + n \<le> 0x100000 \<Longrightarrow> 0 < n \<Longrightarrow>
   in_range (of_nat f * 4096) (n * 4096) a \<longleftrightarrow> page a \<in> {f..<f + n}"
proof -
  assume fn: "f + n \<le> 0x100000" "0 < n"
  then have "unat (of_nat f * 4096 :: u32) = f * 4096" by (intro unat_frame_addr) simp
  then have "in_range (of_nat f * 4096) (n * 4096) a \<longleftrightarrow>
      f * 4096 \<le> unat a \<and> unat a < f * 4096 + n * 4096"
    using fn by (subst in_range_unat) auto
  also have "\<dots> \<longleftrightarrow> page a \<in> {f..<f + n}"
    by (simp add: page_def less_eq_div_iff_mult_less_eq div_less_iff_less_mult algebra_simps)
  finally show ?thesis .
qed

lemma cell_in_bitmap:
  assumes "b < nbits s" "nbits s \<le> 0x100000" "in_range (cell s (of_nat b)) 4 a"
  shows "in_bitmap s a"
proof -
  define k where "k = unat (a - cell s (of_nat b))"
  have k: "k < 4" and a: "a = cell s (of_nat b) + of_nat k"
    using assms(3) unat_sub_of_nat by (auto simp: in_range_def k_def)
  have "unat (of_nat b :: u32) = b"
    using assms by (intro unat_of_nat32) simp
  then have "a - BIT_MAP s = of_nat (4 * (b div 32) + k)"
    by (simp add: a cell_def div_32_of_nat)
  moreover have "unat (of_nat (4 * (b div 32) + k) :: u32) = 4 * (b div 32) + k"
    using assms k by (intro unat_of_nat32) simp
  moreover have "4 * (b div 32) + k < 4 * unat (TOTAL_BLOCK s)"
  proof -
    have "b div 32 < unat (TOTAL_BLOCK s)"
      using assms(1) by (intro less_mult_imp_div_less) (simp add: nbits_def mult.commute)
    with k show ?thesis by linarith
  qed
  ultimately show ?thesis by (simp add: in_bitmap_def in_range_def)
qed

lemma used_cong_bitmap:
  assumes "BIT_MAP s' = BIT_MAP s" "b < nbits s" "nbits s \<le> 0x100000"
    and "\<And>a. in_bitmap s a \<Longrightarrow> mem s' a = mem s a"
  shows "used s' (of_nat b) = used s (of_nat b)"
proof -
  have "cell s' (of_nat b) = cell s (of_nat b)" using assms(1) by (simp add: cell_def)
  moreover have "load32 (mem s') (cell s (of_nat b)) = load32 (mem s) (cell s (of_nat b))"
    by (rule load32_cong) (use assms cell_in_bitmap in blast)
  ultimately show ?thesis by (simp add: used_iff_bit)
qed

lemma in_bitmap_cong:
  "BIT_MAP s' = BIT_MAP s \<Longrightarrow> TOTAL_BLOCK s' = TOTAL_BLOCK s \<Longrightarrow> in_bitmap s' = in_bitmap s"
  by (simp add: in_bitmap_def fun_eq_iff)

lemma nbits_cong: "TOTAL_BLOCK s' = TOTAL_BLOCK s \<Longrightarrow> nbits s' = nbits s"
  by (simp add: nbits_def)

lemma mark_run_mem_outside:
  assumes "unat f + n \<le> nbits s" "nbits s \<le> 0x100000" "\<not> in_bitmap s a"
  shows "mem (mark_run f n s) a = mem s a"
  using assms(1)
proof (induction n)
  case (Suc n)
  have lt: "f + of_nat n < 0x80000000"
    using Suc.prems assms(2) by (intro frame_add_lt [of f "Suc n"]) auto
  have "f + of_nat n = (of_nat (unat f + n) :: u32)" by simp
  then have "\<not> in_range (cell (mark_run f n s) (f + of_nat n)) 4 a"
    using assms(2,3) Suc.prems cell_in_bitmap [of "unat f + n" s a]
    by (auto simp: cell_def simp del: of_nat_add)
  with Suc lt show ?case by (simp add: mark_run_Suc set_bit_mem_outside)
qed simp

lemma find_Some_run:
  "first_run n s = Some f \<Longrightarrow> f < nbits s \<and> run_free s n f \<and> (\<forall>g\<in>{0..<f}. \<not> run_free s n g)"
  by (auto simp: first_run_def find_Some_iff)

section \<open>Allocation and release\<close>

lemma unat_lt_frames: "n \<le> 0x100000 \<Longrightarrow> f < n \<Longrightarrow> unat (of_nat f :: u32) = f"
  by (intro unat_of_nat32) simp

lemma run_free_nat: "run_free s n f \<longleftrightarrow> (\<forall>b\<in>{f..<f + n}. \<not> used s (of_nat b))"
proof -
  have "run_free s n f \<longleftrightarrow> (\<forall>k\<in>{0..<n}. \<not> used s (of_nat (f + k)))"
    by (simp add: run_free_def)
  also have "\<dots> \<longleftrightarrow> (\<forall>b\<in>(+) f ` {0..<n}. \<not> used s (of_nat b))"
    by blast
  also have "(+) f ` {0..<n} = {f..<f + n}"
    by (simp add: add.commute)
  finally show ?thesis .
qed

text \<open>
  What a successful allocation of \<open>n\<close> frames at frame \<open>f\<close> does, on the bitmap read as a set
  and on the memory. The one description serves \<open>allocate_block\<close> and its clients.
\<close>

definition alloc_post :: "'a pmm_scheme \<Rightarrow> nat \<Rightarrow> nat \<Rightarrow> 'a pmm_scheme \<Rightarrow> bool" where
  "alloc_post s f n s' \<longleftrightarrow>
     0 < f \<and> f + n \<le> nbits s \<and> run_free s n f \<and>
     BIT_MAP s' = BIT_MAP s \<and> TOTAL_BLOCK s' = TOTAL_BLOCK s \<and>
     TOTAL_USED_BLOCKS s' = TOTAL_USED_BLOCKS s + of_nat n \<and>
     (\<forall>b\<in>{0..<nbits s}. used s' (of_nat b) \<longleftrightarrow> used s (of_nat b) \<or> b \<in> {f..<f + n}) \<and>
     (\<forall>a. page a \<in> {f..<f + n} \<longrightarrow> mem s' a = 0 \<and> \<not> in_bitmap s a) \<and>
     (\<forall>a. page a \<notin> {f..<f + n} \<longrightarrow> \<not> in_bitmap s a \<longrightarrow> mem s' a = mem s a)"

lemma alloc_post_inv:
  assumes "pmm_inv s" "alloc_post s f n s'" shows "pmm_inv s'"
proof -
  have bm: "in_bitmap s' = in_bitmap s" "nbits s' = nbits s"
    using assms(2) by (auto simp: alloc_post_def intro: in_bitmap_cong nbits_cong)
  have u: "used s' (of_nat b)" if "used s (of_nat b)" "b < nbits s" for b
    using assms(2) that by (auto simp: alloc_post_def)
  have "0 < nbits s" using assms(2) by (auto simp: alloc_post_def)
  with u [of 0] assms(1) have "used s' 0" by (simp add: pmm_inv_def)
  then show ?thesis
    using assms(1) u by (auto simp: pmm_inv_def bm)
qed

lemma mark_clear_post:
  assumes inv: "pmm_inv s" and f: "f + n \<le> nbits s" and free: "run_free s n f" and n: "0 < n"
    and s1: "s1 = mark_run (of_nat f) n s"
  shows "alloc_post s f n (s1\<lparr>mem := memset (mem s1) (of_nat f * 4096) 0 (of_nat n * 4096)\<rparr>)"
    (is "alloc_post s f n ?s'")
proof -
  have nb: "nbits s \<le> 0x100000" using inv by (simp add: pmm_inv_def)
  have fu: "unat (of_nat f :: u32) = f" using f nb by (intro unat_of_nat32) simp
  have f0: "0 < f"
  proof (rule ccontr)
    assume "\<not> 0 < f"
    then have "0 \<in> {f..<f + n}" using n by simp
    then have "\<not> used s (of_nat 0)" using free unfolding run_free_nat by blast
    then show False using inv by (simp add: pmm_inv_def)
  qed
  have "unat (of_nat n * 4096 :: u32) = n * 4096"
    using f nb f0 by (intro unat_frame_addr) simp
  then have mem': "mem ?s' a = (if page a \<in> {f..<f + n} then 0 else mem s1 a)" for a
    using in_frames_iff [of f n a] f nb n by (simp add: memset_apply)
  have bm: "in_bitmap s a \<Longrightarrow> page a \<notin> {f..<f + n}" for a
    using inv free f by (auto simp: run_free_nat pmm_inv_def)
  have used1: "used s1 (of_nat b) \<longleftrightarrow> used s (of_nat b) \<or> b \<in> {f..<f + n}"
    if "b < nbits s" for b
    using that f nb fu unat_lt_frames [OF nb that] unfolding s1
    by (subst used_mark_run) auto
  have "used ?s' (of_nat b) = used s1 (of_nat b)" if "b < nbits s" for b
    by (rule used_cong_bitmap) (use that nb bm mem' in \<open>auto simp: s1 nbits_def in_bitmap_def\<close>)
  moreover have "mem s1 a = mem s a" if "\<not> in_bitmap s a" for a
    using mark_run_mem_outside [of "of_nat f" n s a] f nb fu that by (simp add: s1)
  ultimately show ?thesis
    using f f0 free used1 mem' bm by (auto simp: alloc_post_def s1)
qed

lemma pmm_inv_nbits: "pmm_inv s \<Longrightarrow> nbits s \<le> 0x80000000"
  by (simp add: pmm_inv_def)

lemma allocate_block_cases:
  assumes inv: "pmm_inv s"
  shows "allocate_block n s =
    (if n = 0 \<or> TOTAL_BLOCK s \<le> TOTAL_USED_BLOCKS s then (0, s)
     else case first_run (unat n) s of None \<Rightarrow> (0, s)
       | Some f \<Rightarrow> (let s1 = mark_run (of_nat f) (unat n) s
            in (of_nat f * 4096, s1\<lparr>mem := memset (mem s1) (of_nat f * 4096) 0 (n * 4096)\<rparr>)))"
proof -
  have "of_nat f \<noteq> INVALID_FRAME" if "f < nbits s" for f
  proof -
    have "unat (of_nat f :: u32) = f" "f < 0xffffffff"
      using inv that unat_lt_frames [of "nbits s" f] by (auto simp: pmm_inv_def)
    then show ?thesis by (auto simp: INVALID_FRAME_def word_unat_eq_iff)
  qed
  then show ?thesis
    using find_Some_run [of "unat n" s]
    by (auto simp: allocate_block_def get_free_frame_by_size_first_run [OF pmm_inv_nbits [OF inv]]
        PER_BLOCK_SIZE_def Let_def split: option.splits)
qed

lemma allocate_block_post:
  assumes inv: "pmm_inv s" and al: "allocate_block n s = (addr, s')" and ok: "addr \<noteq> 0"
    and inside: "page addr + unat n \<le> nbits s"
  shows "first_run (unat n) s = Some (page addr) \<and> addr = of_nat (page addr) * 4096 \<and>
    alloc_post s (page addr) (unat n) s'"
proof -
  from al ok obtain f where n: "n \<noteq> 0" and fr: "first_run (unat n) s = Some f"
    and addr: "addr = of_nat f * 4096"
    and s': "s' = (let s1 = mark_run (of_nat f) (unat n) s
       in s1\<lparr>mem := memset (mem s1) (of_nat f * 4096) 0 (n * 4096)\<rparr>)"
    by (auto simp: allocate_block_cases [OF inv] Let_def split: if_splits option.splits)
  note fs = find_Some_run [OF fr]
  have "f < 0x100000" using fs inv by (simp add: pmm_inv_def)
  then have pf: "page addr = f" by (simp add: addr page_frame_addr)
  have "0 < unat n" using n by (simp add: unat_gt_0)
  with fs inside pf show ?thesis
    using mark_clear_post [OF inv, of f "unat n"] by (simp add: fr addr s' Let_def pf)
qed

text \<open>One frame: the size every client of the manager asks for, and it always fits.\<close>

lemma allocate_block_1:
  assumes inv: "pmm_inv s" and al: "allocate_block 1 s = (addr, s')" and ok: "addr \<noteq> 0"
  shows "addr = of_nat (page addr) * 4096 \<and> alloc_post s (page addr) 1 s'"
proof -
  have "page addr + 1 \<le> nbits s"
  proof -
    from al ok obtain f where fr: "first_run 1 s = Some f" and "addr = of_nat f * 4096"
      by (auto simp: allocate_block_cases [OF inv] Let_def split: if_splits option.splits)
    moreover from find_Some_run [OF fr] have "f < nbits s" by simp
    ultimately show ?thesis using inv by (simp add: pmm_inv_def page_frame_addr)
  qed
  with allocate_block_post [OF inv al ok] show ?thesis by simp
qed

text \<open>A run that fits is handed out.\<close>

lemma allocate_run:
  assumes inv: "pmm_inv s" and n: "n \<noteq> 0" and c: "TOTAL_USED_BLOCKS s < TOTAL_BLOCK s"
    and f: "first_run (unat n) s = Some f" "f + unat n \<le> nbits s"
  obtains s1 where "allocate_block n s = (of_nat f * 4096, s1)" "alloc_post s f (unat n) s1" "f \<noteq> 0"
proof -
  define s1 where "s1 = snd (allocate_block n s)"
  have al: "allocate_block n s = (of_nat f * 4096, s1)"
    using n not_le [THEN iffD2, OF c] f(1) by (simp add: s1_def allocate_block_cases [OF inv] Let_def)
  have "f < 0x100000" using f(2) find_Some_run [OF f(1)] inv by (simp add: pmm_inv_def)
  note fu = page_frame_addr [OF this] and fa = unat_frame_addr [OF this]
  have "run_free s (unat n) f" using find_Some_run [OF f(1)] by simp
  then have "f \<noteq> 0" using n inv f(2) unfolding run_free_nat pmm_inv_def by (auto simp: unat_gt_0 dest!: bspec [where x = 0])
  then have "of_nat f * 4096 \<noteq> (0 :: u32)" using fa by auto
  from allocate_block_post [OF inv al this] f(2) have "alloc_post s f (unat n) s1" by (simp only: fu)
  from that [OF al this \<open>f \<noteq> 0\<close>] show thesis .
qed

lemma allocate_block_fails:
  assumes "pmm_inv s" "allocate_block n s = (0, s')"
  shows "s' = s"
proof (cases "n = 0 \<or> TOTAL_BLOCK s \<le> TOTAL_USED_BLOCKS s \<or> first_run (unat n) s = None")
  case True
  with assms show ?thesis
    by (auto simp: allocate_block_cases split: if_splits)
next
  case False
  then obtain f where fr: "first_run (unat n) s = Some f" by auto
  have n: "0 < unat n" using False by (auto simp: unat_gt_0)
  note fs = find_Some_run [OF fr]
  have "of_nat f * 4096 = (0 :: u32)"
    using False fr assms by (simp add: allocate_block_cases Let_def)
  moreover have "f < 0x100000" using fs assms(1) by (simp add: pmm_inv_def)
  ultimately have "f = 0" using unat_frame_addr [of f] by simp
  with fs n have "\<not> used s (of_nat 0)" unfolding run_free_nat by (metis add_0 atLeastLessThan_iff le_refl)
  then show ?thesis using assms(1) by (simp add: pmm_inv_def)
qed

lemma deallocate_Suc:
  "fold (\<lambda>i s. used_dec (unset_bit (f + of_nat i) s)) [0..<Suc n] s =
   used_dec (unset_bit (f + of_nat n) (fold (\<lambda>i s. used_dec (unset_bit (f + of_nat i) s)) [0..<n] s))"
  by simp

lemma used_unmark_run:
  assumes "unat f + n \<le> 0x80000000"
  shows "used (fold (\<lambda>i s. used_dec (unset_bit (f + of_nat i) s)) [0..<n] s) c \<longleftrightarrow>
    used s c \<and> \<not> (unat f \<le> unat c \<and> unat c < unat f + n)"
  using assms
proof (induction n)
  case (Suc n)
  have "c = f + of_nat n \<longleftrightarrow> unat c = unat f + n"
    using Suc.prems by (simp add: word_unat_eq_iff unat_add_of_nat)
  moreover have "f + of_nat n < 0x80000000"
    using Suc.prems by (intro frame_add_lt [of f "Suc n"]) auto
  ultimately show ?case
    using Suc by (auto simp: used_unset_bit)
qed auto

lemma unmark_run_frame [simp, frame_facts]:
  "BIT_MAP (fold (\<lambda>i s. used_dec (unset_bit (f + of_nat i) s)) [0..<n] s) = BIT_MAP s"
  "TOTAL_BLOCK (fold (\<lambda>i s. used_dec (unset_bit (f + of_nat i) s)) [0..<n] s) = TOTAL_BLOCK s"
  "TOTAL_USED_BLOCKS (fold (\<lambda>i s. used_dec (unset_bit (f + of_nat i) s)) [0..<n] s) =
     TOTAL_USED_BLOCKS s - of_nat n"
  by (induction n) simp_all

text \<open>An allocation writes the memory and the counter only, whatever record extends the state.\<close>

lemma set_bit_shape: "\<exists>m. set_bit b s = s\<lparr>mem := m\<rparr>"
  by (auto simp: set_bit_def Let_def)

lemma mark_run_shape: "\<exists>m u. mark_run f n s = s\<lparr>mem := m, TOTAL_USED_BLOCKS := u\<rparr>"
proof (induction n)
  case 0
  show ?case by (rule exI [of _ "mem s"], rule exI [of _ "TOTAL_USED_BLOCKS s"]) simp
next
  case (Suc n)
  then obtain m u where "mark_run f n s = s\<lparr>mem := m, TOTAL_USED_BLOCKS := u\<rparr>" by blast
  moreover obtain m' where
    "set_bit (f + of_nat n) (s\<lparr>mem := m, TOTAL_USED_BLOCKS := u\<rparr>) =
       s\<lparr>mem := m, TOTAL_USED_BLOCKS := u\<rparr>\<lparr>mem := m'\<rparr>"
    using set_bit_shape by blast
  ultimately show ?case by (auto simp: mark_run_Suc used_inc_def)
qed

lemma allocate_block_shape:
  "\<exists>m u. snd (allocate_block n s) = s\<lparr>mem := m, TOTAL_USED_BLOCKS := u\<rparr>"
proof (cases "get_free_frame_by_size n s = INVALID_FRAME")
  case True
  then have "snd (allocate_block n s) = s\<lparr>mem := mem s, TOTAL_USED_BLOCKS := TOTAL_USED_BLOCKS s\<rparr>"
    by (simp add: allocate_block_def)
  then show ?thesis by blast
next
  case False
  obtain m u where "mark_run (get_free_frame_by_size n s) (unat n) s =
      s\<lparr>mem := m, TOTAL_USED_BLOCKS := u\<rparr>"
    using mark_run_shape by blast
  with False have "snd (allocate_block n s) = s\<lparr>mem := memset m
      (get_free_frame_by_size n s * PER_BLOCK_SIZE) 0 (n * PER_BLOCK_SIZE), TOTAL_USED_BLOCKS := u\<rparr>"
    by (simp add: allocate_block_def Let_def)
  then show ?thesis by blast
qed

section \<open>The interface to the clients of the manager\<close>

text \<open>
  What the page tables, the loader and the task code rely on: an operation that hands out one
  frame at a time. \<open>taken\<close> is the set of frames in use, \<open>own_data\<close> the addresses the
  allocator keeps its own data in.
\<close>

locale page_allocator =
  fixes alloc :: "'s \<Rightarrow> u32 \<times> 's"
    and inv :: "'s \<Rightarrow> bool"
    and taken :: "'s \<Rightarrow> nat \<Rightarrow> bool"
    and bytes :: "'s \<Rightarrow> ram"
    and own_data :: "'s \<Rightarrow> u32 \<Rightarrow> bool"
  assumes alloc_inv: "inv s \<Longrightarrow> alloc s = (a, s') \<Longrightarrow> inv s'"
    and alloc_aligned: "inv s \<Longrightarrow> alloc s = (a, s') \<Longrightarrow> a \<noteq> 0 \<Longrightarrow> a = of_nat (page a) * 4096"
    and alloc_fresh: "inv s \<Longrightarrow> alloc s = (a, s') \<Longrightarrow> a \<noteq> 0 \<Longrightarrow> \<not> taken s (page a)"
    and alloc_taken: "inv s \<Longrightarrow> alloc s = (a, s') \<Longrightarrow> a \<noteq> 0 \<Longrightarrow>
      taken s' f \<longleftrightarrow> taken s f \<or> f = page a"
    and alloc_zero: "inv s \<Longrightarrow> alloc s = (a, s') \<Longrightarrow> a \<noteq> 0 \<Longrightarrow> page x = page a \<Longrightarrow>
      bytes s' x = 0 \<and> \<not> own_data s x"
    and alloc_frame: "inv s \<Longrightarrow> alloc s = (a, s') \<Longrightarrow> a \<noteq> 0 \<Longrightarrow> page x \<noteq> page a \<Longrightarrow>
      \<not> own_data s x \<Longrightarrow> bytes s' x = bytes s x"
    and alloc_own_data: "inv s \<Longrightarrow> alloc s = (a, s') \<Longrightarrow> own_data s' = own_data s"
    and alloc_fail: "inv s \<Longrightarrow> alloc s = (0, s') \<Longrightarrow> s' = s"
begin

lemma alloc_taken_mono: "inv s \<Longrightarrow> alloc s = (a, s') \<Longrightarrow> taken s f \<Longrightarrow> taken s' f"
  using alloc_taken alloc_fail by (metis (full_types))

text \<open>A run of allocations: the states and addresses of \<open>n\<close> successive calls.\<close>

lemma allocs_distinct:
  assumes "inv (S 0)" and "\<And>i. i < n \<Longrightarrow> alloc (S i) = (A i, S (Suc i)) \<and> A i \<noteq> 0"
  shows "inv (S n) \<and> (\<forall>f. taken (S 0) f \<longrightarrow> taken (S n) f) \<and>
    (\<forall>i<n. taken (S n) (page (A i)) \<and> \<not> taken (S 0) (page (A i)) \<and>
       (\<forall>j<i. page (A j) \<noteq> page (A i)))"
  using assms(2)
proof (induction n)
  case 0
  show ?case using assms(1) by simp
next
  case (Suc n)
  have IH: "inv (S n)" "\<And>f. taken (S 0) f \<Longrightarrow> taken (S n) f"
    "\<And>i. i < n \<Longrightarrow> taken (S n) (page (A i)) \<and> \<not> taken (S 0) (page (A i)) \<and>
       (\<forall>j<i. page (A j) \<noteq> page (A i))"
    using Suc.IH Suc.prems by simp_all
  have step: "alloc (S n) = (A n, S (Suc n))" "A n \<noteq> 0" using Suc.prems by simp_all
  note tk = alloc_taken [OF IH(1) step] and fresh = alloc_fresh [OF IH(1) step]
  have "\<not> taken (S 0) (page (A n))" "\<And>j. j < n \<Longrightarrow> page (A j) \<noteq> page (A n)"
    using fresh IH(2,3) by metis+
  then show ?case
    using IH tk alloc_inv [OF IH(1) step(1)] by (auto simp: less_Suc_eq)
qed

end

definition taken :: "'a pmm_scheme \<Rightarrow> nat \<Rightarrow> bool" where
  "taken s f \<longleftrightarrow> f < nbits s \<and> used s (of_nat f)"

interpretation pa: page_allocator "allocate_block 1" pmm_inv taken mem in_bitmap
proof unfold_locales
  fix s s' :: "'a pmm_scheme" and a :: u32
  assume inv: "pmm_inv s" and al: "allocate_block 1 s = (a, s')"
  have post: "alloc_post s (page a) 1 s'" "a = of_nat (page a) * 4096" if "a \<noteq> 0"
    using allocate_block_1 [OF inv al that] by simp_all
  show "s' = s" if "allocate_block 1 s = (0, s')"
    using allocate_block_fails [OF inv that] .
  then have fail: "s' = s" if "a = 0" using al that by simp
  show "pmm_inv s'"
    using fail inv post(1) alloc_post_inv [OF inv] by (cases "a = 0") simp_all
  show "in_bitmap s' = in_bitmap s"
    using fail post(1) by (cases "a = 0") (auto simp: alloc_post_def intro: in_bitmap_cong)
  assume a: "a \<noteq> 0"
  show "a = of_nat (page a) * 4096" using post(2) [OF a] .
  show "\<not> taken s (page a)"
    using post(1) [OF a] by (simp add: taken_def alloc_post_def run_free_nat)
  show "taken s' f = (taken s f \<or> f = page a)" for f
    using post(1) [OF a] by (auto simp: taken_def alloc_post_def nbits_def)
  show "mem s' x = 0 \<and> \<not> in_bitmap s x" if "page x = page a" for x
    using post(1) [OF a] that by (simp add: alloc_post_def)
  show "mem s' x = mem s x" if "page x \<noteq> page a" "\<not> in_bitmap s x" for x
    using post(1) [OF a] that by (simp add: alloc_post_def)
qed

section \<open>Reservation and initialisation\<close>

lemma unat_pages_of: "unat (pages_of n) \<le> 0xfffff"
  using unat_u32_lt [of "n + 4096 - 1"] by (simp add: pages_of_def PER_BLOCK_SIZE_def unat_div)

lemma unat_frame_of: "unat (base div PER_BLOCK_SIZE) = page base"
  by (simp add: PER_BLOCK_SIZE_def unat_div page_def)

lemma reserve_loop:
  assumes "unat f + n \<le> 0x80000000"
  shows "used (fold (\<lambda>i s. if test_bit (f + of_nat i) s = 0
             then used_inc (set_bit (f + of_nat i) s) else s) [0..<n] s) c \<longleftrightarrow>
    used s c \<or> unat f \<le> unat c \<and> unat c < unat f + n"
  using assms
proof (induction n)
  case (Suc n)
  have "c = f + of_nat n \<longleftrightarrow> unat c = unat f + n"
    using Suc.prems by (simp add: word_unat_eq_iff unat_add_of_nat)
  moreover have "f + of_nat n < 0x80000000"
    using Suc.prems by (intro frame_add_lt [of f "Suc n"]) auto
  ultimately show ?case
    using Suc by (auto simp: used_set_bit simp del: fold_upt_Suc simp add: fold_upt_Suc)
qed auto

lemma used_reserve:
  "used (reserve_memory_block base n s) c \<longleftrightarrow> used s c \<or>
     TOTAL_USED_BLOCKS s < TOTAL_BLOCK s \<and>
     page base \<le> unat c \<and> unat c < page base + unat (pages_of n)"
proof -
  have "unat (base div PER_BLOCK_SIZE) + unat (pages_of n) \<le> 0x80000000"
    using page_lt [of base] unat_pages_of [of n] by (simp add: unat_frame_of)
  from reserve_loop [OF this] show ?thesis
    by (auto simp: reserve_memory_block_def Let_def unat_frame_of)
qed

lemma reserve_frame [simp, frame_facts]:
  "BIT_MAP (reserve_memory_block base n s) = BIT_MAP s"
  "TOTAL_BLOCK (reserve_memory_block base n s) = TOTAL_BLOCK s"
  "BITMAP_SIZEB (reserve_memory_block base n s) = BITMAP_SIZEB s"
  "KERNEL_START_ADDR (reserve_memory_block base n s) = KERNEL_START_ADDR s"
  "KERNEL_END_ADDR (reserve_memory_block base n s) = KERNEL_END_ADDR s"
proof -
  let ?P = "\<lambda>t. BIT_MAP t = BIT_MAP s \<and> TOTAL_BLOCK t = TOTAL_BLOCK s \<and>
    BITMAP_SIZEB t = BITMAP_SIZEB s \<and> KERNEL_START_ADDR t = KERNEL_START_ADDR s \<and>
    KERNEL_END_ADDR t = KERNEL_END_ADDR s"
  have "?P (reserve_memory_block base n s)"
    unfolding reserve_memory_block_def Let_def
    by (cases "TOTAL_BLOCK s \<le> TOTAL_USED_BLOCKS s")
      (auto intro!: fold_invariant_upt [where P = ?P] simp: used_inc_def set_bit_def Let_def)
  then show "BIT_MAP (reserve_memory_block base n s) = BIT_MAP s"
    "TOTAL_BLOCK (reserve_memory_block base n s) = TOTAL_BLOCK s"
    "BITMAP_SIZEB (reserve_memory_block base n s) = BITMAP_SIZEB s"
    "KERNEL_START_ADDR (reserve_memory_block base n s) = KERNEL_START_ADDR s"
    "KERNEL_END_ADDR (reserve_memory_block base n s) = KERNEL_END_ADDR s"
    by simp_all
qed

text \<open>What a reservation counts and writes.\<close>

lemma reserve_fold_keeps:
  fixes base :: u32
  assumes "\<And>i t. i < unat (pages_of n) \<Longrightarrow> P t \<Longrightarrow> P (used_inc (set_bit (base div PER_BLOCK_SIZE + of_nat i) t))" "P s"
  shows "P (reserve_memory_block base n s)"
  unfolding reserve_memory_block_def Let_def
  by (rule fold_invariant_upt) (use assms in auto)

lemma reserve_count:
  fixes s :: "'a pmm_scheme"
  shows "unat (TOTAL_USED_BLOCKS (reserve_memory_block b n s)) \<le> unat (TOTAL_USED_BLOCKS s) + unat (pages_of n)"
proof -
  define f where "f = (\<lambda>i (s :: 'a pmm_scheme). if test_bit (b div PER_BLOCK_SIZE + of_nat i) s = 0
     then used_inc (set_bit (b div PER_BLOCK_SIZE + of_nat i) s) else s)"
  have step: "unat (TOTAL_USED_BLOCKS (f i t)) \<le> unat (TOTAL_USED_BLOCKS t) + 1" for i t
    by (simp add: f_def unat_word_ariths)
  have "unat (TOTAL_USED_BLOCKS (fold f [0..<k] s)) \<le> unat (TOTAL_USED_BLOCKS s) + k" for k
  proof (induction k)
    case (Suc k)
    then show ?case using step [of k "fold f [0..<k] s"] by simp
  qed simp
  then show ?thesis by (simp add: reserve_memory_block_def f_def Let_def)
qed

text \<open>The bits below \<open>32 * k\<close> are the first \<open>k\<close> words of the bitmap.\<close>

lemma set_bit_outside:
  assumes b: "unat b < 32 * k" and k: "k \<le> 0x100000" and x: "\<not> in_range (BIT_MAP s) (4 * k) x"
  shows "mem (set_bit b s) x = mem s x"
proof -
  have "\<not> in_range (cell s b) 4 x"
  proof
    assume "in_range (cell s b) 4 x"
    then have i: "unat (x - BIT_MAP s - 4 * (b div 32)) < 4" by (simp add: in_range_def cell_def diff_diff_eq)
    define j where "j = x - BIT_MAP s - 4 * (b div 32)"
    have q: "unat (b div 32) < k" using b by (simp add: unat_div div_less_iff_less_mult mult.commute)
    then have u: "unat (4 * (b div 32)) = 4 * unat (b div 32)" using k by (simp add: unat_word_ariths)
    have "x - BIT_MAP s = of_nat (unat j + 4 * unat (b div 32))" by (simp add: j_def del: unat_div_32)
    moreover have "unat j + 4 * unat (b div 32) < 4294967296" using i q k by (simp add: j_def del: unat_div_32)
    ultimately have "unat (x - BIT_MAP s) = unat j + 4 * unat (b div 32)" by (metis unat_of_nat32)
    then show False using i q x by (simp add: in_range_def j_def del: unat_div_32)
  qed
  moreover have "b < 0x80000000" using b k by (simp add: word_less_nat_alt)
  ultimately show ?thesis by (simp add: set_bit_eq store32_outside)
qed

lemma reserve_mem_outside:
  assumes n: "page base + unat (pages_of n) \<le> 32 * k" and k: "k \<le> 0x100000"
    and x: "\<not> in_range (BIT_MAP s) (4 * k) x"
  shows "mem (reserve_memory_block base n s) x = mem s x"
proof -
  have "mem (reserve_memory_block base n s) x = mem s x \<and> BIT_MAP (reserve_memory_block base n s) = BIT_MAP s"
  proof (rule reserve_fold_keeps [where P = "\<lambda>t. mem t x = mem s x \<and> BIT_MAP t = BIT_MAP s"])
    fix i and t :: "'a pmm_scheme" assume i: "i < unat (pages_of n)" and t: "mem t x = mem s x \<and> BIT_MAP t = BIT_MAP s"
    have "unat (base div PER_BLOCK_SIZE + of_nat i) = page base + i"
      using i unat_pages_of [of n] page_lt [of base] by (simp add: unat_add_of_nat unat_frame_of)
    then show "mem (used_inc (set_bit (base div PER_BLOCK_SIZE + of_nat i) t)) x = mem s x \<and>
        BIT_MAP (used_inc (set_bit (base div PER_BLOCK_SIZE + of_nat i) t)) = BIT_MAP s"
      using i n k x t by (simp add: set_bit_outside [where k = k])
  qed simp
  then show ?thesis by simp
qed

lemma bit_load32:
  assumes "n < 32"
  shows "bit (load32 m a) n \<longleftrightarrow> bit (m (a + of_nat (n div 8))) (n mod 8)"
proof -
  define r where "r = n mod 8"
  have big: "\<not> bit (w :: u8) k" if "8 \<le> k" for w k
    using that bit_imp_le_length [of w k] by auto
  have r: "r < 8" and n: "n = 8 * (n div 8) + r" by (simp_all add: r_def)
  have "n div 8 < 4" using assms by (simp add: less_mult_imp_div_less)
  then consider "n div 8 = 0" | "n div 8 = 1" | "n div 8 = 2" | "n div 8 = 3" by linarith
  then have "bit (load32 m a) (8 * (n div 8) + r) \<longleftrightarrow> bit (m (a + of_nat (n div 8))) r"
    by cases (use r in \<open>simp_all add: load32_def bit_simps big\<close>)
  then show ?thesis using n by (simp add: r_def)
qed

lemma bit_position:
  fixes x :: nat
  shows "x mod 32 div 8 + 4 * (x div 32) = x div 8" and "x mod 32 mod 8 = x mod 8"
proof -
  have e: "x mod 32 + (4 * (x div 32)) * 8 = x" by simp
  have "(x mod 32 + (4 * (x div 32)) * 8) div 8 = 4 * (x div 32) + x mod 32 div 8"
    by (rule div_mult_self1) simp
  then show "x mod 32 div 8 + 4 * (x div 32) = x div 8" by (simp only: e add.commute)
  show "x mod 32 mod 8 = x mod 8" by (rule mod_mod_cancel) simp
qed

text \<open>The bit of frame \<open>b\<close> is bit \<open>b mod 8\<close> of byte \<open>b div 8\<close> of the bitmap.\<close>

lemma used_iff_byte:
  "used s b \<longleftrightarrow> bit (mem s (BIT_MAP s + of_nat (unat b div 8))) (unat b mod 8)"
proof -
  have "cell s b + of_nat (unat b mod 32 div 8) =
      BIT_MAP s + of_nat (unat b mod 32 div 8 + 4 * (unat b div 32))"
    by (simp add: cell_def div_32_of_nat)
  then show ?thesis
    by (simp only: used_iff_bit bit_load32 mod_less_divisor zero_less_numeral bit_position)
qed

lemma setup_frame [simp]:
  "TOTAL_BLOCK (setup_memory_bitmap s) = TOTAL_BLOCK s"
  "BITMAP_SIZEB (setup_memory_bitmap s) = BITMAP_SIZEB s"
  "KERNEL_START_ADDR (setup_memory_bitmap s) = KERNEL_START_ADDR s"
  "KERNEL_END_ADDR (setup_memory_bitmap s) = KERNEL_END_ADDR s"
  "BIT_MAP (setup_memory_bitmap s) = (KERNEL_END_ADDR s + 0xFFF) AND NOT 0xFFF"
  by (simp_all add: setup_memory_bitmap_def Let_def)

lemma used_setup:
  assumes "unat b div 8 < unat (BITMAP_SIZEB s)"
  shows "\<not> used (setup_memory_bitmap s) b"
proof -
  have "unat (of_nat (unat b div 8) :: u32) = unat b div 8"
    using unat_u32_lt [of b] by (intro unat_of_nat32) simp
  then show ?thesis
    using assms unfolding used_iff_byte
    by (simp add: setup_memory_bitmap_def Let_def memset_apply in_range_def)
qed

lemma used_reserve_memory:
  assumes "used (reserve_memory s) c"
  shows "used s c \<or> unat c = 0 \<or> unat c = 7 \<or> page (KERNEL_START_ADDR s) \<le> unat c \<or>
    page (BIT_MAP s) \<le> unat c"
  using assms
  by (auto simp: reserve_memory_def Let_def used_reserve page_def pages_of_def PER_BLOCK_SIZE_def)

lemma reserve_memory_frame [simp, frame_facts]:
  "BIT_MAP (reserve_memory s) = BIT_MAP s" "TOTAL_BLOCK (reserve_memory s) = TOTAL_BLOCK s"
  by (simp_all add: reserve_memory_def Let_def)

lemma used_reserve_fold:
  assumes "used (fold (\<lambda>i. reserve_memory_block (base i) (len i)) [0..<n] s) c"
  shows "used s c \<or> (\<exists>i\<in>{0..<n}. page (base i) \<le> unat c \<and>
    unat c < page (base i) + unat (pages_of (len i)))"
  using assms
proof (induction n)
  case (Suc n)
  from Suc.prems Suc.IH show ?case
    by (auto simp: used_reserve less_Suc_eq)
qed simp

text \<open>The image of module \<open>i\<close> contains frame \<open>f\<close>.\<close>

definition module_frame :: "BootParams \<Rightarrow> nat \<Rightarrow> nat \<Rightarrow> bool" where
  "module_frame bp i f \<longleftrightarrow> page (image_data (Modules bp i)) \<le> f \<and>
     f < page (image_data (Modules bp i)) + unat (pages_of (image_size (Modules bp i)))"

lemma unat_round_up:
  assumes "unat (e :: u32) + 0xFFF < 4294967296"
  shows "unat ((e + 0xFFF) AND NOT 0xFFF) = (unat e + 0xFFF) div 4096 * 4096"
  unfolding unat_and_not_FFF using assms by (simp add: unat_word_ariths)

lemma page_round_up:
  assumes "unat (e :: u32) + 0xFFF < 4294967296"
  shows "page e \<le> page ((e + 0xFFF) AND NOT 0xFFF)"
  unfolding page_def unat_round_up [OF assms] by (simp add: div_le_mono)

lemma get_memory_info_sizes:
  "TOTAL_BLOCK (get_memory_info mi s) = (TOTAL_PAGES (get_memory_info mi s) + 31) div 32"
  "BITMAP_SIZEB (get_memory_info mi s) = (TOTAL_PAGES (get_memory_info mi s) + 7) div 8"
  "unat (TOTAL_PAGES (get_memory_info mi s)) < 0x100000"
  "KERNEL_START_ADDR (get_memory_info mi s) = KERNEL_START_ADDR s"
  "KERNEL_END_ADDR (get_memory_info mi s) = KERNEL_END_ADDR s"
  using unat_u32_lt
  by (simp_all add: get_memory_info_def Let_def PER_BLOCK_SIZE_def unat_div
      div_less_iff_less_mult)

lemma unat_sizes:
  assumes "unat (p :: u32) < 0x100000"
  shows "unat ((p + 31) div 32) = (unat p + 31) div 32" "unat ((p + 7) div 8) = (unat p + 7) div 8"
  using assms by (simp_all add: unat_div unat_word_ariths)

section \<open>Properties\<close>

text \<open>C2 The frame search with its word-at-a-time skip and its counting inner loop returns the
  first frame from which \<open>n\<close> consecutive bits are clear, and \<open>INVALID_FRAME\<close> when there
  is none, when \<open>n = 0\<close>, or when the counter of used frames has reached the number of
  bitmap words.\<close>

theorem get_free_frame_by_size_first_fit:
  assumes "nbits s \<le> 0x80000000"
  shows "get_free_frame_by_size n s =
    (if n = 0 \<or> TOTAL_BLOCK s \<le> TOTAL_USED_BLOCKS s then INVALID_FRAME
     else case find (\<lambda>b. \<forall>k\<in>{0..<unat n}. \<not> used s (of_nat b + of_nat k)) [0..<nbits s]
          of Some b \<Rightarrow> of_nat b | None \<Rightarrow> INVALID_FRAME)"
  using get_free_frame_by_size_first_run [OF assms]
  by (simp add: first_run_def run_free_def [abs_def])

text \<open>A state with one bitmap word, whose frames 0, 1 and 3 are used, at address \<open>0x10000\<close>.\<close>

definition tiny_pmm :: pmm where
  "tiny_pmm = \<lparr>mem = (\<lambda>_. 0)(0x10000 := 0xb, 0x10002 := 1), TOTAL_MEMORY = 0x80000, TOTAL_PAGES = 128,
     TOTAL_BLOCK = 4, TOTAL_USED_BLOCKS = 3, BIT_MAP = 0x10000, BITMAP_SIZEB = 16,
     BIT_MAP_END = 0x10010, KERNEL_START_ADDR = 0, KERNEL_END_ADDR = 0x10000\<rparr>"

theorem get_free_frame_by_size_first_fit_witness:
  "nbits tiny_pmm \<le> 0x80000000 \<and> get_free_frame_by_size 2 tiny_pmm = 4"
proof -
  have h: "nbits tiny_pmm \<le> 0x80000000" by (simp add: nbits_def tiny_pmm_def)
  have "find (\<lambda>b. \<forall>k\<in>{0..<unat (2 :: u32)}. \<not> used tiny_pmm (of_nat b + of_nat k)) [0..<nbits tiny_pmm] = Some 4"
    by code_simp
  then have "get_free_frame_by_size 2 tiny_pmm = 4"
    unfolding get_free_frame_by_size_first_fit [OF h] by (simp add: tiny_pmm_def)
  with h show ?thesis by blast
qed

text \<open>C1 \<open>allocate_block\<close>: on success the address is that of the first free run of \<open>n\<close>
  frames; exactly these frames become used and their number is added to the counter; their bytes
  are zero, no byte of them belongs to the bitmap, and all other memory outside the bitmap is
  unchanged; the invariant is kept. The run must end inside the bitmap: the search itself does
  not check it.\<close>

theorem allocate_block_correct:
  assumes "pmm_inv s" and "allocate_block n s = (addr, s')" and "addr \<noteq> 0"
    and "page addr + unat n \<le> nbits s"
  shows "first_run (unat n) s = Some (page addr) \<and> addr = of_nat (page addr) * 4096 \<and>
    (\<forall>b\<in>{page addr..<page addr + unat n}. \<not> used s (of_nat b)) \<and>
    (\<forall>b\<in>{0..<nbits s}. used s' (of_nat b) \<longleftrightarrow>
       used s (of_nat b) \<or> b \<in> {page addr..<page addr + unat n}) \<and>
    TOTAL_USED_BLOCKS s' = TOTAL_USED_BLOCKS s + n \<and>
    (\<forall>a. page a \<in> {page addr..<page addr + unat n} \<longrightarrow> mem s' a = 0 \<and> \<not> in_bitmap s a) \<and>
    (\<forall>a. page a \<notin> {page addr..<page addr + unat n} \<longrightarrow> \<not> in_bitmap s a \<longrightarrow>
       mem s' a = mem s a) \<and>
    pmm_inv s'"
proof -
  have post: "alloc_post s (page addr) (unat n) s'"
    and fr: "first_run (unat n) s = Some (page addr)" "addr = of_nat (page addr) * 4096"
    using allocate_block_post [OF assms] by simp_all
  have "pmm_inv s'" using assms(1) post by (rule alloc_post_inv)
  with post fr show ?thesis by (simp add: alloc_post_def run_free_nat)
qed

lemma tiny_pmm_inv: "pmm_inv tiny_pmm"
proof -
  have nb: "nbits tiny_pmm = 128" by (simp add: nbits_def tiny_pmm_def)
  have "used tiny_pmm (of_nat (page a))" if "in_bitmap tiny_pmm a" for a
  proof -
    from that have "65536 \<le> unat a \<and> unat a < 65552"
      by (simp add: in_bitmap_def tiny_pmm_def in_range_unat)
    then have "page a = 16" unfolding page_def by (intro div_nat_eqI) simp_all
    moreover have "used tiny_pmm (of_nat 16)" by code_simp
    ultimately show ?thesis by simp
  qed
  moreover have "used tiny_pmm 0" by code_simp
  ultimately show ?thesis by (simp add: pmm_inv_def nb)
qed

lemma tiny_alloc:
  "allocate_block 1 tiny_pmm = (0x2000, snd (allocate_block 1 tiny_pmm))"
proof -
  have "get_free_frame_by_size 1 tiny_pmm = 2" by code_simp
  then show ?thesis
    by (simp add: allocate_block_def INVALID_FRAME_def PER_BLOCK_SIZE_def Let_def)
qed

lemma tiny_page: "page 0x2000 + unat (1 :: u32) \<le> nbits tiny_pmm"
  by (simp add: page_def nbits_def tiny_pmm_def)

theorem allocate_block_correct_witness:
  "pmm_inv (snd (allocate_block 1 tiny_pmm)) \<and> fst (allocate_block 1 tiny_pmm) = 0x2000"
  using allocate_block_correct [OF tiny_pmm_inv tiny_alloc _ tiny_page]
  by (subst tiny_alloc) simp

text \<open>C6 A refused allocation changes nothing, and it is refused for one of three reasons: no frame
  was asked for, the counter of used frames has reached the number of bitmap words, or no run of
  \<open>n\<close> free frames starts inside the bitmap.\<close>

theorem allocate_block_refused:
  assumes "pmm_inv s" and "allocate_block n s = (0, s')"
  shows "s' = s \<and> (n = 0 \<or> TOTAL_BLOCK s \<le> TOTAL_USED_BLOCKS s \<or>
    (\<forall>f\<in>{0..<nbits s}. \<exists>k\<in>{0..<unat n}. used s (of_nat f + of_nat k)))"
proof
  show "s' = s" using assms by (rule allocate_block_fails)
  show "n = 0 \<or> TOTAL_BLOCK s \<le> TOTAL_USED_BLOCKS s \<or>
    (\<forall>f\<in>{0..<nbits s}. \<exists>k\<in>{0..<unat n}. used s (of_nat f + of_nat k))"
  proof (cases "first_run (unat n) s")
    case None
    then show ?thesis by (auto simp: first_run_def find_None_iff run_free_def)
  next
    case (Some f)
    have "0 < nbits s \<and> of_nat f * 4096 \<noteq> (0 :: u32)" if "n \<noteq> 0"
    proof -
      note fs = find_Some_run [OF Some]
      then have "f < 0x100000" using assms(1) by (simp add: pmm_inv_def)
      moreover have "f \<noteq> 0"
      proof
        assume "f = 0"
        moreover have "0 < unat n" using that by (simp add: unat_gt_0)
        ultimately have "\<not> used s (of_nat 0 + of_nat 0)"
          using fs unfolding run_free_def by fastforce
        then show False using assms(1) by (simp add: pmm_inv_def)
      qed
      ultimately show ?thesis using fs unat_frame_addr [of f] by auto
    qed
    then show ?thesis using assms Some by (auto simp: allocate_block_cases Let_def split: if_splits)
  qed
qed

theorem allocate_block_refused_witness:
  "snd (allocate_block 0 tiny_pmm) = tiny_pmm"
proof -
  have "allocate_block 0 tiny_pmm = (0, tiny_pmm)"
    by (simp add: allocate_block_cases [OF tiny_pmm_inv])
  with allocate_block_refused [OF tiny_pmm_inv this] show ?thesis by simp
qed

text \<open>C5 Releasing what was just allocated restores the set of used frames and the counter.\<close>

theorem deallocate_after_allocate:
  assumes "pmm_inv s" and "allocate_block n s = (addr, s')" and "addr \<noteq> 0"
    and "page addr + unat n \<le> nbits s"
  shows "(\<forall>b\<in>{0..<nbits s}. used (deallocate_memory_by_size addr (n * 4096) s') (of_nat b) = used s (of_nat b)) \<and>
    TOTAL_USED_BLOCKS (deallocate_memory_by_size addr (n * 4096) s') = TOTAL_USED_BLOCKS s"
proof -
  have post: "alloc_post s (page addr) (unat n) s'"
    using allocate_block_post [OF assms] by simp
  have nb: "nbits s \<le> 0x100000" using assms(1) by (simp add: pmm_inv_def)
  have "unat n * 4096 + 4095 < 4294967296"
    using post nb by (auto simp: alloc_post_def)
  then have n: "unat (pages_of (n * 4096)) = unat n"
    by (simp add: pages_of_def PER_BLOCK_SIZE_def unat_div unat_word_ariths)
  have "TOTAL_USED_BLOCKS (deallocate_memory_by_size addr (n * 4096) s') = TOTAL_USED_BLOCKS s"
    using post by (simp add: deallocate_memory_by_size_def Let_def n alloc_post_def)
  moreover have lim: "unat (addr div PER_BLOCK_SIZE) + unat n \<le> 0x80000000"
    using assms(4) nb by (simp add: unat_frame_of)
  moreover have "\<forall>b\<in>{0..<nbits s}. used (deallocate_memory_by_size addr (n * 4096) s') (of_nat b) = used s (of_nat b)"
  proof
    fix b assume b: "b \<in> {0..<nbits s}"
    then have "unat (of_nat b :: u32) = b" using nb by (intro unat_of_nat32) simp
    then show "used (deallocate_memory_by_size addr (n * 4096) s') (of_nat b) = used s (of_nat b)"
      using post b used_unmark_run [OF lim, of s' "of_nat b"]
      by (auto simp: deallocate_memory_by_size_def Let_def n alloc_post_def unat_frame_of run_free_nat)
  qed
  ultimately show ?thesis by simp
qed

theorem deallocate_after_allocate_witness:
  "TOTAL_USED_BLOCKS (deallocate_memory_by_size 0x2000 4096 (snd (allocate_block 1 tiny_pmm))) = 3"
proof -
  have "TOTAL_USED_BLOCKS tiny_pmm = 3" by (simp add: tiny_pmm_def)
  with deallocate_after_allocate [OF tiny_pmm_inv tiny_alloc _ tiny_page] show ?thesis by simp
qed

text \<open>The exhaustion test compares the number of used frames with the number of 32-bit bitmap
  words, so one-frame allocations succeed only while at most one frame in 32 is used: after any
  successful one, 32 times the counter is at most the number of frames of the bitmap.\<close>

theorem allocate_block_one_in_32:
  assumes "pmm_inv s" and "allocate_block 1 s = (addr, s')" and "addr \<noteq> 0"
  shows "32 * unat (TOTAL_USED_BLOCKS s') \<le> nbits s'"
proof -
  have post: "alloc_post s (page addr) 1 s'"
    using allocate_block_1 [OF assms] by simp
  have lt: "unat (TOTAL_USED_BLOCKS s) < unat (TOTAL_BLOCK s)"
    using assms by (auto simp: allocate_block_cases word_less_nat_alt word_le_nat_alt split: if_splits)
  then have "unat (TOTAL_USED_BLOCKS s + 1) = unat (TOTAL_USED_BLOCKS s) + 1"
    using unat_u32_lt [of "TOTAL_BLOCK s"] by (simp add: unat_word_ariths)
  with post lt show ?thesis by (simp add: alloc_post_def nbits_def)
qed

theorem allocate_block_one_in_32_witness:
  "32 * unat (TOTAL_USED_BLOCKS (snd (allocate_block 1 tiny_pmm))) \<le> nbits (snd (allocate_block 1 tiny_pmm))"
  using allocate_block_one_in_32 [OF tiny_pmm_inv tiny_alloc] by simp

lemma init_frame:
  "BIT_MAP (INIT_MEMORY ks ke bp s) = (ke + 0xFFF) AND NOT 0xFFF"
  "TOTAL_BLOCK (INIT_MEMORY ks ke bp s) = TOTAL_BLOCK (get_memory_info (Memory bp) s)"
proof -
  let ?s1 = "reserve_memory (setup_memory_bitmap (get_memory_info (Memory bp) (set_kernel_addr ks ke s)))"
  let ?P = "\<lambda>t. BIT_MAP t = BIT_MAP ?s1 \<and> TOTAL_BLOCK t = TOTAL_BLOCK ?s1"
  have "?P (INIT_MEMORY ks ke bp s)"
    unfolding INIT_MEMORY_def Let_def by (rule fold_invariant_upt) simp_all
  then show "BIT_MAP (INIT_MEMORY ks ke bp s) = (ke + 0xFFF) AND NOT 0xFFF"
    "TOTAL_BLOCK (INIT_MEMORY ks ke bp s) = TOTAL_BLOCK (get_memory_info (Memory bp) s)"
    by (simp_all add: get_memory_info_sizes set_kernel_addr_def get_memory_info_def Let_def)
qed

definition ram_pages :: "BootParams \<Rightarrow> nat" where
  "ram_pages bp = unat (usable_ram (Memory bp)) div 4096"

lemma TOTAL_PAGES_ram_pages: "unat (TOTAL_PAGES (get_memory_info (Memory bp) s)) = ram_pages bp"
  by (simp add: ram_pages_def get_memory_info_def Let_def PER_BLOCK_SIZE_def unat_div)

lemma high_kernel_left_free:
  assumes "0xC0000000 \<le> kernel_start" and "0xC0000000 \<le> kernel_end" and "kernel_end \<le> 0xFFFFF000"
    and "f \<noteq> 0 \<and> f \<noteq> 7" and "f < ram_pages bp" and "f < 0xC0000"
    and "\<forall>i\<in>{0..<unat (ModuleCount bp)}. \<not> module_frame bp i f"
  shows "\<not> used (INIT_MEMORY kernel_start kernel_end bp s) (of_nat f)"
proof
  let ?s0 = "get_memory_info (Memory bp) (set_kernel_addr kernel_start kernel_end s)"
  assume "used (INIT_MEMORY kernel_start kernel_end bp s) (of_nat f)"
  moreover have fu: "unat (of_nat f :: u32) = f" using assms(6) by (intro unat_of_nat32) simp
  ultimately have "used (reserve_memory (setup_memory_bitmap ?s0)) (of_nat f)"
    using assms(7) by (auto simp: INIT_MEMORY_def Let_def module_frame_def dest!: used_reserve_fold)
  moreover have "\<not> page kernel_start \<le> f" "\<not> page ((kernel_end + 0xFFF) AND NOT 0xFFF) \<le> f"
  proof -
    have ge: "0xC0000 \<le> page a" if "0xC0000000 \<le> a" for a
      using that by (simp add: page_def word_le_nat_alt less_eq_div_iff_mult_less_eq)
    have "page kernel_end \<le> page ((kernel_end + 0xFFF) AND NOT 0xFFF)"
      using assms(3) by (intro page_round_up) (simp add: word_le_nat_alt)
    then show "\<not> page kernel_start \<le> f" "\<not> page ((kernel_end + 0xFFF) AND NOT 0xFFF) \<le> f"
      using ge [OF assms(1)] ge [OF assms(2)] assms(6) by simp_all
  qed
  ultimately have "used (setup_memory_bitmap ?s0) (of_nat f)"
    using assms(4) fu by (auto simp: get_memory_info_sizes set_kernel_addr_def dest!: used_reserve_memory)
  moreover have "\<not> used (setup_memory_bitmap ?s0) (of_nat f)"
  proof (rule used_setup)
    have "unat (BITMAP_SIZEB ?s0) = (ram_pages bp + 7) div 8"
      using get_memory_info_sizes(3) [of "Memory bp" "set_kernel_addr kernel_start kernel_end s"]
      by (simp add: get_memory_info_sizes unat_sizes TOTAL_PAGES_ram_pages)
    moreover have "f div 8 < (ram_pages bp + 7) div 8"
      using assms(5) by (simp add: less_eq_div_iff_mult_less_eq Suc_le_eq [symmetric])
    ultimately show "unat (of_nat f :: u32) div 8 < unat (BITMAP_SIZEB ?s0)"
      using fu by simp
  qed
  ultimately show False by simp
qed

text \<open>C3 The kernel is linked at \<open>0xC0000000\<close> but loaded at \<open>0x100000\<close>, and \<open>INIT_MEMORY\<close>
  passes the linked addresses to the reservation: after it, every frame of RAM from
  \<open>0x100000\<close> on that belongs to no boot module is free, those of the loaded kernel image
  included. Only frames 0 and 7 and the modules are reserved below \<open>0xC0000000\<close>.\<close>

theorem kernel_image_left_free:
  assumes "0xC0000000 \<le> kernel_start" and "0xC0000000 \<le> kernel_end" and "kernel_end \<le> 0xFFFFF000"
    and "8 \<le> f" and "f < ram_pages bp" and "f < 0xC0000"
    and "\<forall>i\<in>{0..<unat (ModuleCount bp)}. \<not> module_frame bp i f"
  shows "\<not> used (INIT_MEMORY kernel_start kernel_end bp s) (of_nat f)"
  using assms by (intro high_kernel_left_free) simp_all

text \<open>A boot hand-over with one usable region of 16 MiB and no module.\<close>

definition boot_16M :: BootParams where
  "boot_16M = \<lparr>Memory = \<lparr>RegionCount = 1,
       Regions = (\<lambda>_. \<lparr>Begin_Low = 0, Begin_High = 0, Length_Low = 0x1000000, Length_High = 0,
                        Type = 1, ACPI = 0\<rparr>)\<rparr>,
     BootDevice = 0, ModuleCount = 0,
     Modules = (\<lambda>_. \<lparr>image_data = 0, image_size = 0, image_name = []\<rparr>)\<rparr>"

lemma boot_16M_ram: "usable_ram (Memory boot_16M) = 0x1000000"
  by (simp add: boot_16M_def usable_ram_def region_length_def)

theorem kernel_image_left_free_witness:
  "\<not> used (INIT_MEMORY 0xC0000000 0xC0008000 boot_16M tiny_pmm) 0x100"
proof -
  have "\<not> used (INIT_MEMORY 0xC0000000 0xC0008000 boot_16M tiny_pmm) (of_nat 0x100)"
    by (rule kernel_image_left_free)
      (simp_all add: ram_pages_def boot_16M_ram word_le_nat_alt, simp add: boot_16M_def)
  then show ?thesis by simp
qed

text \<open>The memory size is the sum, modulo \<open>2^32\<close>, of the low halves of the lengths of the
  usable regions: the high half of a length never matters, so memory above 4 GiB is counted modulo
  4 GiB.\<close>

theorem usable_ram_sum:
  "usable_ram memory =
     sum_list (map (\<lambda>i. if Type (Regions memory i) = 1 then Length_Low (Regions memory i) else 0)
                [0..<nat (sint (RegionCount memory))])"
proof -
  have step: "ucast (ucast t + region_length r) = t + Length_Low r" for t :: u32 and r
  proof -
    have "ucast (region_length r) = Length_Low r"
      unfolding region_length_def by (rule bit_word_eqI) (auto simp: bit_simps)
    moreover have "ucast (ucast t + x) = t + ucast x" for x :: u64
    proof transfer
      fix t x :: int
      have "take_bit 32 (take_bit 64 (take_bit 32 t + x)) = take_bit 32 (take_bit 32 t + x)"
        by simp
      also have "\<dots> = take_bit 32 (take_bit 32 (take_bit 32 t) + take_bit 32 x)"
        by (simp only: take_bit_add)
      also have "\<dots> = take_bit 32 (take_bit 32 t + take_bit 32 (take_bit 64 x))"
        by simp
      also have "\<dots> = take_bit 32 (t + take_bit 64 x)"
        by (simp only: take_bit_add)
      finally show "take_bit LENGTH(32) (take_bit LENGTH(64) (take_bit LENGTH(32) t + x)) =
          take_bit LENGTH(32) (t + take_bit LENGTH(64) x)" by simp
    qed
    ultimately show ?thesis by simp
  qed
  have "fold (\<lambda>i total. if Type (Regions memory i) = 1
           then ucast (ucast total + region_length (Regions memory i)) else total) [0..<n] 0 =
     sum_list (map (\<lambda>i. if Type (Regions memory i) = 1 then Length_Low (Regions memory i) else 0) [0..<n])"
    for n
    by (induction n) (simp_all add: step)
  then show ?thesis by (simp add: usable_ram_def)
qed

lemma INIT_MEMORY_inv:
  assumes "0xC0000000 \<le> kernel_end" and "kernel_end \<le> 0xFFF00000"
    and "TOTAL_USED_BLOCKS s = 0" and "0 < ram_pages bp" and "ram_pages bp \<le> 0xBFFE0"
  shows "pmm_inv (INIT_MEMORY kernel_start kernel_end bp s)"
proof -
  let ?s0 = "get_memory_info (Memory bp) (set_kernel_addr kernel_start kernel_end s)"
  let ?s1 = "setup_memory_bitmap ?s0"
  let ?S = "INIT_MEMORY kernel_start kernel_end bp s"
  have tb: "unat (TOTAL_BLOCK ?S) = (ram_pages bp + 31) div 32"
    using unat_sizes(1) [OF get_memory_info_sizes(3) [of "Memory bp" s]]
    by (simp add: init_frame get_memory_info_sizes TOTAL_PAGES_ram_pages)
  then have nb: "nbits ?S \<le> 0xBFFFF" and tb_le: "unat (TOTAL_BLOCK ?S) \<le> 0x6000"
    using assms(5) by (simp_all add: nbits_def)
  have "used (reserve_memory_block 0x0 0x500 ?s1) 0"
  proof -
    have "TOTAL_BLOCK ?s1 = TOTAL_BLOCK ?S"
      by (simp add: init_frame get_memory_info_def set_kernel_addr_def Let_def)
    moreover have "TOTAL_USED_BLOCKS ?s1 = 0"
      using assms(3) by (simp add: setup_memory_bitmap_def get_memory_info_def set_kernel_addr_def Let_def)
    moreover have "0 < unat (TOTAL_BLOCK ?S)"
      unfolding tb using assms(4) by (simp add: div_greater_zero_iff)
    ultimately show ?thesis
      by (auto simp: used_reserve page_def pages_of_def PER_BLOCK_SIZE_def word_gt_0)
  qed
  then have "used (reserve_memory ?s1) 0"
    by (simp add: reserve_memory_def Let_def used_reserve)
  then have u0: "used ?S 0"
    unfolding INIT_MEMORY_def Let_def
    by (intro fold_invariant_upt [where P = "\<lambda>t. used t 0"]) (simp_all add: used_reserve)
  have "nbits ?S \<le> page a" if "in_bitmap ?S a" for a
  proof -
    let ?B = "(kernel_end + 0xFFF) AND NOT 0xFFF"
    have up: "unat ?B = (unat kernel_end + 0xFFF) div 4096 * 4096"
      using assms(2) by (intro unat_round_up) (simp add: word_le_nat_alt)
    have B: "0xC0000000 \<le> unat ?B" "unat ?B \<le> 0xFFF00FFF"
      unfolding up using assms(1,2) div_times_less_eq_dividend [of "unat kernel_end + 0xFFF" 4096]
      by (auto simp: word_le_nat_alt) 
    have "unat ?B \<le> unat a"
      using that B tb_le by (simp add: in_bitmap_def init_frame in_range_unat)
    then have "0xC0000 \<le> page a" using B by (simp add: page_def less_eq_div_iff_mult_less_eq)
    then show ?thesis using nb by simp
  qed
  then show ?thesis
    using nb u0 by (auto simp: pmm_inv_def not_less [symmetric])
qed

text \<open>C4 With the kernel in the higher half and at most 3 GiB of RAM, \<open>INIT_MEMORY\<close>
  establishes the allocator's invariant: frame 0 is reserved, so a returned address 0 always
  means failure.\<close>

theorem INIT_MEMORY_establishes_inv:
  assumes "0xC0000000 \<le> kernel_end" and "kernel_end \<le> 0xFFF00000"
    and "TOTAL_USED_BLOCKS s = 0" and "0 < ram_pages bp" and "ram_pages bp \<le> 0xBFFE0"
  shows "pmm_inv (INIT_MEMORY kernel_start kernel_end bp s)"
  using assms by (rule INIT_MEMORY_inv)

theorem INIT_MEMORY_establishes_inv_witness:
  "pmm_inv (INIT_MEMORY 0xC0000000 0xC0008000 boot_16M (tiny_pmm\<lparr>TOTAL_USED_BLOCKS := 0\<rparr>))"
  by (rule INIT_MEMORY_establishes_inv)
    (simp_all add: ram_pages_def boot_16M_ram word_le_nat_alt)

text \<open>Successive one-frame allocations that all succeed return pairwise different frames, none
  of which was in use before, and no frame in use is given up.\<close>

theorem successive_frames_distinct:
  assumes "pmm_inv (S 0)"
    and "\<And>i. i < n \<Longrightarrow> allocate_block 1 (S i) = (A i, S (Suc i)) \<and> A i \<noteq> 0"
  shows "pmm_inv (S n) \<and> (\<forall>f. taken (S 0) f \<longrightarrow> taken (S n) f) \<and>
    (\<forall>i<n. taken (S n) (page (A i)) \<and> \<not> taken (S 0) (page (A i)) \<and>
       (\<forall>j<i. page (A j) \<noteq> page (A i)))"
  using assms by (rule pa.allocs_distinct)

theorem successive_frames_distinct_witness:
  "taken (snd (allocate_block 1 tiny_pmm)) 2 \<and> \<not> taken tiny_pmm 2"
proof -
  define S where "S = (\<lambda>i :: nat. if i = 0 then tiny_pmm else snd (allocate_block 1 tiny_pmm))"
  have "pmm_inv (S 0)" by (simp add: S_def tiny_pmm_inv)
  moreover have "allocate_block 1 (S i) = (0x2000, S (Suc i)) \<and> (0x2000 :: u32) \<noteq> 0" if "i < 1" for i
    using that tiny_alloc by (simp add: S_def)
  ultimately show ?thesis
    using successive_frames_distinct [of S 1 "\<lambda>_. 0x2000"] by (simp add: S_def page_def)
qed

end
