(* ===== verification/Vmm.thy ===== *)
theory Vmm
  imports Pmm
begin

text \<open>
  The virtual memory manager, \<open>src/kernel/mm/vmm/vmm.c\<close>: two-level i686 page tables in
  the flat memory.

  The state extends the physical memory manager's with the pointer to the page directory, the
  control registers CR0 and CR3 and the interrupt flag (\<open>flush_tlb_entry\<close> ends with
  \<open>sti\<close>). Page directories and page tables are not separate objects: an entry is the
  32-bit cell at its address, and the tables come from \<open>allocate_block\<close>.

  \<open>walk\<close> is the page walk of the processor, the specification the operations are measured
  against. \<open>vm_inv\<close> says that the directory and the tables lie in distinct frames the
  allocator has handed out; the lemmas show that every operation keeps it and what it does to the
  walk of every virtual address. The TLB is not modelled.
\<close>

section \<open>State and macros\<close>

record vmm = pmm +
  current_page_directory :: u32
  CR0 :: u32
  CR3 :: u32
  IF_flag :: bool

definition PAGE_SIZE :: u32 where "PAGE_SIZE = 4096"
definition KERNEL_ADDRESS :: u32 where "KERNEL_ADDRESS = 0x100000"
definition PTE_PRESENT :: u32 where "PTE_PRESENT = 0x01"
definition PTE_READ_WRITE :: u32 where "PTE_READ_WRITE = 0x02"
definition PTE_USER :: u32 where "PTE_USER = 0x04"
definition PDE_PRESENT :: u32 where "PDE_PRESENT = 0x01"
definition PDE_READ_WRITE :: u32 where "PDE_READ_WRITE = 0x02"
definition PDE_USER :: u32 where "PDE_USER = 0x04"

definition PD_INDEX :: "u32 \<Rightarrow> u32" where
  "PD_INDEX address = drop_bit 22 address"

definition PT_INDEX :: "u32 \<Rightarrow> u32" where
  "PT_INDEX address = drop_bit 12 address AND 0x3FF"

definition PAGE_PHYS_ADDRESS :: "u32 \<Rightarrow> u32" where
  "PAGE_PHYS_ADDRESS dir_entry = dir_entry AND NOT 0xFFF"

definition SET_ATTRIBUTE :: "u32 \<Rightarrow> u32 \<Rightarrow> u32" where
  "SET_ATTRIBUTE entry attr = entry OR attr"

definition CLEAR_ATTRIBUTE :: "u32 \<Rightarrow> u32 \<Rightarrow> u32" where
  "CLEAR_ATTRIBUTE entry attr = entry AND NOT attr"

definition SET_FRAME :: "u32 \<Rightarrow> u32 \<Rightarrow> u32" where
  "SET_FRAME entry address = (entry AND NOT 0x7FFFF000) OR address"

text \<open>The macros take a pointer to the entry; \<open>update32 a f\<close> applies one to the cell at \<open>a\<close>.\<close>

definition update32 :: "u32 \<Rightarrow> (u32 \<Rightarrow> u32) \<Rightarrow> 'a pmm_scheme \<Rightarrow> 'a pmm_scheme" where
  "update32 a f s = s\<lparr>mem := store32 (mem s) a (f (load32 (mem s) a))\<rparr>"

text \<open>\<open>&pd->entries[PD_INDEX(va)]\<close> and \<open>&table->entries[PT_INDEX(va)]\<close>.\<close>

definition pd_entry_addr :: "'a vmm_scheme \<Rightarrow> u32 \<Rightarrow> u32" where
  "pd_entry_addr s va = current_page_directory s + 4 * PD_INDEX va"

definition pt_entry_addr :: "u32 \<Rightarrow> u32 \<Rightarrow> u32" where
  "pt_entry_addr table va = table + 4 * PT_INDEX va"

section \<open>Operations\<close>

definition setup_page_directory_table :: "'a vmm_scheme \<Rightarrow> bool \<times> 'a vmm_scheme" where
  "setup_page_directory_table s =
     (let (dir, s1) = allocate_block 1 s; s2 = s1\<lparr>current_page_directory := dir\<rparr>
      in if dir = 0 then (False, s2)
         else let s3 = s2\<lparr>mem := memset (mem s2) dir 0 4096\<rparr>
              in (True, fold (\<lambda>i. update32 (dir + 4 * of_nat i) (\<lambda>_. 0)) [0..<1024] s3))"

text \<open>The loop that fills a table with consecutive frames, and the directory entry that points
  to it; shared by the two mapping functions, which differ in the first frame and address.\<close>

definition fill_table :: "u32 \<Rightarrow> u32 \<Rightarrow> u32 \<Rightarrow> 'a vmm_scheme \<Rightarrow> 'a vmm_scheme" where
  "fill_table table frame virt s =
     fold (\<lambda>i. update32 (pt_entry_addr table (virt + of_nat i * PAGE_SIZE))
             (\<lambda>_. SET_FRAME (SET_ATTRIBUTE (SET_ATTRIBUTE 0 PTE_PRESENT) PTE_READ_WRITE)
                     (frame + of_nat i * PAGE_SIZE))) [0..<1024] s"

definition link_table :: "u32 \<Rightarrow> u32 \<Rightarrow> 'a vmm_scheme \<Rightarrow> 'a vmm_scheme" where
  "link_table table virt s =
     update32 (pd_entry_addr s virt)
       (\<lambda>entry. SET_FRAME (SET_ATTRIBUTE (SET_ATTRIBUTE entry PDE_PRESENT) PDE_READ_WRITE) table) s"

definition setup_higher_half_kernel :: "'a vmm_scheme \<Rightarrow> bool \<times> 'a vmm_scheme" where
  "setup_higher_half_kernel s =
     (let (table, s1) = allocate_block 1 s
      in if table = 0 then (False, s1)
         else let s2 = s1\<lparr>mem := memset (mem s1) table 0 4096\<rparr>
              in (True, link_table table 0xC0000000 (fill_table table KERNEL_ADDRESS 0xC0000000 s2)))"

definition setup_page_table :: "'a vmm_scheme \<Rightarrow> bool \<times> 'a vmm_scheme" where
  "setup_page_table s =
     (let (table, s1) = allocate_block 1 s
      in if table = 0 then (False, s1)
         else let s2 = s1\<lparr>mem := memset (mem s1) table 0 4096\<rparr>
              in (True, link_table table 0 (fill_table table 0 0 s2)))"

definition enable_paging :: "'a vmm_scheme \<Rightarrow> bool \<times> 'a vmm_scheme" where
  "enable_paging s = (True, s\<lparr>CR0 := CR0 s OR 0x80000001\<rparr>)"

definition set_page_directory :: "'a vmm_scheme \<Rightarrow> bool \<times> 'a vmm_scheme" where
  "set_page_directory s =
     (if current_page_directory s = 0 then (False, s)
      else (True, s\<lparr>CR3 := current_page_directory s\<rparr>))"

definition get_page :: "u32 \<Rightarrow> 'a vmm_scheme \<Rightarrow> u32" where
  "get_page address s =
     pt_entry_addr (PAGE_PHYS_ADDRESS (load32 (mem s) (pd_entry_addr s address))) address"

text \<open>The only caller passes a local variable, so the entry is a value that is returned updated.\<close>

definition allocate_page :: "u32 \<Rightarrow> 'a vmm_scheme \<Rightarrow> u32 \<times> u32 \<times> 'a vmm_scheme" where
  "allocate_page entry s =
     (let (block, s1) = allocate_block 1 s
      in if block \<noteq> 0 then (block, SET_ATTRIBUTE (SET_FRAME entry block) PTE_PRESENT, s1)
         else (block, entry, s1))"

definition flush_tlb_entry :: "u32 \<Rightarrow> 'a vmm_scheme \<Rightarrow> 'a vmm_scheme" where
  "flush_tlb_entry address s = s\<lparr>IF_flag := True\<rparr>"

definition free_page :: "u32 \<Rightarrow> 'a vmm_scheme \<Rightarrow> 'a vmm_scheme" where
  "free_page entry s =
     (let address = PAGE_PHYS_ADDRESS (load32 (mem s) entry);
          s1 = (if address \<noteq> 0 then deallocate_memory_by_size address 1 s else s)
      in update32 entry (\<lambda>e. CLEAR_ATTRIBUTE e PTE_PRESENT) s1)"

definition unmap_page :: "u32 \<Rightarrow> 'a vmm_scheme \<Rightarrow> 'a vmm_scheme" where
  "unmap_page virt_address s =
     update32 (get_page virt_address s)
       (\<lambda>e. CLEAR_ATTRIBUTE (SET_FRAME e 0) PTE_PRESENT) s"

definition map_page :: "u32 \<Rightarrow> u32 \<Rightarrow> 'a vmm_scheme \<Rightarrow> bool \<times> 'a vmm_scheme" where
  "map_page phys_address virt_address s =
     (let entry = pd_entry_addr s virt_address;
          (ok, s1) =
            (if load32 (mem s) entry AND PTE_PRESENT \<noteq> PTE_PRESENT then
               let (table, s1) = allocate_block 1 s
               in if table = 0 then (False, s1)
                  else let s2 = s1\<lparr>mem := memset (mem s1) table 0 4096\<rparr>
                       in (True, update32 entry (\<lambda>e. SET_FRAME (SET_ATTRIBUTE (SET_ATTRIBUTE e
                                    PDE_PRESENT) PDE_READ_WRITE) table) s2)
             else (True, s))
      in if \<not> ok then (False, s1)
         else let table = PAGE_PHYS_ADDRESS (load32 (mem s1) entry)
              in (True, update32 (pt_entry_addr table virt_address)
                          (\<lambda>e. SET_FRAME (SET_ATTRIBUTE e PTE_PRESENT) phys_address) s1))"

definition map_page_user :: "u32 \<Rightarrow> u32 \<Rightarrow> 'a vmm_scheme \<Rightarrow> bool \<times> 'a vmm_scheme" where
  "map_page_user phys_address virt_address s =
     (let entry = pd_entry_addr s virt_address;
          (ok, s1) =
            (if load32 (mem s) entry AND PDE_PRESENT \<noteq> PDE_PRESENT then
               let (table, s1) = allocate_block 1 s
               in if table = 0 then (False, s1)
                  else let s2 = s1\<lparr>mem := memset (mem s1) table 0 4096\<rparr>
                       in (True, update32 entry (\<lambda>e. SET_FRAME (SET_ATTRIBUTE (SET_ATTRIBUTE
                                    (SET_ATTRIBUTE e PDE_PRESENT) PDE_READ_WRITE) PDE_USER) table) s2)
             else (True, update32 entry (\<lambda>e. SET_ATTRIBUTE e PDE_USER) s))
      in if \<not> ok then (False, s1)
         else let table = PAGE_PHYS_ADDRESS (load32 (mem s1) entry)
              in (True, flush_tlb_entry virt_address
                    (update32 (pt_entry_addr table virt_address)
                       (\<lambda>e. SET_FRAME (SET_ATTRIBUTE (SET_ATTRIBUTE (SET_ATTRIBUTE e
                              PTE_PRESENT) PTE_READ_WRITE) PTE_USER) phys_address) s1)))"

definition INITIALIZE_VMEMORY :: "'a vmm_scheme \<Rightarrow> bool \<times> 'a vmm_scheme" where
  "INITIALIZE_VMEMORY s =
     (let s1 = snd (setup_page_directory_table s);
          s2 = snd (setup_higher_half_kernel s1);
          s3 = snd (setup_page_table s2);
          s4 = snd (set_page_directory s3)
      in (True, snd (enable_paging s4)))"

section \<open>The processor's page walk\<close>

text \<open>
  The translation of a linear address through 4 KiB pages (CR4.PSE is never set): both entries
  must be present; the frame comes from the table entry, the offset from the address.
\<close>

definition walk :: "ram \<Rightarrow> u32 \<Rightarrow> u32 \<Rightarrow> u32 option" where
  "walk m dir va =
     (let pde = load32 m (dir + 4 * PD_INDEX va)
      in if \<not> bit pde 0 then None
         else let pte = load32 m (PAGE_PHYS_ADDRESS pde + 4 * PT_INDEX va)
              in if \<not> bit pte 0 then None
                 else Some (PAGE_PHYS_ADDRESS pte OR (va AND 0xFFF)))"

text \<open>Ring 3 may use an address only when both entries carry the user bit.\<close>

definition user_ok :: "ram \<Rightarrow> u32 \<Rightarrow> u32 \<Rightarrow> bool" where
  "user_ok m dir va =
     (let pde = load32 m (dir + 4 * PD_INDEX va);
          pte = load32 m (PAGE_PHYS_ADDRESS pde + 4 * PT_INDEX va)
      in walk m dir va \<noteq> None \<and> bit pde 2 \<and> bit pte 2)"

section \<open>Indices and entries\<close>

definition pdi :: "u32 \<Rightarrow> nat" where "pdi va = unat va div 4194304"
definition pti :: "u32 \<Rightarrow> nat" where "pti va = unat va div 4096 mod 1024"

lemma pdi_lt [simp]: "pdi va < 1024"
  using unat_u32_lt [of va] by (simp add: pdi_def)

lemma pti_lt [simp]: "pti va < 1024"
  by (simp add: pti_def)

lemma PD_INDEX_eq: "PD_INDEX va = of_nat (pdi va)"
  by (simp add: PD_INDEX_def pdi_def drop_bit_eq_div word_arith_nat_div)

lemma PT_INDEX_eq: "PT_INDEX va = of_nat (pti va)"
proof -
  have m: "(0x3FF :: u32) = mask 10" by (simp add: mask_eq_exp_minus_1)
  have "PT_INDEX va = va div 4096 mod 1024"
    unfolding PT_INDEX_def m take_bit_eq_mask [symmetric] take_bit_eq_mod drop_bit_eq_div by simp
  then have "unat (PT_INDEX va) = pti va"
    by (simp add: pti_def unat_div unat_mod)
  moreover have "unat (of_nat (pti va) :: u32) = pti va"
    by (rule unat_of_nat32, rule order_less_trans [OF pti_lt]) simp
  ultimately show ?thesis by (simp add: word_unat_eq_iff)
qed

lemma page_pdi_pti: "page va = pdi va * 1024 + pti va"
  by (simp add: page_def pdi_def pti_def div_mult2_eq [of _ 4096 1024, simplified])

lemma page_div_mod: "page va div 1024 = pdi va" "page va mod 1024 = pti va"
  by (simp_all add: page_pdi_pti)

lemma same_page_iff: "page va = page vb \<longleftrightarrow> pdi va = pdi vb \<and> pti va = pti vb"
  by (metis page_div_mod page_pdi_pti)

lemma PAGE_PHYS_eq: "PAGE_PHYS_ADDRESS e = of_nat (page e) * 4096"
  by (simp add: PAGE_PHYS_ADDRESS_def and_not_FFF [simplified] page_def word_arith_nat_div)

lemma PAGE_PHYS_frame: "f < 0x100000 \<Longrightarrow> PAGE_PHYS_ADDRESS (of_nat f * 4096) = of_nat f * 4096"
  by (simp add: PAGE_PHYS_eq page_frame_addr)

lemma page_PAGE_PHYS [simp]: "page (PAGE_PHYS_ADDRESS e) = page e"
  by (simp add: PAGE_PHYS_eq page_frame_addr page_lt)

text \<open>An entry built by \<open>SET_FRAME\<close> keeps its flags and points to the new frame, except that
  bit 31 of the old entry survives, because the mask \<open>0x7FFFF000\<close> has only 19 frame bits.\<close>

lemma mask_frame: "(0x7FFFF000 :: u32) = push_bit 12 (mask 19)"
  by (simp add: mask_eq_exp_minus_1 push_bit_eq_mult)

lemma bit_SET_FRAME:
  assumes "PAGE_PHYS_ADDRESS pa = pa" "n < 32"
  shows "bit (SET_FRAME e pa) n \<longleftrightarrow> (if n < 12 then bit e n else if n = 31 then bit e n \<or> bit pa n else bit pa n)"
proof -
  have "bit pa n \<longrightarrow> 12 \<le> n"
    using assms(1) unfolding PAGE_PHYS_ADDRESS_def mask_12
    by (metis bit_and_iff bit_mask_iff bit_not_iff assms(2) len_bit0 len_num1 mult.right_neutral
        not_le possible_bit_word)
  with assms(2) show ?thesis
    unfolding SET_FRAME_def mask_frame by (auto simp: bit_simps)
qed

lemma page_SET_FRAME:
  assumes "PAGE_PHYS_ADDRESS pa = pa" "bit e 31 \<longrightarrow> bit pa 31"
  shows "PAGE_PHYS_ADDRESS (SET_FRAME e pa) = pa"
proof (rule bit_word_eqI)
  fix n assume n: "n < LENGTH(32)"
  have "bit pa n \<longrightarrow> 12 \<le> n"
    using assms(1) n unfolding PAGE_PHYS_ADDRESS_def mask_12
    by (metis bit_and_iff bit_mask_iff bit_not_iff not_le possible_bit_word)
  with n assms bit_SET_FRAME [OF assms(1), of n e]
  show "bit (PAGE_PHYS_ADDRESS (SET_FRAME e pa)) n = bit pa n"
    unfolding PAGE_PHYS_ADDRESS_def mask_12 by (auto simp: bit_simps)
qed

section \<open>The invariant of the page tables\<close>

text \<open>Entry \<open>k\<close> of the table or directory in frame \<open>f\<close>.\<close>

definition entry :: "ram \<Rightarrow> nat \<Rightarrow> nat \<Rightarrow> u32" where
  "entry m f k = load32 m (of_nat f * 4096 + 4 * of_nat k)"

definition dirf :: "'a vmm_scheme \<Rightarrow> nat" where
  "dirf s = page (current_page_directory s)"

definition pde :: "'a vmm_scheme \<Rightarrow> nat \<Rightarrow> u32" where
  "pde s i = entry (mem s) (dirf s) i"

text \<open>A frame the allocator has handed out and keeps no data of its own in.\<close>

definition owned :: "'a pmm_scheme \<Rightarrow> nat \<Rightarrow> bool" where
  "owned s f \<longleftrightarrow> f < 0x100000 \<and> taken s f \<and> (\<forall>a. page a = f \<longrightarrow> \<not> in_bitmap s a)"

definition vm_inv :: "'a vmm_scheme \<Rightarrow> bool" where
  "vm_inv s \<longleftrightarrow> pmm_inv s \<and> current_page_directory s = of_nat (dirf s) * 4096 \<and>
     owned s (dirf s) \<and>
     (\<forall>i<1024. pde s i \<noteq> 0 \<longrightarrow> bit (pde s i) 0 \<and> owned s (page (pde s i)) \<and>
        page (pde s i) \<noteq> dirf s) \<and>
     (\<forall>i<1024. \<forall>j<1024. i \<noteq> j \<longrightarrow> pde s i \<noteq> 0 \<longrightarrow> pde s j \<noteq> 0 \<longrightarrow>
        page (pde s i) \<noteq> page (pde s j))"

text \<open>The frames that hold the directory and the tables.\<close>

definition pt_frame :: "'a vmm_scheme \<Rightarrow> nat \<Rightarrow> bool" where
  "pt_frame s f \<longleftrightarrow> f = dirf s \<or> (\<exists>i<1024. pde s i \<noteq> 0 \<and> page (pde s i) = f)"

lemma entry_page:
  assumes "f < 0x100000" "k < 1024" "in_range (of_nat f * 4096 + 4 * of_nat k) 4 a"
  shows "page a = f"
proof -
  define j where "j = unat (a - (of_nat f * 4096 + 4 * of_nat k))"
  have j: "j < 4" "a = of_nat f * 4096 + 4 * of_nat k + of_nat j"
    using assms(3) unat_sub_of_nat by (auto simp: in_range_def j_def)
  then have "a = of_nat (f * 4096 + (4 * k + j))" by simp
  moreover have "f * 4096 + (4 * k + j) < 4294967296" using assms(1,2) j(1) by linarith
  ultimately have "unat a = f * 4096 + (4 * k + j)" by (metis unat_of_nat32)
  moreover have "(f * 4096 + (4 * k + j)) div 4096 = f" using assms(2) j(1) by simp
  ultimately show ?thesis by (simp add: page_def)
qed

lemma entry_cong:
  assumes "f < 0x100000" "k < 1024" "\<And>a. page a = f \<Longrightarrow> m' a = m a"
  shows "entry m' f k = entry m f k"
  unfolding entry_def by (rule load32_cong) (use assms entry_page in blast)

lemma entry_store:
  assumes "f < 0x100000" "k < 1024" "g < 0x100000" "l < 1024"
  shows "entry (store32 m (of_nat f * 4096 + 4 * of_nat k) v) g l =
    (if g = f \<and> l = k then v else entry m g l)"
proof (cases "g = f \<and> l = k")
  case True
  then show ?thesis by (simp add: entry_def)
next
  case False
  have "apart (of_nat g * 4096 + 4 * of_nat l) 4 (of_nat f * 4096 + 4 * of_nat k) 4"
  proof (cases "g = f")
    case True
    then show ?thesis using False assms by (auto intro!: apart_cells)
  next
    case ne: False
    show ?thesis
      unfolding apart_def using entry_page assms ne by metis
  qed
  then show ?thesis using False by (auto simp: entry_def load32_store32_apart)
qed

lemma store_entry_other_page:
  assumes "f < 0x100000" "k < 1024" "page a \<noteq> f"
  shows "store32 m (of_nat f * 4096 + 4 * of_nat k) v a = m a"
  using entry_page [OF assms(1,2)] assms(3) by (intro store32_outside) blast

lemma walk_entry:
  assumes "dir = of_nat d * 4096"
  shows "walk m dir va =
    (let e = entry m d (pdi va) in if \<not> bit e 0 then None
     else let p = entry m (page e) (pti va) in if \<not> bit p 0 then None
          else Some (PAGE_PHYS_ADDRESS p OR (va AND 0xFFF)))"
  by (simp add: walk_def entry_def assms PD_INDEX_eq PT_INDEX_eq PAGE_PHYS_eq Let_def)

section \<open>Writing a table entry\<close>

text \<open>The cell of entry \<open>k\<close> in frame \<open>f\<close>.\<close>

definition at :: "nat \<Rightarrow> nat \<Rightarrow> u32" where
  "at f k = of_nat f * 4096 + 4 * of_nat k"

lemma update32_shape: "update32 a g s = s\<lparr>mem := store32 (mem s) a (g (load32 (mem s) a))\<rparr>"
  by (simp add: update32_def)

lemma update32_frame [simp, frame_facts]:
  "BIT_MAP (update32 a g s) = BIT_MAP s" "TOTAL_BLOCK (update32 a g s) = TOTAL_BLOCK s"
  "TOTAL_USED_BLOCKS (update32 a g s) = TOTAL_USED_BLOCKS s"
  "nbits (update32 a g s) = nbits s" "in_bitmap (update32 a g s) = in_bitmap s"
  by (simp_all add: update32_def nbits_def in_bitmap_def fun_eq_iff)

lemma update32_vm_frame [simp, frame_facts]:
  "current_page_directory (update32 a g s) = current_page_directory s"
  "dirf (update32 a g s) = dirf s" "CR3 (update32 a g s) = CR3 s" "CR0 (update32 a g s) = CR0 s"
  "pd_entry_addr (update32 a g s) va = pd_entry_addr s va"
  for s :: "'a vmm_scheme"
  by (simp_all add: update32_def dirf_def pd_entry_addr_def)

lemma entry_update32:
  assumes "f < 0x100000" "k < 1024" "h < 0x100000" "l < 1024"
  shows "entry (mem (update32 (at f k) g s)) h l =
    (if h = f \<and> l = k then g (entry (mem s) f k) else entry (mem s) h l)"
  using entry_store [OF assms] by (simp add: update32_def at_def entry_def)

lemma update32_other_page:
  "f < 0x100000 \<Longrightarrow> k < 1024 \<Longrightarrow> page a \<noteq> f \<Longrightarrow> mem (update32 (at f k) g s) a = mem s a"
  by (simp add: update32_def at_def store_entry_other_page)

text \<open>Writing outside the bitmap leaves the allocator's view alone.\<close>

lemma owned_update32:
  assumes "pmm_inv s" "owned s f" "k < 1024"
  shows "pmm_inv (update32 (at f k) g s)" "taken (update32 (at f k) g s) = taken s"
    "owned (update32 (at f k) g s) = owned s"
proof -
  have nb: "nbits s \<le> 0x100000" using assms(1) by (simp add: pmm_inv_def)
  have "mem (update32 (at f k) g s) a = mem s a" if "in_bitmap s a" for a
    using assms(2,3) that by (auto simp: owned_def intro!: update32_other_page)
  then have u: "used (update32 (at f k) g s) (of_nat b) = used s (of_nat b)" if "b < nbits s" for b
    using that nb by (intro used_cong_bitmap) auto
  then show t: "taken (update32 (at f k) g s) = taken s"
    by (auto simp: taken_def fun_eq_iff)
  then show "owned (update32 (at f k) g s) = owned s"
    by (simp add: owned_def fun_eq_iff)
  show "pmm_inv (update32 (at f k) g s)"
  proof (cases "0 < nbits s")
    case True
    with u [of 0] show ?thesis using assms(1) u by (auto simp: pmm_inv_def)
  next
    case False
    then show ?thesis using assms(2) by (simp add: owned_def taken_def)
  qed
qed

lemma vm_invD:
  assumes "vm_inv s"
  shows "pmm_inv s" "current_page_directory s = of_nat (dirf s) * 4096" "owned s (dirf s)"
    "dirf s < 0x100000"
    "\<And>i. i < 1024 \<Longrightarrow> pde s i \<noteq> 0 \<Longrightarrow> bit (pde s i) 0"
    "\<And>i. i < 1024 \<Longrightarrow> pde s i \<noteq> 0 \<Longrightarrow> owned s (page (pde s i))"
    "\<And>i. i < 1024 \<Longrightarrow> pde s i \<noteq> 0 \<Longrightarrow> page (pde s i) \<noteq> dirf s"
    "\<And>i j. i < 1024 \<Longrightarrow> j < 1024 \<Longrightarrow> pde s i \<noteq> 0 \<Longrightarrow> pde s j \<noteq> 0 \<Longrightarrow>
       page (pde s i) = page (pde s j) \<Longrightarrow> i = j"
  using assms by (auto simp: vm_inv_def owned_def)

lemma pd_entry_at: "vm_inv s \<Longrightarrow> pd_entry_addr s va = at (dirf s) (pdi va)"
  by (metis PD_INDEX_eq at_def pd_entry_addr_def vm_invD(2))

lemma pt_entry_at: "pt_entry_addr (PAGE_PHYS_ADDRESS e) va = at (page e) (pti va)"
  by (simp add: pt_entry_addr_def PT_INDEX_eq PAGE_PHYS_eq at_def)

lemma load_at: "load32 m (at f k) = entry m f k"
  by (simp add: at_def entry_def)

text \<open>Writing an entry of an existing table.\<close>

lemma write_pte:
  assumes inv: "vm_inv s" and i: "i < 1024" "pde s i \<noteq> 0" and k: "k < 1024"
    and s': "s' = update32 (at (page (pde s i)) k) g s"
  shows "vm_inv s'" "\<And>j. j < 1024 \<Longrightarrow> pde s' j = pde s j" "pt_frame s' = pt_frame s"
    "taken s' = taken s" "owned s' = owned s"
proof -
  note D = vm_invD [OF inv]
  have own: "owned s (page (pde s i))" using D(6) i by simp
  have ne: "dirf s \<noteq> page (pde s i)" using D(7) [OF i] by simp
  note U = owned_update32 [OF D(1) own k, of g]
  show pde: "pde s' j = pde s j" if "j < 1024" for j
    using that ne D(4) i k by (simp add: pde_def s' entry_update32 page_lt)
  show "vm_inv s'"
    using inv U pde unfolding vm_inv_def by (simp add: s' pde_def)
  show "pt_frame s' = pt_frame s"
    using pde by (auto simp: pt_frame_def fun_eq_iff s' pde_def)
  show "taken s' = taken s" "owned s' = owned s" using U by (simp_all add: s')
qed

lemma walk_write_pte:
  assumes inv: "vm_inv s" and i: "pde s (pdi va) \<noteq> 0"
    and s': "s' = update32 (at (page (pde s (pdi va))) (pti va)) g s"
  shows "walk (mem s') (current_page_directory s) vb =
    (if page vb = page va
     then let p = g (entry (mem s) (page (pde s (pdi va))) (pti va))
          in if bit p 0 then Some (PAGE_PHYS_ADDRESS p OR (vb AND 0xFFF)) else None
     else walk (mem s) (current_page_directory s) vb)"
proof -
  note D = vm_invD [OF inv]
  note W = write_pte [OF inv pdi_lt i pti_lt s']
  have e': "entry (mem s') (dirf s) (pdi vb) = pde s (pdi vb)"
    using W(2) [of "pdi vb"] by (simp add: pde_def s')
  have e: "entry (mem s) (dirf s) (pdi vb) = pde s (pdi vb)" by (simp add: pde_def)
  have p: "entry (mem s') (page (pde s (pdi vb))) (pti vb) =
     (if page (pde s (pdi vb)) = page (pde s (pdi va)) \<and> pti vb = pti va
      then g (entry (mem s) (page (pde s (pdi va))) (pti va))
      else entry (mem s) (page (pde s (pdi vb))) (pti vb))"
    by (simp add: s' entry_update32 page_lt)
  have same: "pde s (pdi vb) \<noteq> 0 \<Longrightarrow>
      page (pde s (pdi vb)) = page (pde s (pdi va)) \<Longrightarrow> pdi vb = pdi va"
    using D(8) [of "pdi vb" "pdi va"] i by simp
  have b0: "pde s (pdi va) \<noteq> 0 \<Longrightarrow> bit (pde s (pdi va)) 0" using D(5) by simp
  show ?thesis
    unfolding walk_entry [OF D(2)] e e' p Let_def
    using same b0 i by (cases "pde s (pdi vb) = 0") (auto simp: same_page_iff)
qed

section \<open>Allocating a frame for a table\<close>

lemma allocate_block_vm_frame [simp, frame_facts]:
  "current_page_directory (snd (allocate_block n s)) = current_page_directory s"
  "CR3 (snd (allocate_block n s)) = CR3 s" "CR0 (snd (allocate_block n s)) = CR0 s"
  "dirf (snd (allocate_block n s)) = dirf s"
  for s :: "'a vmm_scheme"
  using allocate_block_shape [of n s] by (auto simp: dirf_def)

lemma alloc_frame:
  assumes inv: "pmm_inv s" and al: "allocate_block 1 s = (t, s1)" and t: "t \<noteq> 0"
  shows "owned s1 (page t)" "\<And>f. owned s f \<Longrightarrow> owned s1 f" "\<And>f. owned s f \<Longrightarrow> f \<noteq> page t"
    "\<And>f a. owned s f \<Longrightarrow> page a = f \<Longrightarrow> mem s1 a = mem s a"
    "\<And>k. k < 1024 \<Longrightarrow> entry (mem s1) (page t) k = 0"
    "s1\<lparr>mem := memset (mem s1) t 0 4096\<rparr> = s1"
proof -
  note own = pa.alloc_own_data [OF inv al] and tk = pa.alloc_taken [OF inv al t]
    and zero = pa.alloc_zero [OF inv al t] and fr = pa.alloc_fresh [OF inv al t]
  show "owned s1 (page t)" using tk zero own by (simp add: owned_def page_lt)
  show ne: "f \<noteq> page t" if "owned s f" for f using that fr by (auto simp: owned_def)
  show "owned s1 f" if "owned s f" for f using that tk own by (simp add: owned_def)
  show "mem s1 a = mem s a" if "owned s f" "page a = f" for f a
    using pa.alloc_frame [OF inv al t, of a] that ne by (auto simp: owned_def)
  show "entry (mem s1) (page t) k = 0" if "k < 1024" for k
  proof -
    have "entry (mem s1) (page t) k = entry (\<lambda>_. 0) (page t) k"
      using zero that by (intro entry_cong) (simp_all add: page_lt)
    then show ?thesis by (simp add: entry_def load32_def)
  qed
  have "t = of_nat (page t) * 4096" using pa.alloc_aligned [OF inv al t] .
  then have "in_range t (1 * 4096) a \<longleftrightarrow> page a \<in> {page t..<page t + 1}" for a
    using in_frames_iff [of "page t" 1 a] page_lt [of t] by simp
  then have "memset (mem s1) t 0 4096 = mem s1"
    using zero by (auto simp: memset_apply fun_eq_iff)
  then show "s1\<lparr>mem := memset (mem s1) t 0 4096\<rparr> = s1" by simp
qed

lemma add_table:
  assumes inv: "vm_inv s" and i: "i < 1024" "pde s i = 0"
    and al: "allocate_block 1 s = (t, s1)" and t: "t \<noteq> 0"
    and e: "bit e 0" "PAGE_PHYS_ADDRESS e = t"
    and s2: "s2 = update32 (at (dirf s) i) (\<lambda>_. e) s1"
  shows "vm_inv s2" "pde s2 i = e" "\<And>j. j < 1024 \<Longrightarrow> j \<noteq> i \<Longrightarrow> pde s2 j = pde s j"
    "\<And>f k. owned s f \<Longrightarrow> f \<noteq> dirf s \<Longrightarrow> k < 1024 \<Longrightarrow> entry (mem s2) f k = entry (mem s) f k"
    "\<And>k. k < 1024 \<Longrightarrow> entry (mem s2) (page t) k = 0"
    "\<And>f. pt_frame s2 f \<longleftrightarrow> pt_frame s f \<or> f = page t"
    "\<And>f. taken s2 f \<longleftrightarrow> taken s f \<or> f = page t" "\<And>f. owned s f \<Longrightarrow> owned s2 f"
    "\<And>a. \<not> in_bitmap s a \<Longrightarrow> page a \<noteq> page t \<Longrightarrow> page a \<noteq> dirf s \<Longrightarrow> mem s2 a = mem s a"
proof -
  note D = vm_invD [OF inv]
  note A = alloc_frame [OF D(1) al t]
  have inv1: "pmm_inv s1" using pa.alloc_inv [OF D(1) al] .
  have d1: "dirf s1 = dirf s" "current_page_directory s1 = current_page_directory s"
    using al allocate_block_vm_frame [of 1 s] by simp_all
  have own1: "owned s1 (dirf s)" using A(2) D(3) .
  note U = owned_update32 [OF inv1 own1 i(1), of "\<lambda>_. e"]
  have dt: "dirf s \<noteq> page t" using A(3) D(3) .
  have e1: "entry (mem s1) f k = entry (mem s) f k" if "owned s f" "k < 1024" for f k
    using A(4) that by (intro entry_cong) (auto simp: owned_def)
  have nz: "e \<noteq> 0" using e(1) by auto
  have pt: "page e = page t" using e(2) page_PAGE_PHYS [of e] by simp
  show pi: "pde s2 i = e"
    using D(4) i by (simp add: pde_def s2 d1 entry_update32)
  show pj: "pde s2 j = pde s j" if "j < 1024" "j \<noteq> i" for j
    using D(3,4) i that e1 by (simp add: pde_def s2 d1 entry_update32)
  show fr: "entry (mem s2) f k = entry (mem s) f k" if "owned s f" "f \<noteq> dirf s" "k < 1024" for f k
    using that D(4) i e1 by (simp add: s2 entry_update32 owned_def)
  show "entry (mem s2) (page t) k = 0" if "k < 1024" for k
    using that dt D(4) i A(5) by (simp add: s2 entry_update32 page_lt)
  show "taken s2 f \<longleftrightarrow> taken s f \<or> f = page t" for f
    using U(2) pa.alloc_taken [OF D(1) al t] by (simp add: s2)
  show own2: "owned s2 f" if "owned s f" for f using A(2) [OF that] U(3) by (simp add: s2)
  show "mem s2 a = mem s a" if "\<not> in_bitmap s a" "page a \<noteq> page t" "page a \<noteq> dirf s" for a
    using that pa.alloc_frame [OF D(1) al t, of a] D(4) i by (simp add: s2 update32_other_page)
  have pdes: "pde s2 j = (if j = i then e else pde s j)" if "j < 1024" for j
    using pi pj that by simp
  show "pt_frame s2 f \<longleftrightarrow> pt_frame s f \<or> f = page t" for f
    using pdes i nz pt by (auto simp: pt_frame_def s2 d1) metis+
  have new: "page (pde s j) \<noteq> page t" if "j < 1024" "pde s j \<noteq> 0" for j
    using A(3) D(6) [OF that] by blast
  show "vm_inv s2"
    unfolding vm_inv_def
  proof (intro conjI allI impI)
    show "pmm_inv s2" using U(1) by (simp add: s2)
    show "current_page_directory s2 = of_nat (dirf s2) * 4096" using D(2) by (simp add: s2 d1)
    show "owned s2 (dirf s2)" using own2 D(3) by (simp add: s2 d1)
    fix j assume j: "j < 1024" "pde s2 j \<noteq> 0"
    show "bit (pde s2 j) 0" using pdes j D(5) e(1) by auto
    show "owned s2 (page (pde s2 j))"
      using pdes j D(6) own2 A(1) U(3) pt by (auto simp: s2)
    show "page (pde s2 j) \<noteq> dirf s2" using pdes j D(7) dt pt by (auto simp: s2 d1)
  next
    fix j l assume "j < 1024" "l < 1024" "j \<noteq> l" "pde s2 j \<noteq> 0" "pde s2 l \<noteq> 0"
    then show "page (pde s2 j) \<noteq> page (pde s2 l)"
      using pdes D(8) new pt by (auto split: if_splits) metis+
  qed
qed

lemma walk_add_table:
  assumes inv: "vm_inv s" and i: "i < 1024" "pde s i = 0"
    and al: "allocate_block 1 s = (t, s1)" and t: "t \<noteq> 0"
    and e: "bit e 0" "PAGE_PHYS_ADDRESS e = t"
    and s2: "s2 = update32 (at (dirf s) i) (\<lambda>_. e) s1"
  shows "walk (mem s2) (current_page_directory s2) va = walk (mem s) (current_page_directory s) va"
proof -
  note D = vm_invD [OF inv]
  note T = add_table [OF assms]
  have c: "current_page_directory s2 = current_page_directory s" "dirf s2 = dirf s"
    using al allocate_block_vm_frame [of 1 s] by (simp_all add: s2)
  have e2: "entry (mem s2) (dirf s) (pdi va) = pde s2 (pdi va)"
    "entry (mem s) (dirf s) (pdi va) = pde s (pdi va)" by (simp_all add: pde_def c)
  have pt: "page e = page t" using e(2) page_PAGE_PHYS [of e] by simp
  show ?thesis
  proof (cases "pdi va = i")
    case True
    then show ?thesis
      unfolding c walk_entry [OF D(2)] e2 Let_def using T(2,5) i pt by simp
  next
    case False
    then show ?thesis
      unfolding c walk_entry [OF D(2)] e2 Let_def
      using T(3) [of "pdi va"] T(4) [of "page (pde s (pdi va))" "pti va"] D(6,7) [of "pdi va"]
      by (cases "pde s (pdi va) = 0") simp_all
  qed
qed

section \<open>Changing the flags of a directory entry\<close>

lemma set_pde_flags:
  assumes inv: "vm_inv s" and i: "i < 1024" "pde s i \<noteq> 0"
    and e: "bit e 0" "page e = page (pde s i)"
    and s2: "s2 = update32 (at (dirf s) i) (\<lambda>_. e) s"
  shows "vm_inv s2" "pde s2 i = e" "\<And>j. j < 1024 \<Longrightarrow> j \<noteq> i \<Longrightarrow> pde s2 j = pde s j"
    "\<And>f k. f \<noteq> dirf s \<Longrightarrow> f < 0x100000 \<Longrightarrow> k < 1024 \<Longrightarrow> entry (mem s2) f k = entry (mem s) f k"
    "pt_frame s2 = pt_frame s" "taken s2 = taken s" "owned s2 = owned s"
    "walk (mem s2) (current_page_directory s2) va = walk (mem s) (current_page_directory s) va"
proof -
  note D = vm_invD [OF inv]
  note U = owned_update32 [OF D(1,3) i(1), of "\<lambda>_. e"]
  have nz: "e \<noteq> 0" using e(1) by auto
  show pi: "pde s2 i = e" using D(4) i by (simp add: pde_def s2 entry_update32)
  show pj: "pde s2 j = pde s j" if "j < 1024" "j \<noteq> i" for j
    using D(4) i that by (simp add: pde_def s2 entry_update32)
  show fr: "entry (mem s2) f k = entry (mem s) f k" if "f \<noteq> dirf s" "f < 0x100000" "k < 1024" for f k
    using that D(4) i by (simp add: s2 entry_update32)
  have pg: "page (pde s2 j) = page (pde s j)" "pde s2 j = 0 \<longleftrightarrow> pde s j = 0"
    "bit (pde s2 j) 0 = bit (pde s j) 0" if "j < 1024" for j
    using pi pj [OF that] e i nz D(5) [OF i] by (cases "j = i"; simp)+
  show "taken s2 = taken s" "owned s2 = owned s" using U by (simp_all add: s2)
  show "pt_frame s2 = pt_frame s" using pg by (auto simp: pt_frame_def fun_eq_iff s2)
  show "vm_inv s2" using inv U pg unfolding vm_inv_def by (simp add: s2)
  have "entry (mem s2) (dirf s) (pdi va) = pde s2 (pdi va)"
    "entry (mem s) (dirf s) (pdi va) = pde s (pdi va)" by (simp_all add: pde_def s2)
  moreover have "entry (mem s2) (page (pde s (pdi va))) (pti va) =
      entry (mem s) (page (pde s (pdi va))) (pti va)" if "pde s (pdi va) \<noteq> 0"
    using fr D(7) [of "pdi va"] that by (simp add: page_lt)
  moreover have "current_page_directory s2 = current_page_directory s" by (simp add: s2)
  ultimately show "walk (mem s2) (current_page_directory s2) va = walk (mem s) (current_page_directory s) va"
    using pg [of "pdi va"] D(5) [of "pdi va"]
    by (cases "pde s (pdi va) = 0") (simp_all add: walk_entry [OF D(2)])
qed

lemma update32_const: "update32 a g s = update32 a (\<lambda>_. g (load32 (mem s) a)) s"
  by (simp add: update32_def)

lemma present_iff: "x AND PTE_PRESENT \<noteq> PTE_PRESENT \<longleftrightarrow> \<not> bit x 0"
  by (simp add: PTE_PRESENT_def and_one_eq bit_0 even_iff_mod_2_eq_zero)

lemma PDE_PTE: "PDE_PRESENT = PTE_PRESENT" "PDE_READ_WRITE = PTE_READ_WRITE" "PDE_USER = PTE_USER"
  by (simp_all add: PDE_PRESENT_def PTE_PRESENT_def PDE_READ_WRITE_def PTE_READ_WRITE_def
      PDE_USER_def PTE_USER_def)

text \<open>
  What making room for a page table does to everything else: the translation of every address,
  the frames in use and the memory outside the bitmap and the tables stay as they were.
\<close>

definition pte :: "'a vmm_scheme \<Rightarrow> u32 \<Rightarrow> u32" where
  "pte s va = (if pde s (pdi va) = 0 then 0 else entry (mem s) (page (pde s (pdi va))) (pti va))"

definition entries_kept :: "'a vmm_scheme \<Rightarrow> 'a vmm_scheme \<Rightarrow> bool" where
  "entries_kept s s2 \<longleftrightarrow> (\<forall>va. pte s2 va = pte s va) \<and>
     (\<forall>i<1024. bit (pde s i) 2 \<longrightarrow> bit (pde s2 i) 2)"

text \<open>At most one frame is taken.\<close>

definition one_frame :: "'a vmm_scheme \<Rightarrow> 'a vmm_scheme \<Rightarrow> bool" where
  "one_frame s s2 \<longleftrightarrow> TOTAL_BLOCK s2 = TOTAL_BLOCK s \<and>
     (TOTAL_USED_BLOCKS s2 = TOTAL_USED_BLOCKS s \<or> TOTAL_USED_BLOCKS s2 = TOTAL_USED_BLOCKS s + 1) \<and>
     (\<exists>t. \<forall>f. taken s2 f \<longrightarrow> taken s f \<or> f = t)"

definition room_made :: "'a vmm_scheme \<Rightarrow> 'a vmm_scheme \<Rightarrow> bool" where
  "room_made s s2 \<longleftrightarrow> entries_kept s s2 \<and> one_frame s s2 \<and> vm_inv s2 \<and> current_page_directory s2 = current_page_directory s \<and>
     CR3 s2 = CR3 s \<and> in_bitmap s2 = in_bitmap s \<and>
     (\<forall>va. walk (mem s2) (current_page_directory s2) va = walk (mem s) (current_page_directory s) va) \<and>
     (\<forall>f. taken s f \<longrightarrow> taken s2 f) \<and> (\<forall>f. owned s f \<longrightarrow> owned s2 f) \<and>
     (\<forall>f. pt_frame s f \<longrightarrow> pt_frame s2 f) \<and> (\<forall>f. pt_frame s2 f \<longrightarrow> pt_frame s f \<or> \<not> taken s f) \<and>
     (\<forall>a. \<not> in_bitmap s a \<longrightarrow> \<not> pt_frame s2 (page a) \<longrightarrow> mem s2 a = mem s a)"

lemma room_made_refl: "vm_inv s \<Longrightarrow> room_made s s"
  by (simp add: room_made_def entries_kept_def one_frame_def)

lemma dirf_pt_frame [simp]: "pt_frame s (dirf s)"
  by (simp add: pt_frame_def)

lemma room_made_add_table:
  assumes "vm_inv s" "i < 1024" "pde s i = 0" "allocate_block 1 s = (t, s1)" "t \<noteq> 0"
    "bit e 0" "PAGE_PHYS_ADDRESS e = t" "s2 = update32 (at (dirf s) i) (\<lambda>_. e) s1"
  shows "room_made s s2" "pde s2 i = e"
proof -
  note T = add_table [OF assms]
  have c: "current_page_directory s2 = current_page_directory s" "CR3 s2 = CR3 s"
    using assms(4,8) allocate_block_vm_frame [of 1 s] by simp_all
  have bm: "in_bitmap s2 = in_bitmap s"
    using pa.alloc_own_data [OF vm_invD(1) [OF assms(1)] assms(4)] assms(8) by simp
  have fresh: "\<not> taken s (page t)"
    using pa.alloc_fresh [OF vm_invD(1) [OF assms(1)] assms(4,5)] .
  show "pde s2 i = e" by (rule T(2))
  have pt: "page e = page t" using assms(7) page_PAGE_PHYS [of e] by simp
  have "pte s2 va = pte s va" for va
  proof (cases "pdi va = i")
    case True
    then show ?thesis using T(2,5) assms(3) pt by (simp add: pte_def)
  next
    case False
    then show ?thesis
      using T(3) [of "pdi va"] T(4) [of "page (pde s (pdi va))" "pti va"]
        vm_invD(6,7) [OF assms(1), of "pdi va"]
      by (cases "pde s (pdi va) = 0") (simp_all add: pte_def)
  qed
  moreover have "bit (pde s2 j) 2" if "j < 1024" "bit (pde s j) 2" for j
    using that T(3) [of j] assms(3) by (cases "j = i") auto
  ultimately have uk: "entries_kept s s2" by (simp add: entries_kept_def)
  show "room_made s s2"
    unfolding room_made_def
  proof (intro conjI allI impI)
    show "entries_kept s s2" by (rule uk)
    have "alloc_post s (page t) 1 s1"
      using allocate_block_1 [OF vm_invD(1) [OF assms(1)] assms(4,5)] by simp
    then have "TOTAL_BLOCK s2 = TOTAL_BLOCK s" "TOTAL_USED_BLOCKS s2 = TOTAL_USED_BLOCKS s + 1"
      by (simp_all add: assms(8) alloc_post_def)
    then show "one_frame s s2" using T(7) unfolding one_frame_def by blast
  next
    fix f assume "pt_frame s2 f"
    then show "pt_frame s f \<or> \<not> taken s f" using T(6) fresh by blast
  next
    fix a assume "\<not> in_bitmap s a" "\<not> pt_frame s2 (page a)"
    then show "mem s2 a = mem s a" using T(6,9) dirf_pt_frame [of s] by metis
  qed (use T(1,6,7,8) walk_add_table [OF assms] c bm in auto)
qed

lemma room_made_set_pde:
  assumes "vm_inv s" "i < 1024" "pde s i \<noteq> 0" "bit e 0" "page e = page (pde s i)"
    "s2 = update32 (at (dirf s) i) (\<lambda>_. e) s" "bit (pde s i) 2 \<longrightarrow> bit e 2"
  shows "room_made s s2" "pde s2 i = e"
proof -
  note T = set_pde_flags [OF assms(1-6)]
  have pg: "page (pde s2 j) = page (pde s j)" "pde s2 j = 0 \<longleftrightarrow> pde s j = 0" if "j < 1024" for j
    using T(2,3) that assms(3-5) by (cases "j = i"; auto)+
  have "pte s2 va = pte s va" for va
    using pg [of "pdi va"] T(4) [of "page (pde s (pdi va))" "pti va"] vm_invD(7) [OF assms(1), of "pdi va"]
    by (cases "pde s (pdi va) = 0") (simp_all add: pte_def page_lt)
  moreover have "bit (pde s2 j) 2" if "j < 1024" "bit (pde s j) 2" for j
    using that T(2,3) assms(7) by (cases "j = i") auto
  ultimately have uk: "entries_kept s s2" by (simp add: entries_kept_def)
  show "pde s2 i = e" by (rule T(2))
  have "mem s2 a = mem s a" if "\<not> pt_frame s (page a)" for a
    using that assms(2) vm_invD(4) [OF assms(1)] dirf_pt_frame [of s] unfolding assms(6)
    by (intro update32_other_page) auto
  then show "room_made s s2"
    using T uk by (simp add: room_made_def one_frame_def assms(6))
qed

section \<open>Mapping a page\<close>

text \<open>Bits of the entries the mapping functions build.\<close>

lemma bit_SET_ATTRIBUTE: "bit (SET_ATTRIBUTE e a) n \<longleftrightarrow> bit e n \<or> bit a n"
  by (simp add: SET_ATTRIBUTE_def bit_simps)

lemma flag_bits:
  "bit PTE_PRESENT n \<longleftrightarrow> n = 0" "bit PTE_READ_WRITE n \<longleftrightarrow> n = 1" "bit PTE_USER n \<longleftrightarrow> n = 2"
proof -
  have "PTE_PRESENT = 2 ^ 0" "PTE_READ_WRITE = 2 ^ 1" "PTE_USER = 2 ^ 2"
    by (simp_all add: PTE_PRESENT_def PTE_READ_WRITE_def PTE_USER_def)
  note powers = this
  show "bit PTE_PRESENT n \<longleftrightarrow> n = 0" unfolding powers bit_exp_iff by auto
  show "bit PTE_READ_WRITE n \<longleftrightarrow> n = 1" unfolding powers bit_exp_iff by auto
  show "bit PTE_USER n \<longleftrightarrow> n = 2" unfolding powers bit_exp_iff by auto
qed

lemma table_entry:
  assumes "PAGE_PHYS_ADDRESS t = t"
  defines "e \<equiv> SET_FRAME (SET_ATTRIBUTE (SET_ATTRIBUTE 0 PTE_PRESENT) PTE_READ_WRITE) t"
    and "eu \<equiv> SET_FRAME (SET_ATTRIBUTE (SET_ATTRIBUTE (SET_ATTRIBUTE 0 PTE_PRESENT) PTE_READ_WRITE) PTE_USER) t"
  shows "bit e 0 \<and> PAGE_PHYS_ADDRESS e = t" "bit eu 0 \<and> PAGE_PHYS_ADDRESS eu = t \<and> bit eu 2"
  using bit_SET_FRAME [OF assms(1)] page_SET_FRAME [OF assms(1)]
  by (simp_all add: e_def eu_def bit_SET_ATTRIBUTE flag_bits)

lemma alloc_phys:
  "pmm_inv s \<Longrightarrow> allocate_block 1 s = (t, s1) \<Longrightarrow> t \<noteq> 0 \<Longrightarrow> PAGE_PHYS_ADDRESS t = t"
  using pa.alloc_aligned [of s t s1] by (simp add: PAGE_PHYS_eq)

text \<open>
  Both mapping functions first make room for the table, then write one entry of it; \<open>g\<close> is the
  update of that entry.
\<close>

definition mapped :: "'a vmm_scheme \<Rightarrow> u32 \<Rightarrow> (u32 \<Rightarrow> u32) \<Rightarrow> 'a vmm_scheme \<Rightarrow> bool" where
  "mapped s va g s' \<longleftrightarrow> (\<exists>s2. room_made s s2 \<and> pde s2 (pdi va) \<noteq> 0 \<and>
     s' = update32 (at (page (pde s2 (pdi va))) (pti va)) g s2)"

lemma map_page_mapped:
  assumes inv: "vm_inv s" and m: "map_page pa va s = (True, s')"
  shows "mapped s va (\<lambda>p. SET_FRAME (SET_ATTRIBUTE p PTE_PRESENT) pa) s'"
proof (cases "pde s (pdi va) = 0")
  case False
  then have "bit (pde s (pdi va)) 0" using vm_invD(5) [OF inv] by simp
  then have "s' = update32 (at (page (pde s (pdi va))) (pti va))
      (\<lambda>p. SET_FRAME (SET_ATTRIBUTE p PTE_PRESENT) pa) s"
    using m by (simp add: map_page_def Let_def present_iff pd_entry_at [OF inv] load_at
        pt_entry_at flip: pde_def)
  with False show ?thesis
    unfolding mapped_def using room_made_refl [OF inv] by blast
next
  case True
  obtain t s1 where al: "allocate_block 1 s = (t, s1)" by fastforce
  have "\<not> bit (pde s (pdi va)) 0" using True by simp
  then have t: "t \<noteq> 0"
    using m al by (auto simp: map_page_def Let_def present_iff pd_entry_at [OF inv] load_at
        simp flip: pde_def)
  note A = alloc_frame [OF vm_invD(1) [OF inv] al t]
  define e where "e = SET_FRAME (SET_ATTRIBUTE (SET_ATTRIBUTE 0 PTE_PRESENT) PTE_READ_WRITE) t"
  define s2 where "s2 = update32 (at (dirf s) (pdi va)) (\<lambda>_. e) s1"
  have e: "bit e 0" "PAGE_PHYS_ADDRESS e = t"
    using table_entry(1) [OF alloc_phys [OF vm_invD(1) [OF inv] al t]] by (simp_all add: e_def)
  note R = room_made_add_table [OF inv pdi_lt True al t e s2_def]
  have "entry (mem s1) (dirf s) (pdi va) = 0"
    using A(4) vm_invD(3,4) [OF inv] True
    by (subst entry_cong [where m = "mem s"]) (auto simp: pde_def)
  then have s2': "update32 (at (dirf s) (pdi va)) (\<lambda>e. SET_FRAME (SET_ATTRIBUTE (SET_ATTRIBUTE e
      PDE_PRESENT) PDE_READ_WRITE) t) s1 = s2"
    by (subst update32_const) (simp add: s2_def e_def load_at PDE_PTE)
  have "entry (mem s2) (dirf s) (pdi va) = e"
    using R(2) allocate_block_vm_frame(4) [of 1 s] al by (simp add: pde_def s2_def)
  then have "s' = update32 (at (page e) (pti va)) (\<lambda>p. SET_FRAME (SET_ATTRIBUTE p PTE_PRESENT) pa) s2"
    using m al t A(6) \<open>\<not> bit (pde s (pdi va)) 0\<close>
    by (simp add: map_page_def Let_def present_iff pd_entry_at [OF inv] load_at s2' pt_entry_at
        flip: pde_def)
  moreover have "e \<noteq> 0" using e(1) by auto
  ultimately show ?thesis unfolding mapped_def using R by blast
qed

lemma map_page_user_mapped:
  assumes inv: "vm_inv s" and m: "map_page_user pa va s = (True, s')"
  shows "\<exists>s3. mapped s va (\<lambda>p. SET_FRAME (SET_ATTRIBUTE (SET_ATTRIBUTE (SET_ATTRIBUTE p
      PTE_PRESENT) PTE_READ_WRITE) PTE_USER) pa) s3 \<and> s' = flush_tlb_entry va s3 \<and>
      bit (pde s3 (pdi va)) 2"
proof (cases "pde s (pdi va) = 0")
  case False
  define e where "e = SET_ATTRIBUTE (pde s (pdi va)) PTE_USER"
  define s2 where "s2 = update32 (at (dirf s) (pdi va)) (\<lambda>_. e) s"
  have b0: "bit (pde s (pdi va)) 0" using vm_invD(5) [OF inv] False by simp
  have "PAGE_PHYS_ADDRESS e = PAGE_PHYS_ADDRESS (pde s (pdi va))"
    unfolding PAGE_PHYS_ADDRESS_def e_def mask_12
    by (rule bit_word_eqI) (auto simp: bit_simps bit_SET_ATTRIBUTE flag_bits)
  then have pe: "page e = page (pde s (pdi va))" by (metis page_PAGE_PHYS)
  have e: "bit e 0" "bit e 2" using b0 by (simp_all add: e_def bit_SET_ATTRIBUTE flag_bits)
  have keep: "bit (pde s (pdi va)) 2 \<longrightarrow> bit e 2" using e(2) by simp
  note R = room_made_set_pde [OF inv pdi_lt False e(1) pe s2_def keep]
  have s2': "update32 (at (dirf s) (pdi va)) (\<lambda>e. SET_ATTRIBUTE e PDE_USER) s = s2"
    by (subst update32_const) (simp add: s2_def e_def load_at PDE_PTE pde_def)
  have es2: "entry (mem s2) (dirf s) (pdi va) = e" using R(2) by (simp add: pde_def s2_def)
  let ?g = "\<lambda>p. SET_FRAME (SET_ATTRIBUTE (SET_ATTRIBUTE (SET_ATTRIBUTE p
      PTE_PRESENT) PTE_READ_WRITE) PTE_USER) pa"
  let ?s3 = "update32 (at (page e) (pti va)) ?g s2"
  have "s' = flush_tlb_entry va ?s3"
    using m b0 by (simp add: map_page_user_def Let_def present_iff PDE_PTE(1) pd_entry_at [OF inv]
        load_at s2' [unfolded PDE_PTE] PDE_PTE es2 pt_entry_at flip: pde_def)
  moreover have nz: "e \<noteq> 0" using e(1) by auto
  moreover have "mapped s va ?g ?s3" unfolding mapped_def using R nz by blast
  moreover have "pde ?s3 (pdi va) = e"
    using write_pte(2) [of s2 "pdi va" "pti va" ?s3 ?g "pdi va"] R nz by (simp add: room_made_def)
  ultimately show ?thesis using e(2) by metis
next
  case True
  obtain t s1 where al: "allocate_block 1 s = (t, s1)" by fastforce
  have nb: "\<not> bit (pde s (pdi va)) 0" using True by simp
  then have t: "t \<noteq> 0"
    using m al by (auto simp: map_page_user_def Let_def present_iff PDE_PTE(1) pd_entry_at [OF inv]
        load_at simp flip: pde_def)
  note A = alloc_frame [OF vm_invD(1) [OF inv] al t]
  define e where "e = SET_FRAME (SET_ATTRIBUTE (SET_ATTRIBUTE (SET_ATTRIBUTE 0 PTE_PRESENT)
      PTE_READ_WRITE) PTE_USER) t"
  define s2 where "s2 = update32 (at (dirf s) (pdi va)) (\<lambda>_. e) s1"
  have e: "bit e 0" "PAGE_PHYS_ADDRESS e = t" "bit e 2"
    using table_entry(2) [OF alloc_phys [OF vm_invD(1) [OF inv] al t]] by (simp_all add: e_def)
  note R = room_made_add_table [OF inv pdi_lt True al t e(1,2) s2_def]
  have "entry (mem s1) (dirf s) (pdi va) = 0"
    using A(4) vm_invD(3,4) [OF inv] True
    by (subst entry_cong [where m = "mem s"]) (auto simp: pde_def)
  then have s2': "update32 (at (dirf s) (pdi va)) (\<lambda>e. SET_FRAME (SET_ATTRIBUTE (SET_ATTRIBUTE
      (SET_ATTRIBUTE e PTE_PRESENT) PTE_READ_WRITE) PTE_USER) t) s1 = s2"
    by (subst update32_const) (simp add: s2_def e_def load_at)
  have es2: "entry (mem s2) (dirf s) (pdi va) = e"
    using R(2) allocate_block_vm_frame(4) [of 1 s] al by (simp add: pde_def s2_def)
  let ?g = "\<lambda>p. SET_FRAME (SET_ATTRIBUTE (SET_ATTRIBUTE (SET_ATTRIBUTE p
      PTE_PRESENT) PTE_READ_WRITE) PTE_USER) pa"
  let ?s3 = "update32 (at (page e) (pti va)) ?g s2"
  have "s' = flush_tlb_entry va ?s3"
    using m al t A(6) nb
    by (simp add: map_page_user_def Let_def present_iff PDE_PTE pd_entry_at [OF inv] load_at s2'
        pt_entry_at es2 flip: pde_def)
  moreover have nz: "e \<noteq> 0" using e(1) by auto
  moreover have "mapped s va ?g ?s3" unfolding mapped_def using R nz by blast
  moreover have "pde ?s3 (pdi va) = e"
    using write_pte(2) [of s2 "pdi va" "pti va" ?s3 ?g "pdi va"] R nz by (simp add: room_made_def)
  ultimately show ?thesis using e(3) by metis
qed

section \<open>What mapping changes\<close>

definition user_pde :: "'a vmm_scheme \<Rightarrow> bool" where
  "user_pde s \<longleftrightarrow> (\<forall>va. bit (pte s va) 2 \<longrightarrow> bit (pde s (pdi va)) 2)"

text \<open>The tables are functions of four fields: two states that agree in them have the same tables, whatever
  else they hold.\<close>

lemma same_bitmap:
  fixes s :: "'a pmm_scheme" and s' :: "'b pmm_scheme"
  assumes "mem s' = mem s" "BIT_MAP s' = BIT_MAP s" "TOTAL_BLOCK s' = TOTAL_BLOCK s"
  shows "in_bitmap s' = in_bitmap s" "nbits s' = nbits s" "used s' = used s" "taken s' = taken s" "owned s' = owned s"
    "pmm_inv s' = pmm_inv s" "first_run n s' = first_run n s"
proof -
  show a: "in_bitmap s' = in_bitmap s" "nbits s' = nbits s" "used s' = used s"
    by (simp_all add: in_bitmap_def nbits_def used_iff_bit cell_def fun_eq_iff assms)
  show "taken s' = taken s" by (simp add: taken_def a fun_eq_iff)
  then show "owned s' = owned s" by (simp add: owned_def a fun_eq_iff)
  show "pmm_inv s' = pmm_inv s" by (simp add: pmm_inv_def a)
  show "first_run n s' = first_run n s" by (simp add: first_run_def run_free_def [abs_def] a)
qed

lemma same_tables:
  fixes s :: "'a vmm_scheme" and s' :: "'b vmm_scheme"
  assumes "mem s' = mem s" "BIT_MAP s' = BIT_MAP s" "TOTAL_BLOCK s' = TOTAL_BLOCK s"
    "current_page_directory s' = current_page_directory s"
  shows "vm_inv s' = vm_inv s" "pde s' = pde s" "pte s' = pte s" "pt_frame s' = pt_frame s" "user_pde s' = user_pde s"
proof -
  note B = same_bitmap [OF assms(1-3)]
  have d: "dirf s' = dirf s" by (simp add: dirf_def assms)
  show p: "pde s' = pde s" by (rule ext) (simp add: pde_def d assms)
  show q: "pte s' = pte s" by (rule ext) (simp add: pte_def p assms)
  show "pt_frame s' = pt_frame s" by (rule ext) (simp add: pt_frame_def d p)
  show "vm_inv s' = vm_inv s" unfolding vm_inv_def B p d assms ..
  show "user_pde s' = user_pde s" unfolding user_pde_def p q ..
qed

lemma get_page_at: "vm_inv s \<Longrightarrow> get_page va s = at (page (pde s (pdi va))) (pti va)"
  by (simp add: get_page_def pt_entry_at pd_entry_at load_at pde_def)

lemma pte_get_page:
  "vm_inv s \<Longrightarrow> pte s va = (if pde s (pdi va) = 0 then 0 else load32 (mem s) (get_page va s))"
  by (simp add: pte_def get_page_at load_at)

lemma walk_pte:
  assumes "vm_inv s"
  shows "walk (mem s) (current_page_directory s) va =
    (if bit (pte s va) 0 then Some (PAGE_PHYS_ADDRESS (pte s va) OR (va AND 0xFFF)) else None)"
proof -
  have "entry (mem s) (dirf s) (pdi va) = pde s (pdi va)" by (simp add: pde_def)
  then show ?thesis
    using vm_invD(5) [OF assms pdi_lt, of va] unfolding walk_entry [OF vm_invD(2) [OF assms]]
    by (cases "pde s (pdi va) = 0") (simp_all add: pte_def Let_def)
qed

lemma user_ok_pte:
  assumes "vm_inv s"
  shows "user_ok (mem s) (current_page_directory s) va \<longleftrightarrow>
    bit (pte s va) 0 \<and> bit (pde s (pdi va)) 2 \<and> bit (pte s va) 2"
proof -
  have "load32 (mem s) (current_page_directory s + 4 * PD_INDEX va) = pde s (pdi va)"
    "load32 (mem s) (PAGE_PHYS_ADDRESS (pde s (pdi va)) + 4 * PT_INDEX va) =
     entry (mem s) (page (pde s (pdi va))) (pti va)"
    using pd_entry_at [OF assms, of va] pt_entry_at [of "pde s (pdi va)" va]
    by (simp_all add: pd_entry_addr_def pt_entry_addr_def load_at pde_def)
  then show ?thesis
    by (auto simp: user_ok_def walk_pte [OF assms] Let_def) (auto simp: pte_def split: if_splits)
qed

text \<open>
  The memory effect shared by the mapping operations: frames are only taken, tables only move into
  frames that were free, and nothing outside the bitmap and the tables changes.
\<close>

definition tables_only :: "'a vmm_scheme \<Rightarrow> 'a vmm_scheme \<Rightarrow> bool" where
  "tables_only s s' \<longleftrightarrow> current_page_directory s' = current_page_directory s \<and>
     (\<forall>f. taken s f \<longrightarrow> taken s' f) \<and>
     (\<forall>f. pt_frame s' f \<longrightarrow> pt_frame s f \<or> \<not> taken s f) \<and>
     (\<forall>a. \<not> in_bitmap s a \<longrightarrow> \<not> pt_frame s' (page a) \<longrightarrow> mem s' a = mem s a)"

lemma pte_write:
  assumes inv: "vm_inv s" and i: "pde s (pdi va) \<noteq> 0"
    and s': "s' = update32 (at (page (pde s (pdi va))) (pti va)) g s"
  shows "pte s' vb = (if page vb = page va then g (pte s va) else pte s vb)"
proof -
  note W = write_pte [OF inv pdi_lt i pti_lt s']
  have same: "pde s (pdi vb) \<noteq> 0 \<Longrightarrow>
      page (pde s (pdi vb)) = page (pde s (pdi va)) \<Longrightarrow> pdi vb = pdi va"
    using vm_invD(8) [OF inv, of "pdi vb" "pdi va"] i by simp
  have p: "entry (mem s') (page (pde s (pdi vb))) (pti vb) =
     (if page (pde s (pdi vb)) = page (pde s (pdi va)) \<and> pti vb = pti va
      then g (entry (mem s) (page (pde s (pdi va))) (pti va))
      else entry (mem s) (page (pde s (pdi vb))) (pti vb))"
    by (simp add: s' entry_update32 page_lt)
  show ?thesis
    using W(2) [of "pdi vb"] p i same by (auto simp: pte_def same_page_iff)
qed

lemma pt_frameI: "i < 1024 \<Longrightarrow> pde s i \<noteq> 0 \<Longrightarrow> pt_frame s (page (pde s i))"
  unfolding pt_frame_def by (intro disjI2 exI [of _ i]) simp

lemma write_tables_only:
  assumes "vm_inv s" "pde s (pdi va) \<noteq> 0"
    and s': "s' = update32 (at (page (pde s (pdi va))) (pti va)) g s"
  shows "tables_only s s'"
proof -
  note W = write_pte [OF assms(1) pdi_lt assms(2) pti_lt s']
  have "mem s' a = mem s a" if "\<not> pt_frame s (page a)" for a
  proof -
    have "page a \<noteq> page (pde s (pdi va))" using that pt_frameI [OF pdi_lt assms(2)] by metis
    then show ?thesis unfolding s' by (intro update32_other_page) (simp_all add: page_lt)
  qed
  then show ?thesis using W by (simp add: tables_only_def s')
qed

lemma mapped_effect:
  assumes inv: "vm_inv s" and m: "mapped s va g s'"
  shows "vm_inv s'" "tables_only s s'"
    "\<And>vb. pte s' vb = (if page vb = page va then g (pte s va) else pte s vb)"
    "\<And>i. i < 1024 \<Longrightarrow> bit (pde s i) 2 \<Longrightarrow> bit (pde s' i) 2" "CR3 s' = CR3 s"
    "one_frame s s'" "in_bitmap s' = in_bitmap s"
proof -
  obtain s2 where r: "room_made s s2" "pde s2 (pdi va) \<noteq> 0"
    and s': "s' = update32 (at (page (pde s2 (pdi va))) (pti va)) g s2"
    using m unfolding mapped_def by blast
  note R = r(1) [unfolded room_made_def entries_kept_def]
  have inv2: "vm_inv s2" using R by simp
  note W = write_pte [OF inv2 pdi_lt r(2) pti_lt s']
  show "vm_inv s'" by (rule W(1))
  show "pte s' vb = (if page vb = page va then g (pte s va) else pte s vb)" for vb
    using pte_write [OF inv2 r(2) s'] R by simp
  show "bit (pde s' i) 2" if "i < 1024" "bit (pde s i) 2" for i
    using that W(2) R by simp
  show "CR3 s' = CR3 s" "in_bitmap s' = in_bitmap s" using R by (simp_all add: s')
  show "one_frame s s'" using R W(4) by (simp add: s' one_frame_def)
  have "in_bitmap s2 = in_bitmap s" using R by simp
  with write_tables_only [OF inv2 r(2) s'] R W(3) show "tables_only s s'"
    unfolding tables_only_def by auto
qed

section \<open>Properties of the mapping operations\<close>

lemma bit_80: "bit (0x80000000 :: u32) n \<longleftrightarrow> n = 31"
proof -
  have m: "(0x80000000 :: u32) = 2 ^ 31" by simp
  show ?thesis unfolding m bit_exp_iff by auto
qed

lemma PAGE_PHYS_SET_FRAME:
  assumes "PAGE_PHYS_ADDRESS pa = pa"
  shows "PAGE_PHYS_ADDRESS (SET_FRAME e pa) = pa OR (e AND 0x80000000)"
proof (rule bit_word_eqI)
  fix n assume n: "n < LENGTH(32)"
  have "bit pa n \<Longrightarrow> 12 \<le> n"
    using n bit_SET_FRAME [OF assms, of n e] assms unfolding PAGE_PHYS_ADDRESS_def mask_12
    by (metis bit_and_iff bit_mask_iff bit_not_iff not_le)
  with n show "bit (PAGE_PHYS_ADDRESS (SET_FRAME e pa)) n = bit (pa OR (e AND 0x80000000)) n"
    using bit_SET_FRAME [OF assms, of n e]
    unfolding PAGE_PHYS_ADDRESS_def mask_12 bit_and_iff bit_or_iff bit_80
    by (auto simp: bit_simps not_less)
qed

lemma SET_ATTRIBUTE_31:
  "SET_ATTRIBUTE e PTE_PRESENT AND 0x80000000 = e AND 0x80000000"
  "SET_ATTRIBUTE e PTE_READ_WRITE AND 0x80000000 = e AND 0x80000000"
  "SET_ATTRIBUTE e PTE_USER AND 0x80000000 = e AND 0x80000000"
  by (simp_all add: SET_ATTRIBUTE_def PTE_PRESENT_def PTE_READ_WRITE_def PTE_USER_def
      bit.conj_disj_distrib2)

lemma bits_SET_FRAME_low:
  "PAGE_PHYS_ADDRESS pa = pa \<Longrightarrow> n < 12 \<Longrightarrow> bit (SET_FRAME e pa) n = bit e n"
  by (simp add: bit_SET_FRAME)

lemma page_0 [simp]: "page 0 = 0"
  by (simp add: page_def)

text \<open>C8 \<open>map_page\<close>: a successful call keeps the invariant of the tables; afterwards the page
  of \<open>va\<close> translates to the frame \<open>pa\<close> and every other page to what it did before; no
  frame is released, the only memory that changes is the bitmap and the tables, and a new table
  lies in a frame that was free. The translation carries bit 31 of the old entry, which the mask
  of \<open>SET_FRAME\<close> does not clear.\<close>

theorem map_page_correct:
  assumes "vm_inv s" and "PAGE_PHYS_ADDRESS pa = pa" and "map_page pa va s = (True, s')"
  shows "vm_inv s' \<and> tables_only s s' \<and>
    (\<forall>vb. walk (mem s') (current_page_directory s') vb =
      (if page vb = page va then Some ((pa OR (pte s va AND 0x80000000)) OR (vb AND 0xFFF))
       else walk (mem s) (current_page_directory s) vb))"
proof -
  note M = mapped_effect [OF assms(1) map_page_mapped [OF assms(1,3)]]
  show ?thesis
    using M(1,2)
    by (simp add: walk_pte M(3) assms(1) PAGE_PHYS_SET_FRAME [OF assms(2)] SET_ATTRIBUTE_31
        bits_SET_FRAME_low [OF assms(2)] bit_SET_ATTRIBUTE flag_bits)
qed

lemma flush_frame:
  fixes s t :: "'a vmm_scheme" and va :: u32
  defines "t \<equiv> flush_tlb_entry va s"
  shows "mem t = mem s" "current_page_directory t = current_page_directory s" "IF_flag t = True"
    "vm_inv t = vm_inv s" "user_pde t = user_pde s" "tables_only u t = tables_only u s"
proof -
  show m: "mem t = mem s" "current_page_directory t = current_page_directory s" "IF_flag t = True"
    by (simp_all add: t_def flush_tlb_entry_def)
  have b: "BIT_MAP t = BIT_MAP s" "TOTAL_BLOCK t = TOTAL_BLOCK s" by (simp_all add: t_def flush_tlb_entry_def)
  note S = same_bitmap [OF m(1) b] same_tables [OF m(1) b m(2)]
  show "vm_inv t = vm_inv s" "user_pde t = user_pde s" by (rule S)+
  show "tables_only u t = tables_only u s" unfolding tables_only_def m S ..
qed

text \<open>C7 \<open>map_page_user\<close>: as \<open>map_page\<close>, and it makes exactly this page accessible from
  ring 3: if before the call no user entry hid behind a supervisor directory entry, then this is so
  afterwards and every other page is accessible from ring 3 if and only if it was. The call ends
  with interrupts enabled.\<close>

theorem map_page_user_correct:
  assumes "vm_inv s" and "user_pde s" and "PAGE_PHYS_ADDRESS pa = pa"
    and "map_page_user pa va s = (True, s')"
  shows "vm_inv s' \<and> user_pde s' \<and> tables_only s s' \<and> IF_flag s' \<and>
    (\<forall>vb. walk (mem s') (current_page_directory s') vb =
      (if page vb = page va then Some ((pa OR (pte s va AND 0x80000000)) OR (vb AND 0xFFF))
       else walk (mem s) (current_page_directory s) vb)) \<and>
    (\<forall>vb. user_ok (mem s') (current_page_directory s') vb \<longleftrightarrow>
      page vb = page va \<or> user_ok (mem s) (current_page_directory s) vb)"
proof -
  obtain s3 where m: "mapped s va (\<lambda>p. SET_FRAME (SET_ATTRIBUTE (SET_ATTRIBUTE (SET_ATTRIBUTE p
      PTE_PRESENT) PTE_READ_WRITE) PTE_USER) pa) s3"
    and s': "s' = flush_tlb_entry va s3" and u: "bit (pde s3 (pdi va)) 2"
    using map_page_user_mapped [OF assms(1,4)] by blast
  note M = mapped_effect [OF assms(1) m]
  let ?u = "\<lambda>t vb. user_ok (mem t) (current_page_directory t) vb"
  have up3: "user_pde s3"
    using assms(2) u M(4) by (auto simp: user_pde_def M(3) same_page_iff)
  have c: "?u t vb \<longleftrightarrow> bit (pte t vb) 0 \<and> bit (pte t vb) 2"
    if "vm_inv t" "user_pde t" for t :: "'a vmm_scheme" and vb
    using that(2) user_ok_pte [OF that(1), of vb] unfolding user_pde_def by blast
  have ok3: "?u s3 vb \<longleftrightarrow> page vb = page va \<or> ?u s vb" for vb
    by (simp add: c [OF M(1) up3] c [OF assms(1,2)] M(3) bits_SET_FRAME_low [OF assms(3)]
        bit_SET_ATTRIBUTE flag_bits)
  note fl = flush_frame [where va = va and s = s3, folded s']
  have w3: "walk (mem s3) (current_page_directory s3) vb =
      (if page vb = page va then Some ((pa OR (pte s va AND 0x80000000)) OR (vb AND 0xFFF))
       else walk (mem s) (current_page_directory s) vb)" for vb
    by (simp add: walk_pte M(1,3) assms(1) PAGE_PHYS_SET_FRAME [OF assms(3)] SET_ATTRIBUTE_31
        bits_SET_FRAME_low [OF assms(3)] bit_SET_ATTRIBUTE flag_bits)
  show ?thesis
    using M(1,2) up3 ok3 w3 unfolding fl by (intro conjI) simp_all
qed

text \<open>When a table is missing and the allocator refuses a frame, the mapping fails.\<close>

lemma no_table:
  assumes "vm_inv s"
  shows "load32 (mem s) (pd_entry_addr s va) AND PTE_PRESENT \<noteq> PTE_PRESENT \<longleftrightarrow> pde s (pdi va) = 0"
  using vm_invD(5) [OF assms pdi_lt, of va]
  by (auto simp: present_iff pd_entry_at [OF assms] load_at simp flip: pde_def)

text \<open>Otherwise it succeeds.\<close>

lemma map_succeeds:
  assumes "vm_inv s" "pde s (pdi va) \<noteq> 0 \<or> fst (allocate_block 1 s) \<noteq> 0"
  shows "fst (map_page pa va s)" "fst (map_page_user pa va s)"
proof -
  have n: "load32 (mem s) (pd_entry_addr s va) AND PDE_PRESENT \<noteq> PDE_PRESENT \<longleftrightarrow> pde s (pdi va) = 0"
    using no_table [OF assms(1)] by (simp add: PDE_PTE)
  show "fst (map_page pa va s)" "fst (map_page_user pa va s)"
    using assms(2) unfolding map_page_def map_page_user_def Let_def no_table [OF assms(1)] n
    by (auto split: prod.splits)
qed

text \<open>C10 The mapping functions return false exactly when the directory has no table for the
  address and the allocator refuses a frame for one; the state is then unchanged. In every other
  case they return true.\<close>

theorem map_page_refused:
  assumes "vm_inv s"
  shows "(fst (map_page pa va s) \<longleftrightarrow> pde s (pdi va) \<noteq> 0 \<or> fst (allocate_block 1 s) \<noteq> 0) \<and>
    (fst (map_page_user pa va s) \<longleftrightarrow> pde s (pdi va) \<noteq> 0 \<or> fst (allocate_block 1 s) \<noteq> 0) \<and>
    (fst (map_page pa va s) \<or> snd (map_page pa va s) = s) \<and>
    (fst (map_page_user pa va s) \<or> snd (map_page_user pa va s) = s)"
proof -
  obtain t s1 where al: "allocate_block 1 s = (t, s1)" by fastforce
  have n: "load32 (mem s) (pd_entry_addr s va) AND PDE_PRESENT \<noteq> PDE_PRESENT \<longleftrightarrow> pde s (pdi va) = 0"
    using no_table [OF assms] by (simp add: PDE_PTE)
  have f: "t = 0 \<Longrightarrow> s1 = s" using pa.alloc_fail [OF vm_invD(1) [OF assms], of s1] al by simp
  show ?thesis
    unfolding map_page_def map_page_user_def Let_def no_table [OF assms] n al
    using f by (auto split: if_splits prod.splits)
qed

lemma unmap_page_effect:
  assumes "vm_inv s" and "pde s (pdi va) \<noteq> 0"
  shows "vm_inv (unmap_page va s) \<and> tables_only s (unmap_page va s) \<and>
    taken (unmap_page va s) = taken s \<and>
    (\<forall>vb. walk (mem (unmap_page va s)) (current_page_directory (unmap_page va s)) vb =
      (if page vb = page va then None else walk (mem s) (current_page_directory s) vb))"
proof -
  let ?g = "\<lambda>e. CLEAR_ATTRIBUTE (SET_FRAME e 0) PTE_PRESENT"
  have u: "unmap_page va s = update32 (at (page (pde s (pdi va))) (pti va)) ?g s"
    by (simp add: unmap_page_def get_page_at [OF assms(1)])
  note W = write_pte [OF assms(1) pdi_lt assms(2) pti_lt u]
  have "\<not> bit (?g e) 0" for e
    by (simp add: CLEAR_ATTRIBUTE_def bit_and_iff bit_not_iff flag_bits)
  then show ?thesis
    using W(1,4) write_tables_only [OF assms u]
    by (simp add: walk_pte pte_write [OF assms u] assms(1))
qed

text \<open>C9 \<open>unmap_page\<close> of an address whose table exists: the page of \<open>va\<close> is no longer
  translated, every other page is translated as before, the invariant is kept and nothing outside
  the tables changes. The frame stays allocated.\<close>

theorem unmap_page_correct:
  assumes "vm_inv s" and "pde s (pdi va) \<noteq> 0"
  shows "vm_inv (unmap_page va s) \<and> tables_only s (unmap_page va s) \<and>
    taken (unmap_page va s) = taken s \<and>
    (\<forall>vb. walk (mem (unmap_page va s)) (current_page_directory (unmap_page va s)) vb =
      (if page vb = page va then None else walk (mem s) (current_page_directory s) vb))"
  using assms by (rule unmap_page_effect)

section \<open>A small machine\<close>

text \<open>A machine with 128 frames, of which 0, 1, the bitmap's and the directory's frame 3 are
  taken; the directory is empty.\<close>

definition tiny_vm :: vmm where
  "tiny_vm = \<lparr>mem = (\<lambda>_. 0)(0x10000 := 0xb, 0x10002 := 1), TOTAL_MEMORY = 0x80000, TOTAL_PAGES = 128,
     TOTAL_BLOCK = 4, TOTAL_USED_BLOCKS = 3, BIT_MAP = 0x10000, BITMAP_SIZEB = 16,
     BIT_MAP_END = 0x10010, KERNEL_START_ADDR = 0, KERNEL_END_ADDR = 0x10000,
     current_page_directory = 0x3000, CR0 = 0x80000001, CR3 = 0x3000, IF_flag = False\<rparr>"

lemma tiny_vm_bitmap: "in_bitmap tiny_vm a \<Longrightarrow> page a = 16"
proof -
  assume "in_bitmap tiny_vm a"
  then have "65536 \<le> unat a \<and> unat a < 65552"
    by (simp add: in_bitmap_def tiny_vm_def in_range_unat)
  then show "page a = 16" unfolding page_def by (intro div_nat_eqI) simp_all
qed

lemma tiny_vm_pde [simp]: "i < 1024 \<Longrightarrow> pde tiny_vm i = 0"
proof -
  assume i: "i < 1024"
  have "dirf tiny_vm = 3" by (simp add: dirf_def tiny_vm_def page_def)
  moreover have "entry (mem tiny_vm) 3 i = entry (\<lambda>_. 0) 3 i"
    using i by (intro entry_cong) (auto simp: tiny_vm_def page_def)
  ultimately show "pde tiny_vm i = 0" by (simp add: pde_def entry_def load32_def)
qed

lemma tiny_vm_inv: "vm_inv tiny_vm" "user_pde tiny_vm"
proof -
  have nb: "nbits tiny_vm = 128" by (simp add: nbits_def tiny_vm_def)
  have u: "used tiny_vm 16" "used tiny_vm 0" "used tiny_vm 3" by code_simp+
  have p: "pmm_inv tiny_vm" using tiny_vm_bitmap u by (auto simp: pmm_inv_def nb)
  have d: "dirf tiny_vm = 3" by (simp add: dirf_def tiny_vm_def page_def)
  have "owned tiny_vm 3" using tiny_vm_bitmap u by (auto simp: owned_def taken_def nb)
  moreover have "current_page_directory tiny_vm = 0x3000" by (simp add: tiny_vm_def)
  ultimately show "vm_inv tiny_vm" using p d by (simp add: vm_inv_def)
  show "user_pde tiny_vm" by (simp add: user_pde_def pte_def)
qed

lemma tiny_vm_alloc: "fst (allocate_block 1 tiny_vm) = 0x2000"
proof -
  have "get_free_frame_by_size 1 tiny_vm = 2" by code_simp
  then show ?thesis
    by (simp add: allocate_block_def INVALID_FRAME_def PER_BLOCK_SIZE_def Let_def)
qed

theorem map_page_refused_witness:
  "fst (map_page 0x5000 0x400000 tiny_vm) \<and> fst (map_page_user 0x5000 0x400000 tiny_vm)"
  using map_page_refused [OF tiny_vm_inv(1), of "0x5000" "0x400000"] tiny_vm_alloc by simp

lemma tiny_vm_walk [simp]:
  "walk (mem tiny_vm) (current_page_directory tiny_vm) va = None"
  by (simp add: walk_pte [OF tiny_vm_inv(1)] pte_def)

lemma tiny_map: "map_page 0x5000 0x400000 tiny_vm = (True, snd (map_page 0x5000 0x400000 tiny_vm))"
  by (simp add: map_page_def no_table [OF tiny_vm_inv(1)] tiny_vm_alloc split_beta Let_def)

lemma tiny_map_user:
  "map_page_user 0x5000 0x400000 tiny_vm = (True, snd (map_page_user 0x5000 0x400000 tiny_vm))"
  by (simp add: map_page_user_def PDE_PTE no_table [OF tiny_vm_inv(1)] tiny_vm_alloc split_beta Let_def)

theorem map_page_correct_witness:
  "walk (mem (snd (map_page 0x5000 0x400000 tiny_vm))) 0x3000 0x400123 = Some 0x5123"
proof -
  let ?s = "snd (map_page 0x5000 0x400000 tiny_vm)"
  have "PAGE_PHYS_ADDRESS 0x5000 = 0x5000" by (simp add: PAGE_PHYS_ADDRESS_def)
  note M = map_page_correct [OF tiny_vm_inv(1) this tiny_map]
  have "current_page_directory ?s = 0x3000" using M by (simp add: tables_only_def tiny_vm_def)
  moreover have "page 0x400123 = page 0x400000" by (simp add: page_def)
  ultimately show ?thesis using M [THEN conjunct2, THEN conjunct2, rule_format, of "0x400123"]
    by (simp add: pte_def)
qed

theorem map_page_user_correct_witness:
  "user_ok (mem (snd (map_page_user 0x5000 0x400000 tiny_vm))) 0x3000 0x400123 \<and>
   \<not> user_ok (mem (snd (map_page_user 0x5000 0x400000 tiny_vm))) 0x3000 0x401000"
proof -
  let ?s = "snd (map_page_user 0x5000 0x400000 tiny_vm)"
  have "PAGE_PHYS_ADDRESS 0x5000 = 0x5000" by (simp add: PAGE_PHYS_ADDRESS_def)
  note M = map_page_user_correct [OF tiny_vm_inv this tiny_map_user]
  have c: "current_page_directory ?s = 0x3000" using M by (simp add: tables_only_def tiny_vm_def)
  have "user_ok (mem ?s) (current_page_directory ?s) vb \<longleftrightarrow>
      page vb = page 0x400000 \<or> user_ok (mem tiny_vm) (current_page_directory tiny_vm) vb" for vb
    using M by blast
  moreover have "page 0x400123 = page 0x400000" "page 0x401000 \<noteq> page 0x400000"
    by (simp_all add: page_def)
  ultimately show ?thesis
    unfolding c user_ok_pte [OF tiny_vm_inv(1)] by (simp add: pte_def)
qed

lemma tiny_mapped_pde: "pde (snd (map_page 0x5000 0x400000 tiny_vm)) 1 \<noteq> 0"
proof -
  note M = mapped_effect [OF tiny_vm_inv(1) map_page_mapped [OF tiny_vm_inv(1) tiny_map]]
  have "bit (pte (snd (map_page 0x5000 0x400000 tiny_vm)) 0x400000) 0"
    using M(3)
    by (simp add: bits_SET_FRAME_low PAGE_PHYS_ADDRESS_def bit_SET_ATTRIBUTE flag_bits)
  moreover have "pdi 0x400000 = 1" by (simp add: pdi_def)
  ultimately show ?thesis by (auto simp: pte_def split: if_splits)
qed

theorem unmap_page_correct_witness:
  "walk (mem (unmap_page 0x400000 (snd (map_page 0x5000 0x400000 tiny_vm)))) 0x3000 0x400123 = None"
proof -
  let ?s = "snd (map_page 0x5000 0x400000 tiny_vm)"
  note M = mapped_effect [OF tiny_vm_inv(1) map_page_mapped [OF tiny_vm_inv(1) tiny_map]]
  have "current_page_directory ?s = 0x3000" using M(2) by (simp add: tables_only_def tiny_vm_def)
  moreover have "pdi 0x400000 = 1" by (simp add: pdi_def)
  moreover have "page 0x400123 = page 0x400000" by (simp add: page_def)
  moreover note U = unmap_page_correct [OF M(1), of "0x400000"]
  ultimately have "current_page_directory (unmap_page 0x400000 ?s) = 0x3000" "pde ?s (pdi 0x400000) \<noteq> 0"
    using tiny_mapped_pde by (simp_all add: tables_only_def)
  with U [THEN conjunct2, THEN conjunct2, THEN conjunct2, rule_format, of "0x400123"] show ?thesis
    by (simp add: \<open>page 0x400123 = page 0x400000\<close>)
qed

section \<open>Free frames\<close>

text \<open>The allocator serves a one-frame request while its counter allows it and a frame is free.\<close>

lemma alloc_succeeds:
  assumes inv: "pmm_inv s" and c: "TOTAL_USED_BLOCKS s < TOTAL_BLOCK s" and f: "f < nbits s" "\<not> taken s f"
  shows "fst (allocate_block 1 s) \<noteq> 0"
proof
  assume z: "fst (allocate_block 1 s) = 0"
  have "\<not> used s (of_nat f)" using f by (simp add: taken_def)
  then have "run_free s 1 f" by (simp add: run_free_nat)
  then have "first_run 1 s \<noteq> None"
    using f(1) by (auto simp: first_run_def find_None_iff)
  then obtain g where g: "first_run 1 s = Some g" by auto
  note fs = find_Some_run [OF g]
  have "of_nat g * 4096 = (0 :: u32)"
    using z g not_le [THEN iffD2, OF c] by (simp add: allocate_block_cases [OF inv] Let_def)
  moreover have "g < 0x100000" using fs inv by (simp add: pmm_inv_def)
  ultimately have "g = 0" using unat_frame_addr [of g] by simp
  moreover have "run_free s 1 g" using fs by simp
  ultimately have "\<not> used s (of_nat 0)" by (simp add: run_free_nat)
  then show False using inv f(1) by (simp add: pmm_inv_def)
qed

definition free_frames :: "'a pmm_scheme \<Rightarrow> nat set" where
  "free_frames s = {f. f < nbits s \<and> \<not> taken s f}"

lemma free_framesI: "f < nbits s \<Longrightarrow> \<not> taken s f \<Longrightarrow> f \<in> free_frames s"
  by (simp add: free_frames_def)

lemma finite_free [simp]: "finite (free_frames s)"
  by (simp add: free_frames_def)

lemma alloc_from_free:
  assumes inv: "pmm_inv s" and c: "TOTAL_USED_BLOCKS s < TOTAL_BLOCK s" and n: "Suc n \<le> card (free_frames s)"
    and al: "allocate_block 1 s = (t, s1)"
  shows "t \<noteq> 0" "n \<le> card (free_frames s1)" "TOTAL_USED_BLOCKS s1 = TOTAL_USED_BLOCKS s + 1"
    "TOTAL_BLOCK s1 = TOTAL_BLOCK s"
proof -
  have "free_frames s \<noteq> {}" using n by (metis card.empty not_less_eq_eq le0)
  then obtain f where "f < nbits s" "\<not> taken s f" by (auto simp: free_frames_def)
  with alloc_succeeds [OF inv c] al show t: "t \<noteq> 0" by simp
  note post = allocate_block_1 [OF inv al t, THEN conjunct2]
  show "TOTAL_USED_BLOCKS s1 = TOTAL_USED_BLOCKS s + 1" "TOTAL_BLOCK s1 = TOTAL_BLOCK s"
    using post by (simp_all add: alloc_post_def)
  have "nbits s1 = nbits s" using post by (simp add: alloc_post_def nbits_def)
  then have "free_frames s1 = free_frames s - {page t}"
    using pa.alloc_taken [OF inv al t] by (auto simp: free_frames_def)
  moreover have "finite (free_frames s)" by (simp add: free_frames_def)
  ultimately show "n \<le> card (free_frames s1)" using n
    by (simp add: card_Diff_singleton_if) linarith
qed

lemma same_free_frames:
  fixes s :: "'a pmm_scheme" and s' :: "'b pmm_scheme"
  assumes "mem s' = mem s" "BIT_MAP s' = BIT_MAP s" "TOTAL_BLOCK s' = TOTAL_BLOCK s"
  shows "free_frames s' = free_frames s"
  by (simp add: free_frames_def same_bitmap [OF assms])

lemma free_frames_cong: "taken s' = taken s \<Longrightarrow> nbits s' = nbits s \<Longrightarrow> free_frames s' = free_frames s"
  by (simp add: free_frames_def)

lemma alloc_least:
  assumes inv: "pmm_inv s" and al: "allocate_block 1 s = (t, s1)" "t \<noteq> 0" and f: "f \<in> free_frames s"
  shows "page t \<le> f" "free_frames s1 = free_frames s - {page t}"
proof -
  have nb: "nbits s \<le> 0x100000" using inv by (simp add: pmm_inv_def)
  obtain g where g: "first_run 1 s = Some g" "t = of_nat g * 4096"
    using al by (auto simp: allocate_block_cases [OF inv] Let_def split: if_splits option.splits)
  have "run_free s 1 f" using f by (simp add: free_frames_def taken_def run_free_def)
  then have "g \<le> f" using find_Some_run [OF g(1)] by (meson atLeastLessThan_iff le0 not_less)
  moreover have "g < nbits s" using find_Some_run [OF g(1)] by simp
  ultimately show "page t \<le> f" using nb by (simp add: g(2) page_frame_addr)
  have post: "alloc_post s (page t) 1 s1" using allocate_block_1 [OF inv al] by simp
  then have "nbits s1 = nbits s" by (simp add: alloc_post_def nbits_def)
  then show "free_frames s1 = free_frames s - {page t}"
    using pa.alloc_taken [OF inv al] by (auto simp: free_frames_def)
qed

lemma alloc_for_table:
  assumes inv: "pmm_inv s" and c: "TOTAL_USED_BLOCKS s < TOTAL_BLOCK s" and n: "Suc 0 \<le> card (free_frames s)"
    and al: "allocate_block 1 s = (t, s1)"
  shows "t \<noteq> 0" "page t \<in> free_frames s" "\<forall>g\<in>free_frames s. page t \<le> g" "free_frames s1 = free_frames s - {page t}"
    "TOTAL_USED_BLOCKS s1 = TOTAL_USED_BLOCKS s + 1" "TOTAL_BLOCK s1 = TOTAL_BLOCK s" "in_bitmap s1 = in_bitmap s"
    "\<And>x. page x \<noteq> page t \<Longrightarrow> \<not> in_bitmap s x \<Longrightarrow> mem s1 x = mem s x"
proof -
  note G = alloc_from_free [OF inv c n al]
  show t: "t \<noteq> 0" by (rule G(1))
  obtain g where g: "g \<in> free_frames s" using n by (metis One_nat_def card.empty ex_in_conv not_one_le_zero)
  note L = alloc_least [OF inv al t]
  show "\<forall>g\<in>free_frames s. page t \<le> g" "free_frames s1 = free_frames s - {page t}" using L [OF g] L(1) by blast+
  have "nbits s \<noteq> 0 \<and> page t < nbits s" using L(1) [OF g] g by (auto simp: free_frames_def)
  then show "page t \<in> free_frames s" using pa.alloc_fresh [OF inv al t] by (simp add: free_frames_def)
  show "TOTAL_USED_BLOCKS s1 = TOTAL_USED_BLOCKS s + 1" "TOTAL_BLOCK s1 = TOTAL_BLOCK s" by (rule G)+
  show "in_bitmap s1 = in_bitmap s" by (rule pa.alloc_own_data [OF inv al])
  show "mem s1 x = mem s x" if "page x \<noteq> page t" "\<not> in_bitmap s x" for x using pa.alloc_frame [OF inv al t that] .
qed

text \<open>What the invariant depends on.\<close>

lemma vm_inv_transfer:
  assumes "vm_inv s" "pmm_inv s'" "current_page_directory s' = current_page_directory s"
    "\<And>f. owned s f \<Longrightarrow> owned s' f" "\<And>i. i < 1024 \<Longrightarrow> pde s' i = pde s i"
  shows "vm_inv s'"
proof -
  have "dirf s' = dirf s" using assms(3) by (simp add: dirf_def)
  then show ?thesis using assms unfolding vm_inv_def by simp
qed


lemma pte_transfer:
  assumes "vm_inv s" "current_page_directory s' = current_page_directory s"
    "\<And>i. i < 1024 \<Longrightarrow> pde s' i = pde s i"
    "\<And>f k. owned s f \<Longrightarrow> k < 1024 \<Longrightarrow> f \<noteq> dirf s \<Longrightarrow> entry (mem s') f k = entry (mem s) f k"
  shows "pte s' va = pte s va"
  using assms(3) [of "pdi va"] assms(4) [of "page (pde s (pdi va))" "pti va"]
    vm_invD(6,7) [OF assms(1), of "pdi va"]
  by (cases "pde s (pdi va) = 0") (simp_all add: pte_def)

section \<open>What clients with their own state rely on\<close>

text \<open>The mapping functions change the memory and the counter of used frames and, for user pages,
  the interrupt flag; every other field of the state stays.\<close>

definition pmm_only :: "'a pmm_scheme \<Rightarrow> 'a pmm_scheme \<Rightarrow> bool" where
  "pmm_only s s' \<longleftrightarrow> (\<exists>m u. s' = s\<lparr>mem := m, TOTAL_USED_BLOCKS := u\<rparr>)"

lemma pmm_only_refl [simp, intro]: "pmm_only s s"
  unfolding pmm_only_def by (rule exI [of _ "mem s"], rule exI [of _ "TOTAL_USED_BLOCKS s"]) simp

lemma pmm_only_trans [trans]: "pmm_only s t \<Longrightarrow> pmm_only t u \<Longrightarrow> pmm_only s u"
  unfolding pmm_only_def by force

lemma pmm_only_mem:
  assumes "pmm_only s t" shows "pmm_only s (t\<lparr>mem := m\<rparr>)"
proof -
  obtain m' u where "t = s\<lparr>mem := m', TOTAL_USED_BLOCKS := u\<rparr>"
    using assms by (auto simp: pmm_only_def)
  then have "t\<lparr>mem := m\<rparr> = s\<lparr>mem := m, TOTAL_USED_BLOCKS := u\<rparr>" by simp
  then show ?thesis unfolding pmm_only_def by blast
qed

lemma pmm_only_update32: "pmm_only s t \<Longrightarrow> pmm_only s (update32 a f t)"
  unfolding update32_def by (rule pmm_only_mem)

lemma pmm_only_alloc: "allocate_block n s = (t, s1) \<Longrightarrow> pmm_only s s1"
  using allocate_block_shape [of n s] by (auto simp: pmm_only_def)

lemmas pmm_only_intros = pmm_only_refl pmm_only_mem pmm_only_update32

lemma map_page_shape: "pmm_only s (snd (map_page pa va s))"
proof -
  obtain t s1 where al: "allocate_block 1 s = (t, s1)" by fastforce
  have "pmm_only s s1" by (rule pmm_only_alloc [OF al])
  then show ?thesis
    by (auto simp: map_page_def al Let_def intro!: pmm_only_intros)
qed

lemma map_page_user_shape:
  "\<exists>t i. pmm_only s t \<and> snd (map_page_user pa va s) = t\<lparr>IF_flag := i\<rparr>"
proof -
  obtain t s1 where al: "allocate_block 1 s = (t, s1)" by fastforce
  have a: "pmm_only s s1" by (rule pmm_only_alloc [OF al])
  have fl: "\<exists>u i. pmm_only s u \<and> flush_tlb_entry va v = u\<lparr>IF_flag := i\<rparr>" if "pmm_only s v" for v
    using that by (auto simp: flush_tlb_entry_def)
  have id: "\<exists>u i. pmm_only s u \<and> s1 = u\<lparr>IF_flag := i\<rparr>"
    using a by (intro exI [of _ s1] exI [of _ "IF_flag s1"]) simp
  show ?thesis
  proof (cases "load32 (mem s) (pd_entry_addr s va) AND PDE_PRESENT \<noteq> PDE_PRESENT \<and> t = 0")
    case True
    then have "snd (map_page_user pa va s) = s1" by (simp add: map_page_user_def al)
    with id show ?thesis by simp
  next
    case False
    have "\<exists>v. snd (map_page_user pa va s) = flush_tlb_entry va v \<and> pmm_only s v"
    proof (cases "load32 (mem s) (pd_entry_addr s va) AND PDE_PRESENT \<noteq> PDE_PRESENT")
      case True
      with False show ?thesis
        by (simp add: map_page_user_def al Let_def)
          (rule exI, rule conjI, rule refl, intro pmm_only_intros a)
    next
      case False
      then show ?thesis
        by (simp add: map_page_user_def al Let_def)
          (rule exI, rule conjI, rule refl, intro pmm_only_intros)
    qed
    with fl show ?thesis by metis
  qed
qed

end
