(* ===== verification/Malloc.thy ===== *)
theory Malloc
  imports Vmm
begin

text \<open>
  The kernel heap, \<open>src/kernel/mm/handler/malloc.c\<close>: a singly linked list of blocks, each a
  12-byte header followed by its payload, in the virtual addresses from \<open>KERNEL_HEAP_START\<close> on.

  The headers are kept in a store of their own, from header addresses to \<open>malloc_block\<close>s; the
  payloads are the clients'. The state extends the virtual memory manager's, so that growing the heap
  allocates frames and maps pages by the operations of \<open>Vmm\<close>. The loops over the list and
  the page count may run for ever, so they are partial functions into \<open>option\<close>: \<open>None\<close> is
  a call that does not return.

  The abstraction of a heap is the list of the sizes and flags of its blocks; \<open>heap_inv\<close> relates
  the two. The lemmas show what each operation does to this list, including the two ways in which
  \<open>malloc_next_block\<close> hands out memory that is in use.
\<close>

section \<open>State\<close>

definition KERNEL_HEAP_START :: u32 where "KERNEL_HEAP_START = 0xD1000000"

record malloc_block =
  bsize :: u32
  bfree :: bool
  bnext :: u32

record heap = vmm +
  malloc_list_head :: u32
  malloc_virt_address :: u32
  malloc_phys_address :: u32
  total_malloc_pages :: u32
  blocks :: "u32 \<Rightarrow> malloc_block"

text \<open>\<open>sizeof(malloc_block_t)\<close> on i686.\<close>

definition HDR :: u32 where "HDR = 12"

definition update_block :: "u32 \<Rightarrow> (malloc_block \<Rightarrow> malloc_block) \<Rightarrow> 'a heap_scheme \<Rightarrow> 'a heap_scheme" where
  "update_block a f s = s\<lparr>blocks := (blocks s)(a := f (blocks s a))\<rparr>"

section \<open>Operations\<close>

definition malloc_init :: "u32 \<Rightarrow> 'a heap_scheme \<Rightarrow> 'a heap_scheme" where
  "malloc_init bytes s =
     (let n = (bytes + PAGE_SIZE - 1) div PAGE_SIZE;
          n = (if bytes mod PAGE_SIZE > 0 then n + 1 else n);
          (phys, s1) = allocate_block n (s\<lparr>total_malloc_pages := n\<rparr>);
          s2 = s1\<lparr>malloc_phys_address := phys, malloc_list_head := malloc_virt_address s1\<rparr>;
          s3 = fold (\<lambda>i s.
                 let virt = malloc_virt_address s2 + of_nat i * PAGE_SIZE;
                     s' = snd (map_page (phys + of_nat i * PAGE_SIZE) virt s)
                 in update32 (get_page virt s') (\<lambda>e. SET_ATTRIBUTE e PTE_READ_WRITE) s')
               [0..<unat n] s2
      in if malloc_list_head s3 \<noteq> 0
         then update_block (malloc_list_head s3)
                (\<lambda>_. \<lparr>bsize = n * PAGE_SIZE - HDR, bfree = True, bnext = 0\<rparr>) s3
         else s3)"

definition malloc_split :: "u32 \<Rightarrow> u32 \<Rightarrow> 'a heap_scheme \<Rightarrow> 'a heap_scheme" where
  "malloc_split node n s =
     (let new_node = node + n + HDR;
          s1 = update_block new_node (\<lambda>b. b\<lparr>bsize := bsize (blocks s node) - n - HDR\<rparr>) s;
          s2 = update_block new_node (\<lambda>b. b\<lparr>bfree := True\<rparr>) s1;
          s3 = update_block new_node (\<lambda>b. b\<lparr>bnext := bnext (blocks s2 node)\<rparr>) s2
      in update_block node (\<lambda>_. \<lparr>bsize = n, bfree = False, bnext = new_node\<rparr>) s3)"

text \<open>The search: the first block that is free and large enough, or else the last block.\<close>

partial_function (option) find_block :: "(u32 \<Rightarrow> malloc_block) \<Rightarrow> u32 \<Rightarrow> u32 \<Rightarrow> u32 option" where
  "find_block H n cur =
     (if (bsize (H cur) < n \<or> \<not> bfree (H cur)) \<and> bnext (H cur) \<noteq> 0
      then find_block H n (bnext (H cur)) else Some cur)"

text \<open>\<open>uint8_t num_pages\<close>: the number of pages a block grows by.\<close>

partial_function (option) count_pages :: "u32 \<Rightarrow> u32 \<Rightarrow> u8 \<Rightarrow> u8 option" where
  "count_pages have need k =
     (if have + ucast k * PAGE_SIZE < need then count_pages have need (k + 1) else Some k)"

text \<open>One turn of the loop that maps a new page; the attribute is set on a local variable.\<close>

definition grow_page :: "u32 \<Rightarrow> u32 \<Rightarrow> 'a heap_scheme \<Rightarrow> 'a heap_scheme" where
  "grow_page cur virt s =
     (let (temp, page, s1) = allocate_page 0 s;
          s2 = snd (map_page temp virt s1);
          s3 = update_block cur (\<lambda>b. b\<lparr>bsize := bsize b + PAGE_SIZE\<rparr>) s2
      in s3\<lparr>total_malloc_pages := total_malloc_pages s3 + 1\<rparr>)"

definition grow :: "u32 \<Rightarrow> u8 \<Rightarrow> 'a heap_scheme \<Rightarrow> 'a heap_scheme" where
  "grow cur num_pages s =
     (let virt = malloc_virt_address s + total_malloc_pages s * PAGE_SIZE
      in fold (\<lambda>i. grow_page cur (virt + of_nat i * PAGE_SIZE)) [0..<unat num_pages] s)"

definition malloc_next_block :: "u32 \<Rightarrow> 'a heap_scheme \<Rightarrow> (u32 \<times> 'a heap_scheme) option" where
  "malloc_next_block n s =
     (if n = 0 then Some (0, s)
      else let s1 = (if bsize (blocks s (malloc_list_head s)) = 0 then malloc_init n s else s)
           in case find_block (blocks s1) n (malloc_list_head s1) of None \<Rightarrow> None
              | Some cur \<Rightarrow>
                  let m = bsize (blocks s1 cur)
                  in if n = m then Some (cur + HDR, update_block cur (\<lambda>b. b\<lparr>bfree := False\<rparr>) s1)
                     else if m > n + HDR then Some (cur + HDR, malloc_split cur n s1)
                     else case count_pages m (n + HDR) 1 of None \<Rightarrow> None
                          | Some k \<Rightarrow> Some (cur + HDR, malloc_split cur n (grow cur k s1)))"

partial_function (option) merge_loop :: "u32 \<Rightarrow> 'a heap_scheme \<Rightarrow> 'a heap_scheme option" where
  "merge_loop cur s =
     (if cur = 0 \<or> bnext (blocks s cur) = 0 then Some s
      else let nxt = bnext (blocks s cur);
               s1 = (if bfree (blocks s cur) \<and> bfree (blocks s nxt)
                     then let s' = update_block cur (\<lambda>b. b\<lparr>bsize := bsize b + (bsize (blocks s nxt) + HDR)\<rparr>) s
                          in update_block cur (\<lambda>b. b\<lparr>bnext := bnext (blocks s' (bnext b))\<rparr>) s'
                     else s)
           in merge_loop (bnext (blocks s1 cur)) s1)"

definition merge_free_blocks :: "'a heap_scheme \<Rightarrow> 'a heap_scheme option" where
  "merge_free_blocks s = merge_loop (malloc_list_head s) s"

partial_function (option) free_loop :: "u32 \<Rightarrow> u32 \<Rightarrow> 'a heap_scheme \<Rightarrow> 'a heap_scheme option" where
  "free_loop ptr cur s =
     (if bnext (blocks s cur) = 0 then Some s
      else if cur + HDR = ptr then merge_free_blocks (update_block cur (\<lambda>b. b\<lparr>bfree := True\<rparr>) s)
      else free_loop ptr (bnext (blocks s cur)) s)"

definition malloc_free :: "u32 \<Rightarrow> 'a heap_scheme \<Rightarrow> 'a heap_scheme option" where
  "malloc_free ptr s = free_loop ptr (malloc_list_head s) s"

section \<open>The heap as a list of blocks\<close>

text \<open>
  \<open>seg H p a bs q e\<close>: from the pointer \<open>p\<close> on, the store holds the blocks \<open>bs\<close>, one after
  the other without gaps in the addresses from \<open>a\<close> to \<open>e\<close>, and the last one's link is \<open>q\<close>.
\<close>

type_synonym block = "nat \<times> bool"

fun seg :: "(u32 \<Rightarrow> malloc_block) \<Rightarrow> u32 \<Rightarrow> nat \<Rightarrow> block list \<Rightarrow> u32 \<Rightarrow> nat \<Rightarrow> bool" where
  "seg H p a [] q e \<longleftrightarrow> p = q \<and> a = e"
| "seg H p a ((n, f) # bs) q e \<longleftrightarrow> p \<noteq> 0 \<and> unat p = a \<and> unat (bsize (H p)) = n \<and>
     bfree (H p) = f \<and> seg H (bnext (H p)) (a + 12 + n) bs q e"

definition heap_end :: "'a heap_scheme \<Rightarrow> nat" where
  "heap_end s = unat (malloc_virt_address s) + unat (total_malloc_pages s) * 4096"

definition heap_inv :: "'a heap_scheme \<Rightarrow> block list \<Rightarrow> bool" where
  "heap_inv s bs \<longleftrightarrow> bs \<noteq> [] \<and> malloc_list_head s = malloc_virt_address s \<and>
     heap_end s < 4294967296 \<and> fst (hd bs) \<noteq> 0 \<and>
     seg (blocks s) (malloc_list_head s) (unat (malloc_virt_address s)) bs 0 (heap_end s)"

text \<open>The reference operations on the list.\<close>

definition offset :: "block list \<Rightarrow> nat" where
  "offset bs = (\<Sum>b\<leftarrow>bs. 12 + fst b)"

definition fits :: "nat \<Rightarrow> block \<Rightarrow> bool" where
  "fits n b \<longleftrightarrow> snd b \<and> n \<le> fst b"

definition carve :: "nat \<Rightarrow> nat \<Rightarrow> block list" where
  "carve n m = (if m = n then [(n, False)] else [(n, False), (m - n - 12, True)])"

fun merge_list :: "block list \<Rightarrow> block list" where
  "merge_list ((m, f) # (n, g) # bs) =
     (if f \<and> g then (m + (n + 12), True) # merge_list bs else (m, f) # merge_list ((n, g) # bs))"
| "merge_list bs = bs"

section \<open>Segments\<close>

lemma offset_simps [simp]:
  "offset [] = 0" "offset (b # bs) = 12 + fst b + offset bs" "offset (bs @ cs) = offset bs + offset cs"
  by (simp_all add: offset_def)

lemma seg_end: "seg H p a bs q e \<Longrightarrow> e = a + offset bs"
proof (induction bs arbitrary: p a)
  case (Cons b bs)
  then show ?case using Cons.IH [of "bnext (H p)" "a + 12 + fst b"] by (cases b) simp
qed simp

lemma seg_append:
  "seg H p a (bs @ cs) q e \<longleftrightarrow> (\<exists>r. seg H p a bs r (a + offset bs) \<and> seg H r (a + offset bs) cs q e)"
  by (induction bs arbitrary: p a) (auto simp: add.assoc)

lemma seg_cong:
  assumes "seg H p a bs q e" "\<And>x. a \<le> unat x \<Longrightarrow> unat x < e \<Longrightarrow> H' x = H x"
  shows "seg H' p a bs q e"
  using assms
proof (induction bs arbitrary: p a)
  case (Cons b bs)
  obtain n f where b: "b = (n, f)" by fastforce
  have e: "e = a + 12 + n + offset bs" using seg_end [OF Cons.prems(1)] b by simp
  have "H' p = H p" using Cons.prems e b by (intro Cons.prems(2)) auto
  moreover have "seg H' (bnext (H p)) (a + 12 + n) bs q e"
    using Cons.prems b by (intro Cons.IH) auto
  ultimately show ?case using Cons.prems(1) b by simp
qed simp

text \<open>Writing before or behind a segment leaves it alone.\<close>

lemma seg_upd:
  "seg H p a bs q e \<Longrightarrow> unat x < a \<or> e \<le> unat x \<Longrightarrow> seg (H(x := b)) p a bs q e"
  by (erule seg_cong) auto

lemma seg_pointer: "seg H p a bs 0 e \<Longrightarrow> bs \<noteq> [] \<Longrightarrow> p \<noteq> 0 \<and> unat p = a"
  by (cases bs) auto

lemma seg_nonnull: "seg H p a (b # bs) q e \<Longrightarrow> p \<noteq> 0 \<and> unat p = a"
  by (cases b) auto

lemma seg_next: "seg H p a ((m, f) # bs) 0 e \<Longrightarrow> bnext (H p) = 0 \<longleftrightarrow> bs = []"
  using seg_pointer [of H "bnext (H p)" "a + 12 + m" bs e] by auto

text \<open>The search finds the first fitting block, or the last one.\<close>

lemma find_block_seg:
  assumes "seg H p a (pre @ (m, f) # post) 0 e"
    and "\<forall>b\<in>set pre. \<not> fits (unat n) b" and "fits (unat n) (m, f) \<or> post = []"
  shows "\<exists>r. find_block H n p = Some r \<and> seg H p a pre r (a + offset pre) \<and>
    seg H r (a + offset pre) ((m, f) # post) 0 e"
  using assms
proof (induction pre arbitrary: p a)
  case Nil
  have nx: "bnext (H p) = 0 \<longleftrightarrow> post = []" 
    by (rule seg_next [of H p a m f post e]) (use Nil.prems(1) in simp)
  have "\<not> ((bsize (H p) < n \<or> \<not> bfree (H p)) \<and> bnext (H p) \<noteq> 0)"
    using Nil.prems nx by (auto simp: fits_def word_less_nat_alt)
  then have "find_block H n p = Some p" by (subst find_block.simps) auto
  with Nil.prems show ?case by auto
next
  case (Cons b pre)
  obtain k g where b: "b = (k, g)" by fastforce
  have "bnext (H p) \<noteq> 0" using seg_next [of H p a k g "pre @ (m, f) # post" e] Cons.prems(1) b by simp
  moreover have "bsize (H p) < n \<or> \<not> bfree (H p)"
    using Cons.prems(1,2) b by (auto simp: fits_def word_less_nat_alt)
  ultimately have "find_block H n p = find_block H n (bnext (H p))"
    by (subst find_block.simps) auto
  moreover obtain r where "find_block H n (bnext (H p)) = Some r"
    "seg H (bnext (H p)) (a + 12 + k) pre r (a + 12 + k + offset pre)"
    "seg H r (a + 12 + k + offset pre) ((m, f) # post) 0 e"
    using Cons.IH [of "bnext (H p)" "a + 12 + k"] Cons.prems b by auto
  ultimately show ?case using Cons.prems(1) b by (auto simp: add.assoc)
qed

text \<open>Replacing the middle of a segment.\<close>

lemma seg_replace:
  assumes "seg H p a pre r c" "seg H' r c mid q d" "seg H q d post 0 e"
    and "\<And>x. unat x < c \<or> d \<le> unat x \<Longrightarrow> H' x = H x"
  shows "seg H' p a (pre @ mid @ post) 0 e"
proof -
  have c: "c = a + offset pre" and d: "d = c + offset mid" using seg_end assms(1,2) by blast+
  have "seg H' p a pre r c" by (rule seg_cong [OF assms(1)]) (simp add: assms(4))
  moreover have "seg H' q d post 0 e" by (rule seg_cong [OF assms(3)]) (simp add: assms(4))
  ultimately show ?thesis
    using assms(2) unfolding seg_append c d by auto
qed

section \<open>Splitting, growing, merging\<close>

lemma update_block_simps [simp, frame_facts]:
  "blocks (update_block a f s) = (blocks s)(a := f (blocks s a))"
  "malloc_list_head (update_block a f s) = malloc_list_head s"
  "malloc_virt_address (update_block a f s) = malloc_virt_address s"
  "total_malloc_pages (update_block a f s) = total_malloc_pages s"
  "heap_end (update_block a f s) = heap_end s"
  by (simp_all add: update_block_def heap_end_def)

text \<open>\<open>s'\<close> differs from \<open>s\<close> in the headers only.\<close>

definition headers_only :: "'a heap_scheme \<Rightarrow> 'a heap_scheme \<Rightarrow> bool" where
  "headers_only s s' \<longleftrightarrow> (\<exists>H. s' = s\<lparr>blocks := H\<rparr>)"

lemma headers_only_refl [simp, intro]: "headers_only s s"
  unfolding headers_only_def by (rule exI [of _ "blocks s"]) simp

lemma headers_only_trans [trans]: "headers_only s t \<Longrightarrow> headers_only t u \<Longrightarrow> headers_only s u"
  by (auto simp: headers_only_def)

lemma headers_only_update [simp, intro]: "headers_only s (update_block a f s)"
  by (auto simp: headers_only_def update_block_def)

lemma headers_onlyD:
  "headers_only s s' \<Longrightarrow> malloc_list_head s' = malloc_list_head s \<and>
     malloc_virt_address s' = malloc_virt_address s \<and> heap_end s' = heap_end s"
  by (auto simp: headers_only_def heap_end_def)

lemma malloc_split_seg:
  assumes "p \<noteq> 0" "unat p = a" "unat (bsize (blocks s p)) = m" "unat n + 12 \<le> m" "a + 12 + m < 4294967296"
  defines "s' \<equiv> malloc_split p n s"
  shows "seg (blocks s') p a [(unat n, False), (m - unat n - 12, True)] (bnext (blocks s p)) (a + 12 + m)"
    "\<And>x. unat x < a \<or> a + 12 + m \<le> unat x \<Longrightarrow> blocks s' x = blocks s x" "headers_only s s'"
proof -
  let ?new = "p + n + HDR"
  have "?new = of_nat (a + unat n + 12)" by (simp add: HDR_def flip: assms(2))
  moreover have "a + unat n + 12 < 4294967296" using assms(4,5) by linarith
  ultimately have new: "unat ?new = a + unat n + 12" by (metis unat_of_nat32)
  have ne: "?new \<noteq> p"
  proof
    assume eq: "?new = p"
    show False using new unfolding eq using assms(2) by simp
  qed
  have b: "blocks s' = (blocks s)(?new := \<lparr>bsize = bsize (blocks s p) - n - HDR, bfree = True,
      bnext = bnext (blocks s p)\<rparr>, p := \<lparr>bsize = n, bfree = False, bnext = ?new\<rparr>)"
    using ne by (simp add: s'_def malloc_split_def Let_def fun_eq_iff)
  have "unat (bsize (blocks s p) - n - HDR) = m - unat n - 12"
  proof -
    have "n \<le> bsize (blocks s p)" using assms(3,4) by (simp add: word_le_nat_alt)
    then have "unat (bsize (blocks s p) - n) = m - unat n" using assms(3) by (simp add: unat_sub)
    moreover have "HDR \<le> bsize (blocks s p) - n"
      using calculation assms(4) by (simp add: word_le_nat_alt HDR_def)
    ultimately show ?thesis by (simp add: unat_sub HDR_def)
  qed
  then show "seg (blocks s') p a [(unat n, False), (m - unat n - 12, True)] (bnext (blocks s p)) (a + 12 + m)"
    using assms(1,2,4) new ne by (auto simp: b)
  show "blocks s' x = blocks s x" if "unat x < a \<or> a + 12 + m \<le> unat x" for x
    using that new assms(2,4) by (auto simp: b)
  show "headers_only s s'"
    by (auto simp: s'_def malloc_split_def Let_def headers_only_def update_block_def)
qed

text \<open>The page count is the least one that suffices, if at most 255 pages do.\<close>

lemma unat_pages_add:
  assumes "unat have + 255 * 4096 < 4294967296" "unat (k :: u8) \<le> 255"
  shows "unat (have + ucast k * PAGE_SIZE :: u32) = unat have + unat k * 4096"
proof -
  have "have + ucast k * PAGE_SIZE = of_nat (unat have + unat k * 4096)"
    by (simp add: PAGE_SIZE_def unsigned_ucast_eq)
  moreover have "unat have + unat k * 4096 < 4294967296" using assms by linarith
  ultimately show ?thesis by (metis unat_of_nat32)
qed

lemma count_pages_from:
  assumes "unat have + 255 * 4096 < 4294967296" "unat need \<le> unat have + 255 * 4096"
  shows "\<exists>r. count_pages have need k = Some r \<and> unat k \<le> unat r \<and>
    unat need \<le> unat have + unat r * 4096 \<and>
    (r = k \<or> unat have + unat r * 4096 < unat need + 4096)"
proof (induction "255 - unat k" arbitrary: k rule: less_induct)
  case less
  have k: "unat k \<le> 255" using unat_u8_lt [of k] by simp
  note sum = unat_pages_add [OF assms(1) k]
  show ?case
  proof (cases "unat have + unat k * 4096 < unat need")
    case False
    then have "count_pages have need k = Some k"
      by (subst count_pages.simps) (simp add: word_less_nat_alt sum)
    with False show ?thesis by auto
  next
    case True
    then have step: "count_pages have need k = count_pages have need (k + 1)"
      by (subst count_pages.simps) (simp add: word_less_nat_alt sum)
    have "unat k < 255" using True assms(2) k by (cases "unat k = 255") auto
    then have k1: "unat (k + 1) = unat k + 1" by (simp add: unat_word_ariths)
    have "255 - unat (k + 1) < 255 - unat k" using k1 \<open>unat k < 255\<close> by simp
    from less [OF this] obtain r where r: "count_pages have need (k + 1) = Some r" "unat (k + 1) \<le> unat r"
      "unat need \<le> unat have + unat r * 4096" "r = k + 1 \<or> unat have + unat r * 4096 < unat need + 4096"
      by blast
    have "unat have + unat r * 4096 < unat need + 4096" using r(4) True k1 by auto
    with r k1 step show ?thesis by auto
  qed
qed

text \<open>When more than 255 pages are needed the counter wraps and the loop never ends.\<close>

lemma count_pages_result:
  "count_pages have need k = Some r \<Longrightarrow> \<not> have + ucast r * PAGE_SIZE < need"
  by (erule count_pages.raw_induct [where P = "\<lambda>have need k r. \<not> have + ucast r * PAGE_SIZE < need", rotated])
    (auto split: if_splits)

lemma count_pages_diverges:
  assumes "unat have + 255 * 4096 < 4294967296" "unat have + 255 * 4096 < unat need"
  shows "count_pages have need k = None"
proof (rule ccontr)
  assume "count_pages have need k \<noteq> None"
  then obtain r where "count_pages have need k = Some r" by auto
  then have "\<not> have + ucast r * PAGE_SIZE < need" by (rule count_pages_result)
  moreover have r: "unat r \<le> 255" using unat_u8_lt [of r] by simp
  ultimately have "unat need \<le> unat have + unat r * 4096"
    by (simp add: word_less_nat_alt unat_pages_add [OF assms(1) r])
  with r assms(2) show False by simp
qed

text \<open>Mapping pages does not touch the list.\<close>

lemma map_page_heap [simp, frame_facts]:
  "blocks (snd (map_page pa va s)) = blocks s"
  "malloc_list_head (snd (map_page pa va s)) = malloc_list_head s"
  "malloc_virt_address (snd (map_page pa va s)) = malloc_virt_address s"
  "total_malloc_pages (snd (map_page pa va s)) = total_malloc_pages s"
  using map_page_shape [of s pa va] by (auto simp: pmm_only_def)

lemma allocate_page_heap [simp, frame_facts]:
  "blocks (snd (snd (allocate_page e s))) = blocks s"
  "malloc_list_head (snd (snd (allocate_page e s))) = malloc_list_head s"
  "malloc_virt_address (snd (snd (allocate_page e s))) = malloc_virt_address s"
  "total_malloc_pages (snd (snd (allocate_page e s))) = total_malloc_pages s"
  using allocate_block_shape [of 1 s] by (auto simp: allocate_page_def Let_def split_beta)

lemma grow_page_heap:
  "blocks (grow_page p v s) = (blocks s)(p := (blocks s p)\<lparr>bsize := bsize (blocks s p) + PAGE_SIZE\<rparr>)"
  "malloc_list_head (grow_page p v s) = malloc_list_head s"
  "malloc_virt_address (grow_page p v s) = malloc_virt_address s"
  "total_malloc_pages (grow_page p v s) = total_malloc_pages s + 1"
  by (simp_all add: grow_page_def Let_def split_beta)

lemma grow_heap:
  "blocks (grow p k s) = (blocks s)(p := (blocks s p)\<lparr>bsize := bsize (blocks s p) + of_nat (unat k) * PAGE_SIZE\<rparr>) \<and>
   malloc_list_head (grow p k s) = malloc_list_head s \<and>
   malloc_virt_address (grow p k s) = malloc_virt_address s \<and>
   total_malloc_pages (grow p k s) = total_malloc_pages s + of_nat (unat k)"
proof -
  have "blocks (fold (\<lambda>i. grow_page p (v + of_nat i * PAGE_SIZE)) [0..<n] s) =
      (blocks s)(p := (blocks s p)\<lparr>bsize := bsize (blocks s p) + of_nat n * PAGE_SIZE\<rparr>) \<and>
    malloc_list_head (fold (\<lambda>i. grow_page p (v + of_nat i * PAGE_SIZE)) [0..<n] s) = malloc_list_head s \<and>
    malloc_virt_address (fold (\<lambda>i. grow_page p (v + of_nat i * PAGE_SIZE)) [0..<n] s) = malloc_virt_address s \<and>
    total_malloc_pages (fold (\<lambda>i. grow_page p (v + of_nat i * PAGE_SIZE)) [0..<n] s) =
      total_malloc_pages s + of_nat n" for n v
    by (induction n) (simp_all add: grow_page_heap distrib_right fun_upd_def fun_eq_iff ac_simps distrib_left)
  then show ?thesis unfolding grow_def Let_def by blast
qed

text \<open>One pass of the merge loop is \<open>merge_list\<close>.\<close>

lemma seg_cons_upd:
  assumes "p \<noteq> 0" "unat p = a" "seg (H(p := b)) (bnext b) (a + 12 + n) bs q e" "unat (bsize b) = n"
  shows "seg (H(p := b)) p a ((n, bfree b) # bs) q e"
  using assms by simp

lemma merge_loop_single: "seg (blocks s) p a [b] 0 e \<Longrightarrow> merge_loop p s = Some s"
  by (cases b) (subst merge_loop.simps, auto)

lemma merge_loop_seg:
  assumes "seg (blocks s) p a bs 0 e" "e < 4294967296"
  shows "\<exists>s'. merge_loop p s = Some s' \<and> headers_only s s' \<and>
    seg (blocks s') p a (merge_list bs) 0 e \<and> (\<forall>x. unat x < a \<longrightarrow> blocks s' x = blocks s x)"
  using assms
proof (induction bs arbitrary: s p a rule: merge_list.induct)
  case (1 m f n g bs)
  define H where "H = blocks s"
  define r where "r = bnext (H p)"
  have p: "p \<noteq> 0" "unat p = a" "unat (bsize (H p)) = m" "bfree (H p) = f"
    and r: "r \<noteq> 0" "unat r = a + 12 + m" "unat (bsize (H r)) = n" "bfree (H r) = g"
    and sg: "seg H (bnext (H r)) (a + 12 + m + 12 + n) bs 0 e"
    using "1.prems"(1) by (simp_all add: H_def r_def)
  have pr: "r \<noteq> p" using p(2) r(2) by auto
  show ?case
  proof (cases "f \<and> g")
    case True
    let ?b = "(H p)\<lparr>bsize := bsize (H p) + (bsize (H r) + HDR), bnext := bnext (H r)\<rparr>"
    let ?t = "update_block p (\<lambda>_. ?b) s"
    have ml: "merge_loop p s = merge_loop (bnext (H r)) ?t"
      using p r pr True
      by (subst merge_loop.simps) (simp add: Let_def H_def r_def update_block_def)
    have sgt: "seg (blocks ?t) (bnext (H r)) (a + 12 + m + 12 + n) bs 0 e"
      using seg_upd [OF sg, of p] p(2) by (simp add: H_def)
    obtain s' where s': "merge_loop (bnext (H r)) ?t = Some s'" "headers_only ?t s'"
      "seg (blocks s') (bnext (H r)) (a + 12 + m + 12 + n) (merge_list bs) 0 e"
      "\<And>x. unat x < a + 12 + m + 12 + n \<Longrightarrow> blocks s' x = blocks ?t x"
      using "1.IH"(1) [OF True sgt "1.prems"(2)] by auto
    have bp: "blocks s' p = ?b" using s'(4) [of p] p(2) by simp
    have "a + 12 + m + 12 + n \<le> e" using seg_end [OF sg] by simp
    then have lt: "m + (n + 12) < 4294967296" using "1.prems"(2) by linarith
    have "bsize (H p) + (bsize (H r) + HDR) = of_nat (m + (n + 12))"
      by (simp add: HDR_def flip: p(3) r(3))
    then have "unat (bsize ?b) = unat (of_nat (m + (n + 12)) :: u32)" by (simp del: of_nat_add)
    then have "unat (bsize ?b) = m + (n + 12)" unfolding unat_of_nat32 [OF lt] .
    then have "seg (blocks s') p a ((m + (n + 12), True) # merge_list bs) 0 e"
      using s'(3) p True by (simp add: bp add.assoc)
    moreover have "headers_only s s'" using headers_only_trans [OF headers_only_update s'(2)] .
    moreover have "blocks s' x = blocks s x" if "unat x < a" for x
      using s'(4) [of x] that p(2) by auto
    ultimately show ?thesis using ml s'(1) True by auto
  next
    case False
    have ml: "merge_loop p s = merge_loop r s"
      using p r False by (subst merge_loop.simps) (auto simp: Let_def H_def r_def)
    have "seg (blocks s) r (a + 12 + m) ((n, g) # bs) 0 e" using r sg by (simp add: H_def)
    then obtain s' where s': "merge_loop r s = Some s'" "headers_only s s'"
      "seg (blocks s') r (a + 12 + m) (merge_list ((n, g) # bs)) 0 e"
      "\<And>x. unat x < a + 12 + m \<Longrightarrow> blocks s' x = blocks s x"
      using "1.IH"(2) [OF False _ "1.prems"(2)] by blast
    have "blocks s' p = H p" using s'(4) [of p] p(2) by (simp add: H_def)
    then have "seg (blocks s') p a ((m, f) # merge_list ((n, g) # bs)) 0 e"
      using s'(3) p by (simp add: r_def)
    moreover have "blocks s' x = blocks s x" if "unat x < a" for x using s'(4) [of x] that by simp
    ultimately show ?thesis using ml s'(1,2) False by auto
  qed
next
  case "2_1"
  then show ?case by (subst merge_loop.simps) auto
next
  case "2_2"
  then show ?case using merge_loop_single headers_only_refl by (simp only: merge_list.simps) blast
qed

section \<open>What the allocator hands out\<close>

lemma heap_invD:
  assumes "heap_inv s bs"
  shows "bs \<noteq> []" "malloc_list_head s = malloc_virt_address s" "heap_end s < 4294967296"
    "seg (blocks s) (malloc_list_head s) (unat (malloc_virt_address s)) bs 0 (heap_end s)"
    "bsize (blocks s (malloc_list_head s)) \<noteq> 0" "malloc_list_head s \<noteq> 0"
proof -
  show s: "bs \<noteq> []" "malloc_list_head s = malloc_virt_address s" "heap_end s < 4294967296"
    "seg (blocks s) (malloc_list_head s) (unat (malloc_virt_address s)) bs 0 (heap_end s)"
    using assms unfolding heap_inv_def by blast+
  obtain b bs' where b: "bs = b # bs'" using s(1) by (cases bs) auto
  have "fst b \<noteq> 0" using assms b by (simp add: heap_inv_def)
  then show "bsize (blocks s (malloc_list_head s)) \<noteq> 0" "malloc_list_head s \<noteq> 0"
    using s(4) b by (cases b; auto)+
qed

text \<open>The pointer to the payload behind the blocks \<open>pre\<close>.\<close>

definition payload :: "'a heap_scheme \<Rightarrow> block list \<Rightarrow> u32" where
  "payload s pre = malloc_virt_address s + of_nat (offset pre) + HDR"

text \<open>The search of \<open>malloc_next_block\<close>, on the list.\<close>

lemma locate:
  assumes "heap_inv s (pre @ (m, f) # post)"
    and "\<forall>b\<in>set pre. \<not> fits (unat n) b" and "fits (unat n) (m, f) \<or> post = []"
  obtains r where "find_block (blocks s) n (malloc_list_head s) = Some r"
    "seg (blocks s) (malloc_list_head s) (unat (malloc_virt_address s)) pre r (unat r)"
    "seg (blocks s) r (unat r) ((m, f) # post) 0 (heap_end s)"
    "unat r = unat (malloc_virt_address s) + offset pre" "r + HDR = payload s pre"
proof -
  note D = heap_invD [OF assms(1)]
  obtain r where r: "find_block (blocks s) n (malloc_list_head s) = Some r"
    "seg (blocks s) (malloc_list_head s) (unat (malloc_virt_address s)) pre r
       (unat (malloc_virt_address s) + offset pre)"
    "seg (blocks s) r (unat (malloc_virt_address s) + offset pre) ((m, f) # post) 0 (heap_end s)"
    using find_block_seg [OF D(4) assms(2,3)] by blast
  moreover have u: "unat r = unat (malloc_virt_address s) + offset pre" using r(3) by simp
  moreover have "of_nat (unat r) = malloc_virt_address s + (of_nat (offset pre) :: u32)"
    unfolding u by simp
  then have "r + HDR = payload s pre" by (simp add: payload_def)
  ultimately show ?thesis using that by simp
qed

lemma heap_inv_replace:
  assumes inv: "heap_inv s (pre @ b # post)" and h: "headers_only s s'"
    and s: "seg (blocks s) (malloc_list_head s) (unat (malloc_virt_address s)) pre r c"
      "seg (blocks s') r c mid q d" "seg (blocks s) q d post 0 (heap_end s)"
    and fr: "\<And>x. unat x < c \<or> d \<le> unat x \<Longrightarrow> blocks s' x = blocks s x"
    and ne: "mid \<noteq> []" "fst (hd mid) \<noteq> 0"
  shows "heap_inv s' (pre @ mid @ post)"
proof -
  have "seg (blocks s') (malloc_list_head s) (unat (malloc_virt_address s)) (pre @ mid @ post) 0 (heap_end s)"
    by (rule seg_replace [OF s fr])
  moreover have "fst (hd (pre @ mid @ post)) \<noteq> 0"
    using ne inv by (cases pre; cases mid) (auto simp: heap_inv_def)
  ultimately show ?thesis
    using inv headers_onlyD [OF h] ne by (simp add: heap_inv_def)
qed

text \<open>An exact fit, or a block with room for a second header.\<close>

lemma malloc_place:
  assumes inv: "heap_inv s (pre @ (m, f) # post)"
    and pre: "\<forall>b\<in>set pre. \<not> fits (unat n) b" and here: "fits (unat n) (m, f) \<or> post = []"
    and n: "n \<noteq> 0" and room: "m = unat n \<or> unat n + 12 < m"
  shows "\<exists>s'. malloc_next_block n s = Some (payload s pre, s') \<and> headers_only s s' \<and>
    heap_inv s' (pre @ carve (unat n) m @ post)"
proof -
  note D = heap_invD [OF inv]
  obtain r where r: "find_block (blocks s) n (malloc_list_head s) = Some r"
    "seg (blocks s) (malloc_list_head s) (unat (malloc_virt_address s)) pre r (unat r)"
    "seg (blocks s) r (unat r) ((m, f) # post) 0 (heap_end s)"
    "r + HDR = payload s pre"
    using locate [OF inv pre here] by metis
  have rm: "r \<noteq> 0" "unat (bsize (blocks s r)) = m"
    "seg (blocks s) (bnext (blocks s r)) (unat r + 12 + m) post 0 (heap_end s)"
    using r(3) by simp_all
  have un: "unat n \<noteq> 0" using n by (simp add: unat_eq_0)
  show ?thesis
  proof (cases "m = unat n")
    case True
    let ?s = "update_block r (\<lambda>b. b\<lparr>bfree := False\<rparr>) s"
    have "n = bsize (blocks s r)" using True rm(2) by (simp add: word_unat_eq_iff)
    then have "malloc_next_block n s = Some (payload s pre, ?s)"
      using n D(5) r(1,4) by (simp add: malloc_next_block_def Let_def)
    moreover have "heap_inv ?s (pre @ carve (unat n) m @ post)"
      by (rule heap_inv_replace [OF inv headers_only_update r(2) _ rm(3)])
        (use rm True un in \<open>auto simp: carve_def\<close>)
    ultimately show ?thesis by blast
  next
    case False
    then have lt: "unat n + 12 < m" using room by simp
    have e: "unat r + 12 + m \<le> heap_end s" using seg_end [OF rm(3)] by simp
    have "unat n + 12 < 4294967296" using lt rm(2) unat_u32_lt [of "bsize (blocks s r)"] by simp
    then have "unat (n + HDR) = unat n + 12" by (simp add: HDR_def unat_word_ariths)
    then have "n + HDR < bsize (blocks s r)" "n \<noteq> bsize (blocks s r)"
      using lt rm(2) by (auto simp: word_less_nat_alt)
    then have ok: "malloc_next_block n s = Some (payload s pre, malloc_split r n s)"
      using n D(5) r(1,4) by (simp add: malloc_next_block_def Let_def)
    note S = malloc_split_seg [OF rm(1) refl rm(2) _ , of n]
    have S: "seg (blocks (malloc_split r n s)) r (unat r) [(unat n, False), (m - unat n - 12, True)]
        (bnext (blocks s r)) (unat r + 12 + m)"
      "\<And>x. unat x < unat r \<or> unat r + 12 + m \<le> unat x \<Longrightarrow> blocks (malloc_split r n s) x = blocks s x"
      "headers_only s (malloc_split r n s)"
      using S lt e D(3) by simp_all
    have "heap_inv (malloc_split r n s) (pre @ carve (unat n) m @ post)"
      by (rule heap_inv_replace [OF inv S(3) r(2) _ rm(3)]) (use S False un in \<open>auto simp: carve_def\<close>)
    with ok S(3) show ?thesis by blast
  qed
qed

text \<open>The block is too small, or too large by less than a header: it grows by whole pages.\<close>

lemma grown:
  fixes s :: "'a heap_scheme" and k :: u8
  assumes "unat (bsize (blocks s r)) = m" "m + 255 * 4096 < 4294967296" "heap_end s + 255 * 4096 < 4294967296"
  defines "t \<equiv> grow r k s"
  shows "unat (bsize (blocks t r)) = m + unat k * 4096" "heap_end t = heap_end s + unat k * 4096"
    "bnext (blocks t r) = bnext (blocks s r)" "bfree (blocks t r) = bfree (blocks s r)"
    "\<And>x. x \<noteq> r \<Longrightarrow> blocks t x = blocks s x"
    "malloc_list_head t = malloc_list_head s" "malloc_virt_address t = malloc_virt_address s"
proof -
  note G = grow_heap [of r k s, folded t_def]
  have k: "unat k \<le> 255" using unat_u8_lt [of k] by simp
  have "bsize (blocks t r) = bsize (blocks s r) + ucast k * PAGE_SIZE"
    using G by (simp add: unsigned_ucast_eq)
  then show "unat (bsize (blocks t r)) = m + unat k * 4096"
    using unat_pages_add [of "bsize (blocks s r)" k] assms(1,2) k by simp
  have tp: "unat (total_malloc_pages s) + unat k < 4294967296"
    using assms(3) k unfolding heap_end_def by linarith
  have "total_malloc_pages t = of_nat (unat (total_malloc_pages s) + unat k)" using G by simp
  then have "unat (total_malloc_pages t) = unat (total_malloc_pages s) + unat k"
    using unat_of_nat32 [OF tp] by simp
  then show "heap_end t = heap_end s + unat k * 4096" using G by (simp add: heap_end_def algebra_simps)
  show "bnext (blocks t r) = bnext (blocks s r)" "bfree (blocks t r) = bfree (blocks s r)"
    "\<And>x. x \<noteq> r \<Longrightarrow> blocks t x = blocks s x"
    "malloc_list_head t = malloc_list_head s" "malloc_virt_address t = malloc_virt_address s"
    using G by simp_all
qed

lemma malloc_grows:
  assumes inv: "heap_inv s (pre @ (m, f) # post)"
    and pre: "\<forall>b\<in>set pre. \<not> fits (unat n) b" and here: "fits (unat n) (m, f) \<or> post = []"
    and n: "n \<noteq> 0" and tight: "m \<noteq> unat n" "m \<le> unat n + 12"
    and bound: "unat n + 12 \<le> m + 255 * 4096" "heap_end s + 255 * 4096 < 4294967296"
  obtains r k where
    "malloc_next_block n s = Some (payload s pre, malloc_split r n (grow r k s))"
    "seg (blocks s) (malloc_list_head s) (unat (malloc_virt_address s)) pre r (unat r)"
    "seg (blocks s) r (unat r) ((m, f) # post) 0 (heap_end s)"
    "0 < unat k" "unat n + 12 \<le> m + unat k * 4096" "k = 1 \<or> m + unat k * 4096 < unat n + 12 + 4096"
    "unat r = unat (malloc_virt_address s) + offset pre" "m + 255 * 4096 < 4294967296"
proof -
  note D = heap_invD [OF inv]
  obtain r where r: "find_block (blocks s) n (malloc_list_head s) = Some r"
    "seg (blocks s) (malloc_list_head s) (unat (malloc_virt_address s)) pre r (unat r)"
    "seg (blocks s) r (unat r) ((m, f) # post) 0 (heap_end s)"
    "unat r = unat (malloc_virt_address s) + offset pre" "r + HDR = payload s pre"
    using locate [OF inv pre here] by metis
  have m: "unat (bsize (blocks s r)) = m" using r(3) by simp
  have e: "m < heap_end s" using seg_end [OF r(3)] by simp
  have n12: "unat n + 12 < 4294967296" using bound e by linarith
  then have nu: "unat (n + HDR) = unat n + 12" by (simp add: HDR_def unat_word_ariths)
  have mb: "m + 255 * 4096 < 4294967296" using e bound(2) by linarith
  obtain k where k: "count_pages (bsize (blocks s r)) (n + HDR) 1 = Some k" "unat (1 :: u8) \<le> unat k"
    "unat n + 12 \<le> m + unat k * 4096" "k = 1 \<or> m + unat k * 4096 < unat n + 12 + 4096"
    using count_pages_from [of "bsize (blocks s r)" "n + HDR" 1] mb bound(1) unfolding m nu by blast
  have "n \<noteq> bsize (blocks s r)" using m tight(1) by auto
  moreover have "\<not> n + HDR < bsize (blocks s r)" using m nu tight(2) by (simp add: word_less_nat_alt)
  ultimately have "malloc_next_block n s = Some (payload s pre, malloc_split r n (grow r k s))"
    using n D(5) r(1,5) k(1) by (simp add: malloc_next_block_def Let_def)
  then show ?thesis using that r k mb by simp
qed

text \<open>The last block grows in place.\<close>

lemma malloc_grows_last:
  assumes inv: "heap_inv s (pre @ [(m, f)])"
    and pre: "\<forall>b\<in>set pre. \<not> fits (unat n) b" and n: "n \<noteq> 0" and tight: "m \<noteq> unat n" "m \<le> unat n + 12"
    and bound: "unat n + 12 \<le> m + 255 * 4096" "heap_end s + 255 * 4096 < 4294967296"
  shows "\<exists>s' k. malloc_next_block n s = Some (payload s pre, s') \<and>
    heap_inv s' (pre @ [(unat n, False), (m + k * 4096 - unat n - 12, True)]) \<and>
    heap_end s' = heap_end s + k * 4096 \<and> 0 < k \<and> unat n + 12 \<le> m + k * 4096 \<and>
    (k = 1 \<or> m + k * 4096 < unat n + 12 + 4096)"
proof -
  note D = heap_invD [OF inv]
  obtain r k where R: "malloc_next_block n s = Some (payload s pre, malloc_split r n (grow r k s))"
    "seg (blocks s) (malloc_list_head s) (unat (malloc_virt_address s)) pre r (unat r)"
    "seg (blocks s) r (unat r) [(m, f)] 0 (heap_end s)"
    "0 < unat k" "unat n + 12 \<le> m + unat k * 4096" "k = 1 \<or> m + unat k * 4096 < unat n + 12 + 4096"
    "m + 255 * 4096 < 4294967296"
    using malloc_grows [OF inv pre disjI2 [OF refl] n tight bound] by metis
  let ?t = "grow r k s" let ?s = "malloc_split r n ?t"
  have r: "r \<noteq> 0" "unat (bsize (blocks s r)) = m" "bnext (blocks s r) = 0" "unat r + 12 + m = heap_end s"
    using R(3) by simp_all
  note G = grown [OF r(2) R(7) bound(2), where k = k]
  have k255: "unat k \<le> 255" using unat_u8_lt [of k] by simp
  have lt: "unat r + 12 + (m + unat k * 4096) < 4294967296" using r(4) bound(2) k255 by linarith
  note S = malloc_split_seg [OF r(1) refl G(1) R(5) lt]
  have e: "heap_end ?s = unat r + 12 + (m + unat k * 4096)"
    using headers_onlyD [OF S(3)] G(2) r(4) by simp
  have fr: "blocks ?s x = blocks s x" if "unat x < unat r" for x
    using that S(2) [of x] G(5) [of x] by auto
  have "seg (blocks ?s) (malloc_list_head s) (unat (malloc_virt_address s)) pre r (unat r)"
    using seg_cong [OF R(2)] fr by blast
  moreover have "unat r = unat (malloc_virt_address s) + offset pre" using seg_end [OF R(2)] .
  ultimately have "seg (blocks ?s) (malloc_list_head s) (unat (malloc_virt_address s))
      (pre @ [(unat n, False), (m + unat k * 4096 - unat n - 12, True)]) 0 (heap_end ?s)"
    using S(1) r(3) G(3) unfolding seg_append e by metis
  moreover have "fst (hd (pre @ [(unat n, False), (m + unat k * 4096 - unat n - 12, True)])) \<noteq> 0"
    using inv n by (cases pre) (auto simp: heap_inv_def unat_eq_0)
  ultimately have "heap_inv ?s (pre @ [(unat n, False), (m + unat k * 4096 - unat n - 12, True)])"
    using headers_onlyD [OF S(3)] G(6,7) D(2) e lt by (simp add: heap_inv_def)
  moreover have "heap_end ?s = heap_end s + unat k * 4096" using e r(4) by simp
  moreover have "unat k = 1 \<or> m + unat k * 4096 < unat n + 12 + 4096" using R(6) by auto
  ultimately show ?thesis using R(1,4,5) by metis
qed

section \<open>Release\<close>

lemma merge_free_blocks_inv:
  assumes "heap_inv s bs"
  shows "\<exists>s'. merge_free_blocks s = Some s' \<and> headers_only s s' \<and> heap_inv s' (merge_list bs)"
proof -
  note D = heap_invD [OF assms]
  obtain s' where s': "merge_loop (malloc_list_head s) s = Some s'" "headers_only s s'"
    "seg (blocks s') (malloc_list_head s) (unat (malloc_virt_address s)) (merge_list bs) 0 (heap_end s)"
    using merge_loop_seg [OF D(4,3)] by blast
  have "merge_list bs \<noteq> []" "fst (hd (merge_list bs)) \<noteq> 0"
    using assms by (cases bs rule: merge_list.cases; auto simp: heap_inv_def)+
  then have "heap_inv s' (merge_list bs)"
    using s'(3) D(2,3) headers_onlyD [OF s'(2)] by (simp add: heap_inv_def)
  with s' show ?thesis by (auto simp: merge_free_blocks_def)
qed

lemma offset_merge_list: "offset (merge_list bs) = offset bs"
  by (induction bs rule: merge_list.induct) auto

lemma hdr_add: "unat p + 12 < 4294967296 \<Longrightarrow> unat (p + HDR) = unat p + 12"
  by (simp add: HDR_def unat_word_ariths)

text \<open>The loop stops at the block with the given payload, unless it is the last one.\<close>

lemma free_loop_found:
  assumes "seg (blocks s) p a (pre @ (m, f) # post) 0 e" "post \<noteq> []" "e < 4294967296"
    and "unat ptr = a + offset pre + 12"
  shows "\<exists>r. free_loop ptr p s = merge_free_blocks (update_block r (\<lambda>b. b\<lparr>bfree := True\<rparr>) s) \<and>
    seg (blocks s) p a pre r (a + offset pre) \<and> seg (blocks s) r (a + offset pre) ((m, f) # post) 0 e"
  using assms(1,4)
proof (induction pre arbitrary: p a)
  case Nil
  have p: "unat p = a" "bnext (blocks s p) \<noteq> 0"
    using Nil.prems(1) assms(2) seg_next [of "blocks s" p a m f post e] by auto
  have "a + 12 < 4294967296" using seg_end [OF Nil.prems(1)] assms(3) by simp
  then have "p + HDR = ptr" using Nil.prems(2) p(1) by (simp add: word_unat_eq_iff hdr_add)
  then have "free_loop ptr p s = merge_free_blocks (update_block p (\<lambda>b. b\<lparr>bfree := True\<rparr>) s)"
    using p(2) by (subst free_loop.simps) simp
  with Nil.prems(1) show ?case by auto
next
  case (Cons b pre)
  obtain k g where b: "b = (k, g)" by fastforce
  have p: "unat p = a" "bnext (blocks s p) \<noteq> 0"
    using Cons.prems(1) seg_next [of "blocks s" p a k g "pre @ (m, f) # post" e] b by auto
  have "a + 12 < 4294967296" using seg_end [OF Cons.prems(1)] assms(3) b by simp
  then have "p + HDR \<noteq> ptr" using Cons.prems(2) p(1) b by (auto simp: hdr_add)
  then have step: "free_loop ptr p s = free_loop ptr (bnext (blocks s p)) s"
    using p(2) by (subst free_loop.simps) simp
  obtain r where "free_loop ptr (bnext (blocks s p)) s =
      merge_free_blocks (update_block r (\<lambda>b. b\<lparr>bfree := True\<rparr>) s)"
    "seg (blocks s) (bnext (blocks s p)) (a + 12 + k) pre r (a + 12 + k + offset pre)"
    "seg (blocks s) r (a + 12 + k + offset pre) ((m, f) # post) 0 e"
    using Cons.IH [of "bnext (blocks s p)" "a + 12 + k"] Cons.prems b by auto
  with step Cons.prems(1) b show ?case by (auto simp: add.assoc)
qed

lemma free_loop_ignored:
  assumes "seg (blocks s) p a bs 0 e" "bs \<noteq> []" "e < 4294967296"
    and "\<And>pre b post. bs = pre @ b # post \<Longrightarrow> post \<noteq> [] \<Longrightarrow> unat ptr \<noteq> a + offset pre + 12"
  shows "free_loop ptr p s = Some s"
  using assms(1,2,4)
proof (induction bs arbitrary: p a)
  case (Cons b bs)
  obtain k g where b: "b = (k, g)" by fastforce
  have p: "unat p = a" using Cons.prems(1) b by simp
  have nx: "bnext (blocks s p) = 0 \<longleftrightarrow> bs = []"
    using Cons.prems(1) unfolding b by (rule seg_next)
  show ?case
  proof (cases "bs = []")
    case True
    with nx show ?thesis by (subst free_loop.simps) simp
  next
    case False
    have "a + 12 < 4294967296" using seg_end [OF Cons.prems(1)] assms(3) b by simp
    then have "p + HDR \<noteq> ptr" using Cons.prems(3) [of "[]" b bs] False p by (auto simp: hdr_add)
    then have "free_loop ptr p s = free_loop ptr (bnext (blocks s p)) s"
      using nx False by (subst free_loop.simps) simp
    also have "\<dots> = Some s"
    proof (rule Cons.IH [OF _ False])
      show "seg (blocks s) (bnext (blocks s p)) (a + 12 + k) bs 0 e" using Cons.prems(1) b by simp
      fix pre c post assume "bs = pre @ c # post" "post \<noteq> []"
      then show "unat ptr \<noteq> a + 12 + k + offset pre + 12"
        using Cons.prems(3) [of "b # pre" c post] b by simp
    qed
    finally show ?thesis .
  qed
qed simp

section \<open>Properties\<close>

text \<open>C12 \<open>malloc_next_block\<close> on a heap whose first free block of sufficient size fits exactly
  or leaves room for a second header: the result is the payload of that block, the block is split
  (or taken whole) and marked used, and nothing else of the list or of the state changes.\<close>

theorem malloc_next_block_first_fit:
  assumes "heap_inv s (pre @ (m, True) # post)" and "\<forall>b\<in>set pre. \<not> fits (unat n) b"
    and "n \<noteq> 0" and "m = unat n \<or> unat n + 12 < m"
  shows "\<exists>s'. malloc_next_block n s = Some (payload s pre, s') \<and> headers_only s s' \<and>
    heap_inv s' (pre @ carve (unat n) m @ post)"
proof -
  have "fits (unat n) (m, True)" using assms(4) by (auto simp: fits_def)
  with malloc_place [OF assms(1,2) _ assms(3,4)] show ?thesis by simp
qed

text \<open>C13 When no block fits and the last one is too small, it grows by the least number of pages
  that suffices and is split; the heap stays a list of adjacent blocks, up to its new end.\<close>

theorem malloc_next_block_grows:
  assumes "heap_inv s (pre @ [(m, True)])" and "\<forall>b\<in>set pre. \<not> fits (unat n) b"
    and "n \<noteq> 0" and "m < unat n" and "unat n + 12 \<le> m + 255 * 4096"
    and "heap_end s + 255 * 4096 < 4294967296"
  shows "\<exists>s' k. malloc_next_block n s = Some (payload s pre, s') \<and>
    heap_inv s' (pre @ [(unat n, False), (m + k * 4096 - unat n - 12, True)]) \<and>
    heap_end s' = heap_end s + k * 4096 \<and> 0 < k \<and> unat n + 12 \<le> m + k * 4096 \<and>
    (k = 1 \<or> m + k * 4096 < unat n + 12 + 4096)"
  using malloc_grows_last [OF assms(1,2,3) _ _ assms(5,6)] assms(4) by simp

text \<open>The search ends at the last block without looking at its flag: when no earlier block fits,
  a request for at most 255 more pages is served from the last block even if it is in use, and the
  address returned is the one its owner holds.\<close>

theorem malloc_reuses_last_block:
  assumes "heap_inv s (pre @ [(m, False)])" and "\<forall>b\<in>set pre. \<not> fits (unat n) b"
    and "n \<noteq> 0" and "unat n + 12 \<le> m + 255 * 4096" and "heap_end s + 255 * 4096 < 4294967296"
  shows "\<exists>s'. malloc_next_block n s = Some (payload s pre, s')"
proof (cases "m = unat n \<or> unat n + 12 < m")
  case True
  with malloc_place [OF assms(1,2) _ assms(3)] show ?thesis by blast
next
  case False
  with malloc_grows_last [OF assms(1,2,3) _ _ assms(4,5)] show ?thesis by fastforce
qed

text \<open>A free block in front of other blocks that exceeds the request by 1 to 12 bytes is taken
  for one that is too small: it grows by a page in place, over its neighbours. The list then holds a
  free block whose header starts before the next block and whose payload ends 4096 bytes behind the
  start of the next block.\<close>

theorem malloc_overlaps_next_block:
  assumes "heap_inv s (pre @ (m, True) # post)" and "post \<noteq> []" and "\<forall>b\<in>set pre. \<not> fits (unat n) b"
    and "n \<noteq> 0" and "unat n < m" and "m \<le> unat n + 12" and "heap_end s + 255 * 4096 < 4294967296"
  shows "\<exists>s' q. malloc_next_block n s = Some (payload s pre, s') \<and>
    bnext (blocks s' (payload s pre - HDR)) = q \<and> bfree (blocks s' q) \<and>
    unat q < unat (malloc_virt_address s) + offset (pre @ [(m, True)]) \<and>
    unat q + 12 + unat (bsize (blocks s' q)) =
      unat (malloc_virt_address s) + offset (pre @ [(m, True)]) + 4096"
proof -
  have here: "fits (unat n) (m, True) \<or> post = []" using assms(5) by (simp add: fits_def)
  have bd: "unat n + 12 \<le> m + 255 * 4096" "m \<noteq> unat n" using assms(5) by simp_all
  obtain r k where R: "malloc_next_block n s = Some (payload s pre, malloc_split r n (grow r k s))"
    "seg (blocks s) r (unat r) ((m, True) # post) 0 (heap_end s)"
    "unat n + 12 \<le> m + unat k * 4096" "0 < unat k" "k = 1 \<or> m + unat k * 4096 < unat n + 12 + 4096"
    "unat r = unat (malloc_virt_address s) + offset pre" "m + 255 * 4096 < 4294967296"
    using malloc_grows [OF assms(1,3) here assms(4) bd(2) assms(6) bd(1) assms(7)] by metis
  have "unat k < 2" if "m + unat k * 4096 < unat n + 12 + 4096"
    using that assms(5) by linarith
  then have k: "unat k = 1" using R(4,5) by auto
  have r: "r \<noteq> 0" "unat (bsize (blocks s r)) = m" using R(2) by simp_all
  let ?t = "grow r k s" let ?s = "malloc_split r n ?t"
  note G = grown [OF r(2) R(7) assms(7), where k = k]
  have "unat r + 12 + m \<le> heap_end s" using seg_end [OF R(2)] by simp
  then have lt: "unat r + 12 + (m + unat k * 4096) < 4294967296" using assms(7) k by simp
  note S = malloc_split_seg [OF r(1) refl G(1) R(3) lt]
  have "payload s pre - HDR = r"
  proof -
    have "of_nat (unat r) = malloc_virt_address s + (of_nat (offset pre) :: u32)" unfolding R(6) by simp
    then show ?thesis by (simp add: payload_def)
  qed
  moreover have "bfree (blocks ?s (bnext (blocks ?s r)))"
    "unat (bnext (blocks ?s r)) = unat r + 12 + unat n"
    "unat (bsize (blocks ?s (bnext (blocks ?s r)))) = m + 4096 - unat n - 12"
    using S(1) k by simp_all
  ultimately show ?thesis
    using R(1,3,6) k assms(5) by (intro exI [of _ ?s]) simp
qed

text \<open>C15 A request that needs the last block to grow by more than 255 pages never returns: the page
  counter is 8 bits wide and wraps.\<close>

theorem malloc_large_never_returns:
  assumes "heap_inv s (pre @ [(m, f)])" and "\<forall>b\<in>set pre. \<not> fits (unat n) b"
    and "m + 255 * 4096 < unat n + 12" and "unat n + 12 < 4294967296"
  shows "malloc_next_block n s = None"
proof -
  note D = heap_invD [OF assms(1)]
  obtain r where r: "find_block (blocks s) n (malloc_list_head s) = Some r"
    "seg (blocks s) r (unat r) [(m, f)] 0 (heap_end s)"
    using locate [OF assms(1,2)] by blast
  have m: "unat (bsize (blocks s r)) = m" using r(2) by simp
  have nu: "unat (n + HDR) = unat n + 12" using hdr_add [OF assms(4)] .
  have "count_pages (bsize (blocks s r)) (n + HDR) 1 = None"
    by (rule count_pages_diverges) (use m nu assms(3,4) in linarith)+
  moreover have "n \<noteq> bsize (blocks s r)" "\<not> n + HDR < bsize (blocks s r)" "n \<noteq> 0"
    using m nu assms(3) by (auto simp: word_less_nat_alt)
  ultimately show ?thesis using D(5) r(1) by (simp add: malloc_next_block_def Let_def)
qed

text \<open>C14 \<open>malloc_free\<close> of the payload of a block that is not the last: the block becomes free
  and one pass of merging joins neighbouring free blocks pairwise; nothing but headers changes.\<close>

theorem malloc_free_correct:
  assumes "heap_inv s (pre @ (m, f) # post)" and "post \<noteq> []"
  shows "\<exists>s'. malloc_free (payload s pre) s = Some s' \<and> headers_only s s' \<and>
    heap_inv s' (merge_list (pre @ (m, True) # post)) \<and>
    offset (merge_list (pre @ (m, True) # post)) = offset (pre @ (m, f) # post)"
proof -
  note D = heap_invD [OF assms(1)]
  have e: "heap_end s = unat (malloc_virt_address s) + offset (pre @ (m, f) # post)"
    using seg_end [OF D(4)] .
  have "payload s pre = of_nat (unat (malloc_virt_address s) + offset pre + 12)"
    by (simp add: payload_def HDR_def)
  moreover have "unat (malloc_virt_address s) + offset pre + 12 < 4294967296" using e D(3) by simp
  ultimately have u: "unat (payload s pre) = unat (malloc_virt_address s) + offset pre + 12"
    by (metis unat_of_nat32)
  obtain r where r: "malloc_free (payload s pre) s = merge_free_blocks (update_block r (\<lambda>b. b\<lparr>bfree := True\<rparr>) s)"
    "seg (blocks s) (malloc_list_head s) (unat (malloc_virt_address s)) pre r
      (unat (malloc_virt_address s) + offset pre)"
    "seg (blocks s) r (unat (malloc_virt_address s) + offset pre) ((m, f) # post) 0 (heap_end s)"
    using free_loop_found [OF D(4) assms(2) D(3) u] unfolding malloc_free_def by blast
  let ?s = "update_block r (\<lambda>b. b\<lparr>bfree := True\<rparr>) s"
  have "heap_inv ?s (pre @ [(m, True)] @ post)"
    unfolding heap_inv_def
  proof (intro conjI)
    have "seg (blocks ?s) (malloc_list_head s) (unat (malloc_virt_address s)) (pre @ [(m, True)] @ post) 0 (heap_end s)"
      by (rule seg_replace [OF r(2), where q = "bnext (blocks s r)"
            and d = "unat (malloc_virt_address s) + offset pre + 12 + m"]) (use r(3) in auto)
    then show "seg (blocks ?s) (malloc_list_head ?s) (unat (malloc_virt_address ?s)) (pre @ [(m, True)] @ post) 0 (heap_end ?s)"
      by simp
  qed (use D(2,3) assms(1) in \<open>cases pre; auto simp: heap_inv_def\<close>)+
  then obtain s' where "merge_free_blocks ?s = Some s'" "headers_only ?s s'"
    "heap_inv s' (merge_list (pre @ (m, True) # post))"
    using merge_free_blocks_inv [of ?s] by auto
  moreover have "headers_only s s'" using headers_only_trans [OF headers_only_update calculation(2)] .
  ultimately show ?thesis using r(1) by (auto simp: offset_merge_list)
qed

text \<open>\<open>malloc_free\<close> of any other address, the payload of the last block included, does
  nothing.\<close>

theorem malloc_free_ignored:
  assumes "heap_inv s bs"
    and "\<forall>pre b post. bs = pre @ b # post \<longrightarrow> post \<noteq> [] \<longrightarrow> ptr \<noteq> payload s pre"
  shows "malloc_free ptr s = Some s"
proof -
  note D = heap_invD [OF assms(1)]
  have "unat ptr \<noteq> unat (malloc_virt_address s) + offset pre + 12" if "bs = pre @ b # post" "post \<noteq> []" for pre b post
  proof
    assume "unat ptr = unat (malloc_virt_address s) + offset pre + 12"
    then have "of_nat (unat ptr) = (of_nat (unat (malloc_virt_address s) + offset pre + 12) :: u32)" by simp
    then have "ptr = payload s pre" by (simp add: payload_def HDR_def)
    with assms(2) that show False by blast
  qed
  then show ?thesis unfolding malloc_free_def by (rule free_loop_ignored [OF D(4,1,3)])
qed

text \<open>A heap of one page with the blocks of a list, for the witnesses: the small machine of
  \<open>Vmm\<close> with the headers placed in the heap's addresses.\<close>

definition one_page_heap :: "(u32 \<Rightarrow> malloc_block) \<Rightarrow> heap" where
  "one_page_heap H = vmm.extend tiny_vm \<lparr>malloc_list_head = 0xD1000000, malloc_virt_address = 0xD1000000,
     malloc_phys_address = 0x5000, total_malloc_pages = 1, blocks = H\<rparr>"

text \<open>One block; two blocks, the first free and the second in use.\<close>

definition one_block :: "bool \<Rightarrow> u32 \<Rightarrow> malloc_block" where
  "one_block f = (\<lambda>_. \<lparr>bsize = 4084, bfree = f, bnext = 0\<rparr>)"

definition two_blocks :: "u32 \<Rightarrow> malloc_block" where
  "two_blocks = (\<lambda>_. \<lparr>bsize = 3972, bfree = False, bnext = 0\<rparr>)
     (0xD1000000 := \<lparr>bsize = 100, bfree = True, bnext = 0xD1000070\<rparr>)"

lemma one_page_heap_simps:
  "malloc_list_head (one_page_heap H) = 0xD1000000" "malloc_virt_address (one_page_heap H) = 0xD1000000"
  "blocks (one_page_heap H) = H" "heap_end (one_page_heap H) = 0xD1001000"
  by (simp_all add: one_page_heap_def vmm.defs heap_end_def)

lemma one_block_inv: "heap_inv (one_page_heap (one_block f)) ([] @ [(4084, f)])"
  by (simp add: heap_inv_def one_page_heap_simps one_block_def)

lemma two_blocks_inv: "heap_inv (one_page_heap two_blocks) ([] @ (100, True) # [(3972, False)])"
  by (simp add: heap_inv_def one_page_heap_simps two_blocks_def)

lemma payload_first: "payload (one_page_heap H) [] = 0xD100000C"
  by (simp add: payload_def one_page_heap_simps HDR_def)

theorem malloc_next_block_first_fit_witness:
  "\<exists>s'. malloc_next_block 100 (one_page_heap (one_block True)) = Some (0xD100000C, s') \<and>
    heap_inv s' [(100, False), (3972, True)]"
  using malloc_next_block_first_fit [OF one_block_inv, of 100]
  by (auto simp: payload_first carve_def)

theorem malloc_next_block_grows_witness:
  "\<exists>s'. malloc_next_block 8000 (one_page_heap (one_block True)) = Some (0xD100000C, s') \<and>
    heap_inv s' [(8000, False), (168, True)]"
proof -
  obtain s' k where s': "malloc_next_block 8000 (one_page_heap (one_block True)) = Some (0xD100000C, s')"
    "heap_inv s' [(8000, False), (4084 + k * 4096 - 8000 - 12, True)]"
    "8000 + 12 \<le> 4084 + k * 4096" "k = 1 \<or> 4084 + k * 4096 < 8000 + 12 + 4096"
    using malloc_next_block_grows [OF one_block_inv, of 8000]
    by (auto simp: payload_first one_page_heap_simps)
  then have "k = 1" by auto
  with s' show ?thesis by auto
qed

theorem malloc_reuses_last_block_witness:
  "\<exists>s'. malloc_next_block 100 (one_page_heap (one_block False)) = Some (0xD100000C, s')"
  using malloc_reuses_last_block [OF one_block_inv, of 100]
  by (auto simp: payload_first one_page_heap_simps)

theorem malloc_overlaps_next_block_witness:
  "\<exists>s' q. malloc_next_block 96 (one_page_heap two_blocks) = Some (0xD100000C, s') \<and>
    bfree (blocks s' q) \<and> unat q < 0xD1000070 \<and> unat q + 12 + unat (bsize (blocks s' q)) = 0xD1001070"
  using malloc_overlaps_next_block [OF two_blocks_inv, of 96]
  by (auto simp: payload_first one_page_heap_simps)

theorem malloc_large_never_returns_witness:
  "malloc_next_block 0x200000 (one_page_heap (one_block True)) = None"
  using malloc_large_never_returns [OF one_block_inv, of "0x200000"] by simp

theorem malloc_free_correct_witness:
  "\<exists>s'. malloc_free 0xD100000C (one_page_heap two_blocks) = Some s' \<and>
    heap_inv s' [(100, True), (3972, False)]"
  using malloc_free_correct [OF two_blocks_inv] by (auto simp: payload_first)

theorem malloc_free_ignored_witness:
  "malloc_free 0xD100007C (one_page_heap two_blocks) = Some (one_page_heap two_blocks)"
proof (rule malloc_free_ignored [OF two_blocks_inv], intro allI impI)
  fix pre b and post :: "block list"
  assume "[] @ (100, True) # [(3972, False)] = pre @ b # post" "post \<noteq> []"
  then have "pre = []" by (cases pre) (auto simp: append_eq_Cons_conv Cons_eq_append_conv)
  then show "0xD100007C \<noteq> payload (one_page_heap two_blocks) pre" by (simp add: payload_first)
qed

end
