(* ===== verification/Screen.thy ===== *)
theory Screen
  imports Malloc
begin

text \<open>
  Port I/O, \<open>src/kernel/interrupts/io.c\<close>, and the text screen,
  \<open>src/kernel/drivers/display/screen.c\<close>.

  The state gains the log of the bytes written to ports and the cursor position. What a port reads is
  the devices' answer to the writes so far: a function \<open>dev\<close> from the log and the port, an
  argument of the operations that read. The screen buffer is the memory at \<open>0xB8000\<close>; the
  cursor coordinates are C \<open>int\<close>s, converted to unsigned where the code mixes them with
  \<open>unsigned int\<close>. The lemmas show that the cursor never leaves the screen and that no
  character is written outside the buffer.
\<close>

section \<open>Ports\<close>

type_synonym port_log = "(u16 \<times> u8) list"
type_synonym devices = "port_log \<Rightarrow> u16 \<Rightarrow> u8"

record io = heap +
  port_log :: port_log

definition outb :: "u16 \<Rightarrow> u8 \<Rightarrow> 'a io_scheme \<Rightarrow> 'a io_scheme" where
  "outb port value s = s\<lparr>port_log := port_log s @ [(port, value)]\<rparr>"

definition inb :: "devices \<Rightarrow> u16 \<Rightarrow> 'a io_scheme \<Rightarrow> u8" where
  "inb dev port s = dev (port_log s) port"

definition io_wait :: "'a io_scheme \<Rightarrow> 'a io_scheme" where
  "io_wait s = outb 0x80 0 s"

lemma outb_frame [simp, frame_facts]:
  "mem (outb p v s) = mem s" "port_log (outb p v s) = port_log s @ [(p, v)]"
  by (simp_all add: outb_def)

section \<open>The screen\<close>

record screen = io +
  g_ScreenX :: int
  g_ScreenY :: int

definition SCREEN_WIDTH :: u32 where "SCREEN_WIDTH = 80"
definition SCREEN_HEIGHT :: u32 where "SCREEN_HEIGHT = 25"
definition DEFAULT_COLOR :: u8 where "DEFAULT_COLOR = 7"
definition g_ScreenBuffer :: u32 where "g_ScreenBuffer = 0xB8000"

definition screen_index :: "int \<Rightarrow> int \<Rightarrow> u32" where
  "screen_index x y = 2 * (word_of_int y * SCREEN_WIDTH + word_of_int x)"

definition setAxis :: "u16 \<Rightarrow> u16 \<Rightarrow> 'a screen_scheme \<Rightarrow> 'a screen_scheme" where
  "setAxis xaxiz yaxiz s = s\<lparr>g_ScreenX := uint xaxiz, g_ScreenY := uint yaxiz\<rparr>"

definition getchr :: "int \<Rightarrow> int \<Rightarrow> 'a screen_scheme \<Rightarrow> u8" where
  "getchr x y s = mem s (g_ScreenBuffer + screen_index x y)"

definition putchr :: "int \<Rightarrow> int \<Rightarrow> u8 \<Rightarrow> 'a screen_scheme \<Rightarrow> 'a screen_scheme" where
  "putchr x y c s = s\<lparr>mem := (mem s)(g_ScreenBuffer + screen_index x y := c)\<rparr>"

definition getcolor :: "int \<Rightarrow> int \<Rightarrow> 'a screen_scheme \<Rightarrow> u8" where
  "getcolor x y s = mem s (g_ScreenBuffer + screen_index x y + 1)"

definition putcolor :: "int \<Rightarrow> int \<Rightarrow> u8 \<Rightarrow> 'a screen_scheme \<Rightarrow> 'a screen_scheme" where
  "putcolor x y color s = s\<lparr>mem := (mem s)(g_ScreenBuffer + screen_index x y + 1 := color)\<rparr>"

definition setcursor :: "int \<Rightarrow> int \<Rightarrow> 'a screen_scheme \<Rightarrow> 'a screen_scheme" where
  "setcursor x y s =
     (let pos = ucast (word_of_int y * SCREEN_WIDTH + word_of_int x :: u32) :: u16
      in outb 0x3D5 (ucast (drop_bit 8 pos AND 0xFF)) (outb 0x3D4 0x0E
           (outb 0x3D5 (ucast (pos AND 0xFF)) (outb 0x3D4 0x0F s))))"

definition clrscr :: "'a screen_scheme \<Rightarrow> 'a screen_scheme" where
  "clrscr s =
     (let s1 = fold (\<lambda>y. fold (\<lambda>x s. putcolor (int x) (int y) DEFAULT_COLOR (putchr (int x) (int y) 0 s))
                 [0..<unat SCREEN_WIDTH]) [0..<unat SCREEN_HEIGHT] s
      in setcursor 0 0 (s1\<lparr>g_ScreenX := 0, g_ScreenY := 0\<rparr>))"

definition move_cell :: "int \<Rightarrow> int \<Rightarrow> 'a screen_scheme \<Rightarrow> 'a screen_scheme" where
  "move_cell x y s =
     (let s1 = putchr x (y - 1) (getchr x y s) s in putcolor x (y - 1) (getcolor x y s1) s1)"

definition scrollback :: "'a screen_scheme \<Rightarrow> 'a screen_scheme" where
  "scrollback s =
     (let s1 = fold (\<lambda>y. fold (\<lambda>x. move_cell (int x) (int y)) [0..<unat SCREEN_WIDTH])
                 [1..<unat SCREEN_HEIGHT] s;
          s2 = fold (\<lambda>x s. putcolor (int x) (int (unat SCREEN_HEIGHT) - 1) DEFAULT_COLOR
                            (putchr (int x) (int (unat SCREEN_HEIGHT) - 1) 0 s))
                 [0..<unat SCREEN_WIDTH] s1
      in s2\<lparr>g_ScreenY := g_ScreenY s2 - 1\<rparr>)"

text \<open>What \<open>put_c\<close> does after its switch.\<close>

definition wrap_cursor :: "'a screen_scheme \<Rightarrow> 'a screen_scheme" where
  "wrap_cursor s =
     (let s1 = (if word_of_int (g_ScreenX s) \<ge> SCREEN_WIDTH
                then s\<lparr>g_ScreenX := g_ScreenX s - 80, g_ScreenY := g_ScreenY s + 1\<rparr> else s);
          s2 = (if word_of_int (g_ScreenY s1) \<ge> SCREEN_HEIGHT then scrollback s1 else s1)
      in setcursor (g_ScreenX s2) (g_ScreenY s2) s2)"

text \<open>The default case: an ordinary character.\<close>

definition put_plain :: "u8 \<Rightarrow> 'a screen_scheme \<Rightarrow> 'a screen_scheme" where
  "put_plain c s =
     wrap_cursor ((putchr (g_ScreenX s) (g_ScreenY s) c s)\<lparr>g_ScreenX := g_ScreenX s + 1\<rparr>)"

text \<open>The C remainder takes the sign of the dividend.\<close>

definition crem :: "int \<Rightarrow> int \<Rightarrow> int" where
  "crem a b = sgn a * (\<bar>a\<bar> mod \<bar>b\<bar>)"

lemma crem_4: "-4 < crem a 4" "crem a 4 < 4"
  using pos_mod_bound [of 4 "\<bar>a\<bar>"] pos_mod_sign [of 4 "\<bar>a\<bar>"] by (auto simp: crem_def sgn_if)

text \<open>The bound of the tab loop is evaluated again in every turn.\<close>

function tab_loop :: "int \<Rightarrow> 'a screen_scheme \<Rightarrow> 'a screen_scheme" where
  "tab_loop i s = (if i < 4 - crem (g_ScreenX s) 4 then tab_loop (i + 1) (put_plain 0x20 s) else s)"
  by pat_completeness auto

termination
proof (relation "measure (\<lambda>(i, s). nat (8 - i))", simp, simp)
  fix i and s :: "'a screen_scheme" assume "i < 4 - crem (g_ScreenX s) 4"
  then show "i < 8" using crem_4(1) [of "g_ScreenX s"] by linarith
qed

declare tab_loop.simps [simp del]

definition put_c :: "u8 \<Rightarrow> 'a screen_scheme \<Rightarrow> 'a screen_scheme" where
  "put_c c s =
     (if c = 0x0A then wrap_cursor (s\<lparr>g_ScreenX := 0, g_ScreenY := g_ScreenY s + 1\<rparr>)
      else if c = 0x09 then wrap_cursor (tab_loop 0 s)
      else if c = 0x0D then wrap_cursor (s\<lparr>g_ScreenX := 0\<rparr>)
      else put_plain c s)"

text \<open>\<open>put_s\<close> and the other string functions take the characters before the NUL.\<close>

definition put_s :: "u8 list \<Rightarrow> 'a screen_scheme \<Rightarrow> 'a screen_scheme" where
  "put_s str = fold put_c str"

section \<open>Cells\<close>

text \<open>The byte \<open>k\<close> of the text page, two bytes to a cell.\<close>

definition vga :: "nat \<Rightarrow> u32" where "vga k = 0xB8000 + of_nat k"

definition in_text :: "u32 \<Rightarrow> bool" where
  "in_text a \<longleftrightarrow> 0xB8000 \<le> unat a \<and> unat a < 0xB8000 + 4000"

lemma unat_vga: "k < 4000 \<Longrightarrow> unat (vga k) = 0xB8000 + k"
proof -
  assume "k < 4000"
  then have "0xB8000 + k < 4294967296" by simp
  moreover have "vga k = of_nat (0xB8000 + k)" by (simp add: vga_def)
  ultimately show ?thesis by (metis unat_of_nat32)
qed

lemma in_text_vga: "k < 4000 \<Longrightarrow> in_text (vga k)"
  by (simp add: in_text_def unat_vga)

lemma vga_inject: "k < 4000 \<Longrightarrow> l < 4000 \<Longrightarrow> vga k = vga l \<longleftrightarrow> k = l"
  by (metis unat_vga add_left_cancel)

lemma screen_cell: "g_ScreenBuffer + screen_index (int x) (int y) = vga (2 * (80 * y + x))"
  by (simp add: g_ScreenBuffer_def screen_index_def SCREEN_WIDTH_def vga_def algebra_simps)

lemma screen_cell_1: "vga k + 1 = vga (Suc k)"
  by (simp add: vga_def)

lemmas screen_addr = screen_cell [THEN eq_reflection]

text \<open>Everything but the text page, the cursor and the port log stays.\<close>

definition screen_only :: "'a screen_scheme \<Rightarrow> 'a screen_scheme \<Rightarrow> bool" where
  "screen_only s s' \<longleftrightarrow> (\<exists>m l x y. s' = s\<lparr>mem := m, port_log := l, g_ScreenX := x, g_ScreenY := y\<rparr> \<and>
     (\<forall>a. \<not> in_text a \<longrightarrow> m a = mem s a))"

lemma screen_only_I:
  "s' = s\<lparr>mem := m, port_log := l, g_ScreenX := x, g_ScreenY := y\<rparr> \<Longrightarrow>
   (\<And>a. \<not> in_text a \<Longrightarrow> m a = mem s a) \<Longrightarrow> screen_only s s'"
  unfolding screen_only_def by blast

lemma screen_only_refl [simp]: "screen_only s s"
  by (rule screen_only_I [where m = "mem s" and l = "port_log s" and x = "g_ScreenX s" and y = "g_ScreenY s"]) simp_all

lemma screen_only_trans: "screen_only s t \<Longrightarrow> screen_only t u \<Longrightarrow> screen_only s u"
proof -
  assume "screen_only s t" "screen_only t u"
  then obtain m l x y m' l' x' y' where
    t: "t = s\<lparr>mem := m, port_log := l, g_ScreenX := x, g_ScreenY := y\<rparr>" "\<And>a. \<not> in_text a \<Longrightarrow> m a = mem s a"
    and u: "u = t\<lparr>mem := m', port_log := l', g_ScreenX := x', g_ScreenY := y'\<rparr>" "\<And>a. \<not> in_text a \<Longrightarrow> m' a = mem t a"
    unfolding screen_only_def by blast
  show "screen_only s u"
    by (rule screen_only_I [where m = m' and l = l' and x = x' and y = y']) (use t u in simp_all)
qed

lemma screen_only_write: "in_text a \<Longrightarrow> screen_only s (s\<lparr>mem := (mem s)(a := v)\<rparr>)"
  by (rule screen_only_I [where m = "(mem s)(a := v)" and l = "port_log s" and x = "g_ScreenX s" and y = "g_ScreenY s"]) auto

lemma screen_only_put:
  assumes "x < 80" "y < 25"
  shows "screen_only s (putchr (int x) (int y) c s)" "screen_only s (putcolor (int x) (int y) d s)"
  unfolding putchr_def putcolor_def screen_cell screen_cell_1
  by (rule screen_only_write, rule in_text_vga, use assms in simp)+

lemma screen_only_cursor: "screen_only s (s\<lparr>g_ScreenX := x, g_ScreenY := y\<rparr>)"
  by (rule screen_only_I [where m = "mem s" and l = "port_log s" and x = x and y = y]) simp_all

lemma screen_only_setcursor: "screen_only s (setcursor x y s)"
  by (rule screen_only_I [where m = "mem s" and l = "port_log (setcursor x y s)" and x = "g_ScreenX s" and y = "g_ScreenY s"])
    (simp_all add: setcursor_def outb_def Let_def)

lemma clrscr_only: "screen_only s (clrscr s)"
proof -
  have "screen_only s (fold (\<lambda>y. fold (\<lambda>x s. putcolor (int x) (int y) DEFAULT_COLOR (putchr (int x) (int y) 0 s)) [0..<80]) [0..<25] s)"
  proof (rule fold_invariant_upt [where P = "screen_only s"])
    fix y :: nat and t assume y: "y < 25" and t: "screen_only s t"
    show "screen_only s (fold (\<lambda>x s. putcolor (int x) (int y) DEFAULT_COLOR (putchr (int x) (int y) 0 s)) [0..<80] t)"
    proof (rule fold_invariant_upt [where P = "screen_only s"])
      fix x :: nat and u assume "x < 80" "screen_only s u"
      then show "screen_only s (putcolor (int x) (int y) DEFAULT_COLOR (putchr (int x) (int y) 0 u))"
        using screen_only_trans screen_only_put y by metis
    qed (rule t)
  qed simp
  moreover have "unat SCREEN_WIDTH = 80" "unat SCREEN_HEIGHT = 25" by (simp_all add: SCREEN_WIDTH_def SCREEN_HEIGHT_def)
  ultimately show ?thesis
    unfolding clrscr_def Let_def
    by (elim ssubst) (rule screen_only_trans [OF _ screen_only_trans [OF screen_only_cursor screen_only_setcursor]])
qed

lemma setcursor_frame [simp]:
  "mem (setcursor x y s) = mem s" "g_ScreenX (setcursor x y s) = g_ScreenX s"
  "g_ScreenY (setcursor x y s) = g_ScreenY s"
  by (simp_all add: setcursor_def outb_def Let_def)

section \<open>Scrolling\<close>

lemma move_cell_bytes:
  assumes "x < 80" "y < 24" and n: "n = 80 * y + x"
  shows "mem (move_cell (int x) (int (Suc y)) s) =
      (mem s)(vga (2 * n) := mem s (vga (2 * n + 160)), vga (2 * n + 1) := mem s (vga (2 * n + 161)))"
    "screen_only s (move_cell (int x) (int (Suc y)) s)"
    "g_ScreenX (move_cell (int x) (int (Suc y)) s) = g_ScreenX s"
    "g_ScreenY (move_cell (int x) (int (Suc y)) s) = g_ScreenY s"
proof -
  have y: "int (Suc y) - 1 = int y" by simp
  have i: "2 * (80 * Suc y + x) = 2 * n + 160" "2 * (80 * y + x) = 2 * n" using n by simp_all
  have ne: "vga (2 * n + 161) \<noteq> vga (2 * n)" "vga (161 + 2 * n) \<noteq> vga (2 * n)"
    using assms by (simp_all add: vga_inject)
  show "mem (move_cell (int x) (int (Suc y)) s) =
      (mem s)(vga (2 * n) := mem s (vga (2 * n + 160)), vga (2 * n + 1) := mem s (vga (2 * n + 161)))"
    unfolding move_cell_def Let_def y putchr_def putcolor_def getchr_def getcolor_def screen_cell i screen_cell_1
    using ne by (simp add: add.commute)
  show "screen_only s (move_cell (int x) (int (Suc y)) s)"
    unfolding move_cell_def Let_def y
    by (rule screen_only_trans [OF screen_only_put(1) screen_only_put(2)]) (use assms in simp_all)
  show "g_ScreenX (move_cell (int x) (int (Suc y)) s) = g_ScreenX s"
    "g_ScreenY (move_cell (int x) (int (Suc y)) s) = g_ScreenY s"
    by (simp_all add: move_cell_def Let_def putchr_def putcolor_def)
qed

text \<open>The first \<open>n\<close> cells hold what was 80 cells further on.\<close>

definition moved :: "'a screen_scheme \<Rightarrow> nat \<Rightarrow> 'a screen_scheme \<Rightarrow> bool" where
  "moved s n s' \<longleftrightarrow> screen_only s s' \<and> g_ScreenX s' = g_ScreenX s \<and> g_ScreenY s' = g_ScreenY s \<and>
     (\<forall>k<4000. mem s' (vga k) = (if k < 2 * n then mem s (vga (k + 160)) else mem s (vga k)))"

lemma moved_step:
  assumes "x < 80" "y < 24" "moved s (80 * y + x) s'"
  shows "moved s (80 * y + Suc x) (move_cell (int x) (int (Suc y)) s')"
proof -
  let ?n = "80 * y + x"
  have n: "?n < 1920" using assms(1,2) by simp
  note B = move_cell_bytes [OF assms(1,2) refl, of s']
  note M = assms(3) [unfolded moved_def]
  have "mem (move_cell (int x) (int (Suc y)) s') (vga k) =
      (if k < 2 * Suc ?n then mem s (vga (k + 160)) else mem s (vga k))" if k: "k < 4000" for k
  proof -
    have "mem s' (vga (2 * ?n + 160)) = mem s (vga (2 * ?n + 160))"
      "mem s' (vga (2 * ?n + 161)) = mem s (vga (2 * ?n + 161))" using M n by simp_all
    then have "mem (move_cell (int x) (int (Suc y)) s') (vga k) =
        (if k = 2 * ?n + 1 then mem s (vga (2 * ?n + 161)) else if k = 2 * ?n then mem s (vga (2 * ?n + 160))
         else mem s' (vga k))"
      unfolding B(1) using n k by (simp add: vga_inject)
    moreover have "mem s' (vga k) = (if k < 2 * ?n then mem s (vga (k + 160)) else mem s (vga k))"
      using M k by simp
    ultimately show ?thesis
      by (cases "k = 2 * ?n + 1"; cases "k = 2 * ?n"; cases "k < 2 * ?n") (simp_all add: add.commute)
  qed
  moreover have "screen_only s (move_cell (int x) (int (Suc y)) s')" using screen_only_trans [OF _ B(2)] M by simp
  ultimately show ?thesis using M unfolding moved_def B(3,4) add_Suc_right by blast
qed

lemma moved_row:
  assumes "y < 24" "moved s (80 * y) s'" "n \<le> 80"
  shows "moved s (80 * y + n) (fold (\<lambda>x. move_cell (int x) (int (Suc y))) [0..<n] s')"
  using assms(3)
proof (induction n)
  case (Suc n)
  then have "moved s (80 * y + n) (fold (\<lambda>x. move_cell (int x) (int (Suc y))) [0..<n] s')" by simp
  then show ?case unfolding fold_upt_Suc by (rule moved_step [rotated 2]) (use Suc.prems assms(1) in simp_all)
qed (simp add: assms(2))

lemma moved_rows:
  "n \<le> 24 \<Longrightarrow> moved s (80 * n) (fold (\<lambda>y. fold (\<lambda>x. move_cell (int x) (int y)) [0..<80]) [1..<Suc n] s)"
proof (induction n)
  case 0
  show ?case by (simp add: moved_def)
next
  case (Suc n)
  have "[1..<Suc (Suc n)] = [1..<Suc n] @ [Suc n]" by simp
  then show ?case
    using moved_row [OF _ Suc.IH, of 80] Suc.prems by (simp add: add.commute)
qed

text \<open>The last row is cleared.\<close>

definition cleared :: "'a screen_scheme \<Rightarrow> nat \<Rightarrow> 'a screen_scheme \<Rightarrow> bool" where
  "cleared s n s' \<longleftrightarrow> screen_only s s' \<and> g_ScreenX s' = g_ScreenX s \<and> g_ScreenY s' = g_ScreenY s \<and>
     (\<forall>k<4000. mem s' (vga k) =
       (if 3840 \<le> k \<and> k < 3840 + 2 * n then if even k then 0 else DEFAULT_COLOR else mem s (vga k)))"

lemma cleared_step:
  assumes "n < 80" "cleared s n s'"
  shows "cleared s (Suc n) (putcolor (int n) 24 DEFAULT_COLOR (putchr (int n) 24 0 s'))"
proof -
  let ?i = "3840 + 2 * n"
  let ?t = "putcolor (int n) 24 DEFAULT_COLOR (putchr (int n) 24 0 s')"
  have c: "g_ScreenBuffer + screen_index (int n) 24 = vga ?i"
    using screen_cell [of n 24] by simp
  have m: "mem ?t = (mem s')(vga ?i := 0, vga (Suc ?i) := DEFAULT_COLOR)"
    by (simp add: putcolor_def putchr_def c screen_cell_1)
  have "mem ?t (vga k) = (if 3840 \<le> k \<and> k < 3840 + 2 * Suc n then if even k then 0 else DEFAULT_COLOR else mem s (vga k))"
    if k: "k < 4000" for k
  proof -
    have "mem ?t (vga k) = (if k = Suc ?i then DEFAULT_COLOR else if k = ?i then 0 else mem s' (vga k))"
      unfolding m using assms(1) k by (simp add: vga_inject)
    moreover have "mem s' (vga k) =
        (if 3840 \<le> k \<and> k < ?i then if even k then 0 else DEFAULT_COLOR else mem s (vga k))"
      using assms(2) k by (simp add: cleared_def)
    ultimately show ?thesis by (cases "k = Suc ?i"; cases "k = ?i"; cases "k < ?i") simp_all
  qed
  moreover have "screen_only s' ?t"
    by (rule screen_only_trans [OF screen_only_put(1) [of n 24, simplified] screen_only_put(2) [of n 24, simplified]])
      (use assms(1) in simp_all)
  moreover have "g_ScreenX ?t = g_ScreenX s'" "g_ScreenY ?t = g_ScreenY s'"
    by (simp_all add: putcolor_def putchr_def)
  moreover have "screen_only s s'" "g_ScreenX s' = g_ScreenX s" "g_ScreenY s' = g_ScreenY s"
    using assms(2) by (simp_all add: cleared_def)
  ultimately show ?thesis unfolding cleared_def using screen_only_trans [of s s' ?t] by simp
qed

lemma cleared_all:
  "n \<le> 80 \<Longrightarrow> cleared s n (fold (\<lambda>x s. putcolor (int x) 24 DEFAULT_COLOR (putchr (int x) 24 0 s)) [0..<n] s)"
proof (induction n)
  case 0
  show ?case by (auto simp: cleared_def)
next
  case (Suc n)
  then show ?case unfolding fold_upt_Suc by (intro cleared_step) simp_all
qed

lemma scrollback_effect:
  "screen_only s (scrollback s)" "g_ScreenX (scrollback s) = g_ScreenX s" "g_ScreenY (scrollback s) = g_ScreenY s - 1"
  "k < 4000 \<Longrightarrow> mem (scrollback s) (vga k) =
     (if k < 3840 then mem s (vga (k + 160)) else if even k then 0 else DEFAULT_COLOR)"
proof -
  define s1 where "s1 = fold (\<lambda>y. fold (\<lambda>x. move_cell (int x) (int y)) [0..<80]) [1..<25] s"
  define s2 where "s2 = fold (\<lambda>x s. putcolor (int x) 24 DEFAULT_COLOR (putchr (int x) 24 0 s)) [0..<80] s1"
  have sb: "scrollback s = s2\<lparr>g_ScreenY := g_ScreenY s2 - 1\<rparr>"
    by (simp add: scrollback_def Let_def s1_def s2_def SCREEN_WIDTH_def SCREEN_HEIGHT_def)
  have m: "moved s 1920 s1" using moved_rows [of 24 s] by (simp add: s1_def)
  have c: "cleared s1 80 s2" using cleared_all [of 80 s1] by (simp add: s2_def)
  have "screen_only s s2" using m c screen_only_trans unfolding moved_def cleared_def by blast
  then show "screen_only s (scrollback s)"
    using screen_only_trans [OF _ screen_only_cursor [where s = s2 and x = "g_ScreenX s2" and y = "g_ScreenY s2 - 1"]] by (simp add: sb)
  show "g_ScreenX (scrollback s) = g_ScreenX s" "g_ScreenY (scrollback s) = g_ScreenY s - 1"
    using m c by (simp_all add: sb moved_def cleared_def)
  show "mem (scrollback s) (vga k) = (if k < 3840 then mem s (vga (k + 160)) else if even k then 0 else DEFAULT_COLOR)"
    if "k < 4000" using m c that by (simp add: sb moved_def cleared_def)
qed

section \<open>The cursor stays on the screen\<close>

definition on_screen :: "'a screen_scheme \<Rightarrow> bool" where
  "on_screen s \<longleftrightarrow> 0 \<le> g_ScreenX s \<and> g_ScreenX s < 80 \<and> 0 \<le> g_ScreenY s \<and> g_ScreenY s < 25"

definition position :: "'a screen_scheme \<Rightarrow> int" where
  "position s = 80 * g_ScreenY s + g_ScreenX s"

lemma uint_coordinate: "0 \<le> x \<Longrightarrow> x < 4294967296 \<Longrightarrow> uint (word_of_int x :: u32) = x"
  by (simp add: uint_word_of_int)

lemma scrollback_mem_cong:
  assumes "mem s = mem t" shows "mem (scrollback s) = mem (scrollback t)"
proof (rule ext)
  fix a
  show "mem (scrollback s) a = mem (scrollback t) a"
  proof (cases "in_text a")
    case True
    define k where "k = unat a - 0xB8000"
    have k: "k < 4000" "unat a = 0xB8000 + k" using True unfolding in_text_def k_def by linarith+
    then have "a = vga k" by (simp add: word_unat_eq_iff unat_vga)
    with k(1) show ?thesis by (simp add: scrollback_effect(4) assms)
  next
    case False
    then have "mem (scrollback s) a = mem s a" "mem (scrollback t) a = mem t a"
      using scrollback_effect(1) [of s] scrollback_effect(1) [of t] by (auto simp: screen_only_def)
    with assms show ?thesis by simp
  qed
qed

text \<open>\<open>wrap_cursor\<close> on a cursor at most one step off the screen.\<close>

lemma wrap_cursor_effect:
  assumes "0 \<le> g_ScreenX s" "g_ScreenX s \<le> 80" "0 \<le> g_ScreenY s" "g_ScreenY s \<le> 25"
    "g_ScreenX s = 80 \<longrightarrow> g_ScreenY s < 25"
  shows "on_screen (wrap_cursor s)" "screen_only s (wrap_cursor s)"
    "position s < 2000 \<Longrightarrow> mem (wrap_cursor s) = mem s \<and> position (wrap_cursor s) = position s"
    "2000 \<le> position s \<Longrightarrow> mem (wrap_cursor s) = mem (scrollback s) \<and> position (wrap_cursor s) = position s - 80"
proof -
  define s1 where "s1 = (if g_ScreenX s = 80 then s\<lparr>g_ScreenX := 0, g_ScreenY := g_ScreenY s + 1\<rparr> else s)"
  define s2 where "s2 = (if g_ScreenY s1 = 25 then scrollback s1 else s1)"
  have x: "word_of_int (g_ScreenX s) \<ge> SCREEN_WIDTH \<longleftrightarrow> g_ScreenX s = 80"
    using assms(1,2) by (auto simp: SCREEN_WIDTH_def word_le_def uint_coordinate)
  have y1: "0 \<le> g_ScreenY s1" "g_ScreenY s1 \<le> 25" using assms by (auto simp: s1_def)
  then have y: "word_of_int (g_ScreenY s1) \<ge> SCREEN_HEIGHT \<longleftrightarrow> g_ScreenY s1 = 25"
    by (auto simp: SCREEN_HEIGHT_def word_le_def uint_coordinate)
  have "s1 = (if word_of_int (g_ScreenX s) \<ge> SCREEN_WIDTH
              then s\<lparr>g_ScreenX := g_ScreenX s - 80, g_ScreenY := g_ScreenY s + 1\<rparr> else s)"
    unfolding x s1_def by simp
  then have w: "wrap_cursor s = setcursor (g_ScreenX s2) (g_ScreenY s2) s2"
    unfolding wrap_cursor_def Let_def s2_def y [symmetric] by simp
  have xy: "0 \<le> g_ScreenX s2" "g_ScreenX s2 < 80" "0 \<le> g_ScreenY s2" "g_ScreenY s2 < 25"
    using assms y1 by (auto simp: s2_def s1_def scrollback_effect)
  then show "on_screen (wrap_cursor s)" by (simp add: w on_screen_def)
  have "screen_only s s1" unfolding s1_def by (simp add: screen_only_cursor)
  then have "screen_only s s2" unfolding s2_def using screen_only_trans scrollback_effect(1) by auto
  then show "screen_only s (wrap_cursor s)"
    unfolding w using screen_only_trans screen_only_setcursor by blast
  show "position s < 2000 \<Longrightarrow> mem (wrap_cursor s) = mem s \<and> position (wrap_cursor s) = position s"
    using assms by (auto simp: w s2_def s1_def position_def)
  have "mem (scrollback s1) = mem (scrollback s)" by (rule scrollback_mem_cong) (simp add: s1_def)
  then show "2000 \<le> position s \<Longrightarrow> mem (wrap_cursor s) = mem (scrollback s) \<and> position (wrap_cursor s) = position s - 80"
    using assms by (auto simp: w s2_def s1_def position_def scrollback_effect)
qed

text \<open>An ordinary character goes to the cursor's cell, and the cursor moves on; behind the last cell
  the screen scrolls.\<close>

lemma on_screen_position:
  assumes "on_screen s"
  shows "0 \<le> position s" "position s < 2000"
    "g_ScreenBuffer + screen_index (g_ScreenX s) (g_ScreenY s) = vga (2 * nat (position s))"
proof -
  have r: "0 \<le> g_ScreenX s" "g_ScreenX s < 80" "0 \<le> g_ScreenY s" "g_ScreenY s < 25"
    using assms by (simp_all add: on_screen_def)
  then show "0 \<le> position s" "position s < 2000" by (simp_all add: position_def)
  obtain x y where "g_ScreenX s = int x" "g_ScreenY s = int y" using r by (metis nonneg_int_cases)
  then show "g_ScreenBuffer + screen_index (g_ScreenX s) (g_ScreenY s) = vga (2 * nat (position s))"
    using screen_cell [of x y] by (simp add: position_def nat_add_distrib nat_mult_distrib)
qed

lemma put_plain_effect:
  assumes "on_screen s"
  shows "on_screen (put_plain c s)" "screen_only s (put_plain c s)"
    "position (put_plain c s) = (if position s = 1999 then 1920 else position s + 1)"
    "position s < 1999 \<Longrightarrow> mem (put_plain c s) = (mem s)(vga (2 * nat (position s)) := c)"
proof -
  note P = on_screen_position [OF assms]
  define t where "t = (putchr (g_ScreenX s) (g_ScreenY s) c s)\<lparr>g_ScreenX := g_ScreenX s + 1\<rparr>"
  have pt: "position t = position s + 1" "mem t = (mem s)(vga (2 * nat (position s)) := c)"
    by (simp_all add: t_def putchr_def P(3) position_def)
  have r: "0 \<le> g_ScreenX t" "g_ScreenX t \<le> 80" "0 \<le> g_ScreenY t" "g_ScreenY t \<le> 25"
    "g_ScreenX t = 80 \<longrightarrow> g_ScreenY t < 25"
    using assms by (simp_all add: t_def putchr_def on_screen_def)
  note W = wrap_cursor_effect [OF r]
  have pp: "put_plain c s = wrap_cursor t" by (simp add: put_plain_def t_def)
  have "2 * nat (position s) < 4000" using P(1,2) by simp
  then have "screen_only s (putchr (g_ScreenX s) (g_ScreenY s) c s)"
    unfolding putchr_def P(3) by (intro screen_only_write in_text_vga)
  then have "screen_only s t"
    unfolding t_def
    using screen_only_trans [OF _ screen_only_cursor [where s = "putchr (g_ScreenX s) (g_ScreenY s) c s"
        and x = "g_ScreenX s + 1" and y = "g_ScreenY s"]] by (simp add: putchr_def)
  then show "screen_only s (put_plain c s)" unfolding pp using W(2) screen_only_trans by blast
  show "on_screen (put_plain c s)" unfolding pp by (rule W(1))
  show "position (put_plain c s) = (if position s = 1999 then 1920 else position s + 1)"
    using W(3,4) P(1,2) unfolding pp pt by (cases "position s = 1999") simp_all
  show "mem (put_plain c s) = (mem s)(vga (2 * nat (position s)) := c)" if "position s < 1999"
    using W(3) that unfolding pp pt by simp
qed

lemma tab_loop_keeps:
  "on_screen s \<Longrightarrow> on_screen (tab_loop i s) \<and> screen_only s (tab_loop i s)"
proof (induction i s rule: tab_loop.induct)
  case (1 i s)
  show ?case
  proof (cases "i < 4 - crem (g_ScreenX s) 4")
    case True
    then have "tab_loop i s = tab_loop (i + 1) (put_plain 0x20 s)" by (subst tab_loop.simps) simp
    with "1.IH" [OF True put_plain_effect(1) [OF "1.prems"]] put_plain_effect(2) [OF "1.prems", of "0x20"]
    show ?thesis using screen_only_trans by metis
  next
    case False
    then have "tab_loop i s = s" by (subst tab_loop.simps) simp
    with "1.prems" show ?thesis by simp
  qed
qed

lemma put_c_keeps:
  assumes "on_screen s"
  shows "on_screen (put_c c s) \<and> screen_only s (put_c c s)"
proof -
  have r: "0 \<le> g_ScreenX s" "g_ScreenX s < 80" "0 \<le> g_ScreenY s" "g_ScreenY s < 25"
    using assms by (simp_all add: on_screen_def)
  have w: "on_screen (wrap_cursor t) \<and> screen_only s (wrap_cursor t)"
    if "screen_only s t" "0 \<le> g_ScreenX t" "g_ScreenX t < 80" "0 \<le> g_ScreenY t" "g_ScreenY t \<le> 25" for t
    using wrap_cursor_effect(1,2) [of t] that screen_only_trans by fastforce
  have nl: "screen_only s (s\<lparr>g_ScreenX := 0, g_ScreenY := g_ScreenY s + 1\<rparr>)"
    and cr: "screen_only s (s\<lparr>g_ScreenX := 0\<rparr>)"
    using screen_only_cursor [where s = s and x = 0 and y = "g_ScreenY s + 1"]
      screen_only_cursor [where s = s and x = 0 and y = "g_ScreenY s"] by simp_all
  have tab: "on_screen (wrap_cursor (tab_loop 0 s)) \<and> screen_only s (wrap_cursor (tab_loop 0 s))"
    using tab_loop_keeps [OF assms, of 0] by (intro w) (auto simp: on_screen_def)
  show ?thesis
    using w [OF nl] w [OF cr] tab put_plain_effect [OF assms, of c] r by (auto simp: put_c_def)
qed

section \<open>Properties\<close>

text \<open>C18 \<open>put_c\<close> keeps the cursor on the screen and writes to nothing but the text page, the
  cursor and the ports, whatever the character is. A printable character in front of the last cell is
  stored at the cursor and moves it by one.\<close>

theorem put_c_on_screen:
  assumes "on_screen s"
  shows "on_screen (put_c c s) \<and> screen_only s (put_c c s) \<and>
    (c \<notin> {0x09, 0x0A, 0x0D} \<longrightarrow> position s < 1999 \<longrightarrow>
       position (put_c c s) = position s + 1 \<and>
       mem (put_c c s) = (mem s)(vga (2 * nat (position s)) := c))"
  using put_c_keeps [OF assms, of c] put_plain_effect [OF assms, of c] by (auto simp: put_c_def)

text \<open>\<open>scrollback\<close> moves every row up by one, characters and colours alike, blanks the last
  row in the default colour, and moves the cursor up.\<close>

theorem scrollback_correct:
  assumes "x < 80" and "y < 25"
  shows "getchr (int x) (int y) (scrollback s) = (if y < 24 then getchr (int x) (int y + 1) s else 0) \<and>
    getcolor (int x) (int y) (scrollback s) = (if y < 24 then getcolor (int x) (int y + 1) s else DEFAULT_COLOR) \<and>
    g_ScreenY (scrollback s) = g_ScreenY s - 1"
proof -
  have up: "int y + 1 = int (Suc y)" "2 * (80 * Suc y + x) = 2 * (80 * y + x) + 160"
    "Suc (2 * (80 * y + x) + 160) = Suc (2 * (80 * y + x)) + 160" by simp_all
  have k: "2 * (80 * y + x) < 4000" "Suc (2 * (80 * y + x)) < 4000"
    using assms by simp_all
  have r: "80 * y + x < 1920" if "y < 24" using that assms(1) by linarith
  have q: "1920 \<le> 80 * y + x" if "\<not> y < 24" using that by linarith
  have k3: "2 * (80 * y + x) < 3840 \<longleftrightarrow> y < 24" using r q by (cases "y < 24") force+
  have k4: "Suc (2 * (80 * y + x)) < 3840 \<longleftrightarrow> y < 24"
    using r q by (cases "y < 24") (simp_all add: not_less)
  show ?thesis
    unfolding getchr_def getcolor_def up(1) screen_cell screen_cell_1 scrollback_effect(3)
      scrollback_effect(4) [OF k(1)] scrollback_effect(4) [OF k(2)] k3 k4 up(2,3) by simp
qed

text \<open>A tab does not reach the next multiple of four: the bound of its loop is read again after
  every blank, and the cursor moves by 2, 2, 1 or 3 columns.\<close>

theorem tab_advance:
  assumes "on_screen s" and "g_ScreenY s < 24"
  shows "position (put_c 0x09 s) = position s + [2, 2, 1, 3] ! nat (g_ScreenX s mod 4)"
proof -
  have r: "0 \<le> g_ScreenX s" "g_ScreenX s < 80" "0 \<le> g_ScreenY s" "g_ScreenY s < 24"
    using assms by (simp_all add: on_screen_def)
  have col: "crem (g_ScreenX t) 4 = position t mod 4" if "on_screen t" for t :: "'a screen_scheme"
  proof -
    have "(80 * a + b) mod 4 = b mod 4" for a b :: int by presburger
    then show ?thesis using that by (auto simp: crem_def sgn_if on_screen_def position_def)
  qed
  have step: "tab_loop i t = (if i < 4 - position t mod 4 then tab_loop (i + 1) (put_plain 0x20 t) else t)"
    if "on_screen t" for i and t :: "'a screen_scheme"
    using col [OF that] by (subst tab_loop.simps) simp
  define p where "p = position s"
  have p: "p < 1920" "position s = p" using r by (simp_all add: p_def position_def)
  define t1 where "t1 = put_plain 0x20 s"
  define t2 where "t2 = put_plain 0x20 t1"
  define t3 where "t3 = put_plain 0x20 t2"
  have o: "on_screen t1" "on_screen t2" "on_screen t3"
    using put_plain_effect(1) assms(1) by (auto simp: t1_def t2_def t3_def)
  have pos: "position t1 = p + 1" "position t2 = p + 2" "position t3 = p + 3"
    using put_plain_effect(3) [OF assms(1), of "0x20"] put_plain_effect(3) [OF o(1), of "0x20"]
      put_plain_effect(3) [OF o(2), of "0x20"] p by (simp_all add: t1_def t2_def t3_def)
  note st = step [OF assms(1), of 0, folded t1_def] step [OF o(1), of 1, folded t2_def]
    step [OF o(2), of 2, folded t3_def] step [OF o(3), of 3]
  have m: "g_ScreenX s mod 4 = p mod 4" unfolding p_def position_def by presburger
  have w: "position (wrap_cursor t) = position t" if "on_screen t" "position t < 2000" for t :: "'a screen_scheme"
    using wrap_cursor_effect(3) [of t] that by (auto simp: on_screen_def)
  have tl: "position (tab_loop 0 s) = p + [2, 2, 1, 3] ! nat (p mod 4)"
  proof -
    have "p mod 4 = 0 \<or> p mod 4 = 1 \<or> p mod 4 = 2 \<or> p mod 4 = 3" by presburger
    then consider "p mod 4 = 0" | "p mod 4 = 1" | "p mod 4 = 2" | "p mod 4 = 3" by blast
    then show ?thesis
    proof cases
      case 1
      then have "(p + 1) mod 4 = 1" "(p + 2) mod 4 = 2" by presburger+
      with 1 show ?thesis using st pos p(2) by simp
    next
      case 2
      then have "(p + 1) mod 4 = 2" "(p + 2) mod 4 = 3" by presburger+
      with 2 show ?thesis using st pos p(2) by simp
    next
      case 3
      then have "(p + 1) mod 4 = 3" by presburger
      with 3 show ?thesis using st pos p(2) by simp
    next
      case 4
      then have "(p + 1) mod 4 = 0" "(p + 2) mod 4 = 1" "(p + 3) mod 4 = 2" by presburger+
      with 4 show ?thesis using st pos p(2) by (simp add: numeral_eq_Suc)
    qed
  qed
  have "[2, 2, 1, 3] ! nat (p mod 4) \<le> (3 :: int)"
  proof -
    have "nat (p mod 4) \<in> {0, 1, 2, 3}" by (auto simp: p_def)
    then show ?thesis by auto
  qed
  then show ?thesis
    using w [of "tab_loop 0 s"] tab_loop_keeps [OF assms(1), of 0] tl p by (simp add: put_c_def m)
qed

section \<open>Concrete screens\<close>

definition blank_screen :: "int \<Rightarrow> int \<Rightarrow> screen" where
  "blank_screen x y = heap.extend (one_page_heap (one_block True))
     \<lparr>port_log = [], g_ScreenX = x, g_ScreenY = y\<rparr>"

lemma blank_screen_simps [simp]:
  "g_ScreenX (blank_screen x y) = x" "g_ScreenY (blank_screen x y) = y"
  "port_log (blank_screen x y) = []"
  by (simp_all add: blank_screen_def heap.defs)

lemma put_c_on_screen_witness:
  "on_screen (put_c 65 (blank_screen 3 4)) \<and> position (put_c 65 (blank_screen 3 4)) = 324 \<and>
   mem (put_c 65 (blank_screen 3 4)) (vga 646) = 65"
proof -
  have "on_screen (blank_screen 3 4)" and p: "position (blank_screen 3 4) = 323"
    by (simp_all add: on_screen_def position_def)
  from put_c_on_screen [OF this(1), of 65] p show ?thesis by simp
qed

lemma scrollback_correct_witness:
  "getchr 5 24 (scrollback (blank_screen 0 25)) = 0 \<and> g_ScreenY (scrollback (blank_screen 0 25)) = 24"
  using scrollback_correct [of 5 24 "blank_screen 0 25"] by simp

lemma tab_advance_witness: "position (put_c 0x09 (blank_screen 1 2)) = 163"
proof -
  have "on_screen (blank_screen 1 2)" "g_ScreenY (blank_screen 1 2) < 24" by (simp_all add: on_screen_def)
  from tab_advance [OF this] show ?thesis by (simp add: position_def)
qed

end
