(* ===== verification/Stdio.thy ===== *)
theory Stdio
  imports Screen
begin

text \<open>
  Formatted output and number parsing, \<open>src/kernel/lib/stdio.c\<close> and
  \<open>src/kernel/lib/stdlib.c\<close>.

  The output functions send their characters to a \<open>putc\<close>, an argument of the definitions here: the
  kernel's, the bootloader's and the user library's differ. The variadic arguments are the words of the
  stack from the first one on, \<open>va i\<close>, and \<open>va_arg\<close> moves an index. Strings are read from
  memory up to the NUL, so \<open>puts\<close> and \<open>str_to_int\<close> are partial functions; a format
  string is the list of its characters before the NUL. \<open>printf\<close> is its state machine, one step per
  character of the format.

  The locale \<open>char_sink\<close> states what \<open>printf\<close> needs of a \<open>putc\<close>; the lemmas proved in it
  show that the state machine prints what the directives of the format say.
\<close>

text \<open>The bytes of a string literal.\<close>

definition ascii :: "string \<Rightarrow> u8 list" where "ascii cs = map of_char cs"

section \<open>Numbers\<close>

definition g_HexChars :: "u8 list" where
  "g_HexChars = [0x30, 0x31, 0x32, 0x33, 0x34, 0x35, 0x36, 0x37, 0x38, 0x39, 0x61, 0x62, 0x63, 0x64, 0x65, 0x66]"

text \<open>The digits, least significant first; division by 0 does not return.\<close>

partial_function (option) to_digits :: "u64 \<Rightarrow> u64 \<Rightarrow> u8 list \<Rightarrow> u8 list option" where
  "to_digits number radix buffer =
     (if radix = 0 then None
      else let buffer' = buffer @ [g_HexChars ! unat (number mod radix)]
           in if number div radix > 0 then to_digits (number div radix) radix buffer' else Some buffer')"

definition printf_unsigned :: "(u8 \<Rightarrow> 's \<Rightarrow> 's) \<Rightarrow> u64 \<Rightarrow> u64 \<Rightarrow> 's \<Rightarrow> 's option" where
  "printf_unsigned putc number radix s =
     (case to_digits number radix [] of None \<Rightarrow> None | Some buffer \<Rightarrow> Some (fold putc (rev buffer) s))"

definition printf_signed :: "(u8 \<Rightarrow> 's \<Rightarrow> 's) \<Rightarrow> u64 \<Rightarrow> u64 \<Rightarrow> 's \<Rightarrow> 's option" where
  "printf_signed putc number radix s =
     (if sint number < 0 then printf_unsigned putc (- number) radix (putc 0x2D s)
      else printf_unsigned putc number radix s)"

text \<open>\<open>str_to_int\<close>: no check of the characters; a \<open>char\<close> is signed.\<close>

partial_function (option) str_to_int_loop :: "ram \<Rightarrow> u32 \<Rightarrow> u32 \<Rightarrow> u32 option" where
  "str_to_int_loop m str result =
     (if m str = 0 then Some result
      else str_to_int_loop m (str + 1) (result * 10 + (scast (m str) - 0x30)))"

definition str_to_int :: "ram \<Rightarrow> u32 \<Rightarrow> u32 option" where
  "str_to_int m str = str_to_int_loop m str 0"

section \<open>Strings\<close>

partial_function (option) puts ::
  "(u8 \<Rightarrow> 'a screen_scheme \<Rightarrow> 'a screen_scheme) \<Rightarrow> u32 \<Rightarrow> 'a screen_scheme \<Rightarrow> 'a screen_scheme option" where
  "puts putc str s = (if mem s str = 0 then Some s else puts putc (str + 1) (putc (mem s str) s))"

text \<open>\<open>print_buffer\<close> reads every byte twice, once for each of its digits.\<close>

definition put_byte ::
  "(u8 \<Rightarrow> 'a screen_scheme \<Rightarrow> 'a screen_scheme) \<Rightarrow> u32 \<Rightarrow> 'a screen_scheme \<Rightarrow> 'a screen_scheme" where
  "put_byte putc a s =
     (let s1 = putc (g_HexChars ! unat (drop_bit 4 (mem s a))) s
      in putc (g_HexChars ! unat (mem s1 a AND 0xF)) s1)"

definition print_buffer ::
  "(u8 \<Rightarrow> 'a screen_scheme \<Rightarrow> 'a screen_scheme) \<Rightarrow> u32 \<Rightarrow> u32 \<Rightarrow> u16 \<Rightarrow> 'a screen_scheme \<Rightarrow> 'a screen_scheme option" where
  "print_buffer putc msg buffer count s =
     (case puts putc msg s of None \<Rightarrow> None
      | Some s1 \<Rightarrow> Some (putc 0x0A (fold (\<lambda>i. put_byte putc (buffer + of_nat i)) [0..<unat count] s1)))"

section \<open>The state machine of printf\<close>

datatype printf_state = STATE_NORMAL | STATE_LENGTH | STATE_LENGTH_SHORT | STATE_LENGTH_LONG | STATE_SPEC
datatype printf_length = LENGTH_DEFAULT | LENGTH_SHORT_SHORT | LENGTH_SHORT | LENGTH_LONG | LENGTH_LONG_LONG

record printf_vars =
  pf_state :: printf_state
  pf_length :: printf_length
  pf_number :: bool
  pf_sign :: bool
  pf_radix :: u64
  pf_arg :: nat \<comment> \<open>\<open>va_list\<close>\<close>

definition pf_init :: printf_vars where
  "pf_init = \<lparr>pf_state = STATE_NORMAL, pf_length = LENGTH_DEFAULT, pf_number = False, pf_sign = False,
     pf_radix = 10, pf_arg = 0\<rparr>"

text \<open>The assignments at the end of a directive.\<close>

definition pf_reset :: "printf_vars \<Rightarrow> printf_vars" where
  "pf_reset p = p\<lparr>pf_state := STATE_NORMAL, pf_length := LENGTH_DEFAULT, pf_radix := 10, pf_sign := False, pf_number := False\<rparr>"

text \<open>The first switch on the directive.\<close>

definition spec_char ::
  "(u8 \<Rightarrow> 'a screen_scheme \<Rightarrow> 'a screen_scheme) \<Rightarrow> (nat \<Rightarrow> u32) \<Rightarrow> u8 \<Rightarrow> printf_vars \<Rightarrow> 'a screen_scheme \<Rightarrow>
   (printf_vars \<times> 'a screen_scheme) option" where
  "spec_char putc va c p s =
     (if c = 0x63 then Some (p\<lparr>pf_arg := pf_arg p + 1\<rparr>, putc (ucast (va (pf_arg p))) s)
      else if c = 0x73 then
        (case puts putc (va (pf_arg p)) s of None \<Rightarrow> None | Some s' \<Rightarrow> Some (p\<lparr>pf_arg := pf_arg p + 1\<rparr>, s'))
      else if c = 0x25 then Some (p, putc 0x25 s)
      else if c = 0x64 \<or> c = 0x69 then Some (p\<lparr>pf_number := True, pf_radix := 10, pf_sign := True\<rparr>, s)
      else if c = 0x75 then Some (p\<lparr>pf_number := True, pf_radix := 10, pf_sign := False\<rparr>, s)
      else if c = 0x58 \<or> c = 0x78 \<or> c = 0x70 then Some (p\<lparr>pf_number := True, pf_radix := 16, pf_sign := False\<rparr>, s)
      else if c = 0x6F then Some (p\<lparr>pf_number := True, pf_radix := 8, pf_sign := False\<rparr>, s)
      else Some (p, s))"

text \<open>\<open>va_arg\<close>: an \<open>int\<close> or a \<open>long\<close> is one word, a \<open>long long\<close> two.\<close>

definition arg_words :: "printf_length \<Rightarrow> nat" where
  "arg_words l = (if l = LENGTH_LONG_LONG then 2 else 1)"

definition va_number :: "(nat \<Rightarrow> u32) \<Rightarrow> nat \<Rightarrow> printf_length \<Rightarrow> bool \<Rightarrow> u64" where
  "va_number va i l sg =
     (if l = LENGTH_LONG_LONG then ucast (va i) OR push_bit 32 (ucast (va (i + 1)))
      else if sg then scast (va i) else ucast (va i))"

definition print_number ::
  "(u8 \<Rightarrow> 'a screen_scheme \<Rightarrow> 'a screen_scheme) \<Rightarrow> (nat \<Rightarrow> u32) \<Rightarrow> printf_vars \<Rightarrow> 'a screen_scheme \<Rightarrow>
   (printf_vars \<times> 'a screen_scheme) option" where
  "print_number putc va p s =
     (let v = va_number va (pf_arg p) (pf_length p) (pf_sign p)
      in case (if pf_sign p then printf_signed putc v (pf_radix p) s else printf_unsigned putc v (pf_radix p) s) of
           None \<Rightarrow> None
         | Some s' \<Rightarrow> Some (p\<lparr>pf_arg := pf_arg p + arg_words (pf_length p)\<rparr>, s'))"

definition printf_spec ::
  "(printf_vars \<Rightarrow> printf_vars) \<Rightarrow> (u8 \<Rightarrow> 'a screen_scheme \<Rightarrow> 'a screen_scheme) \<Rightarrow> (nat \<Rightarrow> u32) \<Rightarrow> u8 \<Rightarrow>
   printf_vars \<Rightarrow> 'a screen_scheme \<Rightarrow> (printf_vars \<times> 'a screen_scheme) option" where
  "printf_spec reset putc va c p s =
     (case spec_char putc va c p s of None \<Rightarrow> None
      | Some (p1, s1) \<Rightarrow>
          (case (if pf_number p1 then print_number putc va p1 s1 else Some (p1, s1)) of None \<Rightarrow> None
           | Some (p2, s2) \<Rightarrow> Some (reset p2, s2)))"

definition printf_char ::
  "(printf_vars \<Rightarrow> printf_vars) \<Rightarrow> (u8 \<Rightarrow> 'a screen_scheme \<Rightarrow> 'a screen_scheme) \<Rightarrow> (nat \<Rightarrow> u32) \<Rightarrow> u8 \<Rightarrow>
   printf_vars \<Rightarrow> 'a screen_scheme \<Rightarrow> (printf_vars \<times> 'a screen_scheme) option" where
  "printf_char reset putc va c p s =
     (case pf_state p of
        STATE_NORMAL \<Rightarrow> if c = 0x25 then Some (p\<lparr>pf_state := STATE_LENGTH\<rparr>, s) else Some (p, putc c s)
      | STATE_LENGTH \<Rightarrow> if c = 0x68 then Some (p\<lparr>pf_length := LENGTH_SHORT, pf_state := STATE_LENGTH_SHORT\<rparr>, s)
                  else if c = 0x6C then Some (p\<lparr>pf_length := LENGTH_LONG, pf_state := STATE_LENGTH_LONG\<rparr>, s)
                  else printf_spec reset putc va c p s
      | STATE_LENGTH_SHORT \<Rightarrow> if c = 0x68 then Some (p\<lparr>pf_length := LENGTH_SHORT_SHORT, pf_state := STATE_SPEC\<rparr>, s)
                        else printf_spec reset putc va c p s
      | STATE_LENGTH_LONG \<Rightarrow> if c = 0x6C then Some (p\<lparr>pf_length := LENGTH_LONG_LONG, pf_state := STATE_SPEC\<rparr>, s)
                       else printf_spec reset putc va c p s
      | STATE_SPEC \<Rightarrow> printf_spec reset putc va c p s)"

fun printf_loop ::
  "(printf_vars \<Rightarrow> printf_vars) \<Rightarrow> (u8 \<Rightarrow> 'a screen_scheme \<Rightarrow> 'a screen_scheme) \<Rightarrow> (nat \<Rightarrow> u32) \<Rightarrow> u8 list \<Rightarrow>
   printf_vars \<Rightarrow> 'a screen_scheme \<Rightarrow> (printf_vars \<times> 'a screen_scheme) option" where
  "printf_loop reset putc va [] p s = Some (p, s)"
| "printf_loop reset putc va (c # fmt) p s =
     (case printf_char reset putc va c p s of None \<Rightarrow> None
      | Some (p', s') \<Rightarrow> printf_loop reset putc va fmt p' s')"

definition printf ::
  "(u8 \<Rightarrow> 'a screen_scheme \<Rightarrow> 'a screen_scheme) \<Rightarrow> u8 list \<Rightarrow> (nat \<Rightarrow> u32) \<Rightarrow> 'a screen_scheme \<Rightarrow> 'a screen_scheme option" where
  "printf putc fmt va s = map_option snd (printf_loop pf_reset putc va fmt pf_init s)"

section \<open>The text of a number\<close>

definition hex_char :: "nat \<Rightarrow> u8" where "hex_char d = g_HexChars ! d"

fun numeral_text :: "nat \<Rightarrow> nat \<Rightarrow> u8 list" where
  "numeral_text r n = (if n < r \<or> r < 2 then [hex_char n] else numeral_text r (n div r) @ [hex_char (n mod r)])"

declare numeral_text.simps [simp del]

lemma to_digits_text:
  "1 < unat radix \<Longrightarrow> to_digits number radix buffer = Some (buffer @ rev (numeral_text (unat radix) (unat number)))"
proof (induction "unat number" arbitrary: number buffer rule: less_induct)
  case less
  have r: "radix \<noteq> 0" using less.prems by auto
  have d: "unat (number div radix) = unat number div unat radix" by (simp add: unat_div)
  have m: "unat (number mod radix) = unat number mod unat radix" by (simp add: unat_mod)
  show ?case
  proof (cases "unat number < unat radix")
    case True
    then have "number div radix = 0" "unat (number mod radix) = unat number"
      using d m by (simp_all add: unat_eq_0 [symmetric])
    then show ?thesis
      using r True by (subst to_digits.simps, subst numeral_text.simps) (simp add: hex_char_def)
  next
    case False
    then have pos: "0 < unat number div unat radix" using less.prems by (simp add: div_greater_zero_iff)
    then have g: "number div radix > 0" using d by (simp add: word_less_nat_alt)
    have lt: "unat (number div radix) < unat number"
      using pos less.prems d by (metis div_eq_0_iff div_less_dividend gr_implies_not0 neq0_conv)
    have "to_digits number radix buffer =
        to_digits (number div radix) radix (buffer @ [g_HexChars ! unat (number mod radix)])"
      using r g by (subst to_digits.simps) (simp add: Let_def)
    also have "\<dots> = Some ((buffer @ [hex_char (unat number mod unat radix)]) @
        rev (numeral_text (unat radix) (unat number div unat radix)))"
      using less.hyps [OF lt less.prems] by (simp add: d m hex_char_def)
    also have "\<dots> = Some (buffer @ rev (numeral_text (unat radix) (unat number)))"
      using False less.prems by (subst (2) numeral_text.simps) simp
    finally show ?thesis .
  qed
qed

lemma numeral_text_length:
  "1 < r \<Longrightarrow> n < r ^ k \<Longrightarrow> 0 < k \<Longrightarrow> 0 < length (numeral_text r n) \<and> length (numeral_text r n) \<le> k"
proof (induction r n arbitrary: k rule: numeral_text.induct)
  case (1 r n)
  show ?case
  proof (cases "n < r")
    case True
    then show ?thesis using "1.prems" by (subst (1 2) numeral_text.simps) simp
  next
    case False
    then obtain j where j: "k = Suc j" "0 < j" using "1.prems" by (cases k; cases "k - 1") auto
    have "n div r < r ^ j" using "1.prems" j by (simp add: div_less_iff_less_mult mult.commute)
    with "1.IH" [OF _ "1.prems"(1) this j(2)] False "1.prems"(1) j show ?thesis
      by (subst (1 2) numeral_text.simps) simp
  qed
qed

text \<open>The value of a text of digits.\<close>

definition digit_value :: "u8 \<Rightarrow> nat" where
  "digit_value c = (if c < 0x3A then unat c - 0x30 else unat c - 0x57)"

definition text_value :: "nat \<Rightarrow> u8 list \<Rightarrow> nat" where
  "text_value r cs = foldl (\<lambda>v c. v * r + digit_value c) 0 cs"

lemma digit_value_hex: "d < 16 \<Longrightarrow> digit_value (hex_char d) = d"
proof -
  assume "d < 16"
  then have "d \<in> set [0..<16]" by simp
  moreover have "\<forall>d\<in>set [0..<16]. digit_value (hex_char d) = d" by code_simp
  ultimately show ?thesis by blast
qed

lemma text_value_numeral: "1 < r \<Longrightarrow> r \<le> 16 \<Longrightarrow> text_value r (numeral_text r n) = n"
proof (induction r n rule: numeral_text.induct)
  case (1 r n)
  have app: "text_value r (cs @ [c]) = text_value r cs * r + digit_value c" for cs c
    by (simp add: text_value_def)
  show ?case
  proof (cases "n < r")
    case True
    then show ?thesis using "1.prems"
      by (subst numeral_text.simps) (simp add: text_value_def digit_value_hex)
  next
    case False
    then have "text_value r (numeral_text r (n div r)) = n div r" using "1" by simp
    moreover have "n mod r < 16" using "1.prems" mod_less_divisor [of r n] by linarith
    ultimately show ?thesis using False "1.prems"
      by (subst numeral_text.simps) (simp add: app digit_value_hex)
  qed
qed

lemma printf_unsigned_text:
  "1 < unat radix \<Longrightarrow> printf_unsigned putc number radix s = Some (fold putc (numeral_text (unat radix) (unat number)) s)"
  by (simp add: printf_unsigned_def to_digits_text)

section \<open>Strings in memory\<close>

text \<open>The characters \<open>cs\<close> and a NUL lie at \<open>a\<close>, off the addresses \<open>T\<close>.\<close>

fun cstring :: "(u32 \<Rightarrow> bool) \<Rightarrow> ram \<Rightarrow> u32 \<Rightarrow> u8 list \<Rightarrow> bool" where
  "cstring T m a [] \<longleftrightarrow> \<not> T a \<and> m a = 0"
| "cstring T m a (c # cs) \<longleftrightarrow> \<not> T a \<and> c \<noteq> 0 \<and> m a = c \<and> cstring T m (a + 1) cs"

lemma cstring_cong: "(\<And>a. \<not> T a \<Longrightarrow> m' a = m a) \<Longrightarrow> cstring T m a cs \<Longrightarrow> cstring T m' a cs"
  by (induction cs arbitrary: a) simp_all

lemma str_to_int_loop_text:
  "cstring T m a cs \<Longrightarrow> str_to_int_loop m a v = Some (foldl (\<lambda>v c. v * 10 + (scast c - 0x30)) v cs)"
proof (induction cs arbitrary: a v)
  case Nil
  then show ?case by (subst str_to_int_loop.simps) simp
next
  case (Cons c cs)
  then show ?case by (subst str_to_int_loop.simps) simp
qed

lemma decimal_digit: "d < 10 \<Longrightarrow> scast (hex_char d) - 0x30 = (of_nat d :: u32)"
proof -
  assume "d < 10"
  then have "d \<in> set [0..<10]" by simp
  moreover have "\<forall>d\<in>set [0..<10]. scast (hex_char d) - 0x30 = (of_nat d :: u32)" by code_simp
  ultimately show ?thesis by blast
qed

lemma decimal_parse:
  "foldl (\<lambda>v c. v * 10 + (scast c - 0x30)) 0 (numeral_text 10 n) = (of_nat n :: u32)"
proof (induction "10 :: nat" n rule: numeral_text.induct)
  case (1 n)
  show ?case
  proof (cases "n < 10")
    case True
    then show ?thesis by (subst numeral_text.simps) (simp add: decimal_digit)
  next
    case False
    have "of_nat (n div 10) * 10 + of_nat (n mod 10) = (of_nat n :: u32)"
      by (metis div_mult_mod_eq of_nat_add of_nat_mult of_nat_numeral)
    with 1 False show ?thesis by (subst numeral_text.simps) (simp add: decimal_digit)
  qed
qed

section \<open>What the directives of a format print\<close>

datatype directive = Literal_char u8 | Character | String_arg | Percent
  | Signed_number printf_length | Unsigned_number printf_length nat | Ignored

definition directive_of :: "printf_length \<Rightarrow> u8 \<Rightarrow> directive" where
  "directive_of l c =
     (if c = 0x63 then Character else if c = 0x73 then String_arg else if c = 0x25 then Percent
      else if c = 0x64 \<or> c = 0x69 then Signed_number l else if c = 0x75 then Unsigned_number l 10
      else if c = 0x58 \<or> c = 0x78 \<or> c = 0x70 then Unsigned_number l 16
      else if c = 0x6F then Unsigned_number l 8 else Ignored)"

text \<open>An unfinished directive at the end of the format prints nothing.\<close>

fun parse :: "u8 list \<Rightarrow> directive list" where
  "parse [] = []"
| "parse (c # cs) =
     (if c \<noteq> 0x25 then Literal_char c # parse cs
      else case cs of [] \<Rightarrow> []
        | x # r \<Rightarrow>
            if x = 0x68 then
              (case r of [] \<Rightarrow> []
               | y # q \<Rightarrow>
                   if y = 0x68 then (case q of [] \<Rightarrow> [] | z # t \<Rightarrow> directive_of LENGTH_SHORT_SHORT z # parse t)
                   else directive_of LENGTH_SHORT y # parse q)
            else if x = 0x6C then
              (case r of [] \<Rightarrow> []
               | y # q \<Rightarrow>
                   if y = 0x6C then (case q of [] \<Rightarrow> [] | z # t \<Rightarrow> directive_of LENGTH_LONG_LONG z # parse t)
                   else directive_of LENGTH_LONG y # parse q)
            else directive_of LENGTH_DEFAULT x # parse r)"

definition signed_text :: "u64 \<Rightarrow> u8 list" where
  "signed_text v = (if sint v < 0 then 0x2D # numeral_text 10 (unat (- v)) else numeral_text 10 (unat v))"

fun directive_text :: "(nat \<Rightarrow> u32) \<Rightarrow> (nat \<Rightarrow> u8 list) \<Rightarrow> nat \<Rightarrow> directive \<Rightarrow> u8 list" where
  "directive_text va strs i (Literal_char c) = [c]"
| "directive_text va strs i Character = [ucast (va i)]"
| "directive_text va strs i String_arg = strs i"
| "directive_text va strs i Percent = [0x25]"
| "directive_text va strs i (Signed_number l) = signed_text (va_number va i l True)"
| "directive_text va strs i (Unsigned_number l r) = numeral_text r (unat (va_number va i l False))"
| "directive_text va strs i Ignored = []"

fun directive_words :: "directive \<Rightarrow> nat" where
  "directive_words Character = 1"
| "directive_words String_arg = 1"
| "directive_words (Signed_number l) = arg_words l"
| "directive_words (Unsigned_number l r) = arg_words l"
| "directive_words _ = 0"

fun render :: "(nat \<Rightarrow> u32) \<Rightarrow> (nat \<Rightarrow> u8 list) \<Rightarrow> nat \<Rightarrow> directive list \<Rightarrow> u8 list" where
  "render va strs i [] = []"
| "render va strs i (d # ds) = directive_text va strs i d @ render va strs (i + directive_words d) ds"

text \<open>The arguments of \<open>%s\<close> directives.\<close>

fun string_args :: "nat \<Rightarrow> directive list \<Rightarrow> nat set" where
  "string_args i [] = {}"
| "string_args i (d # ds) = (if d = String_arg then {i} else {}) \<union> string_args (i + directive_words d) ds"

text \<open>The same directives read off the state machine: what it does with a character in each state, and the
  directives of a format from the middle of one on.\<close>

datatype lexer_action = Shift printf_state printf_length | Put_char | End_directive

fun lexer :: "printf_state \<Rightarrow> printf_length \<Rightarrow> u8 \<Rightarrow> lexer_action" where
  "lexer STATE_NORMAL l c = (if c = 0x25 then Shift STATE_LENGTH l else Put_char)"
| "lexer STATE_LENGTH l c =
     (if c = 0x68 then Shift STATE_LENGTH_SHORT LENGTH_SHORT
      else if c = 0x6C then Shift STATE_LENGTH_LONG LENGTH_LONG else End_directive)"
| "lexer STATE_LENGTH_SHORT l c = (if c = 0x68 then Shift STATE_SPEC LENGTH_SHORT_SHORT else End_directive)"
| "lexer STATE_LENGTH_LONG l c = (if c = 0x6C then Shift STATE_SPEC LENGTH_LONG_LONG else End_directive)"
| "lexer STATE_SPEC l c = End_directive"

fun parse_from :: "printf_state \<Rightarrow> printf_length \<Rightarrow> u8 list \<Rightarrow> directive list" where
  "parse_from st l [] = []"
| "parse_from st l (c # cs) =
     (case lexer st l c of Shift st' l' \<Rightarrow> parse_from st' l' cs
      | Put_char \<Rightarrow> Literal_char c # parse_from st l cs
      | End_directive \<Rightarrow> directive_of l c # parse_from STATE_NORMAL LENGTH_DEFAULT cs)"

lemma parse_from_parse: "parse_from STATE_NORMAL LENGTH_DEFAULT fmt = parse fmt"
  by (induction fmt rule: parse.induct) (auto split: list.splits)

text \<open>The variables of \<open>printf\<close> within a format.\<close>

abbreviation pf_at :: "printf_state \<Rightarrow> printf_length \<Rightarrow> nat \<Rightarrow> printf_vars" where
  "pf_at st l i \<equiv> pf_init\<lparr>pf_state := st, pf_length := l, pf_arg := i\<rparr>"

lemma pf_at_normal: "pf_init\<lparr>pf_arg := i\<rparr> = pf_at STATE_NORMAL LENGTH_DEFAULT i" "pf_init = pf_at STATE_NORMAL LENGTH_DEFAULT 0"
  by (simp_all add: pf_init_def)

lemma printf_char_lexer:
  "printf_char reset putc va c (pf_at st l i) s =
     (case lexer st l c of Shift st' l' \<Rightarrow> Some (pf_at st' l' i, s) | Put_char \<Rightarrow> Some (pf_at st l i, putc c s)
      | End_directive \<Rightarrow> printf_spec reset putc va c (pf_at st l i) s)"
  by (cases st) (simp_all add: printf_char_def)

section \<open>Character sinks\<close>

text \<open>
  What the output functions need of a \<open>putc\<close>: on the states it is used on, it stays usable and
  writes only to the addresses \<open>touched\<close>.
\<close>

locale char_sink =
  fixes putc :: "u8 \<Rightarrow> 'a screen_scheme \<Rightarrow> 'a screen_scheme"
    and ready :: "'a screen_scheme \<Rightarrow> bool"
    and touched :: "u32 \<Rightarrow> bool"
  assumes putc_ready: "ready s \<Longrightarrow> ready (putc c s)"
    and putc_frame: "ready s \<Longrightarrow> \<not> touched a \<Longrightarrow> mem (putc c s) a = mem s a"
begin

lemma text_ready: "ready s \<Longrightarrow> ready (fold putc cs s)"
  by (induction cs arbitrary: s) (simp_all add: putc_ready)

lemma text_frame: "ready s \<Longrightarrow> \<not> touched a \<Longrightarrow> mem (fold putc cs s) a = mem s a"
  by (induction cs arbitrary: s) (simp_all add: putc_ready putc_frame)

lemma puts_text: "ready s \<Longrightarrow> cstring touched (mem s) a cs \<Longrightarrow> puts putc a s = Some (fold putc cs s)"
proof (induction cs arbitrary: a s)
  case Nil
  then show ?case by (subst puts.simps) simp
next
  case (Cons c cs)
  have "cstring touched (mem (putc c s)) (a + 1) cs"
    by (rule cstring_cong [of _ _ "mem s"]) (use Cons.prems putc_frame in auto)
  with Cons show ?case by (subst puts.simps) (simp add: putc_ready)
qed

lemma printf_signed_text:
  "printf_signed putc v 10 s = Some (fold putc (signed_text v) s)"
  by (simp add: printf_signed_def signed_text_def printf_unsigned_text)

lemma printf_spec_text:
  assumes "ready s" and "directive_of l c = String_arg \<longrightarrow> cstring touched (mem s) (va i) (strs i)"
  shows "printf_spec pf_reset putc va c (pf_init\<lparr>pf_state := st, pf_length := l, pf_arg := i\<rparr>) s =
    Some (pf_init\<lparr>pf_arg := i + directive_words (directive_of l c)\<rparr>,
          fold putc (directive_text va strs i (directive_of l c)) s)"
proof -
  have str: "puts putc (va i) s = Some (fold putc (strs i) s)" if "c = 0x73"
    using assms that by (intro puts_text) (simp_all add: directive_of_def)
  show ?thesis
    by (auto simp: printf_spec_def spec_char_def print_number_def directive_of_def pf_reset_def pf_init_def
        Let_def str printf_signed_text printf_unsigned_text)
qed

lemma strings_after:
  assumes "ready s" "\<forall>j\<in>J. cstring touched (mem s) (va j) (strs j)"
  shows "\<forall>j\<in>J. cstring touched (mem (fold putc cs s)) (va j) (strs j)"
proof
  fix j assume "j \<in> J"
  show "cstring touched (mem (fold putc cs s)) (va j) (strs j)"
    by (rule cstring_cong [of _ _ "mem s"]) (use \<open>j \<in> J\<close> assms text_frame in auto)
qed

lemma printf_loop_text:
  "ready s \<Longrightarrow> \<forall>j\<in>string_args i (parse_from st l fmt). cstring touched (mem s) (va j) (strs j) \<Longrightarrow>
   \<exists>p. printf_loop pf_reset putc va fmt (pf_at st l i) s = Some (p, fold putc (render va strs i (parse_from st l fmt)) s)"
proof (induction fmt arbitrary: i st l s)
  case (Cons c fmt)
  note args = Cons.prems(2) and after = strings_after [where va = va and strs = strs, OF Cons.prems(1)]
  show ?case
  proof (cases "lexer st l c")
    case (Shift st' l')
    then show ?thesis using Cons.IH [OF Cons.prems(1), of i st' l'] args by (simp add: printf_char_lexer)
  next
    case Put_char
    then have "\<forall>j\<in>string_args i (parse_from st l fmt). cstring touched (mem (putc c s)) (va j) (strs j)"
      using after [of _ "[c]"] args by simp
    from Cons.IH [OF putc_ready [OF Cons.prems(1)] this] show ?thesis by (simp add: printf_char_lexer Put_char)
  next
    case End_directive
    let ?d = "directive_of l c"
    have str: "?d = String_arg \<longrightarrow> cstring touched (mem s) (va i) (strs i)"
      and rest: "\<forall>j\<in>string_args (i + directive_words ?d) (parse_from STATE_NORMAL LENGTH_DEFAULT fmt).
        cstring touched (mem s) (va j) (strs j)"
      using args by (simp_all add: End_directive)
    show ?thesis
      using Cons.IH [OF text_ready [OF Cons.prems(1)] after [OF rest], of "directive_text va strs i ?d"]
        printf_spec_text [where va = va and strs = strs, OF Cons.prems(1) str]
      by (simp add: printf_char_lexer End_directive pf_at_normal(1))
  qed
qed simp

theorem printf_text:
  assumes "ready s" and "\<forall>j\<in>string_args 0 (parse fmt). cstring touched (mem s) (va j) (strs j)"
  shows "printf putc fmt va s = Some (fold putc (render va strs 0 (parse fmt)) s)"
  using printf_loop_text [of s 0 STATE_NORMAL LENGTH_DEFAULT fmt va strs] assms
  by (auto simp: printf_def parse_from_parse pf_at_normal(2) [symmetric])

end

text \<open>The kernel's \<open>putc\<close> is \<open>write\<close>: an \<open>int 0x80\<close> whose handler is \<open>put_c\<close>.\<close>

interpretation kernel_sink: char_sink put_c on_screen in_text
proof
  show "on_screen (put_c c s)" if "on_screen s" for c and s :: "'a screen_scheme"
    using put_c_keeps [OF that] by blast
  show "mem (put_c c s) a = mem s a" if "on_screen s" "\<not> in_text a" for c a and s :: "'a screen_scheme"
    using put_c_keeps [OF that(1), of c] that(2) by (auto simp: screen_only_def)
qed

section \<open>Properties\<close>

text \<open>C19 \<open>printf\<close> on the kernel's screen prints the text that the directives of its format
  describe, in their order: characters, strings, and the arguments, as numbers of the width and the
  radix of the directive. It returns, and it reads as many words of the stack as they say.\<close>

theorem printf_correct:
  assumes "on_screen s" and "\<forall>j\<in>string_args 0 (parse fmt). cstring in_text (mem s) (va j) (strs j)"
  shows "printf put_c fmt va s = Some (fold put_c (render va strs 0 (parse fmt)) s)"
  using assms by (rule kernel_sink.printf_text)

text \<open>C20 A number printed in base 8, 10 or 16 fits the buffer of 32 characters and is read back as the
  same number; \<open>str_to_int\<close> reads a decimal text back modulo \<open>2^32\<close>.\<close>

theorem printf_unsigned_roundtrip:
  fixes number :: u64
  assumes "radix \<in> {8, 10, 16}" and "cs = numeral_text (unat radix) (unat number)"
  shows "printf_unsigned putc number radix s = Some (fold putc cs s) \<and> 0 < length cs \<and> length cs \<le> 22 \<and>
    text_value (unat radix) cs = unat number \<and>
    (radix = 10 \<longrightarrow> cstring (\<lambda>_. False) m a cs \<longrightarrow> str_to_int m a = Some (ucast number))"
proof (intro conjI impI)
  have r: "1 < unat radix" "unat radix \<le> 16" "8 \<le> unat radix" using assms(1) by auto
  show "printf_unsigned putc number radix s = Some (fold putc cs s)"
    unfolding assms(2) by (rule printf_unsigned_text [OF r(1)])
  have "unat number < 2 ^ 64" using unsigned_less [of number] by simp
  also have "(2 :: nat) ^ 64 \<le> 8 ^ 22" by simp
  also have "(8 :: nat) ^ 22 \<le> unat radix ^ 22" using r(3) by (rule power_mono) simp
  finally show "0 < length cs" "length cs \<le> 22" using numeral_text_length [OF r(1)] assms(2) by simp_all
  show "text_value (unat radix) cs = unat number" unfolding assms(2) by (rule text_value_numeral [OF r(1,2)])
  show "str_to_int m a = Some (ucast number)" if "radix = 10" "cstring (\<lambda>_. False) m a cs"
    using str_to_int_loop_text [OF that(2), of 0] that(1) decimal_parse [of "unat number"] assms(2)
    by (simp add: str_to_int_def of_nat_unat)
qed

section \<open>Concrete runs\<close>

text \<open>\<open>printf("x=%d%%", 42)\<close>\<close>

lemma printf_correct_witness:
  "printf put_c [0x78, 0x3D, 0x25, 0x64, 0x25, 0x25] (\<lambda>_. 42) (blank_screen 0 0) =
     Some (fold put_c [0x78, 0x3D, 0x34, 0x32, 0x25] (blank_screen 0 0))"
proof -
  have "on_screen (blank_screen 0 0)" by (simp add: on_screen_def)
  moreover have "string_args 0 (parse [0x78, 0x3D, 0x25, 0x64, 0x25, 0x25]) = {}"
    by (simp add: directive_of_def)
  moreover have "render (\<lambda>_. 42) (\<lambda>_. []) 0 (parse [0x78, 0x3D, 0x25, 0x64, 0x25, 0x25]) =
      [0x78, 0x3D, 0x34, 0x32, 0x25]" by code_simp
  ultimately show ?thesis
    using printf_correct [of "blank_screen 0 0" "[0x78, 0x3D, 0x25, 0x64, 0x25, 0x25]" "\<lambda>_. 42" "\<lambda>_. []"] by simp
qed

lemma printf_unsigned_roundtrip_witness:
  "printf_unsigned put_c 42 10 (blank_screen 0 0) = Some (fold put_c [0x34, 0x32] (blank_screen 0 0)) \<and>
   str_to_int ((\<lambda>_. 0)(0 := 0x34, 1 := 0x32)) 0 = Some 42"
proof -
  have c: "[0x34, 0x32] = numeral_text (unat (10 :: u64)) (unat (42 :: u64))" by code_simp
  have "cstring (\<lambda>_. False) ((\<lambda>_. 0)(0 := 0x34, 1 := 0x32)) 0 [0x34, 0x32]" by simp
  then show ?thesis
    using printf_unsigned_roundtrip [OF _ c, of put_c "blank_screen 0 0" "(\<lambda>_. 0)(0 := 0x34, 1 := 0x32)" 0] by simp
qed

end
