(* ===== verification/Boot_Stdio.thy ===== *)
theory Boot_Stdio
  imports Stdio
begin

text \<open>
  The bootloader's screen and \<open>printf\<close>, \<open>src/bootloader/stage2/stdio.c\<close>. The file is an
  older copy of the kernel's: the cell accesses and the numbers are the same functions, which are not
  repeated here; scrolling takes a number of lines, the wrapping of the cursor is written differently,
  \<open>printf\<close> does not reset \<open>number\<close>, and \<open>print_buffer\<close> counts to a 32-bit bound with a
  16-bit counter. The lemmas show that the two screens behave alike and what the differences do.
\<close>

section \<open>The screen\<close>

definition boot_setcursor :: "int \<Rightarrow> int \<Rightarrow> 'a screen_scheme \<Rightarrow> 'a screen_scheme" where
  "boot_setcursor x y s =
     (let pos = word_of_int y * SCREEN_WIDTH + word_of_int x :: u32
      in outb 0x3D5 (ucast (drop_bit 8 pos AND 0xFF)) (outb 0x3D4 0x0E
           (outb 0x3D5 (ucast (pos AND 0xFF)) (outb 0x3D4 0x0F s))))"

definition boot_clrscr :: "'a screen_scheme \<Rightarrow> 'a screen_scheme" where
  "boot_clrscr s =
     (let s1 = fold (\<lambda>y. fold (\<lambda>x s. putcolor (int x) (int y) DEFAULT_COLOR (putchr (int x) (int y) 0 s))
                 [0..<unat SCREEN_WIDTH]) [0..<unat SCREEN_HEIGHT] s
      in boot_setcursor 0 0 (s1\<lparr>g_ScreenX := 0, g_ScreenY := 0\<rparr>))"

definition boot_scrollback :: "nat \<Rightarrow> 'a screen_scheme \<Rightarrow> 'a screen_scheme" where
  "boot_scrollback lns s =
     (let s1 = fold (\<lambda>y. fold (\<lambda>x s.
                   let s' = putchr (int x) (int y - int lns) (getchr (int x) (int y) s) s
                   in putcolor (int x) (int y - int lns) (getcolor (int x) (int y) s') s')
                 [0..<unat SCREEN_WIDTH]) [lns..<unat SCREEN_HEIGHT] s;
          s2 = fold (\<lambda>y. fold (\<lambda>x s. putcolor (int x) (int y) DEFAULT_COLOR (putchr (int x) (int y) 0 s))
                 [0..<unat SCREEN_WIDTH]) [unat SCREEN_HEIGHT - lns..<unat SCREEN_HEIGHT] s1
      in s2\<lparr>g_ScreenY := g_ScreenY s2 - int lns\<rparr>)"

definition boot_wrap :: "'a screen_scheme \<Rightarrow> 'a screen_scheme" where
  "boot_wrap s =
     (let s1 = (if word_of_int (g_ScreenX s) \<ge> SCREEN_WIDTH
                then s\<lparr>g_ScreenY := g_ScreenY s + 1, g_ScreenX := 0\<rparr> else s);
          s2 = (if word_of_int (g_ScreenY s1) \<ge> SCREEN_HEIGHT then boot_scrollback 1 s1 else s1)
      in boot_setcursor (g_ScreenX s2) (g_ScreenY s2) s2)"

definition boot_put_plain :: "u8 \<Rightarrow> 'a screen_scheme \<Rightarrow> 'a screen_scheme" where
  "boot_put_plain c s =
     boot_wrap ((putchr (g_ScreenX s) (g_ScreenY s) c s)\<lparr>g_ScreenX := g_ScreenX s + 1\<rparr>)"

function boot_tab_loop :: "int \<Rightarrow> 'a screen_scheme \<Rightarrow> 'a screen_scheme" where
  "boot_tab_loop i s =
     (if i < 4 - crem (g_ScreenX s) 4 then boot_tab_loop (i + 1) (boot_put_plain 0x20 s) else s)"
  by pat_completeness auto
termination
proof (relation "measure (\<lambda>(i, s). nat (8 - i))", simp, simp)
  fix i and s :: "'a screen_scheme" assume "i < 4 - crem (g_ScreenX s) 4"
  then show "i < 8" using crem_4(1) [of "g_ScreenX s"] by linarith
qed

declare boot_tab_loop.simps [simp del]

definition boot_putc :: "u8 \<Rightarrow> 'a screen_scheme \<Rightarrow> 'a screen_scheme" where
  "boot_putc c s =
     (if c = 0x0A then boot_wrap (s\<lparr>g_ScreenX := 0, g_ScreenY := g_ScreenY s + 1\<rparr>)
      else if c = 0x09 then boot_wrap (boot_tab_loop 0 s)
      else if c = 0x0D then boot_wrap (s\<lparr>g_ScreenX := 0\<rparr>)
      else boot_put_plain c s)"

section \<open>Formatted output\<close>

text \<open>All the variables but \<open>number\<close> are reset.\<close>

definition boot_reset :: "printf_vars \<Rightarrow> printf_vars" where
  "boot_reset p = p\<lparr>pf_state := STATE_NORMAL, pf_length := LENGTH_DEFAULT, pf_radix := 10, pf_sign := False\<rparr>"

definition boot_printf :: "u8 list \<Rightarrow> (nat \<Rightarrow> u32) \<Rightarrow> 'a screen_scheme \<Rightarrow> 'a screen_scheme option" where
  "boot_printf fmt va s = map_option snd (printf_loop boot_reset boot_putc va fmt pf_init s)"

text \<open>The 16-bit counter against the 32-bit \<open>count\<close>.\<close>

partial_function (option) boot_print_loop ::
  "u32 \<Rightarrow> u32 \<Rightarrow> u16 \<Rightarrow> 'a screen_scheme \<Rightarrow> 'a screen_scheme option" where
  "boot_print_loop buffer count i s =
     (if ucast i < count
      then boot_print_loop buffer count (i + 1) (put_byte boot_putc (buffer + ucast i) s)
      else Some s)"

definition boot_print_buffer :: "u32 \<Rightarrow> u32 \<Rightarrow> u32 \<Rightarrow> 'a screen_scheme \<Rightarrow> 'a screen_scheme option" where
  "boot_print_buffer msg buffer count s =
     (case puts boot_putc msg s of None \<Rightarrow> None
      | Some s1 \<Rightarrow> (case boot_print_loop buffer count 0 s1 of None \<Rightarrow> None
         | Some s2 \<Rightarrow> Some (boot_putc 0x0A s2)))"

section \<open>The two screens agree\<close>

lemma boot_scrollback_1: "boot_scrollback 1 s = scrollback s"
proof -
  have rows: "[unat SCREEN_HEIGHT - 1..<unat SCREEN_HEIGHT] = [24]" "int (unat SCREEN_HEIGHT) - 1 = int 24"
    by (simp_all add: SCREEN_HEIGHT_def upt_rec)
  show ?thesis
    unfolding boot_scrollback_def scrollback_def move_cell_def Let_def rows of_nat_1
    by (simp only: fold_simps id_apply o_def)
qed

lemma boot_setcursor_eq: "boot_setcursor x y s = setcursor x y s"
proof -
  have "(ucast (drop_bit 8 p AND 0xFF) :: u8) = ucast (drop_bit 8 (ucast p :: u16) AND 0xFF)"
    "(ucast (p AND 0xFF) :: u8) = ucast ((ucast p :: u16) AND 0xFF)" for p :: u32
    by (rule bit_word_eqI; auto simp: bit_simps)+
  then show ?thesis by (simp add: boot_setcursor_def setcursor_def Let_def)
qed

lemma boot_wrap_eq:
  assumes "0 \<le> g_ScreenX s" "g_ScreenX s \<le> 80"
  shows "boot_wrap s = wrap_cursor s"
proof -
  have "g_ScreenX s = 80" if "word_of_int (g_ScreenX s) \<ge> SCREEN_WIDTH"
    using assms that by (auto simp: SCREEN_WIDTH_def word_le_def uint_coordinate)
  then have "(if word_of_int (g_ScreenX s) \<ge> SCREEN_WIDTH then s\<lparr>g_ScreenY := g_ScreenY s + 1, g_ScreenX := 0\<rparr> else s) =
      (if word_of_int (g_ScreenX s) \<ge> SCREEN_WIDTH
       then s\<lparr>g_ScreenX := g_ScreenX s - 80, g_ScreenY := g_ScreenY s + 1\<rparr> else s)" by simp
  then show ?thesis
    unfolding boot_wrap_def wrap_cursor_def boot_scrollback_1 boot_setcursor_eq by simp
qed

lemma boot_put_plain_eq: "on_screen s \<Longrightarrow> boot_put_plain c s = put_plain c s"
  unfolding boot_put_plain_def put_plain_def
  by (rule boot_wrap_eq) (simp_all add: on_screen_def)

lemma boot_tab_loop_eq: "on_screen s \<Longrightarrow> boot_tab_loop i s = tab_loop i s"
proof (induction i s rule: tab_loop.induct)
  case (1 i s)
  show ?case
  proof (cases "i < 4 - crem (g_ScreenX s) 4")
    case True
    then show ?thesis
      using "1.IH" [OF True put_plain_effect(1) [OF "1.prems"]] "1.prems"
      by (subst boot_tab_loop.simps, subst tab_loop.simps) (simp add: boot_put_plain_eq)
  next
    case False
    then show ?thesis by (subst boot_tab_loop.simps, subst tab_loop.simps) simp
  qed
qed

lemma boot_putc_eq: "on_screen s \<Longrightarrow> boot_putc c s = put_c c s"
proof -
  assume s: "on_screen s"
  then have x: "0 \<le> g_ScreenX s" "g_ScreenX s \<le> 80" by (simp_all add: on_screen_def)
  have t: "boot_wrap (tab_loop 0 s) = wrap_cursor (tab_loop 0 s)"
    using tab_loop_keeps [OF s, of 0] by (intro boot_wrap_eq) (auto simp: on_screen_def)
  show ?thesis
    using s x by (simp add: boot_putc_def put_c_def boot_tab_loop_eq boot_put_plain_eq t boot_wrap_eq)
qed

interpretation boot_sink: char_sink boot_putc on_screen in_text
proof
  show "on_screen (boot_putc c s)" if "on_screen s" for c and s :: "'a screen_scheme"
    using that kernel_sink.putc_ready by (simp add: boot_putc_eq)
  show "mem (boot_putc c s) a = mem s a" if "on_screen s" "\<not> in_text a" for c a and s :: "'a screen_scheme"
    using that kernel_sink.putc_frame by (simp add: boot_putc_eq)
qed

lemma print_loop_bound:
  "boot_print_loop buffer count i s = Some r \<Longrightarrow> count \<le> 65535"
proof (erule boot_print_loop.raw_induct [where P = "\<lambda>buffer count i s r. count \<le> 65535", rotated])
  fix loop and buffer count :: u32 and i :: u16 and s r :: "'a screen_scheme"
  assume IH: "\<And>buffer count i s r. loop buffer count i s = Some r \<Longrightarrow> count \<le> 65535"
    and e: "(if ucast i < count then loop buffer count (i + 1) (put_byte boot_putc (buffer + ucast i) s)
             else Some s) = Some r"
  show "count \<le> 65535"
  proof (cases "ucast i < count")
    case True
    with e IH show ?thesis by auto
  next
    case False
    then have "unat count \<le> unat i" by (simp add: word_less_nat_alt unat_ucast16_32)
    then show ?thesis using unat_u16_lt [of i] by (simp add: word_le_nat_alt)
  qed
qed

section \<open>Properties\<close>

text \<open>The bootloader's \<open>putc\<close> and the kernel's \<open>put_c\<close> do the same from every state with the
  cursor on the screen, and so do whole texts.\<close>

theorem boot_putc_equiv:
  assumes "on_screen s"
  shows "boot_putc c s = put_c c s \<and> fold boot_putc cs s = fold put_c cs s"
proof -
  have "fold boot_putc cs s = fold put_c cs s"
    using assms by (induction cs arbitrary: s) (simp_all add: boot_putc_eq kernel_sink.putc_ready)
  with boot_putc_eq [OF assms] show ?thesis by simp
qed

text \<open>The bootloader's \<open>printf\<close> remembers that a directive was a number: \<open>"%d%%"\<close> prints
  its argument, the percent sign, and then the next word of the stack as well, which the kernel's
  \<open>printf\<close> does not.\<close>

theorem boot_printf_extra_number:
  assumes "on_screen s"
  shows "boot_printf [0x25, 0x64, 0x25, 0x25] va s =
      Some (fold boot_putc (signed_text (scast (va 0)) @ 0x25 # numeral_text 10 (unat (va 1))) s) \<and>
    printf put_c [0x25, 0x64, 0x25, 0x25] va s = Some (fold put_c (signed_text (scast (va 0)) @ [0x25]) s)"
proof -
  have "printf put_c [0x25, 0x64, 0x25, 0x25] va s = Some (fold put_c (signed_text (scast (va 0)) @ [0x25]) s)"
    using kernel_sink.printf_text [OF assms, of "[0x25, 0x64, 0x25, 0x25]" va "\<lambda>_. []"]
    by (simp add: directive_of_def va_number_def arg_words_def)
  moreover have "boot_printf [0x25, 0x64, 0x25, 0x25] va s =
      Some (fold boot_putc (signed_text (scast (va 0)) @ 0x25 # numeral_text 10 (unat (va 1))) s)"
    by (simp add: boot_printf_def printf_char_def printf_spec_def spec_char_def print_number_def pf_init_def
        boot_reset_def va_number_def arg_words_def boot_sink.printf_signed_text printf_unsigned_text unat_ucast32_64 Let_def)
  ultimately show ?thesis by simp
qed

text \<open>The bootloader's \<open>print_buffer\<close> does not return when it is asked for 65536 bytes or more:
  the 16-bit counter never reaches the bound.\<close>

theorem boot_print_buffer_never_ends:
  assumes "65536 \<le> count"
  shows "boot_print_buffer msg buffer count s = None"
proof -
  have "boot_print_loop buffer count 0 t = None" for t :: "'a screen_scheme"
    using print_loop_bound [of buffer count 0 t] assms
    by (cases "boot_print_loop buffer count 0 t") (auto simp: word_le_nat_alt)
  then show ?thesis by (simp add: boot_print_buffer_def split: option.split)
qed

section \<open>Concrete runs\<close>

lemma boot_putc_equiv_witness:
  "boot_putc 65 (blank_screen 79 24) = put_c 65 (blank_screen 79 24)"
  using boot_putc_equiv [of "blank_screen 79 24" 65] by (simp add: on_screen_def)

lemma boot_printf_extra_number_witness:
  "boot_printf [0x25, 0x64, 0x25, 0x25] (\<lambda>i. if i = 0 then 5 else 7) (blank_screen 0 0) =
     Some (fold boot_putc [0x35, 0x25, 0x37] (blank_screen 0 0))"
proof -
  have "signed_text (scast (5 :: u32)) = [0x35]" "numeral_text 10 (unat (7 :: u32)) = [0x37]" by code_simp+
  moreover have "on_screen (blank_screen 0 0)" by (simp add: on_screen_def)
  ultimately show ?thesis
    using boot_printf_extra_number [of "blank_screen 0 0" "\<lambda>i. if i = 0 then 5 else 7"] by simp
qed

lemma boot_print_buffer_never_ends_witness:
  "boot_print_buffer 0x3000 0x4000 65536 (blank_screen 0 0) = None"
  using boot_print_buffer_never_ends [of 65536] by simp

end
