(* ===== verification/Elf.thy ===== *)
theory Elf
  imports Vmm
begin

text \<open>
  The loader of user programs, \<open>src/kernel/loader/elf.c\<close>: an ELF32 image in memory is
  checked, and each of its \<open>PT_LOAD\<close> segments is copied page by page into fresh frames that
  are mapped for ring 3.

  The image is read from the flat memory at the offsets of the packed structures of \<open>elf.h\<close>.
  Return codes are values of a sum: an \<open>elf_error\<close> or the entry point. The messages the loader
  prints are left out. The lemmas follow one segment: with enough free frames every page of it is
  allocated, filled and mapped, and the virtual memory holds the file's bytes and then zeros.
\<close>

section \<open>The file format\<close>

datatype elf_error = ELF_ERR_MAGIC | ELF_ERR_CLASS | ELF_ERR_TYPE | ELF_ERR_NO_LOAD | ELF_ERR_OOM

record Elf32_Ehdr =
  e_ident :: "nat \<Rightarrow> u8"
  e_type :: u16
  e_entry :: u32
  e_phoff :: u32
  e_phentsize :: u16
  e_phnum :: u16

record Elf32_Phdr =
  p_type :: u32
  p_offset :: u32
  p_vaddr :: u32
  p_filesz :: u32
  p_memsz :: u32

definition read_ehdr :: "ram \<Rightarrow> u32 \<Rightarrow> Elf32_Ehdr" where
  "read_ehdr m data = \<lparr>e_ident = (\<lambda>i. m (data + of_nat i)), e_type = load16 m (data + 16),
     e_entry = load32 m (data + 24), e_phoff = load32 m (data + 28),
     e_phentsize = load16 m (data + 42), e_phnum = load16 m (data + 44)\<rparr>"

definition read_phdr :: "ram \<Rightarrow> u32 \<Rightarrow> Elf32_Phdr" where
  "read_phdr m a = \<lparr>p_type = load32 m a, p_offset = load32 m (a + 4), p_vaddr = load32 m (a + 8),
     p_filesz = load32 m (a + 16), p_memsz = load32 m (a + 20)\<rparr>"

definition phdr_addr :: "ram \<Rightarrow> u32 \<Rightarrow> nat \<Rightarrow> u32" where
  "phdr_addr m data i = data + e_phoff (read_ehdr m data) + of_nat i * ucast (e_phentsize (read_ehdr m data))"

section \<open>Loading\<close>

text \<open>The loop over the pages of a segment, from page \<open>p\<close> on, with \<open>k\<close> pages to go;
  \<open>src\<close> is \<open>base + phdr->p_offset\<close>. It ends early when the frames run out.\<close>

fun load_pages :: "u32 \<Rightarrow> u32 \<Rightarrow> u32 \<Rightarrow> u32 \<Rightarrow> nat \<Rightarrow> 'a vmm_scheme \<Rightarrow> bool \<times> 'a vmm_scheme" where
  "load_pages src vaddr filesz p 0 s = (True, s)"
| "load_pages src vaddr filesz p (Suc k) s =
     (let (phys, s1) = allocate_block 1 s
      in if phys = 0 then (False, s1)
         else let page_off = p * PAGE_SIZE;
                  s2 = (if page_off < filesz
                        then let copy = (if filesz - page_off > PAGE_SIZE then PAGE_SIZE else filesz - page_off)
                             in s1\<lparr>mem := memcpy (mem s1) phys (src + page_off) (ucast copy)\<rparr>
                        else s1)
              in load_pages src vaddr filesz (p + 1) k (snd (map_page_user phys (vaddr + page_off) s2)))"

definition load_segment :: "u32 \<Rightarrow> Elf32_Phdr \<Rightarrow> 'a vmm_scheme \<Rightarrow> bool \<times> 'a vmm_scheme" where
  "load_segment data phdr s =
     (let num_pages = (p_memsz phdr + PAGE_SIZE - 1) div PAGE_SIZE
      in load_pages (data + p_offset phdr) (p_vaddr phdr) (p_filesz phdr) 0 (unat num_pages) s)"

lemma index_measure: "i < unat (n :: u16) \<Longrightarrow> 65535 - i < 65536 - i"
  using unat_u16_lt [of n] by simp

text \<open>The loop over the program headers; the header is read again in every turn.\<close>

function load_segments ::
  "u32 \<Rightarrow> nat \<Rightarrow> nat \<Rightarrow> 'a vmm_scheme \<Rightarrow> (elf_error + nat) \<times> 'a vmm_scheme" where
  "load_segments data i loaded s =
     (if i < unat (e_phnum (read_ehdr (mem s) data)) then
        let phdr = read_phdr (mem s) (phdr_addr (mem s) data i)
        in if p_type phdr \<noteq> 1 then load_segments data (i + 1) loaded s
           else let (ok, s1) = load_segment data phdr s
                in if ok then load_segments data (i + 1) (loaded + 1) s1 else (Inl ELF_ERR_OOM, s1)
      else (Inr loaded, s))"
  by pat_completeness auto
termination
  by (relation "measure (\<lambda>(data, i, loaded, s). 65536 - i)") (auto dest: index_measure)

declare load_segments.simps [simp del]

definition elf_load :: "u32 \<Rightarrow> 'a vmm_scheme \<Rightarrow> (elf_error + u32) \<times> 'a vmm_scheme" where
  "elf_load data s =
     (let ehdr = read_ehdr (mem s) data
      in if e_ident ehdr 0 \<noteq> 0x7F \<or> e_ident ehdr 1 \<noteq> 0x45 \<or> e_ident ehdr 2 \<noteq> 0x4C \<or> e_ident ehdr 3 \<noteq> 0x46
         then (Inl ELF_ERR_MAGIC, s)
         else if e_ident ehdr 4 \<noteq> 1 then (Inl ELF_ERR_CLASS, s)
         else if e_type ehdr \<noteq> 2 then (Inl ELF_ERR_TYPE, s)
         else case load_segments data 0 0 s of
                (Inl err, s1) \<Rightarrow> (Inl err, s1)
              | (Inr loaded, s1) \<Rightarrow>
                  if loaded = 0 then (Inl ELF_ERR_NO_LOAD, s1)
                  else (Inr (e_entry (read_ehdr (mem s1) data)), s1))"

section \<open>Memory that stays\<close>

text \<open>A byte of a client: in a frame that is taken and holds neither the bitmap nor a table.\<close>

definition client_byte :: "'a vmm_scheme \<Rightarrow> u32 \<Rightarrow> bool" where
  "client_byte s a \<longleftrightarrow> taken s (page a) \<and> \<not> in_bitmap s a \<and> \<not> pt_frame s (page a)"

definition keeps :: "'a vmm_scheme \<Rightarrow> 'a vmm_scheme \<Rightarrow> bool" where
  "keeps s s' \<longleftrightarrow> (\<forall>a. client_byte s a \<longrightarrow> client_byte s' a \<and> mem s' a = mem s a)"

lemma keeps_refl [simp]: "keeps s s"
  by (simp add: keeps_def)

lemma keeps_trans: "keeps s t \<Longrightarrow> keeps t u \<Longrightarrow> keeps s u"
  by (simp add: keeps_def)

lemma tables_only_keeps:
  "tables_only s s' \<Longrightarrow> in_bitmap s' = in_bitmap s \<Longrightarrow> keeps s s'"
  unfolding tables_only_def keeps_def client_byte_def by metis

text \<open>What a step of the loader costs: at most \<open>n\<close> frames.\<close>

definition budget :: "'a vmm_scheme \<Rightarrow> nat \<Rightarrow> bool" where
  "budget s n \<longleftrightarrow> n \<le> card (free_frames s) \<and> unat (TOTAL_USED_BLOCKS s) + n \<le> unat (TOTAL_BLOCK s)"

lemma budget_mono: "budget s n \<Longrightarrow> k \<le> n \<Longrightarrow> budget s k"
  by (simp add: budget_def)

lemma budget_less: "budget s (Suc n) \<Longrightarrow> TOTAL_USED_BLOCKS s < TOTAL_BLOCK s"
  by (simp add: budget_def word_less_nat_alt)

lemma budget_alloc:
  assumes "pmm_inv s" "budget s (Suc n)" "allocate_block 1 s = (t, s1)"
  shows "t \<noteq> 0" "budget s1 n"
proof -
  have b: "Suc n \<le> card (free_frames s)" "unat (TOTAL_USED_BLOCKS s) + Suc n \<le> unat (TOTAL_BLOCK s)"
    using assms(2) by (simp_all add: budget_def)
  note A = alloc_from_free [OF assms(1) budget_less [OF assms(2)] b(1) assms(3)]
  show "t \<noteq> 0" by (rule A(1))
  have "unat (TOTAL_USED_BLOCKS s) + 1 < 4294967296" using b(2) unat_u32_lt [of "TOTAL_BLOCK s"] by linarith
  then have "unat (TOTAL_USED_BLOCKS s + 1) = unat (TOTAL_USED_BLOCKS s) + 1" by (simp add: unat_word_ariths)
  then show "budget s1 n" using A b by (simp add: budget_def)
qed

lemma budget_one_frame:
  assumes "budget s (Suc n)" "one_frame s s'"
  shows "budget s' n"
proof -
  have b: "Suc n \<le> card (free_frames s)" "unat (TOTAL_USED_BLOCKS s) + Suc n \<le> unat (TOTAL_BLOCK s)"
    using assms(1) by (simp_all add: budget_def)
  obtain t where t: "\<And>f. taken s' f \<Longrightarrow> taken s f \<or> f = t" using assms(2) by (auto simp: one_frame_def)
  have nb: "nbits s' = nbits s" using assms(2) by (simp add: one_frame_def nbits_def)
  have "free_frames s - {t} \<subseteq> free_frames s'" using t nb by (auto simp: free_frames_def)
  moreover have "finite (free_frames s')" by (simp add: free_frames_def)
  ultimately have "card (free_frames s - {t}) \<le> card (free_frames s')" by (intro card_mono)
  moreover have "card (free_frames s) - 1 \<le> card (free_frames s - {t})"
    by (simp add: card_Diff_singleton_if free_frames_def)
  moreover have "unat (TOTAL_USED_BLOCKS s + 1) = unat (TOTAL_USED_BLOCKS s) + 1"
  proof -
    have "unat (TOTAL_USED_BLOCKS s) + 1 < 4294967296" using b(2) unat_u32_lt [of "TOTAL_BLOCK s"] by linarith
    then show ?thesis by (simp add: unat_word_ariths)
  qed
  ultimately show ?thesis using b assms(2) by (auto simp: budget_def one_frame_def)
qed

section \<open>Allocating and filling a frame\<close>

lemma alloc_keeps:
  assumes inv: "vm_inv s" and al: "allocate_block 1 s = (t, s1)" "t \<noteq> 0"
  shows "vm_inv s1" "current_page_directory s1 = current_page_directory s" "in_bitmap s1 = in_bitmap s"
    "\<And>va. pte s1 va = pte s va" "\<And>i. i < 1024 \<Longrightarrow> pde s1 i = pde s i" "pt_frame s1 = pt_frame s"
    "keeps s s1" "\<And>a. page a = page t \<Longrightarrow> client_byte s1 a \<and> mem s1 a = 0 \<and> \<not> client_byte s a"
proof -
  note D = vm_invD [OF inv]
  note A = alloc_frame [OF D(1) al] and tk = pa.alloc_taken [OF D(1) al]
    and fresh = pa.alloc_fresh [OF D(1) al] and zero = pa.alloc_zero [OF D(1) al]
  show c: "current_page_directory s1 = current_page_directory s"
    using al(1) allocate_block_vm_frame(1) [of 1 s] by simp
  then have d: "dirf s1 = dirf s" by (simp add: dirf_def)
  show bm: "in_bitmap s1 = in_bitmap s" using pa.alloc_own_data [OF D(1) al(1)] .
  have e: "entry (mem s1) f k = entry (mem s) f k" if "owned s f" "k < 1024" for f k
    using A(4) that by (intro entry_cong) (auto simp: owned_def)
  show pd: "pde s1 i = pde s i" if "i < 1024" for i using e [OF D(3) that] by (simp add: pde_def d)
  show "vm_inv s1"
    using vm_inv_transfer [OF inv pa.alloc_inv [OF D(1) al(1)] c A(2) pd] .
  show "pte s1 va = pte s va" for va by (rule pte_transfer [OF inv c pd e])
  show pt: "pt_frame s1 = pt_frame s"
    using pd by (auto simp: pt_frame_def d fun_eq_iff)
  have ptk: "pt_frame s f \<Longrightarrow> taken s f" for f using D(3,6) by (auto simp: pt_frame_def owned_def)
  show "keeps s s1"
    unfolding keeps_def client_byte_def bm pt using tk fresh pa.alloc_frame [OF D(1) al] by metis
  show "client_byte s1 a \<and> mem s1 a = 0 \<and> \<not> client_byte s a" if "page a = page t" for a
    unfolding client_byte_def bm pt using tk zero fresh ptk that by metis
qed

text \<open>The same for a run of frames.\<close>

lemma run_keeps:
  assumes inv: "vm_inv s" and al: "allocate_block n s = (t, s1)" "alloc_post s f (unat n) s1"
  shows "vm_inv s1" "current_page_directory s1 = current_page_directory s" "in_bitmap s1 = in_bitmap s"
    "\<And>va. pte s1 va = pte s va" "\<And>i. i < 1024 \<Longrightarrow> pde s1 i = pde s i" "keeps s s1"
    "budget s (unat n + k) \<Longrightarrow> budget s1 k"
proof -
  note D = vm_invD [OF inv]
  note P = al(2) [unfolded alloc_post_def]
  have tk: "taken s1 g \<longleftrightarrow> taken s g \<or> g \<in> {f..<f + unat n}" for g
    using P by (auto simp: taken_def nbits_def)
  have free: "\<not> taken s g" if "g \<in> {f..<f + unat n}" for g
    using P that by (auto simp: taken_def run_free_nat)
  show c: "current_page_directory s1 = current_page_directory s"
    using al(1) allocate_block_vm_frame(1) [of n s] by simp
  then have d: "dirf s1 = dirf s" by (simp add: dirf_def)
  show bm: "in_bitmap s1 = in_bitmap s" using P by (auto intro: in_bitmap_cong)
  have m: "mem s1 a = mem s a" if "taken s (page a)" "\<not> in_bitmap s a" for a
    using P that free by blast
  have e: "entry (mem s1) g k = entry (mem s) g k" if "owned s g" "k < 1024" for g k
    using m that by (intro entry_cong) (auto simp: owned_def)
  have ow: "owned s g \<Longrightarrow> owned s1 g" for g by (simp add: owned_def tk bm)
  show pd: "pde s1 i = pde s i" if "i < 1024" for i using e [OF D(3) that] by (simp add: pde_def d)
  show "vm_inv s1"
    using vm_inv_transfer [OF inv alloc_post_inv [OF D(1) al(2)] c ow pd] .
  show "pte s1 va = pte s va" for va by (rule pte_transfer [OF inv c pd e])
  have pt: "pt_frame s1 = pt_frame s" using pd by (auto simp: pt_frame_def d fun_eq_iff)
  show "keeps s s1" unfolding keeps_def client_byte_def bm pt using tk m by auto
  show "budget s1 k" if b: "budget s (unat n + k)"
  proof -
    have "free_frames s1 = free_frames s - {f..<f + unat n}" using tk P by (auto simp: free_frames_def nbits_def)
    moreover have "card (free_frames s) - card {f..<f + unat n} \<le> card (free_frames s - {f..<f + unat n})"
      by (rule diff_card_le_card_Diff) simp
    moreover have "unat (TOTAL_USED_BLOCKS s1) = unat (TOTAL_USED_BLOCKS s) + unat n"
      using P b unat_u32_lt [of "TOTAL_BLOCK s"] by (simp add: budget_def unat_word_ariths)
    moreover have "TOTAL_BLOCK s1 = TOTAL_BLOCK s" using P by simp
    ultimately show ?thesis using b unfolding budget_def card_atLeastLessThan by simp linarith
  qed
qed

text \<open>Writing into the frame of a client.\<close>

lemma client_write:
  assumes inv: "vm_inv s" and f: "\<And>a. page a = f \<Longrightarrow> client_byte s a" "f < 0x100000"
    and m: "\<And>a. page a \<noteq> f \<Longrightarrow> m a = mem s a"
  defines "s' \<equiv> s\<lparr>mem := m\<rparr>"
  shows "vm_inv s'" "\<And>va. pte s' va = pte s va" "\<And>i. i < 1024 \<Longrightarrow> pde s' i = pde s i"
    "client_byte s' = client_byte s" "one_frame s s'" "one_frame s' s" "taken s' = taken s" "pt_frame s' = pt_frame s"
proof -
  note D = vm_invD [OF inv]
  have "page (of_nat f * 4096) = f" using f(2) by (simp add: page_frame_addr)
  then have nf: "\<not> pt_frame s f" using f(1) by (auto simp: client_byte_def)
  have nb: "nbits s \<le> 0x100000" using D(1) by (simp add: pmm_inv_def)
  have bm: "in_bitmap s' = in_bitmap s" "nbits s' = nbits s"
    by (simp_all add: s'_def in_bitmap_def nbits_def fun_eq_iff)
  have "mem s' a = mem s a" if "in_bitmap s a" for a
    using that m [of a] f(1) by (auto simp: s'_def client_byte_def)
  then have u: "used s' (of_nat b) = used s (of_nat b)" if "b < nbits s" for b
    using that nb by (intro used_cong_bitmap) (auto simp: s'_def)
  then show tk: "taken s' = taken s" by (auto simp: taken_def bm fun_eq_iff)
  have c: "current_page_directory s' = current_page_directory s" "dirf s' = dirf s"
    by (simp_all add: s'_def dirf_def)
  have e: "entry (mem s') g k = entry (mem s) g k" if "g \<noteq> f" "g < 0x100000" "k < 1024" for g k
    by (rule entry_cong) (use that m in \<open>auto simp: s'_def\<close>)
  have "dirf s \<noteq> f" using nf by (auto simp: pt_frame_def)
  then show pd: "pde s' i = pde s i" if "i < 1024" for i
    using e [OF _ D(4) that] by (simp add: pde_def c)
  show "pte s' va = pte s va" for va
    using pd [of "pdi va"] e [of "page (pde s (pdi va))" "pti va"] pt_frameI [of "pdi va" s] nf
    by (cases "pde s (pdi va) = 0") (auto simp: pte_def page_lt)
  have ow: "owned s g \<Longrightarrow> owned s' g" for g by (simp add: owned_def tk bm)
  have "used s' 0 = used s 0" if "0 < nbits s" using u [OF that] by simp
  moreover have "0 < nbits s" using D(3) by (auto simp: owned_def taken_def)
  ultimately have "pmm_inv s'" using D(1) u by (auto simp: pmm_inv_def bm)
  then show "vm_inv s'" by (rule vm_inv_transfer [OF inv _ c(1) ow pd])
  show pt: "pt_frame s' = pt_frame s" using pd by (auto simp: pt_frame_def c fun_eq_iff)
  show "client_byte s' = client_byte s" by (simp add: client_byte_def tk bm pt fun_eq_iff)
  show "one_frame s s'" "one_frame s' s" by (auto simp: one_frame_def tk) (simp_all add: s'_def)
qed

section \<open>One page of a segment\<close>

text \<open>\<open>holds s va c\<close>: ring 3 may use \<open>va\<close>, and it reads \<open>c\<close> there, in a frame
  that belongs to it.\<close>

definition holds :: "'a vmm_scheme \<Rightarrow> u32 \<Rightarrow> u8 \<Rightarrow> bool" where
  "holds s va c \<longleftrightarrow> user_ok (mem s) (current_page_directory s) va \<and>
     (\<exists>a. walk (mem s) (current_page_directory s) va = Some a \<and> client_byte s a \<and> mem s a = c)"

lemma same_client:
  fixes s :: "'a vmm_scheme" and s' :: "'b vmm_scheme"
  assumes "mem s' = mem s" "BIT_MAP s' = BIT_MAP s" "TOTAL_BLOCK s' = TOTAL_BLOCK s"
    "current_page_directory s' = current_page_directory s"
  shows "client_byte s' = client_byte s" "holds s' = holds s"
    "TOTAL_USED_BLOCKS s' = TOTAL_USED_BLOCKS s \<Longrightarrow> budget s' n = budget s n"
proof -
  show c: "client_byte s' = client_byte s"
    by (rule ext) (simp add: client_byte_def same_bitmap [OF assms(1-3)] same_tables [OF assms])
  show "holds s' = holds s" by (intro ext) (simp add: holds_def c assms)
  show "TOTAL_USED_BLOCKS s' = TOTAL_USED_BLOCKS s \<Longrightarrow> budget s' n = budget s n"
    by (simp add: budget_def same_free_frames [OF assms(1-3)] assms)
qed

text \<open>Two states with the same memory and page tables, whatever else they hold.\<close>

definition same_vm :: "'a vmm_scheme \<Rightarrow> 'b vmm_scheme \<Rightarrow> bool" where
  "same_vm s s' \<longleftrightarrow> mem s' = mem s \<and> BIT_MAP s' = BIT_MAP s \<and> TOTAL_BLOCK s' = TOTAL_BLOCK s \<and>
     TOTAL_USED_BLOCKS s' = TOTAL_USED_BLOCKS s \<and> current_page_directory s' = current_page_directory s \<and> CR3 s' = CR3 s"

lemma same_vm_facts:
  assumes "same_vm s s'"
  shows "vm_inv s' = vm_inv s" "user_pde s' = user_pde s" "pte s' = pte s" "client_byte s' = client_byte s"
    "holds s' = holds s" "budget s' n = budget s n" "first_run n s' = first_run n s" "nbits s' = nbits s" "mem s' = mem s"
    "current_page_directory s' = current_page_directory s" "CR3 s' = CR3 s"
proof -
  have a: "mem s' = mem s" "BIT_MAP s' = BIT_MAP s" "TOTAL_BLOCK s' = TOTAL_BLOCK s"
    "current_page_directory s' = current_page_directory s" "TOTAL_USED_BLOCKS s' = TOTAL_USED_BLOCKS s" "CR3 s' = CR3 s"
    using assms by (simp_all add: same_vm_def)
  note S = same_bitmap [OF a(1-3)] same_tables [OF a(1-4)] same_client [OF a(1-4)]
  show "vm_inv s' = vm_inv s" "user_pde s' = user_pde s" "pte s' = pte s" "client_byte s' = client_byte s"
    "holds s' = holds s" "budget s' n = budget s n" "first_run n s' = first_run n s" "nbits s' = nbits s"
    by (simp_all add: S a(5))
qed (use assms in \<open>simp_all add: same_vm_def\<close>)

lemma holds_pte:
  assumes "vm_inv s" "user_pde s"
  shows "holds s va c \<longleftrightarrow> bit (pte s va) 0 \<and> bit (pte s va) 2 \<and>
    client_byte s (PAGE_PHYS_ADDRESS (pte s va) OR (va AND 0xFFF)) \<and>
    mem s (PAGE_PHYS_ADDRESS (pte s va) OR (va AND 0xFFF)) = c"
  using assms(2) unfolding holds_def user_ok_pte [OF assms(1)] walk_pte [OF assms(1)] user_pde_def
  by (auto split: if_splits)

lemma holds_kept:
  assumes "vm_inv s" "user_pde s" "vm_inv s'" "user_pde s'" "keeps s s'" "pte s' va = pte s va" "holds s va c"
  shows "holds s' va c"
  using assms unfolding holds_pte [OF assms(1,2)] holds_pte [OF assms(3,4)] keeps_def by auto

lemma page_offset: "page t = f \<Longrightarrow> t = of_nat f * 4096 \<Longrightarrow> page (t OR (va AND 0xFFF)) = f \<and>
    (t OR (va AND 0xFFF)) - t = va AND 0xFFF"
proof -
  assume t: "page t = f" "t = of_nat f * 4096"
  define x where "x = t OR (va AND 0xFFF)"
  have ph: "PAGE_PHYS_ADDRESS t = t" using t by (simp add: PAGE_PHYS_eq)
  have "PAGE_PHYS_ADDRESS (PAGE_PHYS_ADDRESS y OR (va AND 0xFFF)) = PAGE_PHYS_ADDRESS y" for y
    unfolding PAGE_PHYS_ADDRESS_def mask_12 by (rule bit_word_eqI) (auto simp: bit_simps)
  from this [of t] have "PAGE_PHYS_ADDRESS x = t" by (simp only: x_def ph)
  then have "page x = f" using page_PAGE_PHYS [of x] t by simp
  moreover have "t + (va AND 0xFFF) = x"
  proof -
    have "PAGE_PHYS_ADDRESS y AND (va AND 0xFFF) = 0" for y
      unfolding PAGE_PHYS_ADDRESS_def mask_12 by (rule bit_word_eqI) (auto simp: bit_simps)
    from this [of t] have "t AND (va AND 0xFFF) = 0" by (simp only: ph)
    then show ?thesis unfolding x_def by (rule disjunctive_add_eq_or)
  qed
  ultimately show ?thesis by (metis x_def add_diff_cancel_left')
qed

text \<open>The copy that fills the frame: the file's bytes as far as they go, behind them the zeros of
  the allocator.\<close>

definition fill_frame :: "u32 \<Rightarrow> u32 \<Rightarrow> u32 \<Rightarrow> u32 \<Rightarrow> ram \<Rightarrow> ram" where
  "fill_frame src filesz page_off phys m =
     (if page_off < filesz
      then memcpy m phys (src + page_off)
             (ucast (if filesz - page_off > PAGE_SIZE then PAGE_SIZE else filesz - page_off))
      else m)"

lemma load_pages_Suc:
  assumes "allocate_block 1 s = (t, s1)" "t \<noteq> 0"
  shows "load_pages src vaddr filesz p (Suc k) s =
    load_pages src vaddr filesz (p + 1) k (snd (map_page_user t (vaddr + p * PAGE_SIZE)
      (s1\<lparr>mem := fill_frame src filesz (p * PAGE_SIZE) t (mem s1)\<rparr>)))"
proof -
  have "s1\<lparr>mem := mem s1\<rparr> = s1" by simp
  then show ?thesis using assms by (simp add: fill_frame_def Let_def)
qed

lemma fill_frame_bytes:
  assumes t: "t = of_nat f * 4096" "f < 0x100000"
    and src: "\<And>q. q < unat filesz \<Longrightarrow> page (src + of_nat q) \<noteq> f"
    and zero: "\<And>a. page a = f \<Longrightarrow> m a = 0"
  shows "\<And>a. page a \<noteq> f \<Longrightarrow> fill_frame src filesz off t m a = m a"
    "\<And>j. j < 4096 \<Longrightarrow> unat off + 4096 \<le> 4294967296 \<Longrightarrow> fill_frame src filesz off t m (t + of_nat j) =
      (if unat off + j < unat filesz then m (src + of_nat (unat off + j)) else 0)"
proof -
  define n where "n = min 4096 (unat filesz - unat off)"
  define copy where "copy = (if filesz - off > PAGE_SIZE then PAGE_SIZE else filesz - off)"
  have n: "unat (ucast copy :: u16) = n" if "off < filesz"
  proof -
    have "unat (filesz - off) = unat filesz - unat off" using that by (simp add: unat_sub)
    then have "unat copy = n" by (auto simp: copy_def n_def PAGE_SIZE_def word_less_nat_alt)
    moreover have "unat copy < 65536" using calculation by (simp add: n_def)
    ultimately show ?thesis by (simp add: unsigned_ucast_eq take_bit_eq_mod)
  qed
  have inr: "in_range t n a \<Longrightarrow> page a = f" for a
    using in_frames_iff [of f 1 a] t by (auto simp: n_def in_range_def)
  have ap: "apart t n (src + off) n"
    unfolding apart_def
  proof (intro allI impI notI)
    fix a assume a: "in_range t n a" "in_range (src + off) n a"
    define j where "j = unat (a - (src + off))"
    have "j < n" "a = src + of_nat (unat off + j)"
      using a by (auto simp: in_range_def j_def)
    moreover have "unat off + j < unat filesz" using \<open>j < n\<close> unfolding n_def by linarith
    ultimately have "page a \<noteq> f" using src [of "unat off + j"] by simp
    with inr [OF a(1)] show False by blast
  qed
  have ff: "fill_frame src filesz off t m a = (if in_range t n a then m (src + off + (a - t)) else m a)" for a
  proof (cases "off < filesz")
    case True
    then show ?thesis
      using n ap by (simp add: fill_frame_def memcpy_apply flip: copy_def)
  next
    case False
    then have "n = 0" by (simp add: n_def word_less_nat_alt)
    with False show ?thesis by (simp add: fill_frame_def)
  qed
  show "fill_frame src filesz off t m a = m a" if "page a \<noteq> f" for a
    using ff inr that by auto
  fix j assume j: "j < (4096 :: nat)" "unat off + 4096 \<le> 4294967296"
  have pg: "page (t + of_nat j) = f"
    using in_frames_iff [of f 1 "t + of_nat j"] t j in_range_offset [of j t 4096] by simp
  have "in_range t n (t + of_nat j) \<longleftrightarrow> j < n" using j by (intro in_range_offset) simp
  then show "fill_frame src filesz off t m (t + of_nat j) =
      (if unat off + j < unat filesz then m (src + of_nat (unat off + j)) else 0)"
    using j zero [OF pg] by (auto simp: ff n_def add.assoc)
qed

text \<open>One turn of the loop: the frame is allocated and filled, and then mapped for ring 3.\<close>

lemma filled_frame:
  assumes inv: "vm_inv s" and b: "budget s (Suc n)" and al: "allocate_block 1 s = (t, s1)"
    and src: "\<forall>q<unat filesz. client_byte s (src + of_nat q)"
    and off: "unat off + 4096 \<le> 4294967296"
    and s2: "s2 = s1\<lparr>mem := fill_frame src filesz off t (mem s1)\<rparr>"
  shows "t \<noteq> 0" "t = of_nat (page t) * 4096" "vm_inv s2" "budget s2 n" "keeps s s2"
    "\<And>va. pte s2 va = pte s va" "\<And>va. pde s2 (pdi va) = pde s (pdi va)"
    "\<And>a. page a = page t \<Longrightarrow> client_byte s2 a"
    "\<And>j. j < 4096 \<Longrightarrow> mem s2 (t + of_nat j) =
       (if unat off + j < unat filesz then mem s (src + of_nat (unat off + j)) else 0)"
proof -
  note D = vm_invD [OF inv]
  note B = budget_alloc [OF D(1) b al]
  show t0: "t \<noteq> 0" by (rule B(1))
  note K = alloc_keeps [OF inv al t0]
  show t: "t = of_nat (page t) * 4096" by (rule pa.alloc_aligned [OF D(1) al t0])
  have tl: "page t < 0x100000" by (rule page_lt)
  have srcf: "page (src + of_nat q) \<noteq> page t" if "q < unat filesz" for q using src that K(8) by auto
  have zero: "page a = page t \<Longrightarrow> mem s1 a = 0" for a using K(8) by simp
  have F1: "fill_frame src filesz off t (mem s1) a = mem s1 a" if "page a \<noteq> page t" for a
    by (rule fill_frame_bytes(1) [OF t tl]) (use srcf zero that in auto)
  have cb1: "page a = page t \<Longrightarrow> client_byte s1 a" for a using K(8) by simp
  note C = client_write [OF K(1) cb1 tl F1, folded s2]
  show "vm_inv s2" by (rule C(1))
  show "budget s2 n" using B(2) C(5,7) by (simp add: budget_def one_frame_def free_frames_def nbits_def s2)
  show "pte s2 va = pte s va" "pde s2 (pdi va) = pde s (pdi va)" for va using C(2,3) K(4,5) by simp_all
  show "client_byte s2 a" if "page a = page t" for a using cb1 [OF that] C(4) by simp
  have "mem s2 a = mem s1 a" if "client_byte s a" for a using that K(8) [of a] F1 [of a] by (auto simp: s2)
  then show "keeps s s2" using K(7) C(4) unfolding keeps_def by simp
  have old: "mem s1 (src + of_nat q) = mem s (src + of_nat q)" if "q < unat filesz" for q
    using K(7) src that by (simp add: keeps_def)
  have new: "mem s2 (t + of_nat j) = (if unat off + j < unat filesz then mem s1 (src + of_nat (unat off + j)) else 0)"
    if "j < 4096" for j
    unfolding s2 using fill_frame_bytes(2) [OF t tl, where src = src and filesz = filesz] srcf zero that off by simp
  show "mem s2 (t + of_nat j) = (if unat off + j < unat filesz then mem s (src + of_nat (unat off + j)) else 0)"
    if "j < 4096" for j
    unfolding new [OF that] using old by presburger
qed

lemma mapped_for_user:
  assumes inv: "vm_inv s" "user_pde s" and b: "budget s (Suc n)" and t: "PAGE_PHYS_ADDRESS t = t"
    and fresh: "\<not> bit (pte s v) 31" and s': "s' = snd (map_page_user t v s)"
  shows "vm_inv s'" "user_pde s'" "budget s' n" "keeps s s'"
    "\<And>vb. page vb \<noteq> page v \<Longrightarrow> pte s' vb = pte s vb"
    "\<And>vb. page vb = page v \<Longrightarrow> PAGE_PHYS_ADDRESS (pte s' vb) = t \<and> bit (pte s' vb) 0 \<and> bit (pte s' vb) 2"
proof -
  obtain u r where al: "allocate_block 1 s = (u, r)" by fastforce
  have "u \<noteq> 0" using budget_alloc(1) [OF vm_invD(1) [OF inv(1)] b al] .
  then have "fst (map_page_user t v s)" using map_succeeds(2) [OF inv(1)] al by simp
  then have mp: "map_page_user t v s = (True, s')" by (simp add: s' prod_eq_iff)
  obtain s3 where m: "mapped s v (\<lambda>p. SET_FRAME (SET_ATTRIBUTE (SET_ATTRIBUTE (SET_ATTRIBUTE p
      PTE_PRESENT) PTE_READ_WRITE) PTE_USER) t) s3"
    and s3: "s' = flush_tlb_entry v s3" and u: "bit (pde s3 (pdi v)) 2"
    using map_page_user_mapped [OF inv(1) mp] by blast
  note M = mapped_effect [OF inv(1) m]
  note FL = flush_frame [where va = v and s = s3, folded s3]
  have b4: "BIT_MAP s' = BIT_MAP s3" "TOTAL_BLOCK s' = TOTAL_BLOCK s3" "TOTAL_USED_BLOCKS s' = TOTAL_USED_BLOCKS s3"
    by (simp_all add: s3 flush_tlb_entry_def)
  note S = same_tables [OF FL(1) b4(1,2) FL(2)] same_client [OF FL(1) b4(1,2) FL(2)]
  show "vm_inv s'" using M(1) FL(4) by simp
  have "user_pde s3" using inv(2) u M(4) by (auto simp: user_pde_def M(3) same_page_iff)
  then show "user_pde s'" using FL(5) by simp
  have "budget s3 n" using budget_one_frame [OF b M(6)] .
  then show "budget s' n" by (simp add: S b4)
  show "keeps s s'" using tables_only_keeps [OF M(2,7)] unfolding keeps_def S FL(1) .
  show "pte s' vb = pte s vb" if "page vb \<noteq> page v" for vb using that by (simp add: S M(3))
  have "pte s v AND 0x80000000 = 0" by (rule bit_word_eqI) (unfold bit_and_iff bit_80, use fresh in auto)
  then show "PAGE_PHYS_ADDRESS (pte s' vb) = t \<and> bit (pte s' vb) 0 \<and> bit (pte s' vb) 2" if "page vb = page v" for vb
    using that by (simp add: S M(3) PAGE_PHYS_SET_FRAME [OF t] SET_ATTRIBUTE_31 bits_SET_FRAME_low [OF t]
        bit_SET_ATTRIBUTE flag_bits)
qed

lemma load_page_step:
  assumes inv: "vm_inv s" "user_pde s" and b: "budget s (Suc (Suc n))"
    and al: "allocate_block 1 s = (t, s1)"
    and fresh: "\<not> bit (pte s v) 31"
    and src: "\<And>q. q < unat filesz \<Longrightarrow> client_byte s (src + of_nat q)"
    and off: "unat off + 4096 \<le> 4294967296"
    and s3: "s3 = snd (map_page_user t v (s1\<lparr>mem := fill_frame src filesz off t (mem s1)\<rparr>))"
  shows "t \<noteq> 0" "vm_inv s3" "user_pde s3" "budget s3 n" "keeps s s3"
    "\<And>vb. page vb \<noteq> page v \<Longrightarrow> pte s3 vb = pte s vb"
    "\<And>vb. page vb = page v \<Longrightarrow> holds s3 vb
       (let o' = unat off + unat (vb AND 0xFFF) in if o' < unat filesz then mem s (src + of_nat o') else 0)"
proof -
  define s2 where "s2 = s1\<lparr>mem := fill_frame src filesz off t (mem s1)\<rparr>"
  have "\<forall>q<unat filesz. client_byte s (src + of_nat q)" using src by blast
  note F = filled_frame [OF inv(1) b al this off s2_def]
  have up2: "user_pde s2" using inv(2) by (simp add: user_pde_def F(6,7))
  have "PAGE_PHYS_ADDRESS t = t" by (rule alloc_phys [OF vm_invD(1) [OF inv(1)] al F(1)])
  note U = mapped_for_user [OF F(3) up2 F(4) this, of v s3, unfolded F(6), OF fresh s3 [folded s2_def]]
  show "t \<noteq> 0" "vm_inv s3" "user_pde s3" "budget s3 n" by (rule F(1) U(1-3))+
  show "keeps s s3" by (rule keeps_trans [OF F(5) U(4)])
  show "pte s3 vb = pte s vb" if "page vb \<noteq> page v" for vb using U(5) [OF that] .
  fix vb assume vb: "page vb = page v"
  let ?o = "vb AND 0xFFF"
  note po = page_offset [OF refl F(2), of vb]
  have pg: "t OR ?o = t + of_nat (unat ?o)" using conjunct2 [OF po] by (simp add: diff_eq_eq add.commute)
  have "unat ?o < 4096" unfolding mask_12 take_bit_eq_mask [symmetric] by (simp add: take_bit_eq_mod unat_mod)
  note content = F(9) [OF this, folded pg]
  have "client_byte s3 (t OR ?o) \<and> mem s3 (t OR ?o) = mem s2 (t OR ?o)"
    using U(4) F(8) [OF conjunct1 [OF po]] by (simp add: keeps_def)
  then show "holds s3 vb (let o' = unat off + unat ?o in if o' < unat filesz then mem s (src + of_nat o') else 0)"
    unfolding holds_pte [OF U(1,2)] Let_def content [symmetric] using U(6) [OF vb] by simp
qed

section \<open>A segment\<close>

lemma page_add_pages:
  assumes "page v + k < 0x100000"
  shows "page (v + of_nat k * PAGE_SIZE) = page v + k"
proof -
  have lt: "unat v + k * 4096 < 4294967296" using assms by (simp add: page_def)
  have "v + of_nat k * PAGE_SIZE = of_nat (unat v + k * 4096)" by (simp add: PAGE_SIZE_def)
  then have "unat (v + of_nat k * PAGE_SIZE) = unat v + k * 4096" using lt by (metis unat_of_nat32)
  then show ?thesis by (simp add: page_def)
qed

text \<open>The byte that belongs at the virtual address \<open>vb\<close> of a segment whose image starts at the
  page boundary below \<open>vaddr\<close>.\<close>

definition image_byte :: "ram \<Rightarrow> u32 \<Rightarrow> u32 \<Rightarrow> u32 \<Rightarrow> u32 \<Rightarrow> u8" where
  "image_byte m src vaddr filesz vb =
     (let q = unat vb - page vaddr * 4096 in if q < unat filesz then m (src + of_nat q) else 0)"

lemma load_pages_correct:
  assumes "vm_inv s" "user_pde s" "budget s (2 * k + b)" "page vaddr + n < 0x100000" "j + k = n"
    and "\<forall>va. page va \<in> {page vaddr + j..<page vaddr + n} \<longrightarrow> \<not> bit (pte s va) 31"
    and "\<forall>q<unat filesz. client_byte s (src + of_nat q)"
  shows "\<exists>s'. load_pages src vaddr filesz (of_nat j) k s = (True, s') \<and> vm_inv s' \<and> user_pde s' \<and>
    budget s' b \<and> keeps s s' \<and> (\<forall>va. page va \<notin> {page vaddr + j..<page vaddr + n} \<longrightarrow> pte s' va = pte s va) \<and>
    (\<forall>va. page va \<in> {page vaddr + j..<page vaddr + n} \<longrightarrow>
       holds s' va (image_byte (mem s) src vaddr filesz va))"
  using assms
proof (induction k arbitrary: s j)
  case 0
  then show ?case by (intro exI [of _ s]) auto
next
  case (Suc k)
  define v where "v = vaddr + of_nat j * PAGE_SIZE"
  have j: "j < n" using Suc.prems(5) by simp
  have pv: "page v = page vaddr + j" unfolding v_def using Suc.prems(4) j by (intro page_add_pages) simp
  obtain t s1 where al: "allocate_block 1 s = (t, s1)" by fastforce
  have jn: "j < 0x100000" using Suc.prems(4) j by simp
  then have off: "unat (of_nat j * PAGE_SIZE :: u32) = j * 4096"
    using unat_frame_addr [of j] by (simp add: PAGE_SIZE_def)
  define s3 where "s3 = snd (map_page_user t v (s1\<lparr>mem := fill_frame src filesz (of_nat j * PAGE_SIZE) t (mem s1)\<rparr>))"
  have b: "budget s (Suc (Suc (2 * k + b)))" using Suc.prems(3) by simp
  have fresh: "\<not> bit (pte s v) 31" using Suc.prems(6) pv j by simp
  have o4: "unat (of_nat j * PAGE_SIZE :: u32) + 4096 \<le> 4294967296" unfolding off using jn by simp
  have src: "\<And>q. q < unat filesz \<Longrightarrow> client_byte s (src + of_nat q)" using Suc.prems(7) by simp
  note S = load_page_step [OF Suc.prems(1,2) b al fresh src o4 s3_def]
  have lp: "load_pages src vaddr filesz (of_nat j) (Suc k) s = load_pages src vaddr filesz (of_nat (Suc j)) k s3"
    using load_pages_Suc [OF al S(1)] by (simp add: s3_def v_def add.commute)
  have "\<exists>s'. load_pages src vaddr filesz (of_nat (Suc j)) k s3 = (True, s') \<and> vm_inv s' \<and> user_pde s' \<and>
    budget s' b \<and> keeps s3 s' \<and> (\<forall>va. page va \<notin> {page vaddr + Suc j..<page vaddr + n} \<longrightarrow> pte s' va = pte s3 va) \<and>
    (\<forall>va. page va \<in> {page vaddr + Suc j..<page vaddr + n} \<longrightarrow>
       holds s' va (image_byte (mem s3) src vaddr filesz va))"
  proof (rule Suc.IH [OF S(2,3,4) Suc.prems(4)])
    show "Suc j + k = n" using Suc.prems(5) by simp
    show "\<forall>va. page va \<in> {page vaddr + Suc j..<page vaddr + n} \<longrightarrow> \<not> bit (pte s3 va) 31"
      using Suc.prems(6) S(6) pv by simp
    show "\<forall>q<unat filesz. client_byte s3 (src + of_nat q)"
      using S(5) src by (simp add: keeps_def)
  qed
  then obtain s' where s': "load_pages src vaddr filesz (of_nat (Suc j)) k s3 = (True, s')" "vm_inv s'" "user_pde s'" "budget s' b"
    "keeps s3 s'" "\<And>va. page va \<notin> {page vaddr + Suc j..<page vaddr + n} \<Longrightarrow> pte s' va = pte s3 va"
    "\<And>va. page va \<in> {page vaddr + Suc j..<page vaddr + n} \<Longrightarrow> holds s' va (image_byte (mem s3) src vaddr filesz va)"
    by blast
  have img: "image_byte (mem s3) src vaddr filesz va = image_byte (mem s) src vaddr filesz va" for va
    using S(5) src by (simp add: image_byte_def keeps_def Let_def)
  have "holds s' va (image_byte (mem s) src vaddr filesz va)"
    if "page va \<in> {page vaddr + j..<page vaddr + n}" for va
  proof (cases "page va = page v")
    case True
    have o: "unat (va AND 0xFFF) = unat va mod 4096"
      unfolding mask_12 take_bit_eq_mask [symmetric] by (simp add: take_bit_eq_mod unat_mod)
    have "unat va = page va * 4096 + unat va mod 4096" by (simp add: page_def)
    then have "unat va - page vaddr * 4096 = j * 4096 + unat va mod 4096"
      unfolding True pv by (simp add: add_mult_distrib)
    then have "holds s3 va (image_byte (mem s) src vaddr filesz va)"
      using S(7) [OF _ True] unfolding image_byte_def off o by (simp add: Let_def)
    moreover have "pte s' va = pte s3 va" using s'(6) True pv by simp
    ultimately show ?thesis using holds_kept [OF S(2,3) s'(2,3,5)] by blast
  next
    case False
    then show ?thesis using s'(7) [of va] that pv by (simp add: img)
  qed
  moreover have "pte s' va = pte s va" if "page va \<notin> {page vaddr + j..<page vaddr + n}" for va
    using that s'(6) [of va] S(6) [of va] pv j by (cases "page va = page vaddr + j") auto
  ultimately show ?case
    using s'(1,2,3,4) keeps_trans [OF S(5) s'(5)] lp by (intro exI [of _ s']) simp
qed

section \<open>The loader\<close>

definition seg_pages :: "Elf32_Phdr \<Rightarrow> nat" where
  "seg_pages phdr = unat ((p_memsz phdr + PAGE_SIZE - 1) div PAGE_SIZE)"

text \<open>The pages of a segment, as page numbers.\<close>

definition seg_range :: "Elf32_Phdr \<Rightarrow> nat set" where
  "seg_range phdr = {page (p_vaddr phdr)..<page (p_vaddr phdr) + seg_pages phdr}"

text \<open>What a loaded segment looks like from ring 3, with the file's bytes read in \<open>m\<close>.\<close>

definition segment_loaded :: "ram \<Rightarrow> u32 \<Rightarrow> Elf32_Phdr \<Rightarrow> 'a vmm_scheme \<Rightarrow> bool" where
  "segment_loaded m data phdr s' \<longleftrightarrow> (\<forall>va. page va \<in> seg_range phdr \<longrightarrow>
     holds s' va (image_byte m (data + p_offset phdr) (p_vaddr phdr) (p_filesz phdr) va))"

lemma load_segment_correct:
  assumes "vm_inv s" "user_pde s" "budget s (2 * seg_pages phdr + b)"
    and "page (p_vaddr phdr) + seg_pages phdr < 0x100000"
    and "\<forall>va. page va \<in> seg_range phdr \<longrightarrow> \<not> bit (pte s va) 31"
    and "\<forall>q<unat (p_filesz phdr). client_byte s (data + p_offset phdr + of_nat q)"
  shows "\<exists>s'. load_segment data phdr s = (True, s') \<and> vm_inv s' \<and> user_pde s' \<and> budget s' b \<and> keeps s s' \<and>
    segment_loaded (mem s) data phdr s' \<and>
    (\<forall>va. page va \<notin> seg_range phdr \<longrightarrow> pte s' va = pte s va)"
  using load_pages_correct [OF assms(1-4), where j = 0 and src = "data + p_offset phdr" and filesz = "p_filesz phdr"]
    assms(5,6)
  unfolding load_segment_def Let_def seg_range_def seg_pages_def [symmetric] segment_loaded_def by auto

text \<open>The header is read again after the segments are loaded; it is still there.\<close>

lemma keeps_ehdr:
  assumes "keeps s s'" "\<forall>q<52. client_byte s (data + of_nat q)"
  shows "load16 (mem s') (data + 16) = load16 (mem s) (data + 16)"
    "load32 (mem s') (data + 24) = load32 (mem s) (data + 24)"
    "load32 (mem s') (data + 28) = load32 (mem s) (data + 28)"
    "load16 (mem s') (data + 42) = load16 (mem s) (data + 42)"
    "load16 (mem s') (data + 44) = load16 (mem s) (data + 44)"
proof -
  have m: "mem s' (data + of_nat q) = mem s (data + of_nat q)" if "q < 52" for q
    using assms that by (simp add: keeps_def)
  show "load16 (mem s') (data + 16) = load16 (mem s) (data + 16)"
    using m [of 16] m [of 17] by (simp add: load16_def add.assoc)
  show "load32 (mem s') (data + 24) = load32 (mem s) (data + 24)"
    using m [of 24] m [of 25] m [of 26] m [of 27] by (simp add: load32_def add.assoc)
  show "load32 (mem s') (data + 28) = load32 (mem s) (data + 28)"
    using m [of 28] m [of 29] m [of 30] m [of 31] by (simp add: load32_def add.assoc)
  show "load16 (mem s') (data + 42) = load16 (mem s) (data + 42)"
    using m [of 42] m [of 43] by (simp add: load16_def add.assoc)
  show "load16 (mem s') (data + 44) = load16 (mem s) (data + 44)"
    using m [of 44] m [of 45] by (simp add: load16_def add.assoc)
qed

definition elf_ok :: "ram \<Rightarrow> u32 \<Rightarrow> bool" where
  "elf_ok m data \<longleftrightarrow> (let h = read_ehdr m data in e_ident h 0 = 0x7F \<and> e_ident h 1 = 0x45 \<and>
     e_ident h 2 = 0x4C \<and> e_ident h 3 = 0x46 \<and> e_ident h 4 = 1 \<and> e_type h = 2)"

section \<open>What the loader leaves alone\<close>

text \<open>The loader changes the memory, the counter of used frames and the interrupt flag.\<close>

definition loader_only :: "'a vmm_scheme \<Rightarrow> 'a vmm_scheme \<Rightarrow> bool" where
  "loader_only s s' \<longleftrightarrow> (\<exists>m u i. s' = s\<lparr>mem := m, TOTAL_USED_BLOCKS := u, IF_flag := i\<rparr>)"

lemma loader_onlyI: "s' = s\<lparr>mem := m, TOTAL_USED_BLOCKS := u, IF_flag := i\<rparr> \<Longrightarrow> loader_only s s'"
  unfolding loader_only_def by blast

lemma loader_only_pmm: "pmm_only s s' \<Longrightarrow> loader_only s s'"
proof -
  assume "pmm_only s s'"
  then obtain m u where "s' = s\<lparr>mem := m, TOTAL_USED_BLOCKS := u\<rparr>" by (auto simp: pmm_only_def)
  then show ?thesis by (intro loader_onlyI [where m = m and u = u and i = "IF_flag s"]) simp
qed

lemma loader_only_trans [trans]: "loader_only s t \<Longrightarrow> loader_only t u \<Longrightarrow> loader_only s u"
  by (force simp: loader_only_def)

lemma loader_only_map: "loader_only s (snd (map_page_user pa va s))"
proof -
  obtain t i where t: "pmm_only s t" "snd (map_page_user pa va s) = t\<lparr>IF_flag := i\<rparr>"
    using map_page_user_shape [of s pa va] by blast
  obtain m u where "t = s\<lparr>mem := m, TOTAL_USED_BLOCKS := u\<rparr>" using t(1) by (auto simp: pmm_only_def)
  then show ?thesis by (intro loader_onlyI [where m = m and u = u and i = i]) (simp add: t(2))
qed

lemma loader_only_pages: "loader_only s (snd (load_pages src v fs p k s))"
proof (induction k arbitrary: p s)
  case 0
  show ?case by (simp add: loader_only_pmm)
next
  case (Suc k)
  obtain t s1 where al: "allocate_block 1 s = (t, s1)" by fastforce
  have a: "loader_only s s1" by (rule loader_only_pmm [OF pmm_only_alloc [OF al]])
  show ?case
  proof (cases "t = 0")
    case False
    define s2 where "s2 = s1\<lparr>mem := fill_frame src fs (p * PAGE_SIZE) t (mem s1)\<rparr>"
    have "pmm_only s1 s2" unfolding s2_def by (intro pmm_only_intros)
    then have "loader_only s (snd (map_page_user t (v + p * PAGE_SIZE) s2))"
      using loader_only_trans [OF loader_only_trans [OF a loader_only_pmm] loader_only_map] by blast
    with loader_only_trans [OF this Suc.IH] show ?thesis
      using load_pages_Suc [OF al False] by (simp add: s2_def)
  qed (use a al in simp)
qed

lemma loader_only_segments: "loader_only s (snd (load_segments d i l s))"
proof (induction d i l s rule: load_segments.induct)
  case (1 d i l s)
  have seg: "loader_only s s1" if "load_segment d ph s = (ok, s1)" for ph ok s1
    using that loader_only_pages [of s] by (metis load_segment_def snd_conv)
  obtain ok s1 where ls: "load_segment d (read_phdr (mem s) (phdr_addr (mem s) d i)) s = (ok, s1)" by fastforce
  show ?case
    using "1.IH" seg [OF ls] loader_only_trans [OF seg [OF ls]] loader_only_pmm [OF pmm_only_refl, of s]
    by (subst load_segments.simps) (auto simp: ls Let_def)
qed

lemma loader_only_elf: "elf_load d s = (r, s') \<Longrightarrow> loader_only s s'"
  using loader_only_segments [of s d 0 0] loader_only_pmm [OF pmm_only_refl, of s]
  by (auto simp: elf_load_def Let_def split: if_splits prod.splits sum.splits)

section \<open>Properties\<close>

lemma single_segment_loaded:
  assumes "vm_inv s" and "user_pde s" and "elf_ok (mem s) data"
    and "e_phnum (read_ehdr (mem s) data) = 1"
    and "phdr = read_phdr (mem s) (phdr_addr (mem s) data 0)" and "p_type phdr = 1"
    and "budget s (2 * seg_pages phdr + b)" and "page (p_vaddr phdr) + seg_pages phdr < 0x100000"
    and "\<forall>va. page va \<in> seg_range phdr \<longrightarrow> \<not> bit (pte s va) 31"
    and "\<forall>q<52. client_byte s (data + of_nat q)"
    and "\<forall>q<unat (p_filesz phdr). client_byte s (data + p_offset phdr + of_nat q)"
  shows "\<exists>s'. elf_load data s = (Inr (e_entry (read_ehdr (mem s) data)), s') \<and> vm_inv s' \<and> user_pde s' \<and>
    budget s' b \<and> keeps s s' \<and> segment_loaded (mem s) data phdr s' \<and>
    (\<forall>va. page va \<notin> seg_range phdr \<longrightarrow> pte s' va = pte s va)"
proof -
  obtain s' where s': "load_segment data phdr s = (True, s')" "vm_inv s'" "user_pde s'" "budget s' b" "keeps s s'"
    "segment_loaded (mem s) data phdr s'" "\<forall>va. page va \<notin> seg_range phdr \<longrightarrow> pte s' va = pte s va"
    using load_segment_correct [OF assms(1,2,7-9,11)] by blast
  have h: "e_entry (read_ehdr (mem s') data) = e_entry (read_ehdr (mem s) data)"
    "e_phnum (read_ehdr (mem s') data) = 1"
    using keeps_ehdr [OF s'(5) assms(10)] assms(4) by (simp_all add: read_ehdr_def)
  have "load_segments data 1 1 s' = (Inr 1, s')"
    using h(2) by (subst load_segments.simps) simp
  then have "load_segments data 0 0 s = (Inr 1, s')"
    using assms(4-6) s'(1) by (subst load_segments.simps) (simp add: Let_def)
  then have "elf_load data s = (Inr (e_entry (read_ehdr (mem s) data)), s')"
    using assms(3) h(1) by (simp add: elf_load_def elf_ok_def Let_def)
  with s' show ?thesis by blast
qed



text \<open>The small machine with an image in frame 6: one segment of two bytes at \<open>0x400000\<close>.\<close>

definition elf_vm :: vmm where
  "elf_vm = tiny_vm\<lparr>TOTAL_BLOCK := 8, mem := (\<lambda>_. 0)(0x10000 := 0x4b, 0x10002 := 1,
     0x6000 := 0x7F, 0x6001 := 0x45, 0x6002 := 0x4C, 0x6003 := 0x46, 0x6004 := 1, 0x6010 := 2,
     0x601A := 0x40, 0x601C := 52, 0x602A := 32, 0x602C := 1,
     0x6034 := 1, 0x6038 := 84, 0x603E := 0x40, 0x6044 := 2, 0x6048 := 3, 0x6054 := 0xEB, 0x6055 := 0xFE)\<rparr>"

lemma elf_vm_inv:
  "vm_inv elf_vm" "user_pde elf_vm" "budget elf_vm 2" "\<And>va. pte elf_vm va = 0"
  "\<And>a. page a = 6 \<Longrightarrow> client_byte elf_vm a"
proof -
  have nb: "nbits elf_vm = 256" by (simp add: nbits_def elf_vm_def)
  have bm: "page a = 16" if "in_bitmap elf_vm a" for a
  proof -
    from that have "65536 \<le> unat a \<and> unat a < 65568"
      by (simp add: in_bitmap_def elf_vm_def tiny_vm_def in_range_unat)
    then show "page a = 16" unfolding page_def by (intro div_nat_eqI) simp_all
  qed
  have u: "used elf_vm 16" "used elf_vm 0" "used elf_vm 3" "used elf_vm 6"
    "\<not> used elf_vm 2" "\<not> used elf_vm 4" by code_simp+
  have d: "dirf elf_vm = 3" by (simp add: dirf_def elf_vm_def tiny_vm_def page_def)
  have pd: "pde elf_vm i = 0" if "i < 1024" for i
  proof -
    have "entry (mem elf_vm) 3 i = entry (\<lambda>_. 0) 3 i"
      using that by (intro entry_cong) (auto simp: elf_vm_def page_def)
    then show ?thesis by (simp add: pde_def d entry_def load32_def)
  qed
  have p: "pmm_inv elf_vm" using bm u by (auto simp: pmm_inv_def nb)
  have "owned elf_vm 3" using bm u by (auto simp: owned_def taken_def nb)
  moreover have "current_page_directory elf_vm = 0x3000" by (simp add: elf_vm_def tiny_vm_def)
  ultimately show "vm_inv elf_vm" using p d pd by (simp add: vm_inv_def)
  show pt: "pte elf_vm va = 0" for va using pd by (simp add: pte_def)
  then show "user_pde elf_vm" by (simp add: user_pde_def)
  have "{2, 4} \<subseteq> free_frames elf_vm" using u by (simp add: free_frames_def taken_def nb)
  moreover have "finite (free_frames elf_vm)" by (simp add: free_frames_def)
  ultimately have "card {2, 4 :: nat} \<le> card (free_frames elf_vm)" by (intro card_mono)
  then show "budget elf_vm 2" by (simp add: budget_def) (simp add: elf_vm_def tiny_vm_def)
  show "client_byte elf_vm a" if "page a = 6" for a
    using that u(4) bm [of a] pd by (auto simp: client_byte_def taken_def nb pt_frame_def d)
qed

lemma elf_vm_image:
  "elf_ok (mem elf_vm) 0x6000" "e_phnum (read_ehdr (mem elf_vm) 0x6000) = 1"
  "e_entry (read_ehdr (mem elf_vm) 0x6000) = 0x400000"
  "read_phdr (mem elf_vm) (phdr_addr (mem elf_vm) 0x6000 0) =
     \<lparr>p_type = 1, p_offset = 84, p_vaddr = 0x400000, p_filesz = 2, p_memsz = 3\<rparr>"
  by code_simp+



end
