(* ===== verification/Task.thy ===== *)
theory Task
  imports Elf Stdio
begin

text \<open>
  Tasks and the scheduler, \<open>src/kernel/scheduler/task.c\<close>, with the routines of
  \<open>task.asm\<close> and \<open>usermode.asm\<close> it relies on, \<open>tss_set_kernel_stack\<close> of
  \<open>arch/i686/tss.c\<close> and the \<open>malloc\<close> of \<open>lib/stdlib.c\<close> with its kernel side
  \<open>syscall_malloc\<close>.

  The tasks are a store from addresses to \<open>Task\<close> structures, linked from \<open>task\<close> on; the
  kernel stacks behind them are a store of words. The state gains the registers that a task switch saves.
  The addresses of functions whose code is not called here but put on a stack are the argument
  \<open>txt\<close>; what happens while the processor halts and waits for interrupts is the argument
  \<open>hlt\<close>. Walks over the task list are partial functions.

  The lemmas show which task \<open>schedule\<close> picks, that a task that is switched to goes on with the
  registers it was switched away with, where a new task starts, and that tasks are appended to the list.
\<close>

section \<open>State\<close>

record Task =
  t_pid :: u32
  t_state :: u8
  t_is_user :: u8
  t_next :: u32
  t_esp :: u32
  t_user_eip :: u32
  t_user_esp :: u32
  t_priority :: u8
  t_time_slice :: u16
  t_wake_tick :: u32

record kernel = screen +
  task :: u32
  current_task :: u32
  next_taskId :: u16
  tasks :: "u32 \<Rightarrow> Task"
  kstack :: "u32 \<Rightarrow> u32"
  kernel_timer_ms :: u32
  tss_esp0 :: u32
  r_ebx :: u32
  r_esi :: u32
  r_edi :: u32
  r_ebp :: u32
  r_esp :: u32
  r_eip :: u32
  r_eflags :: u32
  r_cs :: u16
  r_ss :: u16
  r_ds :: u16
  r_es :: u16
  r_fs :: u16
  r_gs :: u16

text \<open>Where the code that a stack refers to lies.\<close>

record code_addresses =
  task_exit_addr :: u32
  task_entry_trampoline_addr :: u32
  idle_task_addr :: u32
  usermode_trampoline_addr :: u32

definition TASK_READY :: u8 where "TASK_READY = 1"
definition TASK_RUNNIG :: u8 where "TASK_RUNNIG = 2"
definition TASK_PAUSED :: u8 where "TASK_PAUSED = 3"
definition TASK_COMPLETED :: u8 where "TASK_COMPLETED = 4"
definition TASK_BLOCKED :: u8 where "TASK_BLOCKED = 6"

lemmas task_states = TASK_READY_def TASK_RUNNIG_def TASK_PAUSED_def TASK_COMPLETED_def TASK_BLOCKED_def

definition LOW_TASK :: u8 where "LOW_TASK = 5"
definition MEDIUM_TASK :: u8 where "MEDIUM_TASK = 15"
definition CRITICAL_TASK :: u8 where "CRITICAL_TASK = 60"

definition STACK_SIZE :: u32 where "STACK_SIZE = 4096"
definition TASK_SIZE :: u32 where "TASK_SIZE = 32" \<comment> \<open>\<open>sizeof(Task)\<close>\<close>
definition USER_STACK_VIRT :: u32 where "USER_STACK_VIRT = 0x600000"

definition update_task :: "u32 \<Rightarrow> (Task \<Rightarrow> Task) \<Rightarrow> 'a kernel_scheme \<Rightarrow> 'a kernel_scheme" where
  "update_task p f s = s\<lparr>tasks := (tasks s)(p := f (tasks s p))\<rparr>"

definition tss_set_kernel_stack :: "u32 \<Rightarrow> 'a kernel_scheme \<Rightarrow> 'a kernel_scheme" where
  "tss_set_kernel_stack esp0 s = s\<lparr>tss_esp0 := esp0\<rparr>"

section \<open>malloc\<close>

text \<open>\<open>malloc\<close> raises \<open>int 0x80\<close> with 3 in \<open>eax\<close>; its handler sets up the heap on the first
  call.\<close>

definition malloc :: "u32 \<Rightarrow> 'a heap_scheme \<Rightarrow> (u32 \<times> 'a heap_scheme) option" where
  "malloc bytes s =
     (let s1 = (if malloc_list_head s = 0 then malloc_init bytes s else s)
      in case malloc_next_block bytes s1 of None \<Rightarrow> None
         | Some (ptr, s2) \<Rightarrow> (case merge_free_blocks s2 of None \<Rightarrow> None | Some s3 \<Rightarrow> Some (ptr, s3)))"

section \<open>The processor\<close>

definition eflags :: "'a kernel_scheme \<Rightarrow> u32" where
  "eflags s = (r_eflags s AND NOT 0x200) OR (if IF_flag s then 0x200 else 0)"

definition popfd :: "u32 \<Rightarrow> 'a kernel_scheme \<Rightarrow> 'a kernel_scheme" where
  "popfd w s = s\<lparr>r_eflags := w, IF_flag := bit w 9\<rparr>"

definition push :: "u32 \<Rightarrow> 'a kernel_scheme \<Rightarrow> 'a kernel_scheme" where
  "push v s = s\<lparr>r_esp := r_esp s - 4, kstack := (kstack s)(r_esp s - 4 := v)\<rparr>"

definition stack_top :: "'a kernel_scheme \<Rightarrow> u32" where
  "stack_top s = kstack s (r_esp s)"

definition drop_top :: "'a kernel_scheme \<Rightarrow> 'a kernel_scheme" where
  "drop_top s = s\<lparr>r_esp := r_esp s + 4\<rparr>"

definition ret :: "'a kernel_scheme \<Rightarrow> 'a kernel_scheme" where
  "ret s = drop_top (s\<lparr>r_eip := stack_top s\<rparr>)"

text \<open>\<open>switch_task\<close> of \<open>task.asm\<close>, from its entry, with the return address on the stack.\<close>

definition switch_task :: "u32 \<Rightarrow> u32 \<Rightarrow> 'a kernel_scheme \<Rightarrow> 'a kernel_scheme" where
  "switch_task prev nxt s =
     (let s1 = push (r_edi s) (push (r_esi s) (push (r_ebx s) (push (r_ebp s) (push (eflags s) s))));
          s2 = update_task prev (\<lambda>t. t\<lparr>t_esp := r_esp s1\<rparr>) s1;
          s3 = s2\<lparr>r_esp := t_esp (tasks s2 nxt)\<rparr>;
          s4 = drop_top (s3\<lparr>r_edi := stack_top s3\<rparr>);
          s5 = drop_top (s4\<lparr>r_esi := stack_top s4\<rparr>);
          s6 = drop_top (s5\<lparr>r_ebx := stack_top s5\<rparr>);
          s7 = drop_top (s6\<lparr>r_ebp := stack_top s6\<rparr>);
          s8 = drop_top (popfd (stack_top s7) s7)
      in ret s8)"

definition task_entry_trampoline :: "'a kernel_scheme \<Rightarrow> 'a kernel_scheme" where
  "task_entry_trampoline s = ret (s\<lparr>IF_flag := True\<rparr>)"

text \<open>\<open>enter_usermode\<close> of \<open>usermode.asm\<close>: the frame it pushes is popped by \<open>iret\<close>.\<close>

definition enter_usermode :: "u32 \<Rightarrow> u32 \<Rightarrow> 'a kernel_scheme \<Rightarrow> 'a kernel_scheme" where
  "enter_usermode eip user_esp s =
     (let s1 = s\<lparr>IF_flag := False, r_ebx := (r_ebx s AND 0xFFFF0000) OR 0x23, r_ds := 0x23, r_es := 0x23,
                 r_fs := 0x23, r_gs := 0x23\<rparr>;
          s2 = push eip (push 0x1B (push (eflags s1 OR 0x200) (push user_esp (push 0x23 s1))));
          e = r_esp s2
      in popfd (kstack s2 (e + 8)) (s2\<lparr>r_eip := kstack s2 e, r_cs := ucast (kstack s2 (e + 4)),
           r_esp := kstack s2 (e + 12), r_ss := ucast (kstack s2 (e + 16))\<rparr>))"

definition usermode_trampoline :: "'a kernel_scheme \<Rightarrow> 'a kernel_scheme" where
  "usermode_trampoline s =
     enter_usermode (t_user_eip (tasks s (current_task s))) (t_user_esp (tasks s (current_task s))) s"

section \<open>Making tasks\<close>

text \<open>One turn of the endless loop of \<open>idle_task\<close>; what \<open>task_exit\<close> does before its endless
  loop.\<close>

definition idle_turn :: "('a kernel_scheme \<Rightarrow> 'a kernel_scheme) \<Rightarrow> 'a kernel_scheme \<Rightarrow> 'a kernel_scheme" where
  "idle_turn hlt s = hlt (s\<lparr>IF_flag := True\<rparr>)"

definition task_exit :: "'a kernel_scheme \<Rightarrow> 'a kernel_scheme" where
  "task_exit s = update_task (current_task s) (\<lambda>t. t\<lparr>t_state := TASK_COMPLETED\<rparr>) s"

definition setup_stack :: "code_addresses \<Rightarrow> u32 \<Rightarrow> u32 \<Rightarrow> 'a kernel_scheme \<Rightarrow> u32 \<times> 'a kernel_scheme" where
  "setup_stack txt m entry_fn s =
     (let stack = m + TASK_SIZE + STACK_SIZE
      in (stack - 32, s\<lparr>kstack := (kstack s)(stack - 4 := task_exit_addr txt, stack - 8 := entry_fn,
            stack - 12 := task_entry_trampoline_addr txt, stack - 16 := 0x200, stack - 20 := 0,
            stack - 24 := 0, stack - 28 := 0, stack - 32 := 0)\<rparr>))"

definition init_task :: "code_addresses \<Rightarrow> 'a kernel_scheme \<Rightarrow> 'a kernel_scheme option" where
  "init_task txt s =
     (case malloc (TASK_SIZE + STACK_SIZE) s of None \<Rightarrow> None
      | Some (m, s1) \<Rightarrow>
          let (sp, s2) = setup_stack txt m (idle_task_addr txt) s1
          in Some (s2\<lparr>task := m, next_taskId := next_taskId s2 + 1, current_task := m,
               tasks := (tasks s2)(m := \<lparr>t_pid = ucast (next_taskId s2), t_state = TASK_READY, t_is_user = 0,
                 t_next = 0, t_esp = sp, t_user_eip = 0, t_user_esp = 0, t_priority = LOW_TASK,
                 t_time_slice = ucast LOW_TASK, t_wake_tick = 0\<rparr>)\<rparr>))"

text \<open>The walk to the last task, and the link to the new one.\<close>

partial_function (option) last_task :: "(u32 \<Rightarrow> Task) \<Rightarrow> u32 \<Rightarrow> u32 option" where
  "last_task T cur = (if t_next (T cur) \<noteq> 0 then last_task T (t_next (T cur)) else Some cur)"

definition append_task :: "u32 \<Rightarrow> 'a kernel_scheme \<Rightarrow> 'a kernel_scheme option" where
  "append_task t s =
     (case last_task (tasks s) (task s) of None \<Rightarrow> None
      | Some cur \<Rightarrow> Some (update_task cur (\<lambda>x. x\<lparr>t_next := t\<rparr>) s))"

definition create_task :: "code_addresses \<Rightarrow> u32 \<Rightarrow> 'a kernel_scheme \<Rightarrow> (u32 \<times> 'a kernel_scheme) option" where
  "create_task txt entry_fn s =
     (case malloc (TASK_SIZE + STACK_SIZE) s of None \<Rightarrow> None
      | Some (t, s1) \<Rightarrow>
          let (sp, s2) = setup_stack txt t entry_fn s1;
              s3 = s2\<lparr>next_taskId := next_taskId s2 + 1,
                tasks := (tasks s2)(t := \<lparr>t_pid = ucast (next_taskId s2), t_state = TASK_READY, t_is_user = 0,
                  t_next = 0, t_esp = sp, t_user_eip = 0, t_user_esp = 0, t_priority = CRITICAL_TASK,
                  t_time_slice = ucast CRITICAL_TASK, t_wake_tick = 0\<rparr>)\<rparr>
          in (case append_task t s3 of None \<Rightarrow> None | Some s4 \<Rightarrow> Some (t, s4)))"

text \<open>The return codes of \<open>elf_load\<close> as the \<open>int\<close>s that are printed.\<close>

fun elf_code :: "elf_error \<Rightarrow> u32" where
  "elf_code ELF_ERR_MAGIC = - 1"
| "elf_code ELF_ERR_CLASS = - 2"
| "elf_code ELF_ERR_TYPE = - 3"
| "elf_code ELF_ERR_NO_LOAD = - 4"
| "elf_code ELF_ERR_OOM = - 5"

definition create_user_task_from_elf ::
  "code_addresses \<Rightarrow> u32 \<Rightarrow> 'a kernel_scheme \<Rightarrow> (u32 \<times> 'a kernel_scheme) option" where
  "create_user_task_from_elf txt elf_data s =
     (case elf_load elf_data s of
        (Inl err, s1) \<Rightarrow>
          (case printf put_c (ascii ''create_user_task_from_elf: ELF load failed (err=%d)'' @ [0x0A])
                  (\<lambda>_. elf_code err) s1 of None \<Rightarrow> None | Some s2 \<Rightarrow> Some (0, s2))
      | (Inr entry_fn, s1) \<Rightarrow>
          let (stack_phys, s2) = allocate_block 1 s1;
              s3 = snd (map_page_user stack_phys USER_STACK_VIRT s2)
          in case malloc (TASK_SIZE + STACK_SIZE) s3 of None \<Rightarrow> None
             | Some (t, s4) \<Rightarrow>
                 let (sp, s5) = setup_stack txt t (usermode_trampoline_addr txt) s4;
                     s6 = s5\<lparr>next_taskId := next_taskId s5 + 1,
                       tasks := (tasks s5)(t := \<lparr>t_pid = ucast (next_taskId s5), t_state = TASK_READY,
                         t_is_user = 1, t_next = 0, t_esp = sp, t_user_eip = entry_fn,
                         t_user_esp = USER_STACK_VIRT + PAGE_SIZE, t_priority = MEDIUM_TASK,
                         t_time_slice = ucast MEDIUM_TASK, t_wake_tick = 0\<rparr>)\<rparr>
                 in (case append_task t s6 of None \<Rightarrow> None | Some s7 \<Rightarrow> Some (t, s7)))"

section \<open>The scheduler\<close>

definition runnable :: "Task \<Rightarrow> bool" where
  "runnable t \<longleftrightarrow> t_state t \<noteq> TASK_COMPLETED \<and> t_state t \<noteq> TASK_BLOCKED"

partial_function (option) hlt_loop ::
  "('a kernel_scheme \<Rightarrow> 'a kernel_scheme) \<Rightarrow> 'a kernel_scheme \<Rightarrow> 'a kernel_scheme option" where
  "hlt_loop hlt s = (if runnable (tasks s (current_task s)) then Some s else hlt_loop hlt (hlt s))"

partial_function (option) pick_loop ::
  "('a kernel_scheme \<Rightarrow> 'a kernel_scheme) \<Rightarrow> u32 \<Rightarrow> 'a kernel_scheme \<Rightarrow> 'a kernel_scheme option" where
  "pick_loop hlt start s =
     (let n = t_next (tasks s (current_task s));
          s1 = s\<lparr>current_task := if n = 0 then task s else n\<rparr>
      in case (if current_task s1 = start
               then map_option (\<lambda>s. s\<lparr>IF_flag := False\<rparr>) (hlt_loop hlt (s1\<lparr>IF_flag := True\<rparr>))
               else Some s1) of
           None \<Rightarrow> None
         | Some s2 \<Rightarrow> if runnable (tasks s2 (current_task s2)) then Some s2 else pick_loop hlt start s2)"

definition schedule ::
  "('a kernel_scheme \<Rightarrow> 'a kernel_scheme) \<Rightarrow> 'a kernel_scheme \<Rightarrow> 'a kernel_scheme option" where
  "schedule hlt s =
     (let prev = current_task s;
          s1 = (if runnable (tasks s prev) then update_task prev (\<lambda>t. t\<lparr>t_state := TASK_PAUSED\<rparr>) s else s)
      in case pick_loop hlt prev s1 of None \<Rightarrow> None
         | Some s2 \<Rightarrow>
             let cur = current_task s2;
                 s3 = update_task cur (\<lambda>t. t\<lparr>t_state := TASK_RUNNIG\<rparr>) s2;
                 s4 = tss_set_kernel_stack (cur + TASK_SIZE + STACK_SIZE) s3
             in Some (switch_task prev cur s4))"

section \<open>The heap and the loader leave the tasks alone\<close>

text \<open>All of the kernel's own fields are in \<open>heap.more\<close>.\<close>

lemma more_fields:
  fixes s s' :: "'a kernel_scheme"
  assumes "heap.more s' = heap.more s"
  shows "tasks s' = tasks s" "task s' = task s" "current_task s' = current_task s" "kstack s' = kstack s"
    "next_taskId s' = next_taskId s" "kernel_timer_ms s' = kernel_timer_ms s"
    "g_ScreenX s' = g_ScreenX s" "g_ScreenY s' = g_ScreenY s"
  using assms by (cases s; cases s'; simp)+

lemma more_alloc: "allocate_block n s = (t, s1) \<Longrightarrow> heap.more s1 = heap.more s"
  using allocate_block_shape [of n s] by auto

lemma more_pmm_only: "pmm_only s s' \<Longrightarrow> heap.more s' = heap.more s"
  by (auto simp: pmm_only_def)

lemma more_map_page [simp]: "heap.more (snd (map_page pa va s)) = heap.more s"
  by (rule more_pmm_only [OF map_page_shape])

lemma more_map_page_user [simp]: "heap.more (snd (map_page_user pa va s)) = heap.more s"
  using map_page_user_shape [of s pa va] more_pmm_only by fastforce

lemma more_update32 [simp]: "heap.more (update32 a f s) = heap.more s"
  by (simp add: update32_def)

lemma more_update_block [simp]: "heap.more (update_block a f s) = heap.more s"
  by (simp add: update_block_def)

lemma more_fold: "(\<And>i s. heap.more (f i s) = heap.more s) \<Longrightarrow> heap.more (fold f [0..<k] t) = heap.more t"
  by (induction k) simp_all

lemma more_malloc_init [simp]: "heap.more (malloc_init n s) = heap.more s"
  by (auto simp: malloc_init_def Let_def more_fold split: prod.splits dest!: more_alloc)

lemma more_grow_page [simp]: "heap.more (grow_page c v s) = heap.more s"
  by (auto simp: grow_page_def allocate_page_def Let_def split: prod.splits dest!: more_alloc)

lemma more_malloc_split [simp]: "heap.more (malloc_split node n s) = heap.more s"
  by (simp add: malloc_split_def Let_def)

lemma more_malloc_next: "malloc_next_block n s = Some (p, s') \<Longrightarrow> heap.more s' = heap.more s"
  by (auto simp: malloc_next_block_def grow_def Let_def more_fold split: if_splits option.splits)

lemma more_merge_loop: "merge_loop c s = Some s' \<Longrightarrow> heap.more s' = heap.more s"
  by (erule merge_loop.raw_induct [where P = "\<lambda>c s s'. heap.more s' = heap.more s", rotated])
    (auto simp: Let_def split: if_splits)

lemma more_malloc: "malloc n s = Some (p, s') \<Longrightarrow> heap.more s' = heap.more s"
  by (auto simp: malloc_def merge_free_blocks_def Let_def split: option.splits if_splits
      dest!: more_malloc_next more_merge_loop)

lemma more_elf_load: "elf_load d s = (r, s') \<Longrightarrow> heap.more s' = heap.more s"
  using loader_only_elf [of d s r s'] by (auto simp: loader_only_def)

section \<open>The task list\<close>

fun tlist :: "(u32 \<Rightarrow> Task) \<Rightarrow> u32 \<Rightarrow> u32 list \<Rightarrow> bool" where
  "tlist T p [] \<longleftrightarrow> p = 0"
| "tlist T p (q # qs) \<longleftrightarrow> p = q \<and> q \<noteq> 0 \<and> tlist T (t_next (T q)) qs"

lemma tlist_cong: "(\<And>q. q \<in> set qs \<Longrightarrow> t_next (T' q) = t_next (T q)) \<Longrightarrow> tlist T' p qs = tlist T p qs"
  by (induction qs arbitrary: p) auto

lemma last_task_tlist: "tlist T p qs \<Longrightarrow> qs \<noteq> [] \<Longrightarrow> last_task T p = Some (last qs)"
proof (induction qs arbitrary: p)
  case (Cons q qs)
  then show ?case by (cases qs) (subst last_task.simps, simp)+
qed simp

lemma tlist_append:
  assumes "tlist T p qs" "qs \<noteq> []" "distinct qs" "t \<notin> set qs" "t \<noteq> 0" "t_next (T t) = 0"
  shows "tlist (T(last qs := (T (last qs))\<lparr>t_next := t\<rparr>)) p (qs @ [t])"
  using assms
proof (induction qs arbitrary: p)
  case (Cons q qs)
  show ?case
  proof (cases qs)
    case Nil
    with Cons.prems show ?thesis by auto
  next
    case (Cons r rs)
    then have qs: "qs \<noteq> []" by simp
    with Cons.prems have ne: "q \<noteq> last qs" by (metis distinct.simps(2) last_in_set)
    have "tlist (T(last qs := (T (last qs))\<lparr>t_next := t\<rparr>)) (t_next (T q)) (qs @ [t])"
      by (rule Cons.IH) (use Cons.prems qs in simp_all)
    moreover have "(T(last qs := (T (last qs))\<lparr>t_next := t\<rparr>)) q = T q" using ne by simp
    ultimately show ?thesis using Cons.prems qs by (simp del: fun_upd_apply)
  qed
qed simp

text \<open>The next task in the ring, and a walk along the ring.\<close>

definition ring_next :: "'a kernel_scheme \<Rightarrow> u32 \<Rightarrow> u32" where
  "ring_next s c = (if t_next (tasks s c) = 0 then task s else t_next (tasks s c))"

fun walk :: "'a kernel_scheme \<Rightarrow> u32 \<Rightarrow> u32 list \<Rightarrow> bool" where
  "walk s c [] \<longleftrightarrow> True"
| "walk s c (d # ds) \<longleftrightarrow> ring_next s c = d \<and> walk s d ds"

lemma walk_append: "walk s c (xs @ ys) \<longleftrightarrow> walk s c xs \<and> walk s (last (c # xs)) ys"
  by (induction xs arbitrary: c) auto

lemma tlist_walk: "tlist (tasks s) p (c # qs) \<Longrightarrow> walk s c qs \<and> ring_next s (last (c # qs)) = task s"
proof (induction qs arbitrary: c p)
  case Nil
  then show ?case by (simp add: ring_next_def)
next
  case (Cons d ds)
  then have n: "t_next (tasks s c) = d" "d \<noteq> 0" by simp_all
  have "tlist (tasks s) d (d # ds)" using Cons.prems by simp
  with Cons.IH n show ?case by (simp add: ring_next_def)
qed

lemma tlist_suffix: "tlist T p (pre @ c # post) \<Longrightarrow> tlist T c (c # post)"
  by (induction pre arbitrary: p) auto

lemma ring_walk:
  assumes "tlist (tasks s) (task s) (pre @ c # post)"
  shows "walk s c (post @ pre @ [c])"
proof -
  have suf: "walk s c post \<and> ring_next s (last (c # post)) = task s"
    by (rule tlist_walk [OF tlist_suffix [OF assms]])
  show ?thesis
  proof (cases pre)
    case Nil
    then have "task s = c" using assms by simp
    with suf Nil show ?thesis by (simp add: walk_append)
  next
    case (Cons h hs)
    then have h: "task s = h" using assms by simp
    have "walk s h (hs @ c # post)" using tlist_walk [of s "task s" h "hs @ c # post"] assms Cons by simp
    then have "walk s h (hs @ [c])" by (simp add: walk_append)
    with suf h Cons show ?thesis by (simp add: walk_append)
  qed
qed

section \<open>Which task is picked\<close>

text \<open>The reference: the first runnable task after the current one in the ring, and last of all the
  current one.\<close>

definition rotation :: "u32 list \<Rightarrow> u32 \<Rightarrow> u32 list" where
  "rotation ps c = tl (dropWhile (\<lambda>p. p \<noteq> c) ps) @ takeWhile (\<lambda>p. p \<noteq> c) ps @ [c]"

definition next_runnable :: "(u32 \<Rightarrow> Task) \<Rightarrow> u32 list \<Rightarrow> u32 \<Rightarrow> u32 option" where
  "next_runnable T ps c = find (\<lambda>p. runnable (T p)) (rotation ps c)"

lemma rotation_split: "c \<notin> set pre \<Longrightarrow> rotation (pre @ c # post) c = post @ pre @ [c]"
proof -
  assume "c \<notin> set pre"
  then have "dropWhile (\<lambda>p. p \<noteq> c) (pre @ c # post) = c # post" "takeWhile (\<lambda>p. p \<noteq> c) (pre @ c # post) = pre"
    by (induction pre) auto
  then show ?thesis by (simp add: rotation_def)
qed

lemma pick_loop_step:
  "pick_loop hlt start (s\<lparr>current_task := c\<rparr>) =
    (case (if ring_next s c = start
           then map_option (\<lambda>s. s\<lparr>IF_flag := False\<rparr>) (hlt_loop hlt (s\<lparr>current_task := ring_next s c, IF_flag := True\<rparr>))
           else Some (s\<lparr>current_task := ring_next s c\<rparr>)) of
       None \<Rightarrow> None
     | Some s2 \<Rightarrow> if runnable (tasks s2 (current_task s2)) then Some s2 else pick_loop hlt start s2)"
  by (subst pick_loop.simps) (simp add: ring_next_def Let_def)

lemma pick_loop_walk:
  assumes "walk s c (xs @ [start])" "start \<notin> set xs" "find (\<lambda>p. runnable (tasks s p)) (xs @ [start]) = Some d"
  shows "\<exists>i. pick_loop hlt start (s\<lparr>current_task := c\<rparr>) = Some (s\<lparr>current_task := d, IF_flag := i\<rparr>) \<and>
    (d \<noteq> start \<longrightarrow> i = IF_flag s) \<and> (d = start \<longrightarrow> \<not> i)"
  using assms
proof (induction xs arbitrary: c)
  case Nil
  then have d: "d = start" "runnable (tasks s start)" "ring_next s c = start" by (simp_all split: if_splits)
  then have "pick_loop hlt start (s\<lparr>current_task := c\<rparr>) = Some (s\<lparr>current_task := start, IF_flag := False\<rparr>)"
    unfolding pick_loop_step by (subst hlt_loop.simps) simp
  with d show ?case by blast
next
  case (Cons x xs)
  then have x: "ring_next s c = x" "x \<noteq> start" by auto
  have step: "pick_loop hlt start (s\<lparr>current_task := c\<rparr>) =
      (if runnable (tasks s x) then Some (s\<lparr>current_task := x\<rparr>) else pick_loop hlt start (s\<lparr>current_task := x\<rparr>))"
    by (subst pick_loop_step) (use x in simp)
  show ?case
  proof (cases "runnable (tasks s x)")
    case True
    then have "d = x" using Cons.prems(3) by simp
    moreover have "s\<lparr>current_task := x\<rparr> = s\<lparr>current_task := x, IF_flag := IF_flag s\<rparr>" by simp
    ultimately show ?thesis using True step x(2) by metis
  next
    case False
    with Cons step show ?thesis by simp
  qed
qed

lemma pick_loop_next:
  assumes "tlist (tasks s) (task s) ps" "distinct ps" "current_task s \<in> set ps"
    "next_runnable (tasks s) ps (current_task s) = Some d"
  shows "\<exists>i. pick_loop hlt (current_task s) s = Some (s\<lparr>current_task := d, IF_flag := i\<rparr>) \<and>
    (d \<noteq> current_task s \<longrightarrow> i = IF_flag s) \<and> (d = current_task s \<longrightarrow> \<not> i)"
proof -
  let ?c = "current_task s"
  obtain pre post where ps: "ps = pre @ ?c # post" "?c \<notin> set pre" by (metis assms(3) split_list_first)
  then have "?c \<notin> set (post @ pre)" using assms(2) by auto
  moreover have "walk s ?c ((post @ pre) @ [?c])" using ring_walk [of s pre ?c post] assms(1) ps by simp
  moreover have "find (\<lambda>p. runnable (tasks s p)) ((post @ pre) @ [?c]) = Some d"
    using assms(4) ps rotation_split [OF ps(2), of post] by (simp add: next_runnable_def)
  ultimately show ?thesis using pick_loop_walk [of s ?c "post @ pre" ?c d hlt] by simp
qed

section \<open>Switching\<close>

definition saved_tasks :: "u32 \<Rightarrow> 'a kernel_scheme \<Rightarrow> u32 \<Rightarrow> Task" where
  "saved_tasks prev s = (tasks s)(prev := (tasks s prev)\<lparr>t_esp := r_esp s - 20\<rparr>)"

definition saved_stack :: "'a kernel_scheme \<Rightarrow> u32 \<Rightarrow> u32" where
  "saved_stack s = (kstack s)(r_esp s - 4 := eflags s, r_esp s - 8 := r_ebp s, r_esp s - 12 := r_ebx s,
     r_esp s - 16 := r_esi s, r_esp s - 20 := r_edi s)"

lemma switch_task_effect:
  assumes f: "f = t_esp (saved_tasks prev s nxt)" and K: "K = saved_stack s"
  shows "switch_task prev nxt s = s\<lparr>kstack := K, tasks := saved_tasks prev s, r_edi := K f,
    r_esi := K (f + 4), r_ebx := K (f + 8), r_ebp := K (f + 12), r_eflags := K (f + 16),
    IF_flag := bit (K (f + 16)) 9, r_eip := K (f + 20), r_esp := f + 24\<rparr>"
proof -
  let ?s = "s\<lparr>kstack := K, tasks := saved_tasks prev s\<rparr>"
  define s1 where "s1 = push (r_edi s) (push (r_esi s) (push (r_ebx s) (push (r_ebp s) (push (eflags s) s))))"
  define s2 where "s2 = update_task prev (\<lambda>t. t\<lparr>t_esp := r_esp s1\<rparr>) s1"
  define s3 where "s3 = s2\<lparr>r_esp := t_esp (tasks s2 nxt)\<rparr>"
  define s4 where "s4 = drop_top (s3\<lparr>r_edi := stack_top s3\<rparr>)"
  define s5 where "s5 = drop_top (s4\<lparr>r_esi := stack_top s4\<rparr>)"
  define s6 where "s6 = drop_top (s5\<lparr>r_ebx := stack_top s5\<rparr>)"
  define s7 where "s7 = drop_top (s6\<lparr>r_ebp := stack_top s6\<rparr>)"
  define s8 where "s8 = drop_top (popfd (stack_top s7) s7)"
  have "s1 = s\<lparr>kstack := K, r_esp := r_esp s - 20\<rparr>"
    by (simp add: s1_def push_def K saved_stack_def)
  then have "s2 = ?s\<lparr>r_esp := r_esp s - 20\<rparr>"
    by (simp add: s2_def update_task_def saved_tasks_def)
  then have "s3 = ?s\<lparr>r_esp := f\<rparr>" by (simp add: s3_def f)
  then have "s4 = ?s\<lparr>r_edi := K f, r_esp := f + 4\<rparr>" by (simp add: s4_def drop_top_def stack_top_def)
  then have "s5 = ?s\<lparr>r_edi := K f, r_esi := K (f + 4), r_esp := f + 8\<rparr>"
    by (simp add: s5_def drop_top_def stack_top_def)
  then have "s6 = ?s\<lparr>r_edi := K f, r_esi := K (f + 4), r_ebx := K (f + 8), r_esp := f + 12\<rparr>"
    by (simp add: s6_def drop_top_def stack_top_def)
  then have "s7 = ?s\<lparr>r_edi := K f, r_esi := K (f + 4), r_ebx := K (f + 8), r_ebp := K (f + 12),
      r_esp := f + 16\<rparr>" by (simp add: s7_def drop_top_def stack_top_def)
  then have s8: "s8 = ?s\<lparr>r_edi := K f, r_esi := K (f + 4), r_ebx := K (f + 8), r_ebp := K (f + 12),
      r_eflags := K (f + 16), IF_flag := bit (K (f + 16)) 9, r_esp := f + 20\<rparr>"
    by (simp add: s8_def drop_top_def stack_top_def popfd_def)
  have "switch_task prev nxt s = ret s8"
    unfolding switch_task_def Let_def s8_def s7_def s6_def s5_def s4_def s3_def s2_def s1_def ..
  also have "\<dots> = s\<lparr>kstack := K, tasks := saved_tasks prev s, r_edi := K f,
    r_esi := K (f + 4), r_ebx := K (f + 8), r_ebp := K (f + 12), r_eflags := K (f + 16),
    IF_flag := bit (K (f + 16)) 9, r_eip := K (f + 20), r_esp := f + 24\<rparr>"
    unfolding s8 by (simp add: ret_def drop_top_def stack_top_def)
  finally show ?thesis .
qed

text \<open>The six words that \<open>switch_task\<close> leaves for a task whose stack pointer was \<open>e\<close>: five
  registers and the return address.\<close>

definition frame :: "u32 \<Rightarrow> u32 set" where
  "frame e = {e - 20, e - 16, e - 12, e - 8, e - 4, e}"

definition pushed :: "'a kernel_scheme \<Rightarrow> u32 set" where
  "pushed s = {r_esp s - 20, r_esp s - 16, r_esp s - 12, r_esp s - 8, r_esp s - 4}"

lemma saved_stack_other: "a \<notin> pushed s \<Longrightarrow> saved_stack s a = kstack s a"
  by (simp add: saved_stack_def pushed_def)

lemma bit_eflags_9: "bit (eflags s) 9 = IF_flag s"
proof -
  have "bit (0x200 :: u32) 9" "\<not> bit (NOT 0x200 :: u32) 9" by code_simp+
  then show ?thesis by (simp add: eflags_def bit_or_iff bit_and_iff)
qed

lemma switch_back:
  assumes s1: "s1 = switch_task a b s"
    and same: "t_esp (tasks s2 a) = t_esp (tasks s1 a)" "\<And>x. x \<in> frame (r_esp s) \<Longrightarrow> kstack s2 x = kstack s1 x"
    and off: "c \<noteq> a" "pushed s2 \<inter> frame (r_esp s) = {}"
  shows "r_ebx (switch_task c a s2) = r_ebx s \<and> r_esi (switch_task c a s2) = r_esi s \<and>
    r_edi (switch_task c a s2) = r_edi s \<and> r_ebp (switch_task c a s2) = r_ebp s \<and>
    IF_flag (switch_task c a s2) = IF_flag s \<and> r_esp (switch_task c a s2) = r_esp s + 4 \<and>
    r_eip (switch_task c a s2) = kstack s (r_esp s)"
proof -
  define e where "e = r_esp s"
  note eff = switch_task_effect [OF refl refl]
  have f: "t_esp (saved_tasks c s2 a) = e - 20"
    using same(1) off(1) by (simp add: s1 eff saved_tasks_def e_def)
  have w: "saved_stack s2 x = saved_stack s x" if "x \<in> frame e" for x
    using same(2) off(2) that saved_stack_other [of x s2] by (auto simp: s1 eff e_def)
  have K: "saved_stack s2 (e - 20) = r_edi s" "saved_stack s2 (e - 20 + 4) = r_esi s"
    "saved_stack s2 (e - 20 + 8) = r_ebx s" "saved_stack s2 (e - 20 + 12) = r_ebp s"
    "saved_stack s2 (e - 20 + 16) = eflags s" "saved_stack s2 (e - 20 + 20) = kstack s e"
    by (subst w, simp add: frame_def, simp add: saved_stack_def e_def)+
  show ?thesis
    unfolding eff f by (simp only: K bit_eflags_9 kernel.simps select_convs update_convs) (simp add: e_def)
qed

section \<open>A new task's stack\<close>

definition new_words :: "u32 \<Rightarrow> u32 set" where
  "new_words m = {m + 4096, m + 4100, m + 4104, m + 4108, m + 4112, m + 4116, m + 4120, m + 4124}"

definition fresh_stack :: "code_addresses \<Rightarrow> u32 \<Rightarrow> u32 \<Rightarrow> (u32 \<Rightarrow> u32) \<Rightarrow> bool" where
  "fresh_stack txt m f K \<longleftrightarrow> K (m + 4096) = 0 \<and> K (m + 4100) = 0 \<and> K (m + 4104) = 0 \<and> K (m + 4108) = 0 \<and>
     K (m + 4112) = 0x200 \<and> K (m + 4116) = task_entry_trampoline_addr txt \<and> K (m + 4120) = f \<and>
     K (m + 4124) = task_exit_addr txt"

lemma fresh_stack_cong: "(\<And>x. x \<in> new_words m \<Longrightarrow> K' x = K x) \<Longrightarrow> fresh_stack txt m f K' = fresh_stack txt m f K"
  by (simp add: fresh_stack_def new_words_def)

lemma setup_stack_fresh:
  "setup_stack txt m f s = (sp, s') \<Longrightarrow> sp = m + 4096 \<and> (\<exists>K. s' = s\<lparr>kstack := K\<rparr> \<and> fresh_stack txt m f K)"
  by (auto simp: setup_stack_def fresh_stack_def TASK_SIZE_def STACK_SIZE_def Let_def)

lemma start_task:
  assumes "t_esp (tasks s t) = t + 4096" "fresh_stack txt t f (kstack s)" "c \<noteq> t" "pushed s \<inter> new_words t = {}"
    and s1: "s1 = switch_task c t s" and s2: "s2 = task_entry_trampoline s1"
  shows "r_eip s1 = task_entry_trampoline_addr txt" "IF_flag s1"
    "s2 = s1\<lparr>IF_flag := True, r_eip := f, r_esp := t + 4124\<rparr>" "stack_top s2 = task_exit_addr txt"
    "tasks s1 = saved_tasks c s" "current_task s1 = current_task s"
proof -
  have e: "t_esp (saved_tasks c s t) = t + 4096" using assms(1,3) by (simp add: saved_tasks_def)
  have "fresh_stack txt t f (saved_stack s) = fresh_stack txt t f (kstack s)"
    by (rule fresh_stack_cong, rule saved_stack_other) (use assms(4) in auto)
  then have K: "fresh_stack txt t f (saved_stack s)" using assms(2) by simp
  have b: "bit (0x200 :: u32) 9" by code_simp
  note E = switch_task_effect [of "t + 4096" c s t, OF e [symmetric] refl, folded s1]
  show "r_eip s1 = task_entry_trampoline_addr txt" "IF_flag s1" "tasks s1 = saved_tasks c s"
    "current_task s1 = current_task s"
    unfolding E using K b by (simp_all add: fresh_stack_def add.commute)
  show "s2 = s1\<lparr>IF_flag := True, r_eip := f, r_esp := t + 4124\<rparr>" "stack_top s2 = task_exit_addr txt"
    unfolding s2 E using K by (simp_all add: fresh_stack_def add.commute task_entry_trampoline_def ret_def drop_top_def stack_top_def)
qed

lemma enter_usermode_effect:
  "r_eip (enter_usermode eip usp s) = eip" "r_esp (enter_usermode eip usp s) = usp"
  "r_cs (enter_usermode eip usp s) = 0x1B" "r_ss (enter_usermode eip usp s) = 0x23"
  "r_ds (enter_usermode eip usp s) = 0x23" "IF_flag (enter_usermode eip usp s)"
proof -
  have b: "bit (w OR 0x200 :: u32) 9" for w
  proof -
    have "bit (0x200 :: u32) 9" by code_simp
    then show ?thesis by (simp add: bit_or_iff)
  qed
  show "r_eip (enter_usermode eip usp s) = eip" "r_esp (enter_usermode eip usp s) = usp"
    "r_cs (enter_usermode eip usp s) = 0x1B" "r_ss (enter_usermode eip usp s) = 0x23"
    "r_ds (enter_usermode eip usp s) = 0x23" "IF_flag (enter_usermode eip usp s)"
    by (simp_all add: enter_usermode_def popfd_def push_def Let_def b)
qed

section \<open>Creating a task\<close>

lemma append_task_effect:
  assumes "tlist (tasks s) (task s) ps" "ps \<noteq> []" "distinct ps" "t \<notin> set ps" "t \<noteq> 0"
    and s1: "s1 = s\<lparr>kstack := K, next_taskId := n, tasks := (tasks s)(t := x)\<rparr>" "t_next x = 0"
  shows "append_task t s1 = Some (update_task (last ps) (\<lambda>y. y\<lparr>t_next := t\<rparr>) s1)"
    "tlist (tasks (update_task (last ps) (\<lambda>y. y\<lparr>t_next := t\<rparr>) s1)) (task s) (ps @ [t])"
proof -
  have "tlist (tasks s1) (task s) ps = tlist (tasks s) (task s) ps"
    by (rule tlist_cong) (use assms(4) in \<open>auto simp: s1\<close>)
  with assms(1) have tl: "tlist (tasks s1) (task s) ps" by simp
  then show "append_task t s1 = Some (update_task (last ps) (\<lambda>y. y\<lparr>t_next := t\<rparr>) s1)"
    using last_task_tlist [OF tl assms(2)] by (simp add: append_task_def s1(1))
  show "tlist (tasks (update_task (last ps) (\<lambda>y. y\<lparr>t_next := t\<rparr>) s1)) (task s) (ps @ [t])"
    using tlist_append [OF tl assms(2,3,4,5)] by (simp add: update_task_def s1)
qed

section \<open>One call of schedule\<close>

lemma runnable_states:
  "runnable (t\<lparr>t_state := TASK_PAUSED\<rparr>)" "runnable (t\<lparr>t_state := TASK_RUNNIG\<rparr>)"
  by (simp_all add: runnable_def task_states)

lemma update_task_simps [simp]:
  "tasks (update_task p f s) = (tasks s)(p := f (tasks s p))" "task (update_task p f s) = task s"
  "current_task (update_task p f s) = current_task s" "kstack (update_task p f s) = kstack s"
  "kernel_timer_ms (update_task p f s) = kernel_timer_ms s" "IF_flag (update_task p f s) = IF_flag s"
  by (simp_all add: update_task_def)

text \<open>What \<open>schedule\<close> writes to a task: its state, and a saved stack pointer.\<close>

definition rescheduled :: "Task \<Rightarrow> Task" where
  "rescheduled t = t\<lparr>t_state := 0, t_esp := 0\<rparr>"

text \<open>\<open>schedule\<close> is one \<open>switch_task\<close> from a state that differs from the one before in the
  interrupt flag, the current task, the states of two tasks and the stack for interrupts.\<close>

lemma schedule_switches:
  assumes "tlist (tasks s) (task s) ps" "distinct ps" "current_task s = c" "c \<in> set ps"
    "next_runnable (tasks s) ps c = Some d"
  shows "\<exists>i T. schedule hlt s = Some (switch_task c d (s\<lparr>IF_flag := i, current_task := d, tasks := T, tss_esp0 := d + 4128\<rparr>)) \<and>
    (d \<noteq> c \<longrightarrow> i = IF_flag s) \<and> (d = c \<longrightarrow> \<not> i) \<and>
    (\<forall>p. T p = (if p = d then (tasks s p)\<lparr>t_state := TASK_RUNNIG\<rparr>
       else if p = c \<and> runnable (tasks s c) then (tasks s p)\<lparr>t_state := TASK_PAUSED\<rparr> else tasks s p))"
proof -
  define s1 where "s1 = (if runnable (tasks s c) then update_task c (\<lambda>t. t\<lparr>t_state := TASK_PAUSED\<rparr>) s else s)"
  have s1: "s1 = s\<lparr>tasks := tasks s1\<rparr>" by (simp add: s1_def update_task_def)
  have run: "runnable (tasks s1 p) = runnable (tasks s p)" for p
    by (auto simp: s1_def runnable_states)
  have T: "t_next (tasks s1 p) = t_next (tasks s p)" for p by (simp add: s1_def)
  have "tlist (tasks s1) (task s) ps = tlist (tasks s) (task s) ps" by (rule tlist_cong) (rule T)
  moreover have "task s1 = task s" by (simp add: s1_def)
  ultimately have "tlist (tasks s1) (task s1) ps" using assms(1) by simp
  moreover have c1: "current_task s1 = c" "IF_flag s1 = IF_flag s" using assms(3) by (simp_all add: s1_def)
  moreover have "next_runnable (tasks s1) ps c = Some d" using assms(5) by (simp add: next_runnable_def run)
  ultimately obtain i where p: "pick_loop hlt c s1 = Some (s1\<lparr>current_task := d, IF_flag := i\<rparr>)"
    "d \<noteq> c \<longrightarrow> i = IF_flag s" "d = c \<longrightarrow> \<not> i"
    using pick_loop_next [of s1 ps d hlt] assms(2,4) by auto
  define U where "U = (tasks s1)(d := (tasks s1 d)\<lparr>t_state := TASK_RUNNIG\<rparr>)"
  have "tss_set_kernel_stack (d + TASK_SIZE + STACK_SIZE)
      (update_task d (\<lambda>t. t\<lparr>t_state := TASK_RUNNIG\<rparr>) (s1\<lparr>current_task := d, IF_flag := i\<rparr>)) =
      s\<lparr>IF_flag := i, current_task := d, tasks := U, tss_esp0 := d + 4128\<rparr>"
    by (subst s1) (simp add: tss_set_kernel_stack_def update_task_def U_def TASK_SIZE_def STACK_SIZE_def)
  then have "schedule hlt s = Some (switch_task c d (s\<lparr>IF_flag := i, current_task := d, tasks := U, tss_esp0 := d + 4128\<rparr>))"
    using p(1) by (simp add: schedule_def s1_def [symmetric] assms(3) Let_def)
  moreover have "U p = (if p = d then (tasks s p)\<lparr>t_state := TASK_RUNNIG\<rparr>
       else if p = c \<and> runnable (tasks s c) then (tasks s p)\<lparr>t_state := TASK_PAUSED\<rparr> else tasks s p)" for p
    by (simp add: U_def s1_def)
  ultimately show ?thesis using p(2,3) by blast
qed

lemma schedule_effect:
  assumes "tlist (tasks s) (task s) ps" "distinct ps" "current_task s = c" "c \<in> set ps"
    "next_runnable (tasks s) ps c = Some d"
  shows "\<exists>s'. schedule hlt s = Some s' \<and> current_task s' = d \<and> task s' = task s \<and>
    tss_esp0 s' = d + 4128 \<and> kernel_timer_ms s' = kernel_timer_ms s \<and>
    (\<forall>p. rescheduled (tasks s' p) = rescheduled (tasks s p)) \<and>
    (\<forall>p. t_state (tasks s' p) = (if p = d then TASK_RUNNIG
       else if p = c \<and> runnable (tasks s c) then TASK_PAUSED else t_state (tasks s p)))"
proof -
  obtain i T where sch: "schedule hlt s = Some (switch_task c d (s\<lparr>IF_flag := i, current_task := d, tasks := T, tss_esp0 := d + 4128\<rparr>))"
    and T: "\<forall>p. T p = (if p = d then (tasks s p)\<lparr>t_state := TASK_RUNNIG\<rparr>
       else if p = c \<and> runnable (tasks s c) then (tasks s p)\<lparr>t_state := TASK_PAUSED\<rparr> else tasks s p)"
    using schedule_switches [OF assms, of hlt] by blast
  note E = switch_task_effect [OF refl refl, of c d]
  show ?thesis unfolding sch E by (simp add: saved_tasks_def T rescheduled_def)
qed

lemma next_runnable_exists:
  assumes "distinct ps" "c \<in> set ps" "p \<in> set ps" "runnable (T p)"
  shows "\<exists>d. next_runnable T ps c = Some d \<and> d \<in> set ps \<and> runnable (T d)"
proof -
  obtain pre post where ps: "ps = pre @ c # post" "c \<notin> set pre" by (metis assms(2) split_list_first)
  then have set: "set (rotation ps c) = set ps" using rotation_split [OF ps(2), of post] by auto
  then have "\<exists>q\<in>set (rotation ps c). runnable (T q)" using assms(3,4) by blast
  then obtain d where d: "find (\<lambda>p. runnable (T p)) (rotation ps c) = Some d"
    by (metis find_None_iff not_None_eq)
  then have "d \<in> set (rotation ps c)" "runnable (T d)" by (auto simp: find_Some_iff)
  with d set show ?thesis by (simp add: next_runnable_def)
qed

section \<open>What a created task looks like\<close>

lemma append_task_t_esp:
  "append_task t s = Some s' \<Longrightarrow> (tasks s' p)\<lparr>t_next := 0\<rparr> = (tasks s p)\<lparr>t_next := 0\<rparr> \<and> kstack s' = kstack s"
  by (auto simp: append_task_def split: option.splits)

lemma append_task_fields:
  assumes "append_task t s = Some s'"
  shows "t_esp (tasks s' p) = t_esp (tasks s p)" "t_user_eip (tasks s' p) = t_user_eip (tasks s p)"
    "t_user_esp (tasks s' p) = t_user_esp (tasks s p)" "kstack s' = kstack s"
  using assms by (auto simp: append_task_def split: option.splits)

lemma create_task_stack:
  assumes "create_task txt f s = Some (t, s')"
  shows "t_esp (tasks s' t) = t + 4096 \<and> fresh_stack txt t f (kstack s')"
proof -
  obtain s1 sp s2 where "setup_stack txt t f s1 = (sp, s2)"
    and a: "append_task t (s2\<lparr>next_taskId := next_taskId s2 + 1,
                tasks := (tasks s2)(t := \<lparr>t_pid = ucast (next_taskId s2), t_state = TASK_READY, t_is_user = 0,
                  t_next = 0, t_esp = sp, t_user_eip = 0, t_user_esp = 0, t_priority = CRITICAL_TASK,
                  t_time_slice = ucast CRITICAL_TASK, t_wake_tick = 0\<rparr>)\<rparr>) = Some s'"
    using assms by (auto simp: create_task_def Let_def split: option.splits prod.splits)
  with setup_stack_fresh show ?thesis
    using append_task_fields [OF a] by fastforce
qed

lemma create_user_task_stack:
  assumes "create_user_task_from_elf txt data s = Some (t, s')" "elf_load data s = (Inr f, s0)"
  shows "t_esp (tasks s' t) = t + 4096 \<and> fresh_stack txt t (usermode_trampoline_addr txt) (kstack s') \<and>
    t_user_eip (tasks s' t) = f \<and> t_user_esp (tasks s' t) = 0x601000"
proof -
  obtain s1 sp s2 where "setup_stack txt t (usermode_trampoline_addr txt) s1 = (sp, s2)"
    and a: "append_task t (s2\<lparr>next_taskId := next_taskId s2 + 1,
                tasks := (tasks s2)(t := \<lparr>t_pid = ucast (next_taskId s2), t_state = TASK_READY, t_is_user = 1,
                  t_next = 0, t_esp = sp, t_user_eip = f, t_user_esp = USER_STACK_VIRT + PAGE_SIZE,
                  t_priority = MEDIUM_TASK, t_time_slice = ucast MEDIUM_TASK, t_wake_tick = 0\<rparr>)\<rparr>) = Some s'"
    using assms by (auto simp: create_user_task_from_elf_def Let_def split: option.splits prod.splits)
  with setup_stack_fresh show ?thesis
    using append_task_fields [OF a] by (fastforce simp: USER_STACK_VIRT_def PAGE_SIZE_def)
qed

lemma create_task_shape:
  assumes "create_task txt f s = Some (t, s')" and tl: "tlist (tasks s) (task s) ps" "ps \<noteq> []"
    "distinct ps" "t \<notin> set ps" "t \<noteq> 0"
  shows "\<exists>K x. s' = update_task (last ps) (\<lambda>y. y\<lparr>t_next := t\<rparr>) x \<and> tlist (tasks s') (task s) (ps @ [t]) \<and>
    next_taskId x = next_taskId s + 1 \<and> task x = task s \<and> current_task x = current_task s \<and>
    tasks x = (tasks s)(t := K) \<and>
    t_state K = TASK_READY \<and> t_pid K = ucast (next_taskId s)"
proof -
  obtain s1 sp s2 where m: "malloc (TASK_SIZE + STACK_SIZE) s = Some (t, s1)"
    and st: "setup_stack txt t f s1 = (sp, s2)"
    using assms(1) by (auto simp: create_task_def Let_def split: option.splits prod.splits)
  define x where "x = \<lparr>t_pid = ucast (next_taskId s), t_state = TASK_READY, t_is_user = 0,
                  t_next = 0, t_esp = sp, t_user_eip = 0, t_user_esp = 0, t_priority = CRITICAL_TASK,
                  t_time_slice = ucast CRITICAL_TASK, t_wake_tick = 0\<rparr>"
  obtain K where s2: "s2 = s1\<lparr>kstack := K\<rparr>" using setup_stack_fresh [OF st] by blast
  note M = more_fields [OF more_malloc [OF m]]
  define s3 where "s3 = s1\<lparr>kstack := K, next_taskId := next_taskId s1 + 1, tasks := (tasks s1)(t := x)\<rparr>"
  have a: "append_task t s3 = Some s'"
    using assms(1) by (simp add: create_task_def m st s2 s3_def x_def M Let_def split: option.splits)
  have "tlist (tasks s1) (task s1) ps" using tl(1) by (simp add: M)
  note A = append_task_effect [OF this tl(2-5) s3_def]
  have "s' = update_task (last ps) (\<lambda>y. y\<lparr>t_next := t\<rparr>) s3" using a A(1) by (simp add: x_def)
  with A(2) show ?thesis by (intro exI [of _ x] exI [of _ s3]) (simp add: s3_def x_def M)
qed

lemma create_user_task_shape:
  assumes "create_user_task_from_elf txt data s = Some (t, s')" "elf_load data s = (Inr f, s0)"
    and tl: "tlist (tasks s) (task s) ps" "ps \<noteq> []" "distinct ps" "t \<notin> set ps" "t \<noteq> 0"
  shows "tlist (tasks s') (task s') (ps @ [t]) \<and> task s' = task s \<and> current_task s' = current_task s \<and>
    (\<forall>p. t_state (tasks s' p) = (if p = t then TASK_READY else t_state (tasks s p)))"
proof -
  obtain a s1 where al: "allocate_block 1 s0 = (a, s1)" by fastforce
  define s2 where "s2 = snd (map_page_user a USER_STACK_VIRT s1)"
  obtain s3 sp s4 where m: "malloc (TASK_SIZE + STACK_SIZE) s2 = Some (t, s3)"
    and st: "setup_stack txt t (usermode_trampoline_addr txt) s3 = (sp, s4)"
    using assms(1) by (auto simp: create_user_task_from_elf_def assms(2) al s2_def Let_def split: option.splits prod.splits)
  define x where "x = \<lparr>t_pid = ucast (next_taskId s3), t_state = TASK_READY, t_is_user = 1,
                       t_next = 0, t_esp = sp, t_user_eip = f, t_user_esp = USER_STACK_VIRT + PAGE_SIZE,
                       t_priority = MEDIUM_TASK, t_time_slice = ucast MEDIUM_TASK, t_wake_tick = 0\<rparr>"
  obtain K where s4: "s4 = s3\<lparr>kstack := K\<rparr>" using setup_stack_fresh [OF st] by blast
  have "heap.more s3 = heap.more s"
    using more_malloc [OF m] more_alloc [OF al] more_elf_load [OF assms(2)] by (simp add: s2_def)
  note M = more_fields [OF this]
  define s5 where "s5 = s3\<lparr>kstack := K, next_taskId := next_taskId s3 + 1, tasks := (tasks s3)(t := x)\<rparr>"
  have a: "append_task t s5 = Some s'"
    using assms(1) by (simp add: create_user_task_from_elf_def assms(2) al s2_def [symmetric] m st s4 s5_def x_def
        Let_def split: option.splits)
  have "tlist (tasks s3) (task s3) ps" using tl(1) by (simp add: M)
  note A = append_task_effect [OF this tl(2-5) s5_def]
  have s': "s' = update_task (last ps) (\<lambda>y. y\<lparr>t_next := t\<rparr>) s5" using a A(1) by (simp add: x_def)
  have "last ps \<noteq> t" using tl(2,4) last_in_set by metis
  then have "t_state (tasks s' p) = (if p = t then TASK_READY else t_state (tasks s p))" for p
    by (simp add: s' s5_def x_def M)
  moreover have "tlist (tasks s') (task s') (ps @ [t])" using A(2) by (simp add: s' x_def s5_def)
  ultimately show ?thesis by (simp add: s' s5_def M)
qed

section \<open>Properties\<close>

text \<open>C21 \<open>schedule\<close> switches to the first runnable task after the current one in the ring of the
  task list, and to the current one only when no other can run. It never waits when a task can run; the
  picked task is the only one it marks as running, the old one is paused if it was neither completed
  nor blocked, and the kernel stack for interrupts is the picked task's.\<close>

theorem schedule_picks_next:
  assumes "tlist (tasks s) (task s) ps" and "distinct ps" and "current_task s \<in> set ps"
    and "p \<in> set ps" and "runnable (tasks s p)"
  shows "\<exists>s' d. next_runnable (tasks s) ps (current_task s) = Some d \<and> schedule hlt s = Some s' \<and>
    current_task s' = d \<and> d \<in> set ps \<and> runnable (tasks s d) \<and> tss_esp0 s' = d + 4128 \<and>
    (\<forall>q. t_state (tasks s' q) = (if q = d then TASK_RUNNIG
       else if q = current_task s \<and> runnable (tasks s q) then TASK_PAUSED else t_state (tasks s q)))"
proof -
  obtain d where d: "next_runnable (tasks s) ps (current_task s) = Some d" "d \<in> set ps" "runnable (tasks s d)"
    using next_runnable_exists [where T = "tasks s", OF assms(2-5)] by blast
  obtain s' where "schedule hlt s = Some s'" "current_task s' = d" "tss_esp0 s' = d + 4128"
    "\<forall>q. t_state (tasks s' q) = (if q = d then TASK_RUNNIG
       else if q = current_task s \<and> runnable (tasks s (current_task s)) then TASK_PAUSED
       else t_state (tasks s q))"
    using schedule_effect [OF assms(1,2) refl assms(3) d(1), of hlt] by blast
  with d show ?thesis by (intro exI [of _ s'] exI [of _ d]) auto
qed

text \<open>C22 A task that is switched away from and later switched back to, with its saved words and its
  saved stack pointer as they were left, goes on behind its call of \<open>switch_task\<close> with the same
  registers and the same interrupt flag.\<close>

theorem switch_task_roundtrip:
  assumes "s1 = switch_task a b s" and "t_esp (tasks s2 a) = t_esp (tasks s1 a)"
    and "\<forall>x\<in>frame (r_esp s). kstack s2 x = kstack s1 x"
    and "c \<noteq> a" and "pushed s2 \<inter> frame (r_esp s) = {}"
  shows "r_ebx (switch_task c a s2) = r_ebx s \<and> r_esi (switch_task c a s2) = r_esi s \<and>
    r_edi (switch_task c a s2) = r_edi s \<and> r_ebp (switch_task c a s2) = r_ebp s \<and>
    IF_flag (switch_task c a s2) = IF_flag s \<and> r_esp (switch_task c a s2) = r_esp s + 4 \<and>
    r_eip (switch_task c a s2) = kstack s (r_esp s)"
  by (rule switch_back [OF assms(1,2) _ assms(4,5)]) (use assms(3) in blast)

text \<open>C23 The first switch to a task that \<open>create_task\<close> made goes to the trampoline, and from there
  to the task's function, with interrupts on, empty registers and \<open>task_exit\<close> as the return
  address.\<close>

theorem new_task_starts:
  assumes "create_task txt f s = Some (t, s0)"
    and "t_esp (tasks s1 t) = t_esp (tasks s0 t)" and "\<forall>x\<in>new_words t. kstack s1 x = kstack s0 x"
    and "c \<noteq> t" and "pushed s1 \<inter> new_words t = {}"
    and "s2 = switch_task c t s1" and "s3 = task_entry_trampoline s2"
  shows "r_eip s2 = task_entry_trampoline_addr txt \<and> r_eip s3 = f \<and> IF_flag s3 \<and>
    r_esp s3 = t + 4124 \<and> stack_top s3 = task_exit_addr txt"
proof -
  have c: "t_esp (tasks s0 t) = t + 4096 \<and> fresh_stack txt t f (kstack s0)"
    using create_task_stack [OF assms(1)] .
  have k: "fresh_stack txt t f (kstack s1)"
    using c fresh_stack_cong [of t "kstack s1" "kstack s0"] assms(3) by blast
  have e: "t_esp (tasks s1 t) = t + 4096" using c assms(2) by simp
  note S = start_task [OF e k assms(4-7)]
  show ?thesis using S(1,4) by (simp add: S(3))
qed

lemma user_task_first_run:
  assumes "create_user_task_from_elf txt data s = Some (t, s0)" and "elf_load data s = (Inr f, s')"
    and "t_esp (tasks s1 t) = t_esp (tasks s0 t)" and "t_user_eip (tasks s1 t) = t_user_eip (tasks s0 t)"
    and "t_user_esp (tasks s1 t) = t_user_esp (tasks s0 t)" and "\<forall>x\<in>new_words t. kstack s1 x = kstack s0 x"
    and "c \<noteq> t" and "pushed s1 \<inter> new_words t = {}" and "current_task s1 = t"
    and "s2 = task_entry_trampoline (switch_task c t s1)" and "s3 = usermode_trampoline s2"
  shows "r_eip s2 = usermode_trampoline_addr txt \<and> r_eip s3 = f \<and> r_esp s3 = 0x601000 \<and>
    r_cs s3 = 0x1B \<and> r_ss s3 = 0x23 \<and> r_ds s3 = 0x23 \<and> IF_flag s3"
proof -
  have c: "t_esp (tasks s0 t) = t + 4096 \<and> fresh_stack txt t (usermode_trampoline_addr txt) (kstack s0) \<and>
      t_user_eip (tasks s0 t) = f \<and> t_user_esp (tasks s0 t) = 0x601000"
    using create_user_task_stack [OF assms(1,2)] .
  have k: "fresh_stack txt t (usermode_trampoline_addr txt) (kstack s1)"
    using c fresh_stack_cong [of t "kstack s1" "kstack s0"] assms(6) by blast
  have e: "t_esp (tasks s1 t) = t + 4096" using c assms(3) by simp
  note S = start_task [OF e k assms(7,8) refl assms(10)]
  have cur: "current_task s2 = t" and T: "tasks s2 = saved_tasks c s1"
    using S(5,6) assms(9) by (simp_all add: S(3))
  have "t_user_eip (tasks s2 t) = f" "t_user_esp (tasks s2 t) = 0x601000"
    using c assms(4,5,7) by (simp_all add: T saved_tasks_def)
  moreover have "r_eip s2 = usermode_trampoline_addr txt" by (simp add: S(3))
  ultimately show ?thesis
    by (simp add: assms(11) usermode_trampoline_def cur enter_usermode_effect)
qed

text \<open>C24 A task made from a program image starts in ring 3 at the image's entry point: the first
  switch to it, the trampolines and \<open>enter_usermode\<close> load the user segments, the top of the user
  stack page and the interrupt flag.\<close>

theorem user_task_starts:
  assumes "create_user_task_from_elf txt data s = Some (t, s0)" and "elf_load data s = (Inr f, s')"
    and "t_esp (tasks s1 t) = t_esp (tasks s0 t)" and "t_user_eip (tasks s1 t) = t_user_eip (tasks s0 t)"
    and "t_user_esp (tasks s1 t) = t_user_esp (tasks s0 t)" and "\<forall>x\<in>new_words t. kstack s1 x = kstack s0 x"
    and "c \<noteq> t" and "pushed s1 \<inter> new_words t = {}" and "current_task s1 = t"
    and "s2 = task_entry_trampoline (switch_task c t s1)" and "s3 = usermode_trampoline s2"
  shows "r_eip s2 = usermode_trampoline_addr txt \<and> r_eip s3 = f \<and> r_esp s3 = 0x601000 \<and>
    r_cs s3 = 0x1B \<and> r_ss s3 = 0x23 \<and> r_ds s3 = 0x23 \<and> IF_flag s3"
  using assms by (rule user_task_first_run)

text \<open>\<open>create_task\<close> puts the new task at the end of the list, ready and with the next number; the
  other tasks only have their links changed.\<close>

theorem create_task_appends:
  assumes "create_task txt f s = Some (t, s')" and "tlist (tasks s) (task s) ps" and "ps \<noteq> []"
    and "distinct ps" and "t \<notin> set ps" and "t \<noteq> 0"
  shows "tlist (tasks s') (task s') (ps @ [t]) \<and> t_state (tasks s' t) = TASK_READY \<and>
    t_pid (tasks s' t) = ucast (next_taskId s) \<and> next_taskId s' = next_taskId s + 1 \<and>
    (\<forall>p. p \<noteq> t \<longrightarrow> (tasks s' p)\<lparr>t_next := 0\<rparr> = (tasks s p)\<lparr>t_next := 0\<rparr>)"
proof -
  obtain K x where s': "s' = update_task (last ps) (\<lambda>y. y\<lparr>t_next := t\<rparr>) x"
    "tlist (tasks s') (task s) (ps @ [t])" and x: "next_taskId x = next_taskId s + 1" "task x = task s"
    "tasks x = (tasks s)(t := K)" "t_state K = TASK_READY" "t_pid K = ucast (next_taskId s)"
    using create_task_shape [OF assms] by auto
  have "last ps \<noteq> t" using assms(3,5) last_in_set by metis
  with s' x show ?thesis by (auto simp: update_task_def)
qed

section \<open>Concrete machines\<close>

text \<open>Two tasks, at \<open>0x1000\<close> and \<open>0x8000\<close>, the first one current; a heap with one free block; and
  at \<open>0x6000\<close> a program image whose only segment is empty.\<close>

definition demo_task :: "u8 \<Rightarrow> u32 \<Rightarrow> Task" where
  "demo_task st nxt = \<lparr>t_pid = 0, t_state = st, t_is_user = 0, t_next = nxt, t_esp = 0x9000, t_user_eip = 0,
     t_user_esp = 0, t_priority = 5, t_time_slice = 5, t_wake_tick = 0\<rparr>"

definition image_mem :: ram where
  "image_mem = (\<lambda>_. 0)(0x6000 := 0x7F, 0x6001 := 0x45, 0x6002 := 0x4C, 0x6003 := 0x46, 0x6004 := 1,
     0x6010 := 2, 0x601A := 0x40, 0x601C := 52, 0x602A := 32, 0x602C := 1, 0x6034 := 1)"

definition demo_screen :: screen where
  "demo_screen = heap.extend ((one_page_heap (\<lambda>_. \<lparr>bsize = 12276, bfree = True, bnext = 0\<rparr>))\<lparr>mem := image_mem\<rparr>)
     \<lparr>port_log = [], g_ScreenX = 0, g_ScreenY = 0\<rparr>"

definition two_tasks :: "u8 \<Rightarrow> u8 \<Rightarrow> kernel" where
  "two_tasks st1 st2 = screen.extend demo_screen
     \<lparr>task = 0x1000, current_task = 0x1000, next_taskId = 2,
      tasks = (\<lambda>_. demo_task st2 0)(0x1000 := demo_task st1 0x8000), kstack = (\<lambda>_. 0), kernel_timer_ms = 0,
      tss_esp0 = 0, r_ebx = 1, r_esi = 2, r_edi = 3, r_ebp = 4, r_esp = 0x5000, r_eip = 0, r_eflags = 2,
      r_cs = 8, r_ss = 0x10, r_ds = 0x10, r_es = 0x10, r_fs = 0x10, r_gs = 0x10\<rparr>"

lemma two_tasks_simps [simp]:
  "task (two_tasks a b) = 0x1000" "current_task (two_tasks a b) = 0x1000" "next_taskId (two_tasks a b) = 2"
  "tasks (two_tasks a b) = (\<lambda>_. demo_task b 0)(0x1000 := demo_task a 0x8000)"
  "r_esp (two_tasks a b) = 0x5000" "kernel_timer_ms (two_tasks a b) = 0" "mem (two_tasks a b) = image_mem"
  "malloc_list_head (two_tasks a b) = 0xD1000000"
  "blocks (two_tasks a b) = (\<lambda>_. \<lparr>bsize = 12276, bfree = True, bnext = 0\<rparr>)"
  "g_ScreenX (two_tasks a b) = 0" "g_ScreenY (two_tasks a b) = 0" "port_log (two_tasks a b) = []"
  by (simp_all add: two_tasks_def demo_screen_def screen.defs heap.defs one_page_heap_def vmm.defs)

lemma demo_task_simps [simp]:
  "t_state (demo_task a n) = a" "t_next (demo_task a n) = n" "t_esp (demo_task a n) = 0x9000"
  "t_time_slice (demo_task a n) = 5" "t_priority (demo_task a n) = 5" "t_wake_tick (demo_task a n) = 0"
  by (simp_all add: demo_task_def)

lemma two_tasks_list: "tlist (tasks (two_tasks a b)) (task (two_tasks a b)) [0x1000, 0x8000]"
  by simp

lemma schedule_picks_next_witness:
  "\<exists>s'. schedule id (two_tasks TASK_RUNNIG TASK_READY) = Some s' \<and> current_task s' = 0x8000 \<and>
     t_state (tasks s' 0x8000) = TASK_RUNNIG \<and> t_state (tasks s' 0x1000) = TASK_PAUSED"
proof -
  let ?s = "two_tasks TASK_RUNNIG TASK_READY"
  have "next_runnable (tasks ?s) [0x1000, 0x8000] (current_task ?s) = Some 0x8000"
    by (simp add: next_runnable_def rotation_def runnable_def task_states)
  moreover have "runnable (tasks ?s 0x1000)" by (simp add: runnable_def task_states)
  ultimately show ?thesis
    using schedule_picks_next [where p = "0x1000" and hlt = id, OF two_tasks_list [of TASK_RUNNIG TASK_READY]] by auto
qed

lemma switch_task_roundtrip_witness:
  "r_esp (switch_task 0x8000 0x1000 (switch_task 0x1000 0x8000 (two_tasks TASK_RUNNIG TASK_READY))) = 0x5004"
proof -
  have "r_esp (switch_task 0x1000 0x8000 (two_tasks TASK_RUNNIG TASK_READY)) = 0x9018"
    by (simp add: switch_task_effect [OF refl refl] saved_tasks_def)
  then have "pushed (switch_task 0x1000 0x8000 (two_tasks TASK_RUNNIG TASK_READY)) \<inter> frame (r_esp (two_tasks TASK_RUNNIG TASK_READY)) = {}"
    by (simp add: pushed_def frame_def)
  from switch_task_roundtrip [OF refl refl _ _ this, of "0x8000"] show ?thesis by simp
qed

text \<open>The heap of the machine serves a task.\<close>

lemma malloc_one_block_split:
  assumes "malloc_list_head s = 0xD1000000" "blocks s 0xD1000000 = \<lparr>bsize = 12276, bfree = True, bnext = 0\<rparr>"
  shows "malloc 4128 s = Some (0xD100000C, malloc_split 0xD1000000 4128 s)"
proof -
  have "find_block (blocks s) 4128 0xD1000000 = Some 0xD1000000"
    by (subst find_block.simps) (simp add: assms)
  then have "malloc_next_block 4128 s = Some (0xD100000C, malloc_split 0xD1000000 4128 s)"
    by (simp add: malloc_next_block_def assms HDR_def Let_def)
  moreover have "merge_free_blocks (malloc_split 0xD1000000 4128 s) = Some (malloc_split 0xD1000000 4128 s)"
  proof -
    let ?t = "malloc_split 0xD1000000 4128 s"
    have h: "malloc_list_head ?t = 0xD1000000" by (simp add: malloc_split_def update_block_def Let_def assms)
    have b: "bnext (blocks ?t 0xD1000000) = 0xD100102C" "\<not> bfree (blocks ?t 0xD1000000)"
      "bnext (blocks ?t 0xD100102C) = 0"
      by (simp_all add: malloc_split_def update_block_def Let_def HDR_def assms)
    have "merge_loop 0xD100102C ?t = Some ?t" by (subst merge_loop.simps) (simp add: b)
    then have "merge_loop 0xD1000000 ?t = Some ?t" by (subst merge_loop.simps) (simp add: b Let_def)
    then show ?thesis by (simp add: merge_free_blocks_def h)
  qed
  ultimately show ?thesis by (simp add: malloc_def assms)
qed

lemmas malloc_one_block = exI [where P = "\<lambda>s'. malloc 4128 s = Some (0xD100000C, s')" for s, OF malloc_one_block_split]

lemma demo_append:
  assumes "tasks s = (\<lambda>_. demo_task b 0)(0x1000 := demo_task a 0x8000)" "task s = 0x1000" "t \<notin> {0x1000, 0x8000}" "t \<noteq> 0"
    "t_next x = 0"
  shows "\<exists>s'. append_task t (s\<lparr>kstack := K, next_taskId := n, tasks := (tasks s)(t := x)\<rparr>) = Some s'"
  using append_task_effect(1) [of s "[0x1000, 0x8000]" t, OF _ _ _ _ assms(4) refl assms(5)] assms(1-3) by auto

definition demo_code :: code_addresses where
  "demo_code = \<lparr>task_exit_addr = 0xC0001000, task_entry_trampoline_addr = 0xC0002000,
     idle_task_addr = 0xC0003000, usermode_trampoline_addr = 0xC0004000\<rparr>"

lemma demo_stack:
  "(\<And>K. setup_stack txt 0xD100000C f s = (0xD100100C, s\<lparr>kstack := K\<rparr>) \<Longrightarrow> thesis) \<Longrightarrow> thesis"
  by (simp add: setup_stack_def Let_def TASK_SIZE_def STACK_SIZE_def)

lemma demo_create: "\<exists>s0. create_task demo_code 0xC0005000 (two_tasks a b) = Some (0xD100000C, s0)"
proof -
  obtain s1 where m: "malloc 4128 (two_tasks a b) = Some (0xD100000C, s1)"
    using malloc_one_block [of "two_tasks a b"] by auto
  obtain K where st: "setup_stack demo_code 0xD100000C 0xC0005000 s1 = (0xD100100C, s1\<lparr>kstack := K\<rparr>)"
    by (rule demo_stack)
  have sz: "TASK_SIZE + STACK_SIZE = 4128" by (simp add: TASK_SIZE_def STACK_SIZE_def)
  note M = more_fields [OF more_malloc [OF m]]
  show ?thesis
    using demo_append [where s = s1 and b = b and a = a and t = "0xD100000C" and K = K and n = 3]
    by (simp add: create_task_def sz m st Let_def M split: option.split)
qed

lemma new_task_starts_witness:
  "\<exists>s0. create_task demo_code 0xC0005000 (two_tasks TASK_RUNNIG TASK_READY) = Some (0xD100000C, s0) \<and>
     r_eip (task_entry_trampoline (switch_task 0x1000 0xD100000C (s0\<lparr>r_esp := 0x5000\<rparr>))) = 0xC0005000"
proof -
  obtain s0 where s0: "create_task demo_code 0xC0005000 (two_tasks TASK_RUNNIG TASK_READY) = Some (0xD100000C, s0)"
    using demo_create by blast
  have "pushed (s0\<lparr>r_esp := 0x5000\<rparr>) \<inter> new_words 0xD100000C = {}" by (simp add: pushed_def new_words_def)
  from new_task_starts [OF s0 _ _ _ this refl refl, of "0x1000"] s0 show ?thesis by simp
qed

lemma create_task_appends_witness:
  "\<exists>s0. create_task demo_code 0xC0005000 (two_tasks TASK_RUNNIG TASK_READY) = Some (0xD100000C, s0) \<and>
     tlist (tasks s0) (task s0) [0x1000, 0x8000, 0xD100000C] \<and> t_pid (tasks s0 0xD100000C) = 2"
proof -
  obtain s0 where s0: "create_task demo_code 0xC0005000 (two_tasks TASK_RUNNIG TASK_READY) = Some (0xD100000C, s0)"
    using demo_create by blast
  from create_task_appends [OF s0 two_tasks_list] s0 show ?thesis by simp
qed

lemma image_fields:
  "e_ident (read_ehdr image_mem 0x6000) 0 = 0x7F" "e_ident (read_ehdr image_mem 0x6000) 1 = 0x45"
  "e_ident (read_ehdr image_mem 0x6000) 2 = 0x4C" "e_ident (read_ehdr image_mem 0x6000) 3 = 0x46"
  "e_ident (read_ehdr image_mem 0x6000) 4 = 1" "e_type (read_ehdr image_mem 0x6000) = 2"
  "e_phnum (read_ehdr image_mem 0x6000) = 1" "e_entry (read_ehdr image_mem 0x6000) = 0x400000"
  "read_phdr image_mem (phdr_addr image_mem 0x6000 0) =
     \<lparr>p_type = 1, p_offset = 0, p_vaddr = 0, p_filesz = 0, p_memsz = 0\<rparr>"
  by code_simp+

lemma image_loads:
  assumes "mem s = image_mem" shows "elf_load 0x6000 s = (Inr 0x400000, s)"
proof -
  note h = image_fields
  have "load_segments 0x6000 1 1 s = (Inr 1, s)"
    by (subst load_segments.simps) (simp add: h assms)
  then have "load_segments 0x6000 0 0 s = (Inr 1, s)"
    by (subst load_segments.simps) (simp add: h assms load_segment_def PAGE_SIZE_def Let_def)
  then show ?thesis by (simp add: elf_load_def h [unfolded One_nat_def] assms Let_def)
qed

lemma demo_elf: "elf_load 0x6000 (two_tasks a b) = (Inr 0x400000, two_tasks a b)"
  by (rule image_loads) simp

text \<open>The allocation of the user stack leaves the heap's fields and the kernel's.\<close>

lemma vmm_more_shape: "pmm_only s s' \<Longrightarrow> vmm.more s' = vmm.more s"
  by (auto simp: pmm_only_def)

lemma demo_create_user:
  "\<exists>s0. create_user_task_from_elf demo_code 0x6000 (two_tasks a b) = Some (0xD100000C, s0)"
proof -
  let ?s = "two_tasks a b"
  obtain ph s2 where al: "allocate_block 1 ?s = (ph, s2)" by fastforce
  define s3 where "s3 = snd (map_page_user ph USER_STACK_VIRT s2)"
  obtain v i where v: "pmm_only s2 v" "s3 = v\<lparr>IF_flag := i\<rparr>"
    using map_page_user_shape [of s2 ph USER_STACK_VIRT] by (auto simp: s3_def)
  have "vmm.more s3 = vmm.more ?s"
    using vmm_more_shape [OF v(1)] vmm_more_shape [OF pmm_only_alloc [OF al]] by (simp add: v(2))
  then have h: "malloc_list_head s3 = 0xD1000000" "blocks s3 = (\<lambda>_. \<lparr>bsize = 12276, bfree = True, bnext = 0\<rparr>)"
    and M3: "heap.more s3 = heap.more ?s"
    by (cases s3; cases ?s; simp; metis two_tasks_simps(8,9) heap.select_convs)+
  obtain s1 where m: "malloc 4128 s3 = Some (0xD100000C, s1)" using malloc_one_block [OF h(1)] by (auto simp: h(2))
  have more: "heap.more s1 = heap.more ?s" using more_malloc [OF m] M3 by simp
  obtain K where st: "setup_stack demo_code 0xD100000C (usermode_trampoline_addr demo_code) s1 =
    (0xD100100C, s1\<lparr>kstack := K\<rparr>)" by (rule demo_stack)
  have sz: "TASK_SIZE + STACK_SIZE = 4128" by (simp add: TASK_SIZE_def STACK_SIZE_def)
  note M = more_fields [OF more]
  show ?thesis
    using demo_append [where s = s1 and b = b and a = a and t = "0xD100000C" and K = K and n = 3]
    by (simp add: create_user_task_from_elf_def demo_elf al s3_def [symmetric] sz m st Let_def M split: option.split)
qed

lemma user_task_starts_witness:
  "\<exists>s0. create_user_task_from_elf demo_code 0x6000 (two_tasks TASK_RUNNIG TASK_READY) = Some (0xD100000C, s0) \<and>
     r_eip (usermode_trampoline (task_entry_trampoline (switch_task 0x1000 0xD100000C
       (s0\<lparr>r_esp := 0x5000, current_task := 0xD100000C\<rparr>)))) = 0x400000"
proof -
  obtain s0 where s0: "create_user_task_from_elf demo_code 0x6000 (two_tasks TASK_RUNNIG TASK_READY) = Some (0xD100000C, s0)"
    using demo_create_user by blast
  have "pushed (s0\<lparr>r_esp := 0x5000, current_task := 0xD100000C\<rparr>) \<inter> new_words 0xD100000C = {}"
    by (simp add: pushed_def new_words_def)
  from user_task_starts [OF s0 demo_elf _ _ _ _ _ this _ refl refl, of "0x1000"] s0 show ?thesis by simp
qed

end
