(* ===== verification/Pic.thy ===== *)
theory Pic
  imports Task
begin

text \<open>
  The interrupt controllers, the timer, the real-time clock and the keyboard:
  \<open>src/kernel/interrupts/pic.c\<close> and \<open>src/kernel/keyboard/keyboard.c\<close>.

  A handler is a function on the state, from its first to its last statement; the frame the processor
  pushes and \<open>iret\<close> pops is left out. Ports are read from the devices \<open>dev\<close>. Polling loops
  and the walk over the task list are partial functions. \<open>key_info\<close> is the memory at
  \<open>0x1600\<close>; the scancode table of the keyboard handler is followed in memory by bytes that are the
  argument \<open>beyond\<close>. The lemmas show what the handlers write, which tasks a tick wakes, and what is
  stored for a key.
\<close>

record board = kernel +
  rtc_ticks :: u16
  input_buffer :: "nat \<Rightarrow> u8"

section \<open>Interrupt controllers\<close>

definition PIC_1_CMD :: u16 where "PIC_1_CMD = 0x20"
definition PIC_1_DATA :: u16 where "PIC_1_DATA = 0x21"
definition PIC_2_CMD :: u16 where "PIC_2_CMD = 0xA0"
definition PIC_2_DATA :: u16 where "PIC_2_DATA = 0xA1"
definition PIC_EOI :: u8 where "PIC_EOI = 0x20"
definition NEW_IRQ_0 :: u8 where "NEW_IRQ_0 = 0x20"
definition NEW_IRQ_8 :: u8 where "NEW_IRQ_8 = 0x28"

lemmas pic_ports = PIC_1_CMD_def PIC_1_DATA_def PIC_2_CMD_def PIC_2_DATA_def PIC_EOI_def

definition send_pic_eoi :: "u8 \<Rightarrow> 'a io_scheme \<Rightarrow> 'a io_scheme" where
  "send_pic_eoi irq s = outb PIC_1_CMD PIC_EOI (if irq \<ge> 8 then outb PIC_2_CMD PIC_EOI s else s)"

definition disable_pic :: "'a io_scheme \<Rightarrow> 'a io_scheme" where
  "disable_pic s = outb PIC_1_DATA 0xFF (outb PIC_2_DATA 0xFF s)"

definition set_irq_mask :: "devices \<Rightarrow> u8 \<Rightarrow> 'a io_scheme \<Rightarrow> 'a io_scheme" where
  "set_irq_mask dev irq s =
     (let (port, irq) = (if irq < 8 then (PIC_1_DATA, irq) else (PIC_2_DATA, irq - 8));
          v = inb dev port s OR ucast (push_bit (unat irq) (1 :: u32))
      in outb port v s)"

definition clear_irq_mask :: "devices \<Rightarrow> u8 \<Rightarrow> 'a io_scheme \<Rightarrow> 'a io_scheme" where
  "clear_irq_mask dev irq s =
     (let (port, irq) = (if irq < 8 then (PIC_1_DATA, irq) else (PIC_2_DATA, irq - 8));
          v = inb dev port s AND ucast (NOT (push_bit (unat irq) (1 :: u32)))
      in outb port v s)"

definition remap_pic :: "devices \<Rightarrow> 'a io_scheme \<Rightarrow> 'a io_scheme" where
  "remap_pic dev s =
     (let pic_1_mask = inb dev PIC_1_DATA s;
          pic_2_mask = inb dev PIC_2_DATA s;
          s1 = io_wait (outb PIC_2_CMD 0x11 (io_wait (outb PIC_1_CMD 0x11 s)));
          s2 = io_wait (outb PIC_2_DATA NEW_IRQ_8 (io_wait (outb PIC_1_DATA NEW_IRQ_0 s1)));
          s3 = io_wait (outb PIC_2_DATA 0x2 (io_wait (outb PIC_1_DATA 0x4 s2)));
          s4 = io_wait (outb PIC_2_DATA 0x1 (io_wait (outb PIC_1_DATA 0x1 s3)))
      in outb PIC_2_DATA pic_2_mask (outb PIC_1_DATA pic_1_mask s4))"

section \<open>The timer\<close>

text \<open>The loop over the task list.\<close>

definition wake :: "u32 \<Rightarrow> Task \<Rightarrow> Task" where
  "wake now t = (if t_state t = TASK_BLOCKED \<and> now \<ge> t_wake_tick t then t\<lparr>t_state := TASK_READY\<rparr> else t)"

partial_function (option) wake_loop :: "u32 \<Rightarrow> 'a kernel_scheme \<Rightarrow> 'a kernel_scheme option" where
  "wake_loop t s =
     (if t = 0 then Some s
      else let s' = update_task t (wake (kernel_timer_ms s)) s in wake_loop (t_next (tasks s' t)) s')"

definition timer_irq0_handler ::
  "('a kernel_scheme \<Rightarrow> 'a kernel_scheme) \<Rightarrow> 'a kernel_scheme \<Rightarrow> 'a kernel_scheme option" where
  "timer_irq0_handler hlt s =
     (let s1 = s\<lparr>kernel_timer_ms := kernel_timer_ms s + 10\<rparr>
      in case wake_loop (task s1) s1 of None \<Rightarrow> None
         | Some s2 \<Rightarrow>
             let cur = current_task s2;
                 s3 = (if t_time_slice (tasks s2 cur) > 0
                       then update_task cur (\<lambda>t. t\<lparr>t_time_slice := t_time_slice t - 1\<rparr>) s2 else s2)
             in if t_time_slice (tasks s3 cur) = 0
                then let s4 = update_task cur (\<lambda>t. t\<lparr>t_time_slice := ucast (t_priority t)\<rparr>) s3
                     in schedule hlt (send_pic_eoi 0 s4)
                else Some (send_pic_eoi 0 s3))"

definition set_pit_channel_mode_frequency :: "u8 \<Rightarrow> u8 \<Rightarrow> u16 \<Rightarrow> 'a io_scheme \<Rightarrow> 'a io_scheme" where
  "set_pit_channel_mode_frequency channel operating_mode divisor s =
     (if channel > 2 then s
      else let s1 = s\<lparr>IF_flag := False\<rparr>;
               s2 = outb 0x43 (push_bit 6 channel OR push_bit 4 0x3 OR push_bit 1 operating_mode) s1;
               s3 = outb (0x40 + ucast channel) (ucast divisor) s2;
               s4 = outb (0x40 + ucast channel) (ucast (drop_bit 8 divisor)) s3
           in s4\<lparr>IF_flag := True\<rparr>)"

section \<open>The keyboard\<close>

definition KEY_INFO_ADDRESS :: u32 where "KEY_INFO_ADDRESS = 0x1600"

definition key_info_key :: "ram \<Rightarrow> u8" where "key_info_key m = m KEY_INFO_ADDRESS"
definition key_info_shift :: "ram \<Rightarrow> bool" where "key_info_shift m \<longleftrightarrow> m (KEY_INFO_ADDRESS + 1) \<noteq> 0"

definition set_key :: "u8 \<Rightarrow> 'a pmm_scheme \<Rightarrow> 'a pmm_scheme" where
  "set_key v s = s\<lparr>mem := (mem s)(KEY_INFO_ADDRESS := v)\<rparr>"
definition set_shift :: "bool \<Rightarrow> 'a pmm_scheme \<Rightarrow> 'a pmm_scheme" where
  "set_shift v s = s\<lparr>mem := (mem s)(KEY_INFO_ADDRESS + 1 := of_bool v)\<rparr>"
definition set_ctrl :: "bool \<Rightarrow> 'a pmm_scheme \<Rightarrow> 'a pmm_scheme" where
  "set_ctrl v s = s\<lparr>mem := (mem s)(KEY_INFO_ADDRESS + 2 := of_bool v)\<rparr>"

definition scancode_to_ascii :: "u8 list" where
  "scancode_to_ascii = [0x00, 0x1B] @ ascii ''1234567890-='' @ [0x08] @ [0x00] @ ascii ''qwertyuiop[]'' @
     [0x0D, 0x1D] @ ascii ''asdfghjkl;'' @ [0x27, 0x60] @ [0x00] @ [0x5C] @ ascii ''zxcvbnm,./'' @
     [0x00, 0x00, 0x00] @ ascii '' '' @ [0x00]"

definition num_row_shifts :: "u8 list" where
  "num_row_shifts = ascii '')!@#$%^&*(''"

definition scancode_lookup :: "(u8 \<Rightarrow> u8) \<Rightarrow> u8 \<Rightarrow> u8" where
  "scancode_lookup beyond key =
     (if unat key < length scancode_to_ascii then scancode_to_ascii ! unat key else beyond key)"

definition shift_key :: "u8 \<Rightarrow> u8" where
  "shift_key key =
     (if key \<ge> 0x61 \<and> key \<le> 0x7A then key - 0x20
      else if key \<ge> 0x30 \<and> key \<le> 0x39 then num_row_shifts ! unat (key - 0x30)
      else if key = 0x3D then 0x2B
      else if key = 0x5C then 0x7C
      else if key = 0x60 then 0x7E
      else if key = 0x5B then 0x7B
      else if key = 0x5D then 0x7D
      else if key = 0x27 then 0x22
      else if key = 0x3B then 0x3A
      else if key = 0x2C then 0x3C
      else if key = 0x2E then 0x3E
      else if key = 0x2F then 0x3F
      else key)"

definition keyboard_irq1_handler :: "devices \<Rightarrow> (u8 \<Rightarrow> u8) \<Rightarrow> 'a io_scheme \<Rightarrow> 'a io_scheme" where
  "keyboard_irq1_handler dev beyond s =
     (let key = inb dev 0x60 s;
          s1 = (if key \<noteq> 0 then
                  if key = 0x2A \<or> key = 0x36 then set_shift True s
                  else if key = 0xAA \<or> key = 0xB6 then set_shift False s
                  else if key = 0x1D then set_ctrl True s
                  else if key = 0x9D then set_ctrl False s
                  else if key AND 0x80 = 0 then
                    (let c = scancode_lookup beyond key
                     in set_key (if key_info_shift (mem s) then shift_key c else c) s)
                  else s
                else s)
      in send_pic_eoi 1 s1)"

text \<open>\<open>get_key\<close> halts until the handler has stored a key.\<close>

partial_function (option) key_loop ::
  "('a vmm_scheme \<Rightarrow> 'a vmm_scheme) \<Rightarrow> 'a vmm_scheme \<Rightarrow> 'a vmm_scheme option" where
  "key_loop hlt s = (if key_info_key (mem s) = 0 then key_loop hlt (hlt s) else Some s)"

definition get_key :: "('a vmm_scheme \<Rightarrow> 'a vmm_scheme) \<Rightarrow> 'a vmm_scheme \<Rightarrow> (u8 \<times> 'a vmm_scheme) option" where
  "get_key hlt s =
     (case key_loop hlt ((set_key 0 s)\<lparr>IF_flag := True\<rparr>) of None \<Rightarrow> None
      | Some s1 \<Rightarrow> Some (key_info_key (mem s1), set_key 0 (s1\<lparr>IF_flag := False\<rparr>)))"

text \<open>\<open>get\<close>: a line of at most 127 characters in a static buffer.\<close>

definition INPUT_SIZE :: nat where "INPUT_SIZE = 128"

partial_function (option) get_loop ::
  "('a board_scheme \<Rightarrow> 'a board_scheme) \<Rightarrow> nat \<Rightarrow> 'a board_scheme \<Rightarrow> 'a board_scheme option" where
  "get_loop hlt index s =
     (case get_key hlt s of None \<Rightarrow> None
      | Some (key, s1) \<Rightarrow>
          if key = 0x0D then Some (s1\<lparr>input_buffer := (input_buffer s1)(index := 0)\<rparr>)
          else if key = 0x08 then get_loop hlt (if index > 0 then index - 1 else index) s1
          else if index < INPUT_SIZE - 1
               then get_loop hlt (index + 1) (s1\<lparr>input_buffer := (input_buffer s1)(index := key)\<rparr>)
               else get_loop hlt index s1)"

definition get :: "('a board_scheme \<Rightarrow> 'a board_scheme) \<Rightarrow> 'a board_scheme \<Rightarrow> 'a board_scheme option" where
  "get hlt s = get_loop hlt 0 s"

section \<open>The real-time clock\<close>

record datetime_t =
  second :: u8
  minute :: u8
  hour :: u8
  day :: u8
  month :: u8
  year :: u16

definition cmos_update_in_progress :: "devices \<Rightarrow> 'a io_scheme \<Rightarrow> bool \<times> 'a io_scheme" where
  "cmos_update_in_progress dev s =
     (let s1 = outb 0x70 (0x0A OR 0x80) s in (inb dev 0x71 s1 AND 0x80 \<noteq> 0, s1))"

definition get_rtc_register :: "devices \<Rightarrow> u8 \<Rightarrow> 'a io_scheme \<Rightarrow> u8 \<times> 'a io_scheme" where
  "get_rtc_register dev reg s = (let s1 = outb 0x70 (reg OR 0x80) s in (inb dev 0x71 s1, s1))"

definition enable_rtc :: "devices \<Rightarrow> 'a io_scheme \<Rightarrow> 'a io_scheme" where
  "enable_rtc dev s =
     (let (prev, s1) = get_rtc_register dev 0x0B s;
          s2 = outb 0x71 (prev OR 0x40) (outb 0x70 (0x0B OR 0x80) s1)
      in snd (get_rtc_register dev 0x0C s2))"

definition disable_rtc :: "devices \<Rightarrow> 'a io_scheme \<Rightarrow> 'a io_scheme" where
  "disable_rtc dev s =
     (let (prev, s1) = get_rtc_register dev 0x0B (s\<lparr>IF_flag := False\<rparr>);
          s2 = outb 0x71 (prev AND 0xBF) (outb 0x70 (0x0B OR 0x80) s1)
      in s2\<lparr>IF_flag := True\<rparr>)"

partial_function (option) wait_cmos :: "devices \<Rightarrow> 'a io_scheme \<Rightarrow> 'a io_scheme option" where
  "wait_cmos dev s =
     (if fst (cmos_update_in_progress dev s) then wait_cmos dev (snd (cmos_update_in_progress dev s))
      else Some (snd (cmos_update_in_progress dev s)))"

text \<open>The six registers, after an update has ended.\<close>

definition read_datetime :: "devices \<Rightarrow> 'a io_scheme \<Rightarrow> (datetime_t \<times> 'a io_scheme) option" where
  "read_datetime dev s =
     (case wait_cmos dev s of None \<Rightarrow> None
      | Some s0 \<Rightarrow>
          let (sec, s1) = get_rtc_register dev 0x00 s0;
              (min, s2) = get_rtc_register dev 0x02 s1;
              (hr, s3) = get_rtc_register dev 0x04 s2;
              (d, s4) = get_rtc_register dev 0x07 s3;
              (mon, s5) = get_rtc_register dev 0x08 s4;
              (yr, s6) = get_rtc_register dev 0x09 s5
          in Some (\<lparr>second = sec, minute = min, hour = hr, day = d, month = mon, year = ucast yr\<rparr>, s6))"

text \<open>Two readings in a row must agree.\<close>

partial_function (option) stable_datetime ::
  "devices \<Rightarrow> datetime_t \<Rightarrow> 'a io_scheme \<Rightarrow> (datetime_t \<times> 'a io_scheme) option" where
  "stable_datetime dev old s =
     (case read_datetime dev s of None \<Rightarrow> None
      | Some (new, s1) \<Rightarrow> if new \<noteq> old then stable_datetime dev new s1 else Some (new, s1))"

definition bcd_convert :: "datetime_t \<Rightarrow> datetime_t" where
  "bcd_convert t =
     \<lparr>second = (second t AND 0x0F) + (second t div 16) * 10,
      minute = (minute t AND 0x0F) + (minute t div 16) * 10,
      hour = ((hour t AND 0x0F) + ((hour t AND 0x70) div 16) * 10) OR (hour t AND 0x80),
      day = (day t AND 0x0F) + (day t div 16) * 10,
      month = (month t AND 0x0F) + (month t div 16) * 10,
      year = (year t AND 0x0F) + (year t div 16) * 10\<rparr>"

definition normalise_datetime :: "u8 \<Rightarrow> datetime_t \<Rightarrow> datetime_t" where
  "normalise_datetime regB t =
     (let t1 = (if regB AND 0x04 = 0 then bcd_convert t else t);
          t2 = (if regB AND 0x02 = 0 then t1\<lparr>hour := ((hour t1 AND 0x7F) + 12) mod 24\<rparr> else t1)
      in t2\<lparr>year := year t2 + 2000\<rparr>)"

text \<open>The format and the arguments of the clock's line; \<open>lit True\<close> and \<open>lit False\<close> are the
  addresses of the strings \<open>"0"\<close> and the empty one.\<close>

definition clock_format :: "u8 list" where
  "clock_format = ascii ''%d-%s%d-%s%d %s%d:%s%d:%s%d''"

definition clock_args :: "(bool \<Rightarrow> u32) \<Rightarrow> datetime_t \<Rightarrow> u32 list" where
  "clock_args lit t = [ucast (year t), lit (month t < 10), ucast (month t), lit (day t < 10), ucast (day t),
     lit (hour t < 10), ucast (hour t), lit (minute t < 10), ucast (minute t), lit (second t < 10),
     ucast (second t)]"

definition update_clock ::
  "devices \<Rightarrow> (bool \<Rightarrow> u32) \<Rightarrow> 'a board_scheme \<Rightarrow> 'a board_scheme option" where
  "update_clock dev lit s =
     (case read_datetime dev s of None \<Rightarrow> None
      | Some (t0, s1) \<Rightarrow>
          (case stable_datetime dev t0 s1 of None \<Rightarrow> None
           | Some (t, s2) \<Rightarrow>
               let (regB, s3) = get_rtc_register dev 0x0B s2
               in printf put_c clock_format (\<lambda>i. clock_args lit (normalise_datetime regB t) ! i)
                    (setAxis 58 1 s3)))"

definition cmos_rtc_irq8_handler ::
  "devices \<Rightarrow> (bool \<Rightarrow> u32) \<Rightarrow> 'a board_scheme \<Rightarrow> 'a board_scheme option" where
  "cmos_rtc_irq8_handler dev lit s =
     (let s1 = s\<lparr>IF_flag := False, rtc_ticks := rtc_ticks s + 1\<rparr>
      in case (if rtc_ticks s1 mod 1024 = 0 then update_clock dev lit s1 else Some s1) of None \<Rightarrow> None
         | Some s2 \<Rightarrow> Some ((send_pic_eoi 8 (snd (get_rtc_register dev 0x0C s2)))\<lparr>IF_flag := True\<rparr>))"

section \<open>Lemmas\<close>

subsection \<open>A tick and the task list\<close>

lemma wake_simps [simp]: "t_next (wake n t) = t_next t" "t_wake_tick (wake n t) = t_wake_tick t"
  "t_time_slice (wake n t) = t_time_slice t"
  by (simp_all add: wake_def)

lemma wake_loop_list:
  "tlist (tasks s) p ps \<Longrightarrow> distinct ps \<Longrightarrow>
   wake_loop p s = Some (s\<lparr>tasks := (\<lambda>q. if q \<in> set ps then wake (kernel_timer_ms s) (tasks s q) else tasks s q)\<rparr>)"
proof (induction ps arbitrary: p s)
  case Nil
  then show ?case by (subst wake_loop.simps) simp
next
  case (Cons q qs)
  let ?s = "update_task q (wake (kernel_timer_ms s)) s"
  have p: "p = q" "q \<noteq> 0" "tlist (tasks s) (t_next (tasks s q)) qs" "q \<notin> set qs" "distinct qs"
    using Cons.prems by simp_all
  have "tlist (tasks ?s) (t_next (tasks s q)) qs = tlist (tasks s) (t_next (tasks s q)) qs"
    by (rule tlist_cong) simp
  with p have "wake_loop (t_next (tasks s q)) ?s = Some (?s\<lparr>tasks := (\<lambda>r. if r \<in> set qs
      then wake (kernel_timer_ms ?s) (tasks ?s r) else tasks ?s r)\<rparr>)" by (intro Cons.IH) (simp_all del: fun_upd_apply)
  moreover have "wake_loop p s = wake_loop (t_next (tasks s q)) ?s"
    using p(1,2) by (subst wake_loop.simps) (simp add: Let_def)
  moreover have "?s\<lparr>tasks := (\<lambda>r. if r \<in> set qs then wake (kernel_timer_ms ?s) (tasks ?s r) else tasks ?s r)\<rparr> =
      s\<lparr>tasks := (\<lambda>r. if r \<in> set (q # qs) then wake (kernel_timer_ms s) (tasks s r) else tasks s r)\<rparr>"
    using p(4) by (simp add: update_task_def) (rule arg_cong2 [of _ _ _ _ tasks_update], auto simp: fun_eq_iff)
  ultimately show ?case by simp
qed

lemma wake_loop_all:
  "tasks u = T \<Longrightarrow> kernel_timer_ms u = n \<Longrightarrow> tlist T p ps \<Longrightarrow> distinct ps \<Longrightarrow>
   wake_loop p u = Some (u\<lparr>tasks := (\<lambda>q. if q \<in> set ps then wake n (T q) else T q)\<rparr>)"
  using wake_loop_list [of u p ps] by blast

text \<open>The scheduler's part of the state is in order: the list is the list of the tasks \<open>ps\<close>, the
  current task is one of them, and the first one, the idle task, can run.\<close>

definition sched_ok :: "'a kernel_scheme \<Rightarrow> u32 list \<Rightarrow> bool" where
  "sched_ok s ps \<longleftrightarrow> tlist (tasks s) (task s) ps \<and> distinct ps \<and> current_task s \<in> set ps \<and>
     runnable (tasks s (task s))"

lemma sched_ok_head: "sched_ok s ps \<Longrightarrow> task s \<in> set ps"
  by (cases ps) (auto simp: sched_ok_def)

lemma sched_ok_cong:
  assumes "sched_ok s ps" "task s' = task s" "current_task s' \<in> set ps" "runnable (tasks s' (task s))"
    "\<And>p. p \<in> set ps \<Longrightarrow> t_next (tasks s' p) = t_next (tasks s p)"
  shows "sched_ok s' ps"
  using assms tlist_cong [of ps "tasks s'" "tasks s" "task s"] by (auto simp: sched_ok_def)

lemma rescheduled_eqD:
  assumes "rescheduled t' = rescheduled t"
  shows "t_next t' = t_next t" "t_wake_tick t' = t_wake_tick t" "t_time_slice t' = t_time_slice t"
    "t_priority t' = t_priority t"
  using assms by (cases t; cases t'; simp add: rescheduled_def)+

lemma schedule_ok:
  assumes ok: "sched_ok s ps"
  shows "\<exists>s'. schedule hlt s = Some s' \<and> sched_ok s' ps \<and> kernel_timer_ms s' = kernel_timer_ms s \<and>
    (\<forall>p. runnable (tasks s' p) = runnable (tasks s p) \<and> t_wake_tick (tasks s' p) = t_wake_tick (tasks s p) \<and>
       (t_state (tasks s' p) = TASK_BLOCKED \<longleftrightarrow> t_state (tasks s p) = TASK_BLOCKED)) \<and>
    t_state (tasks s' (current_task s')) = TASK_RUNNIG \<and>
    (\<forall>p. t_state (tasks s' p) = TASK_RUNNIG \<longrightarrow> p = current_task s' \<or> (p \<noteq> current_task s \<and> t_state (tasks s p) = TASK_RUNNIG))"
proof -
  have inv: "tlist (tasks s) (task s) ps" "distinct ps" "current_task s \<in> set ps" "runnable (tasks s (task s))"
    using ok by (simp_all add: sched_ok_def)
  obtain d where d: "next_runnable (tasks s) ps (current_task s) = Some d" "d \<in> set ps" "runnable (tasks s d)"
    using next_runnable_exists [where T = "tasks s", OF inv(2,3) sched_ok_head [OF ok] inv(4)] by blast
  obtain s' where s': "schedule hlt s = Some s'" "current_task s' = d" "task s' = task s"
    "kernel_timer_ms s' = kernel_timer_ms s" and same: "\<And>p. rescheduled (tasks s' p) = rescheduled (tasks s p)"
    and st: "\<And>p. t_state (tasks s' p) = (if p = d then TASK_RUNNIG
       else if p = current_task s \<and> runnable (tasks s (current_task s)) then TASK_PAUSED else t_state (tasks s p))"
    using schedule_effect [OF inv(1,2) refl inv(3) d(1), of hlt] by blast
  have run: "runnable (tasks s' p) = runnable (tasks s p)" for p
    using d(3) by (auto simp: runnable_def st task_states)
  have blk: "t_state (tasks s' p) = TASK_BLOCKED \<longleftrightarrow> t_state (tasks s p) = TASK_BLOCKED" for p
    using d(3) by (auto simp: runnable_def st task_states)
  have "sched_ok s' ps"
    using sched_ok_cong [OF ok s'(3)] s'(2) d(2) run inv(4) rescheduled_eqD(1) [OF same] by simp
  moreover have "t_state (tasks s' p) = TASK_RUNNIG \<longrightarrow> p = current_task s' \<or> (p \<noteq> current_task s \<and> t_state (tasks s p) = TASK_RUNNIG)" for p
    unfolding st s'(2) by (auto simp: runnable_def task_states)
  ultimately show ?thesis
    using s' run blk rescheduled_eqD(2) [OF same] st [of d] by (intro exI [of _ s']) simp
qed

text \<open>One tick.\<close>

lemma runnable_wake: "runnable (wake n t) \<longleftrightarrow> runnable t \<or> (t_state t = TASK_BLOCKED \<and> t_wake_tick t \<le> n)"
  by (auto simp: wake_def runnable_def task_states)

lemma eoi_simps [simp]:
  "tasks (send_pic_eoi i s) = tasks s" "task (send_pic_eoi i s) = task s"
  "current_task (send_pic_eoi i s) = current_task s" "kernel_timer_ms (send_pic_eoi i s) = kernel_timer_ms s"
  by (simp_all add: send_pic_eoi_def outb_def)

text \<open>The handler up to the switch: who is woken, and whether the time slice is used up.\<close>

lemma timer_turn:
  assumes ok: "sched_ok s ps" and n: "n = kernel_timer_ms s + 10"
  obtains s1 where "timer_irq0_handler hlt s = schedule hlt s1 \<and> \<not> t_time_slice (tasks s (current_task s)) > 1 \<or>
      timer_irq0_handler hlt s = Some s1"
    "sched_ok s1 ps" "current_task s1 = current_task s" "kernel_timer_ms s1 = n"
    "\<And>p. p \<in> set ps \<Longrightarrow> t_state (tasks s1 p) = t_state (wake n (tasks s p)) \<and>
      t_wake_tick (tasks s1 p) = t_wake_tick (tasks s p) \<and> runnable (tasks s1 p) = runnable (wake n (tasks s p))"
proof -
  let ?c = "current_task s"
  define s2 where "s2 = s\<lparr>kernel_timer_ms := n,
    tasks := (\<lambda>q. if q \<in> set ps then wake n (tasks s q) else tasks s q)\<rparr>"
  have inv: "tlist (tasks s) (task s) ps" "distinct ps" "?c \<in> set ps" "runnable (tasks s (task s))"
    using ok by (simp_all add: sched_ok_def)
  have wl: "wake_loop (task s) (s\<lparr>kernel_timer_ms := n\<rparr>) = Some s2"
    unfolding s2_def by (rule wake_loop_all) (use inv in simp_all)
  have ok2: "sched_ok s2 ps"
    by (rule sched_ok_cong [OF ok]) (use inv sched_ok_head [OF ok] in \<open>simp_all add: s2_def runnable_wake\<close>)
  define s3 where "s3 = (if t_time_slice (tasks s2 ?c) > 0
    then update_task ?c (\<lambda>t. t\<lparr>t_time_slice := t_time_slice t - 1\<rparr>) s2 else s2)"
  define s4 where "s4 = update_task ?c (\<lambda>t. t\<lparr>t_time_slice := ucast (t_priority t)\<rparr>) s3"
  have slice: "runnable (t\<lparr>t_time_slice := k\<rparr>) = runnable t" for t k by (simp add: runnable_def)
  have T3: "t_state (tasks s3 p) = t_state (tasks s2 p)" "t_next (tasks s3 p) = t_next (tasks s2 p)"
    "t_wake_tick (tasks s3 p) = t_wake_tick (tasks s2 p)" "runnable (tasks s3 p) = runnable (tasks s2 p)"
    "task s3 = task s2" "current_task s3 = ?c" "kernel_timer_ms s3 = n" for p
    by (simp_all add: s3_def slice) (simp_all add: s2_def)
  have T4: "t_state (tasks s4 p) = t_state (tasks s2 p)" "t_next (tasks s4 p) = t_next (tasks s2 p)"
    "t_wake_tick (tasks s4 p) = t_wake_tick (tasks s2 p)" "runnable (tasks s4 p) = runnable (tasks s2 p)"
    "task s4 = task s2" "current_task s4 = ?c" "kernel_timer_ms s4 = n" for p
    by (simp_all add: s4_def slice T3)
  have ok3: "sched_ok (send_pic_eoi 0 s3) ps" and ok4: "sched_ok (send_pic_eoi 0 s4) ps"
    by (rule sched_ok_cong [OF ok2]; use ok2 inv(3) in \<open>simp add: T3 T4 sched_ok_def\<close>)+
  have T2: "tasks s2 p = wake n (tasks s p)" if "p \<in> set ps" for p using that by (simp add: s2_def)
  have h: "timer_irq0_handler hlt s = (if t_time_slice (tasks s3 ?c) = 0
      then schedule hlt (send_pic_eoi 0 s4) else Some (send_pic_eoi 0 s3))"
    using wl by (simp add: timer_irq0_handler_def Let_def n s3_def s4_def s2_def)
  have "\<not> t_time_slice (tasks s ?c) > 1" if "t_time_slice (tasks s3 ?c) = 0"
  proof
    assume g: "t_time_slice (tasks s ?c) > 1"
    have "t_time_slice (tasks s2 ?c) = t_time_slice (tasks s ?c)" using T2 [OF inv(3)] by simp
    then have "t_time_slice (tasks s3 ?c) = t_time_slice (tasks s ?c) - 1" using g by (auto simp: s3_def word_less_nat_alt)
    with that have "t_time_slice (tasks s ?c) = 1" by simp
    with g show False by simp
  qed
  then show thesis
    using that [of "send_pic_eoi 0 s3"] that [of "send_pic_eoi 0 s4"] ok3 ok4 by (cases "t_time_slice (tasks s3 ?c) = 0") (simp_all add: h T3 T4 T2)
qed

lemma timer_ok:
  assumes ok: "sched_ok s ps" and n: "n = kernel_timer_ms s + 10"
  shows "\<exists>s'. timer_irq0_handler hlt s = Some s' \<and> sched_ok s' ps \<and> kernel_timer_ms s' = n \<and>
    (\<forall>p\<in>set ps. runnable (tasks s' p) = runnable (wake n (tasks s p)) \<and>
       t_wake_tick (tasks s' p) = t_wake_tick (tasks s p) \<and>
       (t_state (tasks s' p) = TASK_BLOCKED \<longleftrightarrow> t_state (wake n (tasks s p)) = TASK_BLOCKED)) \<and>
    (t_time_slice (tasks s (current_task s)) > 1 \<longrightarrow> current_task s' = current_task s) \<and>
    ((\<forall>p\<in>set ps. t_state (tasks s p) = TASK_RUNNIG \<longrightarrow> p = current_task s) \<longrightarrow>
       (\<forall>p\<in>set ps. t_state (tasks s' p) = TASK_RUNNIG \<longrightarrow> p = current_task s'))"
proof -
  obtain s1 where s1: "timer_irq0_handler hlt s = schedule hlt s1 \<and> \<not> t_time_slice (tasks s (current_task s)) > 1 \<or>
      timer_irq0_handler hlt s = Some s1" "sched_ok s1 ps" "current_task s1 = current_task s" "kernel_timer_ms s1 = n"
    and T: "\<And>p. p \<in> set ps \<Longrightarrow> t_state (tasks s1 p) = t_state (wake n (tasks s p)) \<and>
      t_wake_tick (tasks s1 p) = t_wake_tick (tasks s p) \<and> runnable (tasks s1 p) = runnable (wake n (tasks s p))"
    by (rule timer_turn [OF assms, where hlt = hlt]) blast
  have running: "t_state (wake n t) = TASK_RUNNIG \<longleftrightarrow> t_state t = TASK_RUNNIG" for t
    by (auto simp: wake_def task_states)
  from s1(1) show ?thesis
  proof (elim disjE conjE)
    assume h: "timer_irq0_handler hlt s = schedule hlt s1" "\<not> t_time_slice (tasks s (current_task s)) > 1"
    obtain s' where S: "schedule hlt s1 = Some s'" "sched_ok s' ps" "kernel_timer_ms s' = n"
      and per: "\<And>p. runnable (tasks s' p) = runnable (tasks s1 p) \<and>
        t_wake_tick (tasks s' p) = t_wake_tick (tasks s1 p) \<and>
        (t_state (tasks s' p) = TASK_BLOCKED \<longleftrightarrow> t_state (tasks s1 p) = TASK_BLOCKED)"
      and one: "\<And>p. t_state (tasks s' p) = TASK_RUNNIG \<Longrightarrow>
        p = current_task s' \<or> (p \<noteq> current_task s1 \<and> t_state (tasks s1 p) = TASK_RUNNIG)"
      using schedule_ok [OF s1(2), of hlt, unfolded s1(4)] by blast
    have "p = current_task s'"
      if "\<forall>p\<in>set ps. t_state (tasks s p) = TASK_RUNNIG \<longrightarrow> p = current_task s" "p \<in> set ps"
        "t_state (tasks s' p) = TASK_RUNNIG" for p
      using one [OF that(3)] that(1,2) T s1(3) running by metis
    then show ?thesis using h S per T by (intro exI [of _ s']) simp
  next
    assume "timer_irq0_handler hlt s = Some s1"
    then show ?thesis using s1(2-4) T by (intro exI [of _ s1]) (simp add: running)
  qed
qed

text \<open>\<open>n\<close> timer interrupts in a row.\<close>

fun ticks :: "('a kernel_scheme \<Rightarrow> 'a kernel_scheme) \<Rightarrow> nat \<Rightarrow> 'a kernel_scheme \<Rightarrow> 'a kernel_scheme option" where
  "ticks hlt 0 s = Some s"
| "ticks hlt (Suc n) s = (case ticks hlt n s of None \<Rightarrow> None | Some s' \<Rightarrow> timer_irq0_handler hlt s')"

lemma ticks_ok:
  assumes "sched_ok s ps" "p \<in> set ps" "t_state (tasks s p) = TASK_BLOCKED"
  shows "unat (kernel_timer_ms s) + 10 * n < 4294967296 \<Longrightarrow>
    \<exists>s'. ticks hlt n s = Some s' \<and> sched_ok s' ps \<and>
      unat (kernel_timer_ms s') = unat (kernel_timer_ms s) + 10 * n \<and>
      t_wake_tick (tasks s' p) = t_wake_tick (tasks s p) \<and>
      (t_state (tasks s' p) = TASK_BLOCKED \<longleftrightarrow> \<not> runnable (tasks s' p)) \<and>
      (runnable (tasks s' p) \<longleftrightarrow> 0 < n \<and> unat (t_wake_tick (tasks s p)) \<le> unat (kernel_timer_ms s) + 10 * n)"
proof (induction n)
  case 0
  then show ?case using assms by (simp add: runnable_def)
next
  case (Suc n)
  have "unat (kernel_timer_ms s) + 10 * n < 4294967296" using Suc.prems by simp
  then obtain s1 where s1: "ticks hlt n s = Some s1" "sched_ok s1 ps"
    "unat (kernel_timer_ms s1) = unat (kernel_timer_ms s) + 10 * n"
    "t_wake_tick (tasks s1 p) = t_wake_tick (tasks s p)"
    "t_state (tasks s1 p) = TASK_BLOCKED \<longleftrightarrow> \<not> runnable (tasks s1 p)"
    "runnable (tasks s1 p) \<longleftrightarrow> 0 < n \<and> unat (t_wake_tick (tasks s p)) \<le> unat (kernel_timer_ms s) + 10 * n"
    using Suc.IH by blast
  have now: "unat (kernel_timer_ms s1 + 10) = unat (kernel_timer_ms s) + 10 * Suc n"
    using s1(3) Suc.prems by (simp add: unat_word_ariths)
  obtain s' where s': "timer_irq0_handler hlt s1 = Some s'" "sched_ok s' ps"
    "kernel_timer_ms s' = kernel_timer_ms s1 + 10"
    "runnable (tasks s' p) = runnable (wake (kernel_timer_ms s1 + 10) (tasks s1 p))"
    "t_wake_tick (tasks s' p) = t_wake_tick (tasks s1 p)"
    "t_state (tasks s' p) = TASK_BLOCKED \<longleftrightarrow> t_state (wake (kernel_timer_ms s1 + 10) (tasks s1 p)) = TASK_BLOCKED"
    using timer_ok [OF s1(2) refl, of hlt] assms(2) by blast
  have "t_wake_tick (tasks s1 p) \<le> kernel_timer_ms s1 + 10 \<longleftrightarrow>
      unat (t_wake_tick (tasks s p)) \<le> unat (kernel_timer_ms s) + 10 * Suc n"
    using now s1(4) by (simp add: word_le_nat_alt)
  moreover have "t_state (wake k t) = TASK_BLOCKED \<longleftrightarrow> \<not> runnable (wake k t)"
    if "t_state t = TASK_BLOCKED \<longleftrightarrow> \<not> runnable t" for k t
    using that by (auto simp: wake_def runnable_def task_states)
  ultimately show ?case
    using s' s1 now by (intro exI [of _ s']) (auto simp: runnable_wake)
qed

subsection \<open>The keyboard's layout\<close>

text \<open>What the keys of the table give with shift.\<close>

definition shifted_layout :: "u8 list" where
  "shifted_layout = [0x00, 0x1B] @ ascii ''!@#$%^&*()-+'' @ [0x08] @ [0x00] @ ascii ''QWERTYUIOP{}'' @
     [0x0D, 0x1D] @ ascii ''ASDFGHJKL:'' @ [0x22, 0x7E] @ [0x00] @ [0x7C] @ ascii ''ZXCVBNM<>?'' @
     [0x00, 0x00, 0x00] @ ascii '' '' @ [0x00]"

lemma shift_key_layout: "k < 59 \<Longrightarrow> shift_key (scancode_to_ascii ! k) = shifted_layout ! k"
proof -
  assume "k < 59"
  then have "k \<in> set [0..<59]" by simp
  moreover have "\<forall>k\<in>set [0..<59]. shift_key (scancode_to_ascii ! k) = shifted_layout ! k" by code_simp
  ultimately show ?thesis by blast
qed

lemma scancode_length: "length scancode_to_ascii = 59"
  by code_simp

lemma and_80_iff: "(k :: u8) AND 0x80 = 0 \<longleftrightarrow> unat k < 128"
proof -
  have "\<forall>n\<in>set [0..<256]. (of_nat n :: u8) AND 0x80 = 0 \<longleftrightarrow> n < 128" by code_simp
  moreover have "unat k \<in> set [0..<256]" using unat_u8_lt [of k] by simp
  moreover have "(of_nat (unat k) :: u8) = k" by simp
  ultimately show ?thesis by metis
qed

subsection \<open>The clock's digits\<close>

definition bcd :: "nat \<Rightarrow> u8" where
  "bcd n = of_nat (16 * (n div 10) + n mod 10)"

lemma bcd_digits:
  "n < 100 \<Longrightarrow> (bcd n AND 0x0F) + (bcd n div 16) * 10 = of_nat n"
  "n < 100 \<Longrightarrow> (ucast (bcd n) AND 0x0F) + (ucast (bcd n) div 16) * 10 = (of_nat n :: u16)"
  "n < 80 \<Longrightarrow> ((bcd n AND 0x0F) + ((bcd n AND 0x70) div 16) * 10) OR (bcd n AND 0x80) = of_nat n"
proof -
  have "\<forall>n\<in>set [0..<100]. (bcd n AND 0x0F) + (bcd n div 16) * 10 = of_nat n" by code_simp
  then show "n < 100 \<Longrightarrow> (bcd n AND 0x0F) + (bcd n div 16) * 10 = of_nat n" by simp
  have "\<forall>n\<in>set [0..<100]. (ucast (bcd n) AND 0x0F) + (ucast (bcd n) div 16) * 10 = (of_nat n :: u16)" by code_simp
  then show "n < 100 \<Longrightarrow> (ucast (bcd n) AND 0x0F) + (ucast (bcd n) div 16) * 10 = (of_nat n :: u16)" by simp
  have "\<forall>n\<in>set [0..<80]. ((bcd n AND 0x0F) + ((bcd n AND 0x70) div 16) * 10) OR (bcd n AND 0x80) = of_nat n"
    by code_simp
  then show "n < 80 \<Longrightarrow> ((bcd n AND 0x0F) + ((bcd n AND 0x70) div 16) * 10) OR (bcd n AND 0x80) = of_nat n" by simp
qed

lemma hour_24: "n < 24 \<Longrightarrow> ((of_nat n AND 0x7F) + 12) mod 24 = (of_nat ((n + 12) mod 24) :: u8)"
proof -
  have "\<forall>n\<in>set [0..<24]. ((of_nat n AND 0x7F) + 12) mod 24 = (of_nat ((n + 12) mod 24) :: u8)" by code_simp
  then show "n < 24 \<Longrightarrow> ((of_nat n AND 0x7F) + 12) mod 24 = (of_nat ((n + 12) mod 24) :: u8)" by simp
qed

section \<open>Properties\<close>

text \<open>C25 The keyboard handler: a make code of the table, not a modifier, stores the table's
  character, or the one of the shifted layout while shift is held; a break code stores nothing; the
  shift state follows the shift keys. Codes from 59 on that the table does not have store whatever lies
  behind it. In every case the interrupt is acknowledged, and nothing but \<open>key_info\<close> and the port log
  changes.\<close>

theorem keyboard_stores_key:
  assumes "k = inb dev 0x60 s" and "s' = keyboard_irq1_handler dev beyond s"
    and "sh = key_info_shift (mem s)"
  shows "(0 < unat k \<and> unat k < 59 \<and> k \<notin> {0x2A, 0x36, 0x1D} \<longrightarrow>
      key_info_key (mem s') = (if sh then shifted_layout ! unat k else scancode_to_ascii ! unat k)) \<and>
    (59 \<le> unat k \<and> unat k < 128 \<longrightarrow>
      key_info_key (mem s') = (if sh then shift_key (beyond k) else beyond k)) \<and>
    (k = 0 \<or> 128 \<le> unat k \<or> k \<in> {0x2A, 0x36, 0x1D} \<longrightarrow> key_info_key (mem s') = key_info_key (mem s)) \<and>
    (key_info_shift (mem s') \<longleftrightarrow> k \<in> {0x2A, 0x36} \<or> (sh \<and> k \<notin> {0xAA, 0xB6})) \<and>
    port_log s' = port_log s @ [(0x20, 0x20)] \<and>
    (\<forall>a. a \<notin> {0x1600, 0x1601, 0x1602} \<longrightarrow> mem s' a = mem s a)"
proof -
  note acc = key_info_key_def key_info_shift_def KEY_INFO_ADDRESS_def
  note upd = set_key_def set_shift_def set_ctrl_def
  have eoi: "mem (send_pic_eoi 1 t) = mem t" "port_log (send_pic_eoi 1 t) = port_log t @ [(0x20, 0x20)]"
    for t :: "'a io_scheme" by (simp_all add: send_pic_eoi_def pic_ports word_le_nat_alt)
  note h = assms(2) [unfolded keyboard_irq1_handler_def Let_def assms(1) [symmetric] assms(3) [symmetric]]
  consider "k = 0" | "k = 0x2A \<or> k = 0x36" | "k = 0xAA \<or> k = 0xB6" | "k = 0x1D" | "k = 0x9D"
    | "k \<notin> {0, 0x2A, 0x36, 0xAA, 0xB6, 0x1D, 0x9D}" by blast
  then show ?thesis
  proof cases
    case 6
    have pos: "0 < unat k" using 6 by (simp add: unat_gt_0)
    show ?thesis
    proof (cases "unat k < 128")
      case True
      then have s': "s' = send_pic_eoi 1 (set_key (if sh then shift_key (scancode_lookup beyond k)
          else scancode_lookup beyond k) s)"
        using 6 by (simp add: h and_80_iff)
      show ?thesis
        using 6 True pos assms(3)
        by (auto simp: s' eoi acc upd scancode_lookup_def scancode_length shift_key_layout)
    next
      case False
      then have "s' = send_pic_eoi 1 s" using 6 by (simp add: h and_80_iff)
      with 6 False pos assms(3) show ?thesis by (auto simp: eoi)
    qed
  qed (use assms(3) in \<open>auto simp: h eoi acc upd\<close>)
qed


text \<open>Masking an interrupt line sets its bit in the mask register of its controller and unmasking
  clears it; the other seven lines keep theirs.\<close>

theorem irq_mask_bits:
  assumes "unat irq < 16" and "port = (if irq < 8 then PIC_1_DATA else PIC_2_DATA)" and "v = inb dev port s"
  shows "\<exists>a b. set_irq_mask dev irq s = outb port a s \<and> clear_irq_mask dev irq s = outb port b s \<and>
    (\<forall>i<8. (bit a i \<longleftrightarrow> i = unat irq mod 8 \<or> bit v i) \<and> (bit b i \<longleftrightarrow> i \<noteq> unat irq mod 8 \<and> bit v i))"
proof -
  define n where "n = (if irq < 8 then irq else irq - 8)"
  have un: "unat n = unat irq mod 8"
  proof (cases "irq < 8")
    case True
    then show ?thesis by (simp add: n_def word_less_nat_alt)
  next
    case False
    then have "8 \<le> irq" by simp
    then have "unat (irq - 8) = unat irq - 8" by (simp add: unat_sub)
    with False assms(1) show ?thesis by (simp add: n_def word_less_nat_alt mod_if)
  qed
  let ?m = "push_bit (unat n) (1 :: u32)"
  have "set_irq_mask dev irq s = outb port (v OR ucast ?m) s" "clear_irq_mask dev irq s = outb port (v AND ucast (NOT ?m)) s"
    using assms(2,3) by (simp_all add: set_irq_mask_def clear_irq_mask_def n_def Let_def)
  moreover have "bit (v OR ucast ?m :: u8) i \<longleftrightarrow> i = unat irq mod 8 \<or> bit v i"
    "bit (v AND ucast (NOT ?m) :: u8) i \<longleftrightarrow> i \<noteq> unat irq mod 8 \<and> bit v i" if "i < 8" for i
    using that by (auto simp: bit_simps un)
  ultimately show ?thesis by blast
qed

section \<open>Concrete runs\<close>

lemma two_tasks_ok: "sched_ok (two_tasks TASK_RUNNIG TASK_BLOCKED) [0x1000, 0x8000]"
  by (simp add: sched_ok_def runnable_def task_states)

lemma keyboard_stores_key_witness:
  "key_info_key (mem (keyboard_irq1_handler (\<lambda>_ _. 0x1E) (\<lambda>_. 0) (two_tasks TASK_RUNNIG TASK_READY))) = 0x61"
proof -
  have s: "\<not> key_info_shift (mem (two_tasks TASK_RUNNIG TASK_READY))"
    by (simp add: key_info_shift_def image_mem_def KEY_INFO_ADDRESS_def)
  have "scancode_to_ascii ! unat (0x1E :: u8) = 0x61" by code_simp
  with keyboard_stores_key [where dev = "\<lambda>_ _. 0x1E" and beyond = "\<lambda>_. 0"
      and s = "two_tasks TASK_RUNNIG TASK_READY", OF refl refl refl] s
  show ?thesis by (simp add: inb_def)
qed


lemma irq_mask_bits_witness:
  "\<exists>a. set_irq_mask (\<lambda>_ _. 0) 9 (two_tasks TASK_RUNNIG TASK_READY) = outb PIC_2_DATA a (two_tasks TASK_RUNNIG TASK_READY) \<and>
     bit a 1 \<and> \<not> bit a 0"
proof -
  obtain a where "set_irq_mask (\<lambda>_ _. 0) 9 (two_tasks TASK_RUNNIG TASK_READY) = outb PIC_2_DATA a (two_tasks TASK_RUNNIG TASK_READY)"
    and a: "\<forall>i<8. bit a i \<longleftrightarrow> i = unat (9 :: u8) mod 8 \<or> bit (0 :: u8) i"
    using irq_mask_bits [where irq = 9 and dev = "\<lambda>_ _. 0" and s = "two_tasks TASK_RUNNIG TASK_READY", OF _ refl refl]
    by (auto simp: inb_def)
  moreover have "bit a 1" "\<not> bit a 0" using a [rule_format, of 1] a [rule_format, of 0] by simp_all
  ultimately show ?thesis by blast
qed

end
