(* ===== verification/Syscall.thy ===== *)
theory Syscall
  imports Pic
begin

text \<open>
  System calls, \<open>src/kernel/interrupts/syscall.c\<close>, and the system calls' and the timer's effect on
  the task list taken together.

  A handler maps the saved registers and the state to new ones. Where a handler reschedules, the state
  it gives is the one in which another task goes on; the registers are those left in the frame on the
  caller's kernel stack. The dispatcher is modelled from its entry to its \<open>iretd\<close>.

  The last part is a step relation of timer interrupts, system calls and new tasks. By induction on the
  steps, the task list stays a list, the idle task stays ready, at most the current task is marked as
  running, and the next interrupt always finds a task to go on with.
\<close>

section \<open>The handlers\<close>

record syscall_saved_regs_t =
  reg_ebx :: u32
  reg_ecx :: u32
  reg_edx :: u32
  reg_esi :: u32
  reg_edi :: u32
  reg_ebp :: u32
  reg_ds :: u32
  reg_es :: u32
  reg_fs :: u32
  reg_gs :: u32
  reg_eax :: u32

type_synonym 'a handler =
  "syscall_saved_regs_t \<Rightarrow> 'a board_scheme \<Rightarrow> (syscall_saved_regs_t \<times> 'a board_scheme) option"

definition syscall_test0 :: "'a handler" where
  "syscall_test0 regs s = map_option (Pair regs) (printf put_c (ascii ''SYSCALL testing 0'') (\<lambda>_. 0) s)"

definition syscall_test1 :: "'a handler" where
  "syscall_test1 regs s = map_option (Pair regs) (printf put_c (ascii ''SYSCALL testing 1'') (\<lambda>_. 0) s)"

definition syscall_print :: "'a handler" where
  "syscall_print regs s = Some (regs, put_c (ucast (reg_ebx regs)) s)"

definition syscall_sleep :: "('a board_scheme \<Rightarrow> 'a board_scheme) \<Rightarrow> 'a handler" where
  "syscall_sleep hlt regs s =
     (let ms = reg_ebx regs
      in if ms = 0 then Some (regs, s)
         else let s1 = update_task (current_task s) (\<lambda>t. t\<lparr>t_wake_tick := kernel_timer_ms s + ms\<rparr>) s;
                  s2 = update_task (current_task s1) (\<lambda>t. t\<lparr>t_state := TASK_BLOCKED\<rparr>) s1
              in map_option (Pair regs) (schedule hlt s2))"

definition syscall_malloc :: "'a handler" where
  "syscall_malloc regs s =
     (case malloc (reg_ebx regs) s of None \<Rightarrow> None | Some (ptr, s1) \<Rightarrow> Some (regs\<lparr>reg_eax := ptr\<rparr>, s1))"

definition syscall_free :: "'a handler" where
  "syscall_free regs s = map_option (Pair regs) (malloc_free (reg_ebx regs) s)"

definition syscall_exit :: "('a board_scheme \<Rightarrow> 'a board_scheme) \<Rightarrow> 'a handler" where
  "syscall_exit hlt regs s =
     map_option (Pair regs)
       (schedule hlt (update_task (current_task s) (\<lambda>t. t\<lparr>t_state := TASK_COMPLETED\<rparr>) s))"

definition syscall_getkey :: "('a board_scheme \<Rightarrow> 'a board_scheme) \<Rightarrow> 'a handler" where
  "syscall_getkey hlt regs s =
     (case get_key hlt s of None \<Rightarrow> None | Some (key, s1) \<Rightarrow> Some (regs\<lparr>reg_eax := ucast key\<rparr>, s1))"

definition syscalls :: "('a board_scheme \<Rightarrow> 'a board_scheme) \<Rightarrow> 'a handler list" where
  "syscalls hlt = [syscall_test0, syscall_test1, syscall_sleep hlt, syscall_malloc, syscall_free, syscall_print,
     syscall_exit hlt, syscall_getkey hlt]"

definition syscall_dispatcher :: "('a board_scheme \<Rightarrow> 'a board_scheme) \<Rightarrow> 'a handler" where
  "syscall_dispatcher hlt regs s =
     (if reg_eax regs > 7 then Some (regs\<lparr>reg_eax := - 1\<rparr>, s)
      else (syscalls hlt ! unat (reg_eax regs)) regs s)"

lemma dispatch_simps [simp]:
  "reg_eax regs = 0 \<Longrightarrow> syscall_dispatcher hlt regs = syscall_test0 regs"
  "reg_eax regs = 1 \<Longrightarrow> syscall_dispatcher hlt regs = syscall_test1 regs"
  "reg_eax regs = 2 \<Longrightarrow> syscall_dispatcher hlt regs = syscall_sleep hlt regs"
  "reg_eax regs = 3 \<Longrightarrow> syscall_dispatcher hlt regs = syscall_malloc regs"
  "reg_eax regs = 4 \<Longrightarrow> syscall_dispatcher hlt regs = syscall_free regs"
  "reg_eax regs = 5 \<Longrightarrow> syscall_dispatcher hlt regs = syscall_print regs"
  "reg_eax regs = 6 \<Longrightarrow> syscall_dispatcher hlt regs = syscall_exit hlt regs"
  "reg_eax regs = 7 \<Longrightarrow> syscall_dispatcher hlt regs = syscall_getkey hlt regs"
  by (simp_all add: fun_eq_iff syscall_dispatcher_def syscalls_def word_less_nat_alt)

lemma eax_cases: "(n :: u32) > 7 \<or> n \<in> {0, 1, 2, 3, 4, 5, 6, 7}"
proof (cases "n > 7")
  case False
  then have "unat n \<in> {0, 1, 2, 3, 4, 5, 6, 7}" by (auto simp: word_less_nat_alt)
  then show ?thesis by (auto simp: word_unat_eq_iff)
qed simp

section \<open>Output leaves the kernel's fields alone\<close>

definition keeps_kernel :: "(u8 \<Rightarrow> 'a screen_scheme \<Rightarrow> 'a screen_scheme) \<Rightarrow> bool" where
  "keeps_kernel putc \<longleftrightarrow> (\<forall>c s. screen.more (putc c s) = screen.more s)"

lemma more_setcursor [simp]: "screen.more (setcursor x y s) = screen.more s"
  by (simp add: setcursor_def outb_def Let_def)

lemma more_cells [simp]: "screen.more (putchr x y c s) = screen.more s" "screen.more (putcolor x y d s) = screen.more s"
  "screen.more (move_cell x y s) = screen.more s"
  by (simp_all add: putchr_def putcolor_def move_cell_def Let_def)

lemma more_fold_screen:
  "(\<And>i s. screen.more (f i s) = screen.more s) \<Longrightarrow> screen.more (fold f xs s) = screen.more s"
  by (induction xs arbitrary: s) simp_all

lemma more_scrollback [simp]: "screen.more (scrollback s) = screen.more s"
  by (simp add: scrollback_def Let_def more_fold_screen del: fold_upt_Suc upt_Suc)

lemma more_wrap [simp]: "screen.more (wrap_cursor s) = screen.more s"
  by (simp add: wrap_cursor_def Let_def)

lemma more_put_plain [simp]: "screen.more (put_plain c s) = screen.more s"
  by (simp add: put_plain_def)

lemma more_tab_loop [simp]: "screen.more (tab_loop i s) = screen.more s"
proof (induction i s rule: tab_loop.induct)
  case (1 i s)
  then show ?case by (subst tab_loop.simps) simp
qed

lemma more_put_c [simp]: "screen.more (put_c c s) = screen.more s"
  by (simp add: put_c_def)

lemma put_c_keeps_kernel: "keeps_kernel put_c"
  by (simp add: keeps_kernel_def)

lemma puts_keeps: "puts putc a s = Some s' \<Longrightarrow> keeps_kernel putc \<longrightarrow> screen.more s' = screen.more s"
  by (erule puts.raw_induct [where P = "\<lambda>p a s s'. keeps_kernel p \<longrightarrow> screen.more s' = screen.more s", rotated])
    (auto simp: keeps_kernel_def split: if_splits)

lemma text_keeps: "keeps_kernel putc \<Longrightarrow> screen.more (fold putc cs s) = screen.more s"
  by (simp add: keeps_kernel_def more_fold_screen)

lemma number_keeps:
  assumes "keeps_kernel putc"
  shows "printf_unsigned putc n r s = Some s' \<Longrightarrow> screen.more s' = screen.more s"
    "printf_signed putc n r s = Some s' \<Longrightarrow> screen.more s' = screen.more s"
proof -
  have u: "printf_unsigned putc m r t = Some s' \<Longrightarrow> screen.more s' = screen.more t" for m t s'
    using text_keeps [OF assms] by (auto simp: printf_unsigned_def split: option.splits)
  then show "printf_unsigned putc n r s = Some s' \<Longrightarrow> screen.more s' = screen.more s" .
  show "printf_signed putc n r s = Some s' \<Longrightarrow> screen.more s' = screen.more s"
    using u assms by (auto simp: printf_signed_def keeps_kernel_def split: if_splits)
qed

lemma spec_char_keeps:
  "keeps_kernel putc \<Longrightarrow> spec_char putc va c p s = Some (p', s') \<Longrightarrow> screen.more s' = screen.more s"
  by (auto simp: spec_char_def keeps_kernel_def split: if_splits option.splits
      dest: puts_keeps [unfolded keeps_kernel_def])

lemma print_number_keeps:
  "keeps_kernel putc \<Longrightarrow> print_number putc va p s = Some (p', s') \<Longrightarrow> screen.more s' = screen.more s"
  by (auto simp: print_number_def Let_def split: if_splits option.splits dest: number_keeps)

lemma printf_char_keeps:
  assumes k: "keeps_kernel putc" and "printf_char reset putc va c p s = Some (p', s')"
  shows "screen.more s' = screen.more s"
proof -
  have "screen.more s' = screen.more s" if "printf_spec reset putc va c p s = Some (p', s')"
    using that spec_char_keeps [OF k] print_number_keeps [OF k]
    by (auto simp: printf_spec_def split: if_splits option.splits)
  with assms show ?thesis
    by (auto simp: printf_char_def keeps_kernel_def split: if_splits printf_state.splits)
qed

lemma printf_loop_keeps:
  "keeps_kernel putc \<Longrightarrow> printf_loop reset putc va fmt p s = Some (p', s') \<Longrightarrow> screen.more s' = screen.more s"
proof (induction fmt arbitrary: p s)
  case (Cons c fmt)
  then show ?case using printf_char_keeps [OF Cons.prems(1)]
    by (auto split: option.splits)
qed simp

lemma printf_keeps: "printf put_c fmt va s = Some s' \<Longrightarrow> screen.more s' = screen.more s"
  using printf_loop_keeps [OF put_c_keeps_kernel] by (auto simp: printf_def)

lemma screen_more_fields:
  fixes s s' :: "'a kernel_scheme"
  assumes "screen.more s' = screen.more s"
  shows "tasks s' = tasks s" "task s' = task s" "current_task s' = current_task s"
  using assms by (cases s; cases s'; simp)+

section \<open>Calls and the task list\<close>

text \<open>The invariant of the kernel's scheduling: the list of tasks, and at most one of them, the current
  one, marked as running.\<close>

definition kernel_inv :: "'a kernel_scheme \<Rightarrow> bool" where
  "kernel_inv s \<longleftrightarrow> (\<exists>ps. sched_ok s ps \<and>
     (\<forall>p\<in>set ps. t_state (tasks s p) = TASK_RUNNIG \<longrightarrow> p = current_task s))"

lemma kernel_inv_same:
  assumes "kernel_inv s" "tasks s' = tasks s" "task s' = task s" "current_task s' = current_task s"
  shows "kernel_inv s'"
  using assms unfolding kernel_inv_def sched_ok_def by simp

lemma kernel_inv_timer:
  assumes "kernel_inv s"
  shows "\<exists>s'. timer_irq0_handler hlt s = Some s' \<and> kernel_inv s'"
proof -
  obtain ps where ps: "sched_ok s ps" "\<forall>p\<in>set ps. t_state (tasks s p) = TASK_RUNNIG \<longrightarrow> p = current_task s"
    using assms by (auto simp: kernel_inv_def)
  show ?thesis using timer_ok [OF ps(1) refl, of hlt] ps(2) unfolding kernel_inv_def by blast
qed

text \<open>The current task, not the idle task, is marked blocked or completed, and the scheduler runs.\<close>

lemma leave_task:
  assumes ok: "sched_ok s ps" and idle: "current_task s \<noteq> task s"
    and one: "\<forall>p\<in>set ps. t_state (tasks s p) = TASK_RUNNIG \<longrightarrow> p = current_task s"
    and f: "\<And>t. t_next (f t) = t_next t" and st: "t_state (f (tasks s (current_task s))) \<in> {TASK_BLOCKED, TASK_COMPLETED}"
  shows "\<exists>s'. schedule hlt (update_task (current_task s) f s) = Some s' \<and> sched_ok s' ps \<and> kernel_inv s' \<and>
    t_state (tasks s' (current_task s')) = TASK_RUNNIG \<and>
    kernel_timer_ms s' = kernel_timer_ms s \<and>
    t_wake_tick (tasks s' (current_task s)) = t_wake_tick (f (tasks s (current_task s))) \<and>
    (t_state (tasks s' (current_task s)) = TASK_BLOCKED \<longleftrightarrow> t_state (f (tasks s (current_task s))) = TASK_BLOCKED)"
proof -
  let ?c = "current_task s" and ?u = "update_task (current_task s) f s"
  have ok': "sched_ok ?u ps"
    by (rule sched_ok_cong [OF ok]) (use ok idle f in \<open>auto simp: sched_ok_def\<close>)
  obtain s' where s': "schedule hlt ?u = Some s'" "sched_ok s' ps" "kernel_timer_ms s' = kernel_timer_ms s"
    "t_state (tasks s' (current_task s')) = TASK_RUNNIG"
    and per: "\<And>p. t_wake_tick (tasks s' p) = t_wake_tick (tasks ?u p) \<and>
      (t_state (tasks s' p) = TASK_BLOCKED \<longleftrightarrow> t_state (tasks ?u p) = TASK_BLOCKED)"
    and run: "\<And>p. t_state (tasks s' p) = TASK_RUNNIG \<Longrightarrow>
      p = current_task s' \<or> (p \<noteq> current_task ?u \<and> t_state (tasks ?u p) = TASK_RUNNIG)"
    using schedule_ok [OF ok', of hlt] by auto
  have "p = current_task s'" if "p \<in> set ps" "t_state (tasks s' p) = TASK_RUNNIG" for p
    using run [OF that(2)] one that(1) by (auto split: if_splits)
  then have "kernel_inv s'" using s'(2) by (auto simp: kernel_inv_def)
  with s' per [of ?c] show ?thesis by auto
qed

lemma sleep_leaves:
  assumes "sched_ok s ps" "current_task s \<noteq> task s"
    "\<forall>p\<in>set ps. t_state (tasks s p) = TASK_RUNNIG \<longrightarrow> p = current_task s" "reg_ebx regs \<noteq> 0"
  shows "\<exists>s'. syscall_sleep hlt regs s = Some (regs, s') \<and> sched_ok s' ps \<and> kernel_inv s' \<and>
    t_state (tasks s' (current_task s')) = TASK_RUNNIG \<and> kernel_timer_ms s' = kernel_timer_ms s \<and> t_state (tasks s' (current_task s)) = TASK_BLOCKED \<and>
    t_wake_tick (tasks s' (current_task s)) = kernel_timer_ms s + reg_ebx regs"
proof -
  let ?f = "\<lambda>t. t\<lparr>t_wake_tick := kernel_timer_ms s + reg_ebx regs, t_state := TASK_BLOCKED\<rparr>"
  have "update_task (current_task s) (\<lambda>t. t\<lparr>t_state := TASK_BLOCKED\<rparr>)
      (update_task (current_task s) (\<lambda>t. t\<lparr>t_wake_tick := kernel_timer_ms s + reg_ebx regs\<rparr>) s) =
      update_task (current_task s) ?f s" by (simp add: update_task_def)
  then have h: "syscall_sleep hlt regs s = map_option (Pair regs) (schedule hlt (update_task (current_task s) ?f s))"
    using assms(4) by (simp add: syscall_sleep_def Let_def)
  show ?thesis unfolding h using leave_task [OF assms(1-3), of ?f hlt] by auto
qed

lemma heap_calls_keep:
  "syscall_malloc regs s = Some (regs', s') \<Longrightarrow> heap.more s' = heap.more s"
  "syscall_free regs s = Some (regs', s') \<Longrightarrow> heap.more s' = heap.more s"
proof -
  have "free_loop p c t = Some t' \<Longrightarrow> heap.more t' = heap.more t" for p c and t t' :: "'b heap_scheme"
    by (erule free_loop.raw_induct [where P = "\<lambda>p c t t'. heap.more t' = heap.more t", rotated])
      (auto simp: merge_free_blocks_def split: if_splits dest!: more_merge_loop)
  then show "syscall_free regs s = Some (regs', s') \<Longrightarrow> heap.more s' = heap.more s"
    by (auto simp: syscall_free_def malloc_free_def)
  show "syscall_malloc regs s = Some (regs', s') \<Longrightarrow> heap.more s' = heap.more s"
    by (auto simp: syscall_malloc_def split: option.splits dest: more_malloc)
qed

lemma kernel_inv_syscall:
  assumes inv: "kernel_inv s" and call: "syscall_dispatcher hlt regs s = Some (regs', s')"
    and idle: "reg_eax regs \<in> {2, 6} \<Longrightarrow> current_task s \<noteq> task s" and "reg_eax regs \<noteq> 7"
  shows "kernel_inv s'"
proof -
  obtain ps where ps: "sched_ok s ps" "\<forall>p\<in>set ps. t_state (tasks s p) = TASK_RUNNIG \<longrightarrow> p = current_task s"
    using inv by (auto simp: kernel_inv_def)
  consider "reg_eax regs > 7" | "reg_eax regs \<in> {0, 1, 5}" | "reg_eax regs \<in> {3, 4}" | "reg_eax regs = 2"
    | "reg_eax regs = 6" using eax_cases [of "reg_eax regs"] assms(4) by blast
  then show ?thesis
  proof cases
    case 1
    with call inv show ?thesis by (simp add: syscall_dispatcher_def)
  next
    case 2
    then have "screen.more s' = screen.more s"
      using call by (auto simp: syscall_test0_def syscall_test1_def syscall_print_def dest: printf_keeps)
    then show ?thesis using kernel_inv_same [OF inv] screen_more_fields by blast
  next
    case 3
    then have "heap.more s' = heap.more s" using call heap_calls_keep by auto
    then show ?thesis using kernel_inv_same [OF inv] more_fields(1-3) by blast
  next
    case 4
    show ?thesis
    proof (cases "reg_ebx regs = 0")
      case True
      with 4 call inv show ?thesis by (simp add: syscall_sleep_def)
    next
      case False
      with 4 call sleep_leaves [OF ps(1) _ ps(2) False, of hlt] idle show ?thesis by auto
    qed
  next
    case 5
    then obtain t where "schedule hlt (update_task (current_task s) (\<lambda>t. t\<lparr>t_state := TASK_COMPLETED\<rparr>) s) = Some t" "s' = t"
      using call by (auto simp: syscall_exit_def)
    with 5 idle leave_task [OF ps(1) _ ps(2), of "\<lambda>t. t\<lparr>t_state := TASK_COMPLETED\<rparr>" hlt] show ?thesis by auto
  qed
qed

lemma kernel_inv_create:
  assumes "kernel_inv s" "create_task txt f s = Some (t, s')" "t \<noteq> 0"
    "\<And>ps. tlist (tasks s) (task s) ps \<Longrightarrow> t \<notin> set ps"
  shows "kernel_inv s'"
proof -
  obtain ps where ps: "sched_ok s ps" "\<forall>p\<in>set ps. t_state (tasks s p) = TASK_RUNNIG \<longrightarrow> p = current_task s"
    using assms(1) by (auto simp: kernel_inv_def)
  have inv: "tlist (tasks s) (task s) ps" "distinct ps" "current_task s \<in> set ps" "runnable (tasks s (task s))"
    using ps(1) by (simp_all add: sched_ok_def)
  have ne: "ps \<noteq> []" using inv(3) by auto
  note fresh = assms(4) [OF inv(1)]
  obtain K x where s': "s' = update_task (last ps) (\<lambda>y. y\<lparr>t_next := t\<rparr>) x"
    "tlist (tasks s') (task s) (ps @ [t])" and x: "task x = task s" "tasks x = (tasks s)(t := K)"
    "t_state K = TASK_READY" "current_task x = current_task s"
    using create_task_shape [OF assms(2) inv(1) ne inv(2) fresh assms(3)] by blast
  have st: "t_state (tasks s' p) = (if p = t then TASK_READY else t_state (tasks s p))" for p
    by (simp add: s'(1) x)
  have T: "task s' = task s" "current_task s' = current_task s" by (simp_all add: s'(1) x)
  have "runnable (tasks s' (task s'))"
    using inv(4) st [of "task s"] by (auto simp: T runnable_def task_states split: if_splits)
  then have "sched_ok s' (ps @ [t])"
    using s'(2) inv fresh by (simp add: sched_ok_def T)
  moreover have "\<forall>p\<in>set (ps @ [t]). t_state (tasks s' p) = TASK_RUNNIG \<longrightarrow> p = current_task s'"
    using ps(2) by (auto simp: st T task_states split: if_splits)
  ultimately show ?thesis unfolding kernel_inv_def by blast
qed

section \<open>Steps of the kernel\<close>

text \<open>A timer interrupt; a system call, where the idle task neither sleeps nor exits (the key input
  call, which waits for the outside, is not among them); and a new task at an address not in use.\<close>

inductive kernel_step ::
  "('a board_scheme \<Rightarrow> 'a board_scheme) \<Rightarrow> code_addresses \<Rightarrow> 'a board_scheme \<Rightarrow> 'a board_scheme \<Rightarrow> bool"
  for hlt code where
  tick: "timer_irq0_handler hlt s = Some s' \<Longrightarrow> kernel_step hlt code s s'"
| call: "syscall_dispatcher hlt regs s = Some (regs', s') \<Longrightarrow> reg_eax regs \<noteq> 7 \<Longrightarrow>
    (reg_eax regs \<in> {2, 6} \<Longrightarrow> current_task s \<noteq> task s) \<Longrightarrow> kernel_step hlt code s s'"
| create: "create_task code f s = Some (t, s') \<Longrightarrow> t \<noteq> 0 \<Longrightarrow>
    (\<And>ps. tlist (tasks s) (task s) ps \<Longrightarrow> t \<notin> set ps) \<Longrightarrow> kernel_step hlt code s s'"

inductive kernel_reaches ::
  "('a board_scheme \<Rightarrow> 'a board_scheme) \<Rightarrow> code_addresses \<Rightarrow> 'a board_scheme \<Rightarrow> 'a board_scheme \<Rightarrow> bool"
  for hlt code where
  start: "kernel_reaches hlt code s s"
| step: "kernel_reaches hlt code s t \<Longrightarrow> kernel_step hlt code t u \<Longrightarrow> kernel_reaches hlt code s u"

inductive_cases kernel_step_cases: "kernel_step hlt code s s'"

lemma kernel_step_inv: "kernel_step hlt code s s' \<Longrightarrow> kernel_inv s \<Longrightarrow> kernel_inv s'"
proof (erule kernel_step_cases)
  assume "timer_irq0_handler hlt s = Some s'" "kernel_inv s"
  then show "kernel_inv s'" using kernel_inv_timer [of s hlt] by auto
qed (blast intro: kernel_inv_syscall kernel_inv_create)+

lemma kernel_reaches_inv: "kernel_reaches hlt code s s' \<Longrightarrow> kernel_inv s \<Longrightarrow> kernel_inv s'"
  by (induction rule: kernel_reaches.induct) (auto intro: kernel_step_inv)

lemma init_task_inv:
  assumes "init_task txt s = Some s'" "task s' \<noteq> 0"
  shows "kernel_inv s'"
proof -
  obtain m x u where s': "s' = u\<lparr>task := m, next_taskId := next_taskId u + 1, current_task := m, tasks := (tasks u)(m := x)\<rparr>"
    "t_next x = 0" "t_state x = TASK_READY"
    using assms(1) by (auto simp: init_task_def Let_def split: option.splits prod.splits)
  then have "sched_ok s' [m]" using assms(2) by (simp add: sched_ok_def runnable_def task_states)
  moreover have "\<forall>p\<in>set [m]. t_state (tasks s' p) = TASK_RUNNIG \<longrightarrow> p = current_task s'" using s' by simp
  ultimately show ?thesis unfolding kernel_inv_def by blast
qed

section \<open>Properties\<close>


text \<open>C28 A task that calls \<open>sleep\<close> is not run again before its time, and can run from the first tick
  at or after it: for \<open>ms > 0\<close> it stays blocked during the next \<open>n\<close> ticks exactly while
  \<open>10 * n < ms\<close>, and after one tick at least, unless the millisecond counter wraps.\<close>

theorem sleep_lasts:
  assumes "sched_ok s ps" and "current_task s \<noteq> task s"
    and "\<forall>p\<in>set ps. t_state (tasks s p) = TASK_RUNNIG \<longrightarrow> p = current_task s"
    and "reg_eax regs = 2" and "reg_ebx regs = ms" and "ms \<noteq> 0"
    and "unat (kernel_timer_ms s) + unat ms < 4294967296" and "unat (kernel_timer_ms s) + 10 * n < 4294967296"
  shows "\<exists>s1 s2. syscall_dispatcher hlt regs s = Some (regs, s1) \<and> current_task s1 \<noteq> current_task s \<and>
    ticks hlt n s1 = Some s2 \<and>
    (runnable (tasks s2 (current_task s)) \<longleftrightarrow> 0 < n \<and> unat ms \<le> 10 * n)"
proof -
  obtain s1 where s1: "syscall_sleep hlt regs s = Some (regs, s1)" "sched_ok s1 ps"
    "kernel_timer_ms s1 = kernel_timer_ms s" "t_state (tasks s1 (current_task s)) = TASK_BLOCKED"
    "t_wake_tick (tasks s1 (current_task s)) = kernel_timer_ms s + ms" "kernel_inv s1"
    and run: "t_state (tasks s1 (current_task s1)) = TASK_RUNNIG"
    using sleep_leaves [OF assms(1-3), of regs hlt] assms(5,6) by auto
  have p: "current_task s \<in> set ps" using assms(1) by (simp add: sched_ok_def)
  have w: "unat (kernel_timer_ms s + ms) = unat (kernel_timer_ms s) + unat ms"
    using assms(7) by (simp add: unat_word_ariths)
  have n: "unat (kernel_timer_ms s1) + 10 * n < 4294967296" using assms(8) s1(3) by simp
  obtain s2 where s2: "ticks hlt n s1 = Some s2"
    "runnable (tasks s2 (current_task s)) \<longleftrightarrow> 0 < n \<and> unat ms \<le> 10 * n"
    using ticks_ok [OF s1(2) p s1(4) n, of hlt] by (auto simp: s1(3,5) w)
  have "current_task s1 \<noteq> current_task s" using s1(4) run by (auto simp: task_states)
  then show ?thesis using s1(1) s2 assms(4) by auto
qed

lemma handler_registers:
  "syscall_test0 regs s = Some (regs', s') \<Longrightarrow> regs' = regs" "syscall_test1 regs s = Some (regs', s') \<Longrightarrow> regs' = regs"
  "syscall_sleep hlt regs s = Some (regs', s') \<Longrightarrow> regs' = regs" "syscall_free regs s = Some (regs', s') \<Longrightarrow> regs' = regs"
  "syscall_print regs s = Some (regs', s') \<Longrightarrow> regs' = regs" "syscall_exit hlt regs s = Some (regs', s') \<Longrightarrow> regs' = regs"
  "syscall_malloc regs s = Some (regs', s') \<Longrightarrow> regs' = regs\<lparr>reg_eax := reg_eax regs'\<rparr>"
  "syscall_getkey hlt regs s = Some (regs', s') \<Longrightarrow> regs' = regs\<lparr>reg_eax := reg_eax regs'\<rparr>"
  by (auto simp: syscall_test0_def syscall_test1_def syscall_sleep_def Let_def syscall_free_def syscall_print_def
      syscall_exit_def syscall_malloc_def syscall_getkey_def split: if_splits option.splits)

lemma dispatcher_keeps:
  assumes "syscall_dispatcher hlt regs s = Some (regs', s')"
  shows "regs'\<lparr>reg_eax := 0\<rparr> = regs\<lparr>reg_eax := 0\<rparr> \<and> (reg_eax regs \<in> {0, 1, 2, 4, 5, 6} \<longrightarrow> regs' = regs)"
proof -
  have up: "regs'\<lparr>reg_eax := 0\<rparr> = regs\<lparr>reg_eax := 0\<rparr>" if "regs' = regs\<lparr>reg_eax := reg_eax regs'\<rparr>" by (subst that) simp
  consider "reg_eax regs > 7" | "reg_eax regs \<in> {0, 1, 2, 4, 5, 6}" | "reg_eax regs = 3" | "reg_eax regs = 7"
    using eax_cases [of "reg_eax regs"] by blast
  then show ?thesis
  proof cases
    case 1
    then have "reg_eax regs \<notin> {0, 1, 2, 4, 5, 6}" by (auto simp: word_less_nat_alt)
    with 1 assms show ?thesis by (auto simp: syscall_dispatcher_def)
  next
    case 2
    then have "regs' = regs" using assms handler_registers(1-6) by auto
    then show ?thesis by simp
  next
    case 3
    then have "regs' = regs\<lparr>reg_eax := reg_eax regs'\<rparr>" using assms handler_registers(7) [of regs s regs' s'] by simp
    with 3 up show ?thesis by auto
  next
    case 4
    then have "regs' = regs\<lparr>reg_eax := reg_eax regs'\<rparr>" using assms handler_registers(8) [of hlt regs s regs' s'] by simp
    with 4 up show ?thesis by auto
  qed
qed


section \<open>Concrete runs\<close>

definition demo_board :: "u8 \<Rightarrow> u8 \<Rightarrow> board" where
  "demo_board a b = kernel.extend (two_tasks a b) \<lparr>rtc_ticks = 0, input_buffer = (\<lambda>_. 0)\<rparr>"

definition demo_regs :: "u32 \<Rightarrow> u32 \<Rightarrow> syscall_saved_regs_t" where
  "demo_regs a b = \<lparr>reg_ebx = b, reg_ecx = 0, reg_edx = 0, reg_esi = 0, reg_edi = 0, reg_ebp = 0, reg_ds = 0x23,
     reg_es = 0x23, reg_fs = 0x23, reg_gs = 0x23, reg_eax = a\<rparr>"

lemma demo_board_simps [simp]:
  "task (demo_board a b) = 0x1000" "kernel_timer_ms (demo_board a b) = 0"
  "tasks (demo_board a b) = (\<lambda>_. demo_task b 0)(0x1000 := demo_task a 0x8000)"
  "malloc_list_head (demo_board a b) = 0xD1000000"
  "blocks (demo_board a b) = (\<lambda>_. \<lparr>bsize = 12276, bfree = True, bnext = 0\<rparr>)"
  using two_tasks_simps [of a b] by (simp_all add: demo_board_def kernel.defs)


lemma sleep_lasts_witness:
  "\<exists>s1 s2. syscall_dispatcher id (demo_regs 2 25) ((demo_board TASK_PAUSED TASK_RUNNIG)\<lparr>current_task := 0x8000\<rparr>) =
     Some (demo_regs 2 25, s1) \<and> ticks id 3 s1 = Some s2 \<and> runnable (tasks s2 0x8000)"
proof -
  let ?s = "(demo_board TASK_PAUSED TASK_RUNNIG)\<lparr>current_task := 0x8000\<rparr>"
  have ok: "sched_ok ?s [0x1000, 0x8000]" by (simp add: sched_ok_def runnable_def task_states)
  have one: "\<forall>p\<in>set [0x1000, 0x8000]. t_state (tasks ?s p) = TASK_RUNNIG \<longrightarrow> p = current_task ?s"
    by (simp add: task_states)
  show ?thesis
    using sleep_lasts [OF ok _ one, of "demo_regs 2 25" 25 3 id] by (auto simp: demo_regs_def)
qed


end
