(* ===== verification/Descriptors.thy ===== *)
theory Descriptors
  imports Syscall
begin

text \<open>
  The processor's tables: segment descriptors (\<open>src/kernel/arch/i686/gdt.c\<close>, \<open>gdt.h\<close>), the
  task state segment (\<open>tss.c\<close>), the interrupt gates the kernel installs
  (\<open>src/kernel/interrupts/idt.c\<close>, \<open>exceptions.c\<close>), and the second set of gates with its
  common handler (\<open>arch/i686/idt.c\<close>, \<open>isr.c\<close>, \<open>isrs_gen.c\<close>).

  Tables are functions from indices to entries. Loading a table register stores its operand in the
  state. The addresses of the handlers and of the tables are arguments. The lemmas read the entries as
  the processor does and show which segments and gates there are.
\<close>

section \<open>Segment descriptors\<close>

record GDTEntry =
  LimitLow :: u16
  BaseLow :: u16
  BaseMiddle :: u8
  Access :: u8
  FlagsLimitHi :: u8
  BaseHigh :: u8

definition GDT_LIMIT_LOW :: "u32 \<Rightarrow> u32" where "GDT_LIMIT_LOW limit = limit AND 0xFFFF"
definition GDT_BASE_LOW :: "u32 \<Rightarrow> u32" where "GDT_BASE_LOW base = base AND 0xFFFF"
definition GDT_BASE_MIDDLE :: "u32 \<Rightarrow> u32" where "GDT_BASE_MIDDLE base = drop_bit 16 base AND 0xFF"
definition GDT_FLAGS_LIMIT_HI :: "u32 \<Rightarrow> u32 \<Rightarrow> u32" where
  "GDT_FLAGS_LIMIT_HI limit flags = (drop_bit 16 limit AND 0xF) OR (flags AND 0xF0)"
definition GDT_BASE_HIGH :: "u32 \<Rightarrow> u32" where "GDT_BASE_HIGH base = drop_bit 24 base AND 0xFF"

definition GDT_ENTRY :: "u32 \<Rightarrow> u32 \<Rightarrow> u32 \<Rightarrow> u32 \<Rightarrow> GDTEntry" where
  "GDT_ENTRY base limit access flags =
     \<lparr>LimitLow = ucast (GDT_LIMIT_LOW limit), BaseLow = ucast (GDT_BASE_LOW base),
      BaseMiddle = ucast (GDT_BASE_MIDDLE base), Access = ucast access,
      FlagsLimitHi = ucast (GDT_FLAGS_LIMIT_HI limit flags), BaseHigh = ucast (GDT_BASE_HIGH base)\<rparr>"

definition GDT_ACCESS_CODE_READABLE :: u32 where "GDT_ACCESS_CODE_READABLE = 0x02"
definition GDT_ACCESS_DATA_WRITEABLE :: u32 where "GDT_ACCESS_DATA_WRITEABLE = 0x02"
definition GDT_ACCESS_DATA_SEGMENT :: u32 where "GDT_ACCESS_DATA_SEGMENT = 0x10"
definition GDT_ACCESS_CODE_SEGMENT :: u32 where "GDT_ACCESS_CODE_SEGMENT = 0x18"
definition GDT_ACCESS_TSS_AVAILABLE_32BIT :: u32 where "GDT_ACCESS_TSS_AVAILABLE_32BIT = 0x09"
definition GDT_ACCESS_RING0 :: u32 where "GDT_ACCESS_RING0 = 0x00"
definition GDT_ACCESS_RING3 :: u32 where "GDT_ACCESS_RING3 = 0x60"
definition GDT_ACCESS_PRESENT :: u32 where "GDT_ACCESS_PRESENT = 0x80"
definition GDT_FLAG_32BIT :: u32 where "GDT_FLAG_32BIT = 0x40"
definition GDT_FLAG_GRANULARITY_4K :: u32 where "GDT_FLAG_GRANULARITY_4K = 0x80"

lemmas gdt_bits = GDT_ACCESS_CODE_READABLE_def GDT_ACCESS_DATA_WRITEABLE_def GDT_ACCESS_DATA_SEGMENT_def
  GDT_ACCESS_CODE_SEGMENT_def GDT_ACCESS_TSS_AVAILABLE_32BIT_def GDT_ACCESS_RING0_def GDT_ACCESS_RING3_def
  GDT_ACCESS_PRESENT_def GDT_FLAG_32BIT_def GDT_FLAG_GRANULARITY_4K_def

definition g_GDT_init :: "GDTEntry list" where
  "g_GDT_init =
     [GDT_ENTRY 0 0 0 0,
      GDT_ENTRY 0 0xFFFFF
        (GDT_ACCESS_PRESENT OR GDT_ACCESS_RING0 OR GDT_ACCESS_CODE_SEGMENT OR GDT_ACCESS_CODE_READABLE)
        (GDT_FLAG_32BIT OR GDT_FLAG_GRANULARITY_4K),
      GDT_ENTRY 0 0xFFFFF
        (GDT_ACCESS_PRESENT OR GDT_ACCESS_RING0 OR GDT_ACCESS_DATA_SEGMENT OR GDT_ACCESS_DATA_WRITEABLE)
        (GDT_FLAG_32BIT OR GDT_FLAG_GRANULARITY_4K),
      GDT_ENTRY 0 0xFFFFF
        (GDT_ACCESS_PRESENT OR GDT_ACCESS_RING3 OR GDT_ACCESS_CODE_SEGMENT OR GDT_ACCESS_CODE_READABLE)
        (GDT_FLAG_32BIT OR GDT_FLAG_GRANULARITY_4K),
      GDT_ENTRY 0 0xFFFFF
        (GDT_ACCESS_PRESENT OR GDT_ACCESS_RING3 OR GDT_ACCESS_DATA_SEGMENT OR GDT_ACCESS_DATA_WRITEABLE)
        (GDT_FLAG_32BIT OR GDT_FLAG_GRANULARITY_4K),
      GDT_ENTRY 0 0 0 0]"

text \<open>The bootloader's table has the first three entries only.\<close>

definition boot_g_GDT :: "GDTEntry list" where
  "boot_g_GDT =
     [GDT_ENTRY 0 0 0 0,
      GDT_ENTRY 0 0xFFFFF
        (GDT_ACCESS_PRESENT OR GDT_ACCESS_RING0 OR GDT_ACCESS_CODE_SEGMENT OR GDT_ACCESS_CODE_READABLE)
        (GDT_FLAG_32BIT OR GDT_FLAG_GRANULARITY_4K),
      GDT_ENTRY 0 0xFFFFF
        (GDT_ACCESS_PRESENT OR GDT_ACCESS_RING0 OR GDT_ACCESS_DATA_SEGMENT OR GDT_ACCESS_DATA_WRITEABLE)
        (GDT_FLAG_32BIT OR GDT_FLAG_GRANULARITY_4K)]"

section \<open>State\<close>

record idt_entry_32_t =
  isr_address_low :: u16
  kernel_cs :: u16
  reserved :: u8
  attributes :: u8
  isr_address_high :: u16

text \<open>The table registers hold the limit and the address they were loaded with.\<close>

record machine = board +
  g_GDT :: "GDTEntry list"
  tss_ss0 :: u16
  tss_iomap_base :: u16
  tss_rest :: "nat \<Rightarrow> u8"
  idt32 :: "nat \<Rightarrow> idt_entry_32_t"
  GDTR :: "u16 \<times> u32"
  IDTR :: "u16 \<times> u32"
  TR :: u16
  g_IDT :: "nat \<Rightarrow> idt_entry_32_t"
  g_ISRHandlers :: "nat \<Rightarrow> u32"

definition i686_GDT_CODE_SEGMENT :: u16 where "i686_GDT_CODE_SEGMENT = 0x08"
definition i686_GDT_DATA_SEGMENT :: u16 where "i686_GDT_DATA_SEGMENT = 0x10"
definition i686_GDT_TSS_SEGMENT :: u16 where "i686_GDT_TSS_SEGMENT = 0x28"

text \<open>\<open>i686_GDT_Load\<close> of \<open>gdt.asm\<close>; \<open>gdt_addr\<close> is the address of \<open>g_GDT\<close>.\<close>

definition i686_GDT_Load :: "u16 \<times> u32 \<Rightarrow> u16 \<Rightarrow> u16 \<Rightarrow> 'a machine_scheme \<Rightarrow> 'a machine_scheme" where
  "i686_GDT_Load descriptor code dat s =
     s\<lparr>GDTR := descriptor, r_cs := code, r_ds := dat, r_es := dat, r_fs := dat, r_gs := dat, r_ss := dat\<rparr>"

definition g_GDTDescriptor :: "u32 \<Rightarrow> 'a machine_scheme \<Rightarrow> u16 \<times> u32" where
  "g_GDTDescriptor gdt_addr s = (of_nat (8 * length (g_GDT s)) - 1, gdt_addr)"

definition i686_GDT_Initialize :: "u32 \<Rightarrow> 'a machine_scheme \<Rightarrow> 'a machine_scheme" where
  "i686_GDT_Initialize gdt_addr s =
     i686_GDT_Load (g_GDTDescriptor gdt_addr s) i686_GDT_CODE_SEGMENT i686_GDT_DATA_SEGMENT s"

text \<open>\<open>tss_init\<close>: the structure is cleared (\<open>tss_rest\<close> are the bytes of the fields that are never
  set), and its descriptor is patched into the table. \<open>sizeof(TSS)\<close> is 104.\<close>

definition TSS_SIZE :: u32 where "TSS_SIZE = 104"

definition tss_init :: "u32 \<Rightarrow> u32 \<Rightarrow> 'a machine_scheme \<Rightarrow> 'a machine_scheme" where
  "tss_init gdt_addr tss_addr s =
     (let s1 = s\<lparr>tss_esp0 := 0, tss_rest := (\<lambda>_. 0), tss_ss0 := i686_GDT_DATA_SEGMENT,
                 tss_iomap_base := ucast TSS_SIZE\<rparr>;
          base = tss_addr;
          limit = TSS_SIZE - 1;
          e = (g_GDT s1 ! 5)\<lparr>LimitLow := ucast (GDT_LIMIT_LOW limit), BaseLow := ucast (GDT_BASE_LOW base),
                BaseMiddle := ucast (GDT_BASE_MIDDLE base),
                Access := ucast (GDT_ACCESS_PRESENT OR GDT_ACCESS_TSS_AVAILABLE_32BIT),
                FlagsLimitHi := ucast (GDT_FLAGS_LIMIT_HI limit 0), BaseHigh := ucast (GDT_BASE_HIGH base)\<rparr>
      in s1\<lparr>g_GDT := (g_GDT s1)[5 := e], GDTR := g_GDTDescriptor gdt_addr s1, TR := i686_GDT_TSS_SEGMENT\<rparr>)"

section \<open>Interrupt gates\<close>

definition TRAP_GATE_FLAGS :: u8 where "TRAP_GATE_FLAGS = 0x8F"
definition INT_GATE_FLAGS :: u8 where "INT_GATE_FLAGS = 0x8E"
definition INT_GATE_USER_FLAGS :: u8 where "INT_GATE_USER_FLAGS = 0xEE"

record handler_addresses =
  default_excp_handler :: u32
  default_excp_handler_err_code :: u32
  default_int_handler :: u32
  div_by_0_handler_addr :: u32
  syscall_dispatcher_addr :: u32
  timer_irq0_handler_addr :: u32
  keyboard_irq1_handler_addr :: u32
  idt32_addr :: u32

definition idt_descriptor :: "u32 \<Rightarrow> u8 \<Rightarrow> idt_entry_32_t" where
  "idt_descriptor isr flags =
     \<lparr>isr_address_low = ucast (isr AND 0xFFFF), kernel_cs = 0x08, reserved = 0, attributes = flags,
      isr_address_high = ucast (drop_bit 16 isr AND 0xFFFF)\<rparr>"

definition set_idt_descriptor_32 :: "nat \<Rightarrow> u32 \<Rightarrow> u8 \<Rightarrow> 'a machine_scheme \<Rightarrow> 'a machine_scheme" where
  "set_idt_descriptor_32 entry_number isr flags s = s\<lparr>idt32 := (idt32 s)(entry_number := idt_descriptor isr flags)\<rparr>"

definition has_error_code :: "nat \<Rightarrow> bool" where
  "has_error_code n \<longleftrightarrow> n = 8 \<or> n = 10 \<or> n = 11 \<or> n = 12 \<or> n = 13 \<or> n = 14 \<or> n = 17 \<or> n = 21"

definition init_idt_32 :: "devices \<Rightarrow> handler_addresses \<Rightarrow> 'a machine_scheme \<Rightarrow> 'a machine_scheme" where
  "init_idt_32 dev h s =
     (let s1 = fold (\<lambda>n. if has_error_code n then set_idt_descriptor_32 n (default_excp_handler_err_code h) TRAP_GATE_FLAGS
                         else set_idt_descriptor_32 n (default_excp_handler h) TRAP_GATE_FLAGS) [0..<32] s;
          s2 = fold (\<lambda>n. set_idt_descriptor_32 n (default_int_handler h) INT_GATE_FLAGS) [32..<256] s1;
          s3 = s2\<lparr>IDTR := (2048, idt32_addr h)\<rparr>;
          s4 = set_idt_descriptor_32 0 (div_by_0_handler_addr h) TRAP_GATE_FLAGS s3;
          s5 = set_idt_descriptor_32 0x80 (syscall_dispatcher_addr h) INT_GATE_USER_FLAGS s4;
          s6 = set_idt_descriptor_32 0x20 (timer_irq0_handler_addr h) INT_GATE_FLAGS s5;
          s7 = set_idt_descriptor_32 0x21 (keyboard_irq1_handler_addr h) INT_GATE_FLAGS s6;
          s8 = clear_irq_mask dev 2 (clear_irq_mask dev 1 (clear_irq_mask dev 0 s7));
          s9 = s8\<lparr>IF_flag := True\<rparr>
      in set_pit_channel_mode_frequency 0 2 11932 s9)"

text \<open>The default handlers print a line; the handler of division by zero also skips a byte of code.\<close>

definition default_excp :: "'a machine_scheme \<Rightarrow> 'a machine_scheme option" where
  "default_excp s = printf put_c (ascii ''Default exception handler called without error code'' @ [0x0A]) (\<lambda>_. 0) s"

definition default_excp_err_code :: "'a machine_scheme \<Rightarrow> 'a machine_scheme option" where
  "default_excp_err_code s = printf put_c (ascii ''Default exception handler called with error code '' @ [0x0A]) (\<lambda>_. 0) s"

definition default_int :: "'a machine_scheme \<Rightarrow> 'a machine_scheme option" where
  "default_int s = printf put_c (ascii ''Default interrupt handler'') (\<lambda>_. 0) s"

definition div_by_0_handler :: "u32 \<Rightarrow> 'a machine_scheme \<Rightarrow> (u32 \<times> 'a machine_scheme) option" where
  "div_by_0_handler frame_eip s =
     map_option (Pair (frame_eip + 1))
       (printf put_c (ascii ''Divide by zero exception called'' @ [0x0A] @ ascii '' '') (\<lambda>_. 0) s)"

section \<open>The second set of gates\<close>

definition IDT_FLAG_GATE_32BIT_INT :: u8 where "IDT_FLAG_GATE_32BIT_INT = 0xE"
definition IDT_FLAG_RING0 :: u8 where "IDT_FLAG_RING0 = 0"
definition IDT_FLAG_PRESENT :: u8 where "IDT_FLAG_PRESENT = 0x80"

definition i686_IDT_SetGate :: "nat \<Rightarrow> u32 \<Rightarrow> u16 \<Rightarrow> u8 \<Rightarrow> 'a machine_scheme \<Rightarrow> 'a machine_scheme" where
  "i686_IDT_SetGate interrupt base segmentDescriptor flags s =
     s\<lparr>g_IDT := (g_IDT s)(interrupt :=
        \<lparr>isr_address_low = ucast (base AND 0xFFFF), kernel_cs = segmentDescriptor, reserved = 0,
         attributes = flags, isr_address_high = ucast (drop_bit 16 base AND 0xFFFF)\<rparr>)\<rparr>"

definition i686_IDT_EnableGate :: "nat \<Rightarrow> 'a machine_scheme \<Rightarrow> 'a machine_scheme" where
  "i686_IDT_EnableGate interrupt s =
     s\<lparr>g_IDT := (g_IDT s)(interrupt := (g_IDT s interrupt)\<lparr>attributes := attributes (g_IDT s interrupt) OR IDT_FLAG_PRESENT\<rparr>)\<rparr>"

definition i686_IDT_DisableGate :: "nat \<Rightarrow> 'a machine_scheme \<Rightarrow> 'a machine_scheme" where
  "i686_IDT_DisableGate interrupt s =
     s\<lparr>g_IDT := (g_IDT s)(interrupt := (g_IDT s interrupt)\<lparr>attributes := attributes (g_IDT s interrupt) AND NOT IDT_FLAG_PRESENT\<rparr>)\<rparr>"

definition i686_IDT_Initialize :: "u32 \<Rightarrow> 'a machine_scheme \<Rightarrow> 'a machine_scheme" where
  "i686_IDT_Initialize g_IDT_addr s = s\<lparr>IDTR := (2047, g_IDT_addr)\<rparr>"

text \<open>The generated file sets the 256 gates one by one; \<open>isr n\<close> is the address of \<open>i686_ISRn\<close>.\<close>

definition i686_ISR_InitializeGates :: "(nat \<Rightarrow> u32) \<Rightarrow> 'a machine_scheme \<Rightarrow> 'a machine_scheme" where
  "i686_ISR_InitializeGates isr =
     fold (\<lambda>n. i686_IDT_SetGate n (isr n) i686_GDT_CODE_SEGMENT (IDT_FLAG_RING0 OR IDT_FLAG_GATE_32BIT_INT)) [0..<256]"

definition i686_ISR_Initialize :: "(nat \<Rightarrow> u32) \<Rightarrow> 'a machine_scheme \<Rightarrow> 'a machine_scheme" where
  "i686_ISR_Initialize isr s =
     i686_IDT_DisableGate 0x80 (fold i686_IDT_EnableGate [0..<256] (i686_ISR_InitializeGates isr s))"

definition i686_ISR_RegisterHandler :: "nat \<Rightarrow> u32 \<Rightarrow> 'a machine_scheme \<Rightarrow> 'a machine_scheme" where
  "i686_ISR_RegisterHandler interrupt handler s =
     i686_IDT_EnableGate interrupt (s\<lparr>g_ISRHandlers := (g_ISRHandlers s)(interrupt := handler)\<rparr>)"

record Registers =
  f_ds :: u32
  f_edi :: u32
  f_esi :: u32
  f_ebp :: u32
  f_useless :: u32
  f_ebx :: u32
  f_edx :: u32
  f_ecx :: u32
  f_eax :: u32
  f_interrupt :: u32
  f_error :: u32
  f_eip :: u32
  f_cs :: u32
  f_eflags :: u32
  f_esp :: u32
  f_ss :: u32

text \<open>Printing one line after the other; the common handler with the output function, the call of a
  registered handler and what follows the last line (the bootloader's panic) as arguments.
  \<open>exc n\<close> is the address of the name of exception \<open>n\<close>.\<close>

fun print_lines ::
  "(u8 list \<Rightarrow> (nat \<Rightarrow> u32) \<Rightarrow> 's \<Rightarrow> 's option) \<Rightarrow> (u8 list \<times> u32 list) list \<Rightarrow> 's \<Rightarrow> 's option" where
  "print_lines pr [] s = Some s"
| "print_lines pr ((fmt, args) # ls) s =
     (case pr fmt (\<lambda>i. args ! i) s of None \<Rightarrow> None | Some s' \<Rightarrow> print_lines pr ls s')"

definition panic_lines :: "(u32 \<Rightarrow> u32) \<Rightarrow> Registers \<Rightarrow> (u8 list \<times> u32 list) list" where
  "panic_lines exc r =
     [(ascii ''Unhandled exception %d %s'' @ [0x0A], [f_interrupt r, exc (f_interrupt r)]),
      (ascii ''  eax=%x  ebx=%x  ecx=%x  edx=%x  esi=%x  edi=%x'' @ [0x0A],
        [f_eax r, f_ebx r, f_ecx r, f_edx r, f_esi r, f_edi r]),
      (ascii ''  esp=%x  ebp=%x  eip=%x  eflags=%x  cs=%x  ds=%x  ss=%x'' @ [0x0A],
        [f_esp r, f_ebp r, f_eip r, f_eflags r, f_cs r, f_ds r, f_ss r]),
      (ascii ''  interrupt=%x  errorcode=%x'' @ [0x0A], [f_interrupt r, f_error r]),
      (ascii ''KERNEL PANIC!'' @ [0x0A], [])]"

definition i686_ISR_Handler ::
  "(u32 \<Rightarrow> Registers \<Rightarrow> 'a machine_scheme \<Rightarrow> (Registers \<times> 'a machine_scheme) option) \<Rightarrow> (u32 \<Rightarrow> u32) \<Rightarrow>
   Registers \<Rightarrow> 'a machine_scheme \<Rightarrow> (Registers \<times> 'a machine_scheme) option" where
  "i686_ISR_Handler call exc r s =
     (if g_ISRHandlers s (unat (f_interrupt r)) \<noteq> 0 then call (g_ISRHandlers s (unat (f_interrupt r))) r s
      else if f_interrupt r \<ge> 32
           then map_option (Pair r) (printf put_c (ascii ''Unhandled interrupt %d!'' @ [0x0A]) (\<lambda>_. f_interrupt r) s)
      else map_option (Pair r) (print_lines (printf put_c) (panic_lines exc r) s))"

section \<open>Reading the tables as the processor does\<close>

definition segment_base :: "GDTEntry \<Rightarrow> u32" where
  "segment_base e = push_bit 24 (ucast (BaseHigh e)) OR push_bit 16 (ucast (BaseMiddle e)) OR ucast (BaseLow e)"

definition segment_limit :: "GDTEntry \<Rightarrow> u32" where
  "segment_limit e = push_bit 16 (ucast (FlagsLimitHi e) AND 0xF) OR ucast (LimitLow e)"

text \<open>The last byte of a segment: the limit counts pages when the granularity bit is set.\<close>

definition segment_last :: "GDTEntry \<Rightarrow> u32" where
  "segment_last e = (if bit (FlagsLimitHi e) 7 then push_bit 12 (segment_limit e) OR 0xFFF else segment_limit e)"

definition segment_present :: "GDTEntry \<Rightarrow> bool" where "segment_present e = bit (Access e) 7"
definition segment_dpl :: "GDTEntry \<Rightarrow> u8" where "segment_dpl e = drop_bit 5 (Access e) AND 3"
definition segment_type :: "GDTEntry \<Rightarrow> u8" where "segment_type e = Access e AND 0x1F"

definition selected :: "u16 \<Rightarrow> 'a machine_scheme \<Rightarrow> GDTEntry" where
  "selected selector s = g_GDT s ! unat (drop_bit 3 selector)"

definition gate_address :: "idt_entry_32_t \<Rightarrow> u32" where
  "gate_address e = push_bit 16 (ucast (isr_address_high e)) OR ucast (isr_address_low e)"

definition gate_present :: "idt_entry_32_t \<Rightarrow> bool" where "gate_present e = bit (attributes e) 7"
definition gate_dpl :: "idt_entry_32_t \<Rightarrow> u8" where "gate_dpl e = drop_bit 5 (attributes e) AND 3"
definition gate_type :: "idt_entry_32_t \<Rightarrow> u8" where "gate_type e = attributes e AND 0xF"

lemmas segment_reads = segment_base_def segment_limit_def segment_last_def segment_present_def
  segment_dpl_def segment_type_def selected_def

lemmas gdt_macros = GDT_ENTRY_def GDT_LIMIT_LOW_def GDT_BASE_LOW_def GDT_BASE_MIDDLE_def
  GDT_FLAGS_LIMIT_HI_def GDT_BASE_HIGH_def

lemma low_halves: "x AND 0xFFFF = take_bit 16 x" "x AND 0xFF = take_bit 8 x" for x :: u32
  by (simp_all add: take_bit_eq_mask mask_eq_exp_minus_1)

lemma address_halves:
  "push_bit 16 (ucast (ucast (drop_bit 16 (x::u32) AND 0xFFFF) :: u16)) OR ucast (ucast (x AND 0xFFFF) :: u16) = x"
  unfolding low_halves by (rule bit_word_eqI) (auto simp: bit_simps)

lemma base_parts:
  "push_bit 24 (ucast (ucast (GDT_BASE_HIGH x) :: u8)) OR push_bit 16 (ucast (ucast (GDT_BASE_MIDDLE x) :: u8))
     OR ucast (ucast (GDT_BASE_LOW x) :: u16) = (x :: u32)"
  unfolding GDT_BASE_HIGH_def GDT_BASE_MIDDLE_def GDT_BASE_LOW_def low_halves
  by (rule bit_word_eqI, rename_tac n, case_tac "n < 24") (auto simp: bit_simps)

section \<open>The gates that are installed\<close>

text \<open>Setting gates one after the other: each gate ends as its last setting leaves it.\<close>

lemma fold_gates:
  "fold (\<lambda>n. set_idt_descriptor_32 n (f n) (g n)) [a..<b] s =
     s\<lparr>idt32 := \<lambda>n. if a \<le> n \<and> n < b then idt_descriptor (f n) (g n) else idt32 s n\<rparr>"
  by (induction b) (auto simp: set_idt_descriptor_32_def fun_eq_iff)

lemma fold_exception_gates:
  "fold (\<lambda>n. if has_error_code n then set_idt_descriptor_32 n x fl else set_idt_descriptor_32 n y fl) ns s =
   fold (\<lambda>n. set_idt_descriptor_32 n (if has_error_code n then x else y) fl) ns s"
  by (rule fold_cong) auto

lemma gate_address_descriptor [simp]: "gate_address (idt_descriptor a fl) = a"
  by (simp add: gate_address_def idt_descriptor_def address_halves)

lemma descriptor_fields [simp]:
  "kernel_cs (idt_descriptor a fl) = 8" "reserved (idt_descriptor a fl) = 0" "attributes (idt_descriptor a fl) = fl"
  by (simp_all add: idt_descriptor_def)

definition gate_handler :: "handler_addresses \<Rightarrow> nat \<Rightarrow> u32" where
  "gate_handler h n =
     (if n = 0 then div_by_0_handler_addr h
      else if n = 0x20 then timer_irq0_handler_addr h
      else if n = 0x21 then keyboard_irq1_handler_addr h
      else if n = 0x80 then syscall_dispatcher_addr h
      else if n < 32 then (if has_error_code n then default_excp_handler_err_code h else default_excp_handler h)
      else default_int_handler h)"

definition gate_flags :: "nat \<Rightarrow> u8" where
  "gate_flags n = (if n = 0x80 then INT_GATE_USER_FLAGS else if n < 32 then TRAP_GATE_FLAGS else INT_GATE_FLAGS)"

lemma port_fields [simp]:
  "idt32 (clear_irq_mask dev k s) = idt32 s" "IDTR (clear_irq_mask dev k s) = IDTR s"
  "IF_flag (clear_irq_mask dev k s) = IF_flag s"
  "idt32 (set_pit_channel_mode_frequency c md d s) = idt32 s" "IDTR (set_pit_channel_mode_frequency c md d s) = IDTR s"
  "IF_flag (set_pit_channel_mode_frequency c md d s) = (c \<le> 2 \<or> IF_flag s)"
  by (auto simp: clear_irq_mask_def set_pit_channel_mode_frequency_def outb_def inb_def Let_def)

lemma set_gate_fields [simp]:
  "idt32 (set_idt_descriptor_32 k a fl s) n = (if n = k then idt_descriptor a fl else idt32 s n)"
  "IDTR (set_idt_descriptor_32 k a fl s) = IDTR s"
  by (simp_all add: set_idt_descriptor_32_def)

lemma init_idt_32_gates:
  "idt32 (init_idt_32 dev h s) n = (if n < 256 then idt_descriptor (gate_handler h n) (gate_flags n) else idt32 s n)"
  "IDTR (init_idt_32 dev h s) = (2048, idt32_addr h)" "IF_flag (init_idt_32 dev h s)"
  by (simp_all add: init_idt_32_def Let_def fold_exception_gates fold_gates gate_handler_def gate_flags_def del: upt_rec_numeral)

text \<open>C30 After \<open>init_idt_32\<close> every one of the 256 vectors has a present gate that leads to its
  handler in the kernel code segment: the timer and the keyboard at 0x20 and 0x21, the system calls
  at 0x80, the default handlers elsewhere, with the variant for an error code at the exceptions that
  push one. Exceptions are trap gates, the others interrupt gates, and 0x80 is the only one that ring 3
  may call. Interrupts are on, and the register is loaded with a limit one byte beyond the table.\<close>

theorem init_idt_gates:
  assumes n: "n < 256"
  shows "(let e = idt32 (init_idt_32 dev h s) n
          in gate_address e = gate_handler h n \<and> kernel_cs e = i686_GDT_CODE_SEGMENT \<and> gate_present e \<and>
             gate_type e = (if n < 32 then 0xF else 0xE) \<and> gate_dpl e = (if n = 0x80 then 3 else 0)) \<and>
         IDTR (init_idt_32 dev h s) = (8 * 256, idt32_addr h) \<and> IF_flag (init_idt_32 dev h s)"
  using n
  by (simp add: Let_def init_idt_32_gates gate_present_def gate_type_def gate_dpl_def gate_flags_def
      TRAP_GATE_FLAGS_def INT_GATE_FLAGS_def INT_GATE_USER_FLAGS_def i686_GDT_CODE_SEGMENT_def)

definition example_handlers :: handler_addresses where
  "example_handlers =
     \<lparr>default_excp_handler = 0xC0001000, default_excp_handler_err_code = 0xC0001100, default_int_handler = 0xC0001200,
      div_by_0_handler_addr = 0xC0001300, syscall_dispatcher_addr = 0xC0001400, timer_irq0_handler_addr = 0xC0001500,
      keyboard_irq1_handler_addr = 0xC0001600, idt32_addr = 0xC0008000\<rparr>"

lemma init_idt_gates_witness:
  "\<forall>dev s. (0x80::nat) < 256 \<and> gate_address (idt32 (init_idt_32 dev example_handlers s) 0x80) = 0xC0001400 \<and>
     gate_dpl (idt32 (init_idt_32 dev example_handlers s) 0x80) = 3"
proof (intro allI)
  fix dev and s :: "'a machine_scheme"
  show "(0x80::nat) < 256 \<and> gate_address (idt32 (init_idt_32 dev example_handlers s) 0x80) = 0xC0001400 \<and>
     gate_dpl (idt32 (init_idt_32 dev example_handlers s) 0x80) = 3"
    using init_idt_gates [of "0x80" dev example_handlers s]
    by (simp add: Let_def gate_handler_def) (simp add: example_handlers_def)
qed

section \<open>The segments that are installed\<close>

lemma segment_base_of [simp]:
  "BaseHigh e = ucast (GDT_BASE_HIGH x) \<Longrightarrow> BaseMiddle e = ucast (GDT_BASE_MIDDLE x) \<Longrightarrow>
   BaseLow e = ucast (GDT_BASE_LOW x) \<Longrightarrow> segment_base e = x"
  by (simp add: segment_base_def base_parts)

text \<open>C31 After the descriptor table and the task state segment are initialised, the selectors of the
  kernel name present code and data segments of ring 0, those that \<open>enter_usermode\<close> loads name segments
  of ring 3, all over the whole address space; the task register names a segment that is exactly the
  104 bytes of the task state segment at its address, and the processor's stack segment for ring 0 is the
  kernel's data segment. The table register covers exactly the six entries.\<close>

theorem segments_installed:
  "let s' = tss_init gdt_addr tss_addr (i686_GDT_Initialize gdt_addr (s\<lparr>g_GDT := g_GDT_init\<rparr>)) in
         (let e = selected (r_cs s') s' in segment_type e = 0x1A \<and> segment_dpl e = 0 \<and> segment_present e \<and>
           segment_base e = 0 \<and> segment_last e = 0xFFFFFFFF) \<and>
         (let e = selected (r_ss s') s' in segment_type e = 0x12 \<and> segment_dpl e = 0 \<and> segment_present e \<and>
           segment_base e = 0 \<and> segment_last e = 0xFFFFFFFF) \<and>
         (let e = selected 0x1B s' in segment_type e = 0x1A \<and> segment_dpl e = 3 \<and> segment_present e \<and>
           segment_base e = 0 \<and> segment_last e = 0xFFFFFFFF) \<and>
         (let e = selected 0x23 s' in segment_type e = 0x12 \<and> segment_dpl e = 3 \<and> segment_present e \<and>
           segment_base e = 0 \<and> segment_last e = 0xFFFFFFFF) \<and>
         (let e = selected (TR s') s' in segment_type e = 0x09 \<and> segment_present e \<and>
           segment_base e = tss_addr \<and> segment_last e = TSS_SIZE - 1) \<and>
         tss_ss0 s' = r_ss s' \<and> tss_iomap_base s' = ucast TSS_SIZE \<and> GDTR s' = (8 * 6 - 1, gdt_addr)"
  unfolding tss_init_def i686_GDT_Initialize_def i686_GDT_Load_def Let_def selected_def
  by (simp add: g_GDTDescriptor_def g_GDT_init_def gdt_bits i686_GDT_CODE_SEGMENT_def i686_GDT_DATA_SEGMENT_def
      i686_GDT_TSS_SEGMENT_def TSS_SIZE_def GDT_ENTRY_def segment_type_def segment_dpl_def segment_present_def
      segment_last_def segment_limit_def GDT_LIMIT_LOW_def GDT_FLAGS_LIMIT_HI_def)

section \<open>The second set of gates\<close>

lemma fold_set_gates:
  "fold (\<lambda>n. i686_IDT_SetGate n (isr n) cs fl) [a..<b] s =
     s\<lparr>g_IDT := \<lambda>n. if a \<le> n \<and> n < b then (idt_descriptor (isr n) fl)\<lparr>kernel_cs := cs\<rparr> else g_IDT s n\<rparr>"
  by (induction b) (auto simp: i686_IDT_SetGate_def idt_descriptor_def fun_eq_iff)

lemma fold_enable_gates:
  "fold i686_IDT_EnableGate [a..<b] s =
     s\<lparr>g_IDT := \<lambda>n. if a \<le> n \<and> n < b then (g_IDT s n)\<lparr>attributes := attributes (g_IDT s n) OR IDT_FLAG_PRESENT\<rparr>
                    else g_IDT s n\<rparr>"
  by (induction b) (auto simp: i686_IDT_EnableGate_def fun_eq_iff)

text \<open>The second set of gates leads each vector to its stub, with all gates but the one of the system
  calls present; registering a handler makes its gate present.\<close>

theorem isr_gates:
  assumes n: "n < 256"
  shows "gate_address (g_IDT (i686_ISR_Initialize isr s) n) = isr n \<and>
         kernel_cs (g_IDT (i686_ISR_Initialize isr s) n) = i686_GDT_CODE_SEGMENT \<and>
         gate_type (g_IDT (i686_ISR_Initialize isr s) n) = 0xE \<and> gate_dpl (g_IDT (i686_ISR_Initialize isr s) n) = 0 \<and>
         gate_present (g_IDT (i686_ISR_Initialize isr s) n) = (n \<noteq> 0x80) \<and>
         gate_present (g_IDT (i686_ISR_RegisterHandler n handler (i686_ISR_Initialize isr s)) n)"
  using n
  by (simp add: i686_ISR_Initialize_def i686_ISR_InitializeGates_def fold_set_gates fold_enable_gates
      i686_IDT_DisableGate_def i686_ISR_RegisterHandler_def i686_IDT_EnableGate_def gate_address_def gate_type_def
      gate_dpl_def gate_present_def IDT_FLAG_PRESENT_def IDT_FLAG_GATE_32BIT_INT_def IDT_FLAG_RING0_def
      idt_descriptor_def address_halves bit_simps)

lemma isr_gates_witness:
  "\<forall>s. (33::nat) < 256 \<and> gate_address (g_IDT (i686_ISR_Initialize (\<lambda>n. 0x100000 + 16 * of_nat n) s) 33) = 0x100210"
proof
  fix s :: "'a machine_scheme"
  show "(33::nat) < 256 \<and> gate_address (g_IDT (i686_ISR_Initialize (\<lambda>n. 0x100000 + 16 * of_nat n) s) 33) = 0x100210"
    using isr_gates [of 33 "\<lambda>n. 0x100000 + 16 * of_nat n" s] by simp
qed

end
