(* ===== verification/Boot_Interrupts.thy ===== *)
theory Boot_Interrupts
  imports Boot_Stdio Descriptors
begin

text \<open>
  The interrupt tables of the bootloader: \<open>src/bootloader/stage2/idt.c\<close>, \<open>isr.c\<close> and the generated
  \<open>isrs_gen.c\<close>. They are the text of the kernel's \<open>arch/i686\<close> files but for the output function and the
  panic at the end of the handler; the lemmas say so. The main program of the bootloader does not call them.
\<close>

section \<open>idt.c\<close>

definition boot_i686_IDT_SetGate :: "nat \<Rightarrow> u32 \<Rightarrow> u16 \<Rightarrow> u8 \<Rightarrow> 'a machine_scheme \<Rightarrow> 'a machine_scheme" where
  "boot_i686_IDT_SetGate interrupt base segmentDescriptor flags s =
     s\<lparr>g_IDT := (g_IDT s)(interrupt :=
        \<lparr>isr_address_low = ucast (base AND 0xFFFF), kernel_cs = segmentDescriptor, reserved = 0,
         attributes = flags, isr_address_high = ucast (drop_bit 16 base AND 0xFFFF)\<rparr>)\<rparr>"

definition boot_i686_IDT_EnableGate :: "nat \<Rightarrow> 'a machine_scheme \<Rightarrow> 'a machine_scheme" where
  "boot_i686_IDT_EnableGate interrupt s =
     s\<lparr>g_IDT := (g_IDT s)(interrupt := (g_IDT s interrupt)\<lparr>attributes := attributes (g_IDT s interrupt) OR IDT_FLAG_PRESENT\<rparr>)\<rparr>"

definition boot_i686_IDT_DisableGate :: "nat \<Rightarrow> 'a machine_scheme \<Rightarrow> 'a machine_scheme" where
  "boot_i686_IDT_DisableGate interrupt s =
     s\<lparr>g_IDT := (g_IDT s)(interrupt := (g_IDT s interrupt)\<lparr>attributes := attributes (g_IDT s interrupt) AND NOT IDT_FLAG_PRESENT\<rparr>)\<rparr>"

definition boot_i686_IDT_Initialize :: "u32 \<Rightarrow> 'a machine_scheme \<Rightarrow> 'a machine_scheme" where
  "boot_i686_IDT_Initialize g_IDT_addr s = s\<lparr>IDTR := (of_nat (8 * 256 - 1), g_IDT_addr)\<rparr>"

section \<open>isrs_gen.c and isr.c\<close>

definition boot_i686_ISR_InitializeGates :: "(nat \<Rightarrow> u32) \<Rightarrow> 'a machine_scheme \<Rightarrow> 'a machine_scheme" where
  "boot_i686_ISR_InitializeGates isr =
     fold (\<lambda>n. boot_i686_IDT_SetGate n (isr n) i686_GDT_CODE_SEGMENT (IDT_FLAG_RING0 OR IDT_FLAG_GATE_32BIT_INT)) [0..<256]"

definition boot_i686_ISR_Initialize :: "(nat \<Rightarrow> u32) \<Rightarrow> 'a machine_scheme \<Rightarrow> 'a machine_scheme" where
  "boot_i686_ISR_Initialize isr s =
     boot_i686_IDT_DisableGate 0x80 (fold boot_i686_IDT_EnableGate [0..<256] (boot_i686_ISR_InitializeGates isr s))"

definition boot_i686_ISR_RegisterHandler :: "nat \<Rightarrow> u32 \<Rightarrow> 'a machine_scheme \<Rightarrow> 'a machine_scheme" where
  "boot_i686_ISR_RegisterHandler interrupt handler s =
     boot_i686_IDT_EnableGate interrupt (s\<lparr>g_ISRHandlers := (g_ISRHandlers s)(interrupt := handler)\<rparr>)"

text \<open>The handler returns, or it halts in \<open>i686_Panic\<close> with interrupts off.\<close>

datatype 's handled = Returns Registers 's | Halted 's

definition i686_Panic :: "'a machine_scheme \<Rightarrow> 'a machine_scheme handled" where
  "i686_Panic s = Halted (s\<lparr>IF_flag := False\<rparr>)"

definition boot_i686_ISR_Handler ::
  "(u32 \<Rightarrow> Registers \<Rightarrow> 'a machine_scheme \<Rightarrow> (Registers \<times> 'a machine_scheme) option) \<Rightarrow> (u32 \<Rightarrow> u32) \<Rightarrow>
   Registers \<Rightarrow> 'a machine_scheme \<Rightarrow> 'a machine_scheme handled option" where
  "boot_i686_ISR_Handler call exc r s =
     (if g_ISRHandlers s (unat (f_interrupt r)) \<noteq> 0
      then map_option (\<lambda>(r', s'). Returns r' s') (call (g_ISRHandlers s (unat (f_interrupt r))) r s)
      else if f_interrupt r \<ge> 32
           then map_option (Returns r) (boot_printf (ascii ''Unhandled interrupt %d!'' @ [0x0A]) (\<lambda>_. f_interrupt r) s)
      else map_option i686_Panic (print_lines boot_printf (panic_lines exc r) s))"

section \<open>The same as the kernel's\<close>

lemma boot_gates_eq [simp]:
  "boot_i686_IDT_SetGate = i686_IDT_SetGate" "boot_i686_IDT_EnableGate = i686_IDT_EnableGate"
  "boot_i686_IDT_DisableGate = i686_IDT_DisableGate" "boot_i686_IDT_Initialize = i686_IDT_Initialize"
  by (simp_all add: fun_eq_iff boot_i686_IDT_SetGate_def i686_IDT_SetGate_def boot_i686_IDT_EnableGate_def i686_IDT_EnableGate_def
      boot_i686_IDT_DisableGate_def i686_IDT_DisableGate_def boot_i686_IDT_Initialize_def i686_IDT_Initialize_def)

lemma boot_isr_eq [simp]:
  "boot_i686_ISR_InitializeGates = i686_ISR_InitializeGates" "boot_i686_ISR_Initialize = i686_ISR_Initialize"
  "boot_i686_ISR_RegisterHandler = i686_ISR_RegisterHandler"
  by (simp_all add: fun_eq_iff boot_i686_ISR_InitializeGates_def i686_ISR_InitializeGates_def boot_i686_ISR_Initialize_def
      i686_ISR_Initialize_def boot_i686_ISR_RegisterHandler_def i686_ISR_RegisterHandler_def del: upt_rec)

text \<open>A registered handler is called in both; only the bootloader halts after an exception without one.\<close>

lemma boot_handler_returns:
  "boot_i686_ISR_Handler call exc r s = Some (Halted s') \<Longrightarrow>
     g_ISRHandlers s (unat (f_interrupt r)) = 0 \<and> f_interrupt r < 32 \<and> \<not> IF_flag s'"
  by (auto simp: boot_i686_ISR_Handler_def i686_Panic_def not_le split: if_splits option.splits)

end
