(* ===== verification/Address_Space.thy ===== *)
theory Address_Space
  imports Vmm
begin

text \<open>
  The initial address space, \<open>INITIALIZE_VMEMORY\<close> of \<open>src/kernel/mm/vmm/vmm.c\<close>: the directory, the table of
  the kernel at 3 GiB and the table of the first 4 MiB.

  The lemmas follow its three stages. Each takes the least free frame of the allocator and writes to that
  frame, to the directory and to the bitmap only; \<open>tables_at\<close> says what the three leave together, and the
  walk of every address follows from it. The kernel and the bootloader, whose set-up is the same function, share
  them.
\<close>

section \<open>Setting up the address space\<close>

lemma store_zero_id:
  assumes "\<And>x. in_range a 4 x \<Longrightarrow> m x = 0"
  shows "store32 m a 0 = m"
proof (rule ext)
  fix x show "store32 m a 0 x = m x"
  proof (cases "in_range a 4 x")
    case True
    then have "m x = 0" by (rule assms)
    moreover have "x = a \<or> x = a + 1 \<or> x = a + 2 \<or> x = a + 3"
    proof -
      have "unat (x - a) \<in> {0, 1, 2, 3}" using True by (auto simp: in_range_def)
      then have "x - a = 0 \<or> x - a = 1 \<or> x - a = 2 \<or> x - a = 3"
        by (auto simp: word_unat_eq_iff)
      then show ?thesis by (auto simp: diff_eq_eq add.commute)
    qed
    ultimately show ?thesis by (auto simp: store32_def)
  qed (simp add: store32_outside)
qed

text \<open>The writes of \<open>fill_table\<close> into a frame that no entry points to yet.\<close>

lemma fill_loop:
  fixes s :: "'a vmm_scheme" and c :: "nat \<Rightarrow> u32"
  assumes inv: "pmm_inv s" "owned s f" and n: "n \<le> 1024"
  defines "F \<equiv> fold (\<lambda>i. update32 (at f i) (\<lambda>_. c i)) [0..<n] s"
  shows "pmm_inv F \<and> taken F = taken s \<and> owned F = owned s \<and> nbits F = nbits s \<and>
    TOTAL_BLOCK F = TOTAL_BLOCK s \<and> TOTAL_USED_BLOCKS F = TOTAL_USED_BLOCKS s \<and>
    current_page_directory F = current_page_directory s \<and> CR0 F = CR0 s \<and> CR3 F = CR3 s \<and>
    (\<forall>h l. h < 0x100000 \<longrightarrow> l < 1024 \<longrightarrow>
       entry (mem F) h l = (if h = f \<and> l < n then c l else entry (mem s) h l))"
  using n unfolding F_def
proof (induction n)
  case 0
  show ?case using inv(1) by simp
next
  case (Suc n)
  let ?G = "fold (\<lambda>i. update32 (at f i) (\<lambda>_. c i)) [0..<n] s"
  have IH: "pmm_inv ?G" "taken ?G = taken s" "owned ?G = owned s" "nbits ?G = nbits s"
    "TOTAL_BLOCK ?G = TOTAL_BLOCK s" "TOTAL_USED_BLOCKS ?G = TOTAL_USED_BLOCKS s"
    "current_page_directory ?G = current_page_directory s" "CR0 ?G = CR0 s" "CR3 ?G = CR3 s"
    "\<And>h l. h < 0x100000 \<Longrightarrow> l < 1024 \<Longrightarrow>
       entry (mem ?G) h l = (if h = f \<and> l < n then c l else entry (mem s) h l)"
    using Suc by simp_all
  have nl: "n < 1024" using Suc.prems by simp
  have f: "f < 0x100000" using inv(2) by (simp add: owned_def)
  have "owned ?G f" using IH(3) inv(2) by simp
  note U = owned_update32 [OF IH(1) this nl, of "\<lambda>_. c n"]
  have "entry (mem (update32 (at f n) (\<lambda>_. c n) ?G)) h l =
     (if h = f \<and> l < Suc n then c l else entry (mem s) h l)" if "h < 0x100000" "l < 1024" for h l
    using that f nl IH(10) [OF that] by (auto simp: entry_update32 less_Suc_eq)
  then show ?case using U IH by simp
qed

text \<open>A table that no entry points to is linked into the directory.\<close>

lemma link_unlinked:
  assumes inv: "vm_inv s" and i: "i < 1024" "pde s i = 0" and f: "owned s f" "\<not> pt_frame s f"
    and e: "bit e 0" "page e = f"
    and s2: "s2 = update32 (at (dirf s) i) (\<lambda>_. e) s"
  shows "vm_inv s2" "\<And>j. j < 1024 \<Longrightarrow> pde s2 j = (if j = i then e else pde s j)"
    "\<And>va. pte s2 va = (if pdi va = i then entry (mem s) f (pti va) else pte s va)"
    "taken s2 = taken s" "owned s2 = owned s"
proof -
  note D = vm_invD [OF inv]
  note U = owned_update32 [OF D(1,3) i(1), of "\<lambda>_. e"]
  have nz: "e \<noteq> 0" using e(1) by auto
  have fd: "f \<noteq> dirf s" using f(2) by (auto simp: pt_frame_def)
  have fl: "f < 0x100000" using f(1) by (simp add: owned_def)
  show pd: "pde s2 j = (if j = i then e else pde s j)" if "j < 1024" for j
    using that D(4) i by (simp add: pde_def s2 entry_update32)
  have fr: "entry (mem s2) g k = entry (mem s) g k" if "g \<noteq> dirf s" "g < 0x100000" "k < 1024" for g k
    using that D(4) i by (simp add: s2 entry_update32)
  show tk: "taken s2 = taken s" and ow: "owned s2 = owned s" using U by (simp_all add: s2)
  show "pte s2 va = (if pdi va = i then entry (mem s) f (pti va) else pte s va)" for va
    using pd [of "pdi va"] fr [of f "pti va"] fr [of "page (pde s (pdi va))" "pti va"]
      D(7) [of "pdi va"] fd fl e(2) nz i
    by (cases "pdi va = i"; cases "pde s (pdi va) = 0") (simp_all add: pte_def page_lt)
  have nf: "page (pde s j) \<noteq> f" if "j < 1024" "pde s j \<noteq> 0" for j
    using pt_frameI [OF that] f(2) by auto
  show "vm_inv s2"
    unfolding vm_inv_def
  proof (intro conjI allI impI)
    show "pmm_inv s2" using U(1) by (simp add: s2)
    show "current_page_directory s2 = of_nat (dirf s2) * 4096" using D(2) by (simp add: s2)
    show "owned s2 (dirf s2)" using ow D(3) by (simp add: s2)
    fix j assume j: "j < 1024" "pde s2 j \<noteq> 0"
    show "bit (pde s2 j) 0" using pd j D(5) e(1) by auto
    show "owned s2 (page (pde s2 j))" using pd j D(6) ow f(1) e(2) by auto
    show "page (pde s2 j) \<noteq> dirf s2" using pd j D(7) fd e(2) by (auto simp: s2)
  next
    fix j l assume "j < 1024" "l < 1024" "j \<noteq> l" "pde s2 j \<noteq> 0" "pde s2 l \<noteq> 0"
    then show "page (pde s2 j) \<noteq> page (pde s2 l)"
      using pd D(8) nf e(2) by (auto split: if_splits) metis+
  qed
qed

text \<open>The entry that \<open>fill_table\<close> writes at index \<open>l\<close>, and its address.\<close>

definition table_cell :: "u32 \<Rightarrow> nat \<Rightarrow> u32" where
  "table_cell frame l = SET_FRAME (SET_ATTRIBUTE (SET_ATTRIBUTE 0 PTE_PRESENT) PTE_READ_WRITE)
     (frame + of_nat l * PAGE_SIZE)"

lemma pti_aligned:
  assumes "i < 1024" "unat virt mod 4194304 = 0"
  shows "pti (virt + of_nat i * PAGE_SIZE) = i"
proof -
  obtain q where q: "unat virt = q * 4194304" using assms(2) by (metis add_0_right div_mult_mod_eq)
  have "unat virt < 4294967296" by (rule unat_u32_lt)
  then have "q < 1024" using q by simp
  then have lt: "unat virt + i * 4096 < 4294967296" using q assms(1) by simp
  have "virt + of_nat i * PAGE_SIZE = of_nat (unat virt + i * 4096)" by (simp add: PAGE_SIZE_def)
  then have "unat (virt + of_nat i * PAGE_SIZE) = unat virt + i * 4096"
    using lt by (metis unat_of_nat32)
  moreover have "(q * 4194304 + i * 4096) div 4096 = q * 1024 + i" by simp
  ultimately show ?thesis using assms(1) q by (simp add: pti_def)
qed

lemma fill_table_at:
  assumes "table = of_nat f * 4096" "unat virt mod 4194304 = 0"
  shows "fill_table table frame virt s = fold (\<lambda>i. update32 (at f i) (\<lambda>_. table_cell frame i)) [0..<1024] s"
proof -
  have "pt_entry_addr table (virt + of_nat i * PAGE_SIZE) = at f i" if "i < 1024" for i
    using pti_aligned [OF that assms(2)] by (simp add: pt_entry_addr_def PT_INDEX_eq at_def assms(1))
  then show ?thesis
    unfolding fill_table_def table_cell_def [symmetric] by (intro fold_cong) auto
qed


text \<open>Both table setups: allocate, fill with consecutive frames from \<open>frame\<close>, link at \<open>virt\<close>.\<close>

lemma setup_table:
  fixes s :: "'a vmm_scheme" and frame :: u32
  assumes inv: "vm_inv s" and al: "allocate_block 1 s = (t, s1)" "t \<noteq> 0"
    and v: "unat virt mod 4194304 = 0" and free: "pde s (pdi virt) = 0"
  defines "s2 \<equiv> link_table t virt (fill_table t frame virt (s1\<lparr>mem := memset (mem s1) t 0 4096\<rparr>))"
  shows "vm_inv s2" "\<And>va. pte s2 va = (if pdi va = pdi virt then table_cell frame (pti va) else pte s va)"
    "\<And>j. j < 1024 \<Longrightarrow> j \<noteq> pdi virt \<Longrightarrow> pde s2 j = pde s j"
    "\<not> bit (pde s2 (pdi virt)) 2"
    "TOTAL_BLOCK s2 = TOTAL_BLOCK s1" "TOTAL_USED_BLOCKS s2 = TOTAL_USED_BLOCKS s1"
    "free_frames s2 = free_frames s1"
    "current_page_directory s2 = current_page_directory s" "CR0 s2 = CR0 s" "CR3 s2 = CR3 s"
    "page (pde s2 (pdi virt)) = page t"
proof -
  note D = vm_invD [OF inv]
  note A = alloc_frame [OF D(1) al]
  define f where "f = page t"
  have t: "t = of_nat f * 4096" using pa.alloc_aligned [OF D(1) al] by (simp add: f_def)
  have own: "owned s1 f" using A(1) by (simp add: f_def)
  have inv1: "pmm_inv s1" using pa.alloc_inv [OF D(1) al(1)] .
  have c1: "current_page_directory s1 = current_page_directory s" "dirf s1 = dirf s"
    "CR0 s1 = CR0 s" "CR3 s1 = CR3 s"
    using allocate_block_vm_frame [of 1 s] al(1) by simp_all
  define F where "F = fold (\<lambda>i. update32 (at f i) (\<lambda>_. table_cell frame i)) [0..<1024] s1"
  note L = fill_loop [OF inv1 own order_refl, where c = "table_cell frame", folded F_def]
  have cF: "current_page_directory F = current_page_directory s" "dirf F = dirf s"
    using L c1 by (simp_all add: dirf_def)
  have e1: "entry (mem s1) h k = entry (mem s) h k" if "owned s h" "k < 1024" for h k
    using A(4) that by (intro entry_cong) (auto simp: owned_def)
  have eF: "entry (mem F) h k = entry (mem s) h k" if "owned s h" "k < 1024" for h k
    using L e1 [OF that] A(3) [OF that(1)] that by (simp add: f_def owned_def)
  have pF: "pde F j = pde s j" if "j < 1024" for j
    using eF [OF D(3) that] by (simp add: pde_def cF)
  have ownF: "owned s h \<Longrightarrow> owned F h" for h using L A(2) by simp
  have invF: "vm_inv F" using vm_inv_transfer [OF inv _ cF(1) ownF pF] L by simp
  have pteF: "pte F va = pte s va" for va
    using pte_transfer [OF inv cF(1) pF] eF by simp
  have nptF: "\<not> pt_frame F f"
    using A(3) [OF D(3)] A(3) [OF D(6)] pF by (auto simp: pt_frame_def cF f_def)
  define e where "e = SET_FRAME (SET_ATTRIBUTE (SET_ATTRIBUTE 0 PTE_PRESENT) PTE_READ_WRITE) t"
  have al_t: "PAGE_PHYS_ADDRESS t = t" by (rule alloc_phys [OF D(1) al])
  have e: "bit e 0" "page e = f" "\<not> bit e 2"
    using table_entry(1) [OF al_t] page_PAGE_PHYS [of e] bits_SET_FRAME_low [OF al_t, of 2]
    by (simp_all add: e_def f_def bit_SET_ATTRIBUTE flag_bits)
  have F': "fill_table t frame virt (s1\<lparr>mem := memset (mem s1) t 0 4096\<rparr>) = F"
    using fill_table_at [OF t v] A(6) by (simp add: F_def)
  have s2: "s2 = update32 (at (dirf F) (pdi virt)) (\<lambda>_. e) F"
    unfolding s2_def F' link_table_def pd_entry_at [OF invF]
    by (subst update32_const) (simp add: load_at pF free PDE_PTE e_def flip: pde_def)
  have own': "owned F f" using L own by simp
  have z: "pde F (pdi virt) = 0" using pF free by simp
  note K = link_unlinked [OF invF pdi_lt z own' nptF e(1,2) s2]
  have cell: "entry (mem F) f (pti va) = table_cell frame (pti va)" for va
    using L own by (simp add: owned_def)
  show "vm_inv s2" by (rule K(1))
  show "pte s2 va = (if pdi va = pdi virt then table_cell frame (pti va) else pte s va)" for va
    using K(3) pteF cell by simp
  show "pde s2 j = pde s j" if "j < 1024" "j \<noteq> pdi virt" for j using K(2) pF that by simp
  show "\<not> bit (pde s2 (pdi virt)) 2" "page (pde s2 (pdi virt)) = page t" using K(2) e(2,3) by (simp_all add: f_def)
  show "TOTAL_BLOCK s2 = TOTAL_BLOCK s1" "TOTAL_USED_BLOCKS s2 = TOTAL_USED_BLOCKS s1"
    "CR0 s2 = CR0 s" "CR3 s2 = CR3 s" "current_page_directory s2 = current_page_directory s"
    using L c1 by (simp_all add: s2 update32_def)
  show "free_frames s2 = free_frames s1"
    using K(4) L by (intro free_frames_cong) (simp_all add: s2)
qed


text \<open>The directory itself: a zeroed frame.\<close>

lemma setup_directory:
  assumes inv: "pmm_inv s" and al: "allocate_block 1 s = (d, s1)" "d \<noteq> 0"
  defines "s2 \<equiv> snd (setup_page_directory_table s)"
  shows "vm_inv s2" "\<And>j. j < 1024 \<Longrightarrow> pde s2 j = 0" "\<And>va. pte s2 va = 0"
    "TOTAL_BLOCK s2 = TOTAL_BLOCK s1" "TOTAL_USED_BLOCKS s2 = TOTAL_USED_BLOCKS s1"
    "free_frames s2 = free_frames s1" "current_page_directory s2 = d" "CR0 s2 = CR0 s"
proof -
  note A = alloc_frame [OF inv al] and z = pa.alloc_zero [OF inv al]
  have d: "d = of_nat (page d) * 4096" by (rule pa.alloc_aligned [OF inv al])
  let ?s = "s1\<lparr>current_page_directory := d\<rparr>"
  have "store32 (mem s1) (d + 4 * of_nat i) 0 = mem s1" if "i < 1024" for i
  proof (rule store_zero_id)
    fix x assume "in_range (d + 4 * of_nat i) 4 x"
    then have "page x = page d" using entry_page [OF page_lt that, of d x] d by simp
    then show "mem s1 x = 0" using z by blast
  qed
  then have "update32 (d + 4 * of_nat i) (\<lambda>_. 0) ?s = ?s" if "i < 1024" for i
    using that by (simp add: update32_def)
  then have "fold (\<lambda>i. update32 (d + 4 * of_nat i) (\<lambda>_. 0)) [0..<n] ?s = ?s" if "n \<le> 1024" for n
    using that by (induction n) simp_all
  note this [OF order_refl]
  moreover have "memset (mem s1) d 0 4096 = mem s1"
    using A(6) by (metis pmm.select_convs(1) pmm.surjective pmm.update_convs(1))
  ultimately have s2: "s2 = ?s"
    by (simp add: s2_def setup_page_directory_table_def al Let_def)
  have inv1: "pmm_inv s1" using pa.alloc_inv [OF inv al(1)] .
  have sh: "in_bitmap s2 = in_bitmap s1" "nbits s2 = nbits s1" "\<And>b. used s2 b = used s1 b"
    by (simp_all add: s2 in_bitmap_def nbits_def used_iff_bit cell_def fun_eq_iff)
  then have tk: "taken s2 = taken s1" by (simp add: taken_def fun_eq_iff)
  have own: "owned s2 = owned s1" by (simp add: owned_def tk sh fun_eq_iff)
  have inv2: "pmm_inv s2" using inv1 by (simp add: pmm_inv_def sh)
  have dir: "dirf s2 = page d" by (simp add: dirf_def s2)
  show pd: "pde s2 j = 0" if "j < 1024" for j
    using A(5) [OF that] by (simp add: pde_def dir) (simp add: s2)
  then show "pte s2 va = 0" for va by (simp add: pte_def)
  show "vm_inv s2"
    using inv2 d A(1) pd unfolding vm_inv_def dir own by (simp add: s2)
  show "TOTAL_BLOCK s2 = TOTAL_BLOCK s1" "TOTAL_USED_BLOCKS s2 = TOTAL_USED_BLOCKS s1"
    "current_page_directory s2 = d" by (simp_all add: s2)
  show "CR0 s2 = CR0 s" using al allocate_block_vm_frame(3) [of 1 s] by (simp add: s2)
  show "free_frames s2 = free_frames s1" using tk sh by (intro free_frames_cong) simp_all
qed

lemma PAGE_PHYS_OR: "PAGE_PHYS_ADDRESS x OR (x AND 0xFFF) = x"
  unfolding PAGE_PHYS_ADDRESS_def by (rule bit_word_eqI) (auto simp: bit_simps)

text \<open>A table cell translates to \<open>x\<close> when \<open>x\<close> lies at the same offset of the frame.\<close>

lemma table_cell_translates:
  assumes "PAGE_PHYS_ADDRESS frame = frame" "page x = page frame + l" "x AND 0xFFF = va AND 0xFFF"
  shows "bit (table_cell frame l) 0 \<and> \<not> bit (table_cell frame l) 2 \<and>
    PAGE_PHYS_ADDRESS (table_cell frame l) OR (va AND 0xFFF) = x"
proof -
  have "frame = of_nat (page frame) * 4096" using assms(1) by (simp add: PAGE_PHYS_eq)
  moreover have "PAGE_PHYS_ADDRESS x = of_nat (page frame) * 4096 + of_nat l * 4096"
    by (simp add: PAGE_PHYS_eq assms(2) distrib_right)
  ultimately have c: "frame + of_nat l * PAGE_SIZE = PAGE_PHYS_ADDRESS x" by (simp add: PAGE_SIZE_def)
  have a: "PAGE_PHYS_ADDRESS (PAGE_PHYS_ADDRESS x) = PAGE_PHYS_ADDRESS x"
    by (simp add: PAGE_PHYS_eq page_frame_addr page_lt)
  show ?thesis
    unfolding table_cell_def c using PAGE_PHYS_OR [of x]
    by (simp add: PAGE_PHYS_SET_FRAME [OF a] SET_ATTRIBUTE_31 bits_SET_FRAME_low [OF a]
        bit_SET_ATTRIBUTE flag_bits assms(3))
qed

lemma low_half:
  assumes "pdi va = 0"
  shows "page va = page 0 + pti va" "va < 0x400000"
  using assms page_pdi_pti [of va] by (simp_all add: page_def pdi_def word_less_nat_alt div_eq_0_iff)

lemma high_half:
  assumes "pdi va = 768"
  shows "page (va - 0xC0000000 + KERNEL_ADDRESS) = page KERNEL_ADDRESS + pti va"
    "0xC0000000 \<le> va \<and> va < 0xC0400000"
    "(va - 0xC0000000 + KERNEL_ADDRESS) AND 0xFFF = va AND 0xFFF"
proof -
  have v: "768 * 4194304 \<le> unat va" "unat va < 769 * 4194304"
    using assms div_mult_mod_eq [of "unat va" 4194304] mod_less_divisor [of 4194304 "unat va"]
    unfolding pdi_def by linarith+
  then show r: "0xC0000000 \<le> va \<and> va < 0xC0400000"
    by (simp add: word_le_nat_alt word_less_nat_alt)
  define x where "x = va - 0xC0000000 + KERNEL_ADDRESS"
  have "x = va - 0xBFF00000" by (simp add: x_def KERNEL_ADDRESS_def)
  moreover have "0xBFF00000 \<le> va" using v by (simp add: word_le_nat_alt)
  ultimately have "unat x = unat va - 0xBFF00000" by (simp add: unat_sub)
  then have "unat va = unat x + 0xBFF00 * 4096" using v by simp
  moreover have "page va = 768 * 1024 + pti va" using page_pdi_pti [of va] assms by simp
  ultimately show "page x = page KERNEL_ADDRESS + pti va" by (simp add: page_def KERNEL_ADDRESS_def)
  have "unat x mod 4096 = unat va mod 4096" unfolding \<open>unat va = _\<close> by (rule mod_mult_self1 [symmetric])
  moreover have "unat (y AND 0xFFF :: u32) = unat y mod 4096" for y
    unfolding mask_12 take_bit_eq_mask [symmetric] by (simp add: take_bit_eq_mod unat_mod)
  ultimately show "x AND 0xFFF = va AND 0xFFF" by (simp add: word_unat_eq_iff)
qed

lemma range_pdi:
  "va < 0x400000 \<longleftrightarrow> pdi va = 0" "0xC0000000 \<le> va \<and> va < 0xC0400000 \<longleftrightarrow> pdi va = 768"
proof -
  show "va < 0x400000 \<longleftrightarrow> pdi va = 0"
    by (simp add: pdi_def word_less_nat_alt div_eq_0_iff)
  have "unat va div 4194304 = 768" if "3221225472 \<le> unat va" "unat va < 3225419776"
    using that by (intro div_nat_eqI) simp_all
  then show "0xC0000000 \<le> va \<and> va < 0xC0400000 \<longleftrightarrow> pdi va = 768"
    using high_half(2) [of va] by (auto simp: pdi_def word_less_nat_alt word_le_nat_alt)
qed

text \<open>Turning paging on leaves the tables as they are.\<close>

lemma paging_on_inv:
  assumes "vm_inv s" "\<And>va. \<not> bit (pte s va) 2"
  shows "vm_inv (s\<lparr>CR3 := d, CR0 := c\<rparr>)" "user_pde (s\<lparr>CR3 := d, CR0 := c\<rparr>)"
proof -
  let ?s = "s\<lparr>CR3 := d, CR0 := c\<rparr>"
  have "mem ?s = mem s" "BIT_MAP ?s = BIT_MAP s" "TOTAL_BLOCK ?s = TOTAL_BLOCK s"
    "current_page_directory ?s = current_page_directory s" by simp_all
  note S = same_tables [OF this]
  show "vm_inv ?s" "user_pde ?s" using assms by (simp_all only: S user_pde_def simp_thms)
qed

section \<open>The three stages\<close>

text \<open>Writes to one frame.\<close>

definition only_frame :: "nat \<Rightarrow> 'a vmm_scheme \<Rightarrow> 'a vmm_scheme \<Rightarrow> bool" where
  "only_frame f s t \<longleftrightarrow> (\<forall>x. page x \<noteq> f \<longrightarrow> mem t x = mem s x) \<and> in_bitmap t = in_bitmap s \<and>
     current_page_directory t = current_page_directory s"

lemma only_frame_refl [simp]: "only_frame f s s"
  by (simp add: only_frame_def)

lemma only_frame_trans [trans]: "only_frame f s t \<Longrightarrow> only_frame f t u \<Longrightarrow> only_frame f s u"
  by (simp add: only_frame_def)

lemma only_frame_update32:
  assumes "f < 0x100000" "k < 1024"
  shows "only_frame f s (update32 (of_nat f * 4096 + 4 * of_nat k) g s)"
proof -
  have "\<not> in_range (of_nat f * 4096 + 4 * of_nat k) 4 x" if "page x \<noteq> f" for x
    using entry_page [OF assms] that by blast
  then show ?thesis by (simp add: only_frame_def update32_def store32_outside in_bitmap_def fun_eq_iff)
qed

lemma only_frame_fold:
  assumes "f < 0x100000" "n \<le> 1024"
  shows "only_frame f s (fold (\<lambda>i. update32 (of_nat f * 4096 + 4 * of_nat i) (g i)) [0..<n] s)"
proof (rule fold_invariant_upt [where P = "only_frame f s"])
  fix i t assume "i < n" "only_frame f s t"
  then show "only_frame f s (update32 (of_nat f * 4096 + 4 * of_nat i) (g i) t)"
    using assms by (intro only_frame_trans [OF _ only_frame_update32]) simp_all
qed simp

lemma only_frame_memset:
  assumes "f < 0x100000"
  shows "only_frame f s (s\<lparr>mem := memset (mem s) (of_nat f * 4096) 0 4096\<rparr>)"
proof -
  have "in_range (of_nat f * 4096) (1 * 4096) x \<longleftrightarrow> page x \<in> {f..<f + 1}" for x
    using assms by (intro in_frames_iff) simp_all
  then show ?thesis by (auto simp: only_frame_def memset_apply in_bitmap_def fun_eq_iff)
qed

text \<open>What the set-up functions write: the new table and, for a table, the directory.\<close>

lemma setup_directory_writes:
  assumes inv: "pmm_inv s" and al: "allocate_block 1 s = (d, s1)" "d \<noteq> 0"
  shows "page x \<noteq> page d \<Longrightarrow> mem (snd (setup_page_directory_table s)) x = mem s1 x"
    "in_bitmap (snd (setup_page_directory_table s)) = in_bitmap s1"
proof -
  have d: "d = of_nat (page d) * 4096" by (rule pa.alloc_aligned [OF inv al])
  let ?s = "s1\<lparr>current_page_directory := d\<rparr>"
  let ?m = "?s\<lparr>mem := memset (mem ?s) (of_nat (page d) * 4096) 0 4096\<rparr>"
  have "only_frame (page d) ?s (fold (\<lambda>i. update32 (of_nat (page d) * 4096 + 4 * of_nat i) (\<lambda>_. 0)) [0..<1024] ?m)"
    by (rule only_frame_trans [OF only_frame_memset only_frame_fold]) (simp_all add: page_lt)
  moreover have "snd (setup_page_directory_table s) = fold (\<lambda>i. update32 (of_nat (page d) * 4096 + 4 * of_nat i) (\<lambda>_. 0)) [0..<1024] ?m"
    using al(2) d by (simp add: setup_page_directory_table_def al(1) Let_def)
  ultimately show "page x \<noteq> page d \<Longrightarrow> mem (snd (setup_page_directory_table s)) x = mem s1 x"
    "in_bitmap (snd (setup_page_directory_table s)) = in_bitmap s1"
    by (simp_all add: only_frame_def in_bitmap_def fun_eq_iff)
qed

lemma setup_table_writes:
  fixes base :: u32
  assumes inv: "vm_inv s" and al: "allocate_block 1 s = (t, s1)" "t \<noteq> 0" and v: "unat virt mod 4194304 = 0"
  defines "s2 \<equiv> link_table t virt (fill_table t base virt (s1\<lparr>mem := memset (mem s1) t 0 4096\<rparr>))"
  shows "page x \<noteq> page t \<Longrightarrow> page x \<noteq> dirf s \<Longrightarrow> mem s2 x = mem s1 x" "in_bitmap s2 = in_bitmap s1"
proof -
  note D = vm_invD [OF inv]
  have t: "t = of_nat (page t) * 4096" by (rule pa.alloc_aligned [OF D(1) al])
  let ?m = "s1\<lparr>mem := memset (mem s1) (of_nat (page t) * 4096) 0 4096\<rparr>"
  define F where "F = fill_table t base virt (s1\<lparr>mem := memset (mem s1) t 0 4096\<rparr>)"
  have "fold (\<lambda>i. update32 (of_nat (page t) * 4096 + 4 * of_nat i) (\<lambda>_. table_cell base i)) [0..<1024] ?m = F"
    unfolding F_def fill_table_at [OF t v] using t by (simp add: at_def)
  moreover have "only_frame (page t) s1 (fold (\<lambda>i. update32 (of_nat (page t) * 4096 + 4 * of_nat i) (\<lambda>_. table_cell base i)) [0..<1024] ?m)"
    by (rule only_frame_trans [OF only_frame_memset only_frame_fold]) (simp_all add: page_lt)
  ultimately have F: "only_frame (page t) s1 F" by simp
  have "current_page_directory s1 = of_nat (dirf s) * 4096"
    using al(1) allocate_block_vm_frame(1) [of 1 s] D(2) by simp
  then have "pd_entry_addr F virt = of_nat (dirf s) * 4096 + 4 * of_nat (pdi virt)"
    using F by (simp add: pd_entry_addr_def PD_INDEX_eq only_frame_def)
  then have "only_frame (dirf s) F s2"
    unfolding s2_def F_def [symmetric] link_table_def by (simp add: only_frame_update32 dirf_def page_lt)
  with F show "page x \<noteq> page t \<Longrightarrow> page x \<noteq> dirf s \<Longrightarrow> mem s2 x = mem s1 x" "in_bitmap s2 = in_bitmap s1"
    by (simp_all add: only_frame_def)
qed

text \<open>One stage of the set-up: it takes the least free frame \<open>f\<close> for itself and writes only to that frame and
  to those in \<open>W\<close>.\<close>

definition table_stage :: "nat \<Rightarrow> nat set \<Rightarrow> 'a vmm_scheme \<Rightarrow> 'a vmm_scheme \<Rightarrow> bool" where
  "table_stage f W s r \<longleftrightarrow> vm_inv r \<and> f \<in> free_frames s \<and> (\<forall>g\<in>free_frames s. f \<le> g) \<and>
     free_frames r = free_frames s - {f} \<and> TOTAL_USED_BLOCKS r = TOTAL_USED_BLOCKS s + 1 \<and>
     TOTAL_BLOCK r = TOTAL_BLOCK s \<and> in_bitmap r = in_bitmap s \<and>
     (\<forall>x. page x \<notin> insert f W \<longrightarrow> \<not> in_bitmap s x \<longrightarrow> mem r x = mem s x)"

lemma directory_stage:
  assumes inv: "pmm_inv s" and c: "TOTAL_USED_BLOCKS s < TOTAL_BLOCK s" and n: "Suc 0 \<le> card (free_frames s)"
    and r: "r = snd (setup_page_directory_table s)"
  shows "table_stage (dirf r) {} s r" "\<And>j. j < 1024 \<Longrightarrow> pde r j = 0" "\<And>va. pte r va = 0" "CR0 r = CR0 s"
proof -
  obtain d s1 where al: "allocate_block 1 s = (d, s1)" by fastforce
  note A = alloc_for_table [OF inv c n al]
  note R = setup_directory [OF inv al A(1), folded r] and W = setup_directory_writes [OF inv al A(1), folded r]
  have d: "dirf r = page d" using R(7) by (simp add: dirf_def)
  show "table_stage (dirf r) {} s r" unfolding table_stage_def d using R(1,4,5,6) W A by auto
  show "\<And>j. j < 1024 \<Longrightarrow> pde r j = 0" "\<And>va. pte r va = 0" "CR0 r = CR0 s" by (rule R; assumption?)+
qed

lemma one_table_stage:
  assumes inv: "vm_inv s" and c: "TOTAL_USED_BLOCKS s < TOTAL_BLOCK s" and n: "Suc 0 \<le> card (free_frames s)"
    and v: "unat virt mod 4194304 = 0" and free: "pde s (pdi virt) = 0"
    and r: "\<And>t s1. allocate_block 1 s = (t, s1) \<Longrightarrow> t \<noteq> 0 \<Longrightarrow>
      r = link_table t virt (fill_table t base virt (s1\<lparr>mem := memset (mem s1) t 0 4096\<rparr>))"
  shows "table_stage (page (pde r (pdi virt))) {dirf s} s r"
    "\<And>va. pte r va = (if pdi va = pdi virt then table_cell base (pti va) else pte s va)"
    "\<And>j. j < 1024 \<Longrightarrow> j \<noteq> pdi virt \<Longrightarrow> pde r j = pde s j" "CR0 r = CR0 s" "dirf r = dirf s"
    "current_page_directory r = current_page_directory s"
proof -
  obtain t s1 where al: "allocate_block 1 s = (t, s1)" by fastforce
  note D = vm_invD [OF inv]
  note A = alloc_for_table [OF D(1) c n al]
  note R = setup_table [OF inv al A(1) v free, where frame = base, folded r [OF al A(1)]]
    and W = setup_table_writes [OF inv al A(1) v, where base = base, folded r [OF al A(1)]]
  have "page (pde r (pdi virt)) = page t" by (rule R(11))
  then show "table_stage (page (pde r (pdi virt))) {dirf s} s r"
    unfolding table_stage_def using R(1,5,6,7) W A by auto
  show "\<And>va. pte r va = (if pdi va = pdi virt then table_cell base (pti va) else pte s va)"
    "\<And>j. j < 1024 \<Longrightarrow> j \<noteq> pdi virt \<Longrightarrow> pde r j = pde s j" "CR0 r = CR0 s"
    "current_page_directory r = current_page_directory s" by (rule R; assumption?)+
  then show "dirf r = dirf s" by (simp add: dirf_def)
qed

text \<open>The three stages one after the other: the directory in frame \<open>d\<close>, the table of the kernel in \<open>t\<close> and
  the table of the first 4 MiB in \<open>u\<close>.\<close>

definition tables_at :: "nat \<Rightarrow> nat \<Rightarrow> nat \<Rightarrow> 'a vmm_scheme \<Rightarrow> 'a vmm_scheme \<Rightarrow> bool" where
  "tables_at d t u s r \<longleftrightarrow>
     vm_inv r \<and> dirf r = d \<and> page (pde r 768) = t \<and> page (pde r 0) = u \<and>
     {d, t, u} \<subseteq> free_frames s \<and> distinct [d, t, u] \<and> free_frames r = free_frames s - {d, t, u} \<and>
     (\<forall>g\<in>free_frames s. d \<le> g) \<and> (\<forall>g\<in>free_frames s - {d}. t \<le> g) \<and> (\<forall>g\<in>free_frames s - {d, t}. u \<le> g) \<and>
     TOTAL_USED_BLOCKS r = TOTAL_USED_BLOCKS s + 3 \<and> TOTAL_BLOCK r = TOTAL_BLOCK s \<and> CR0 r = CR0 s \<and>
     in_bitmap r = in_bitmap s \<and> (\<forall>x. page x \<notin> {d, t, u} \<longrightarrow> \<not> in_bitmap s x \<longrightarrow> mem r x = mem s x) \<and>
     (\<forall>j<1024. j \<noteq> 0 \<longrightarrow> j \<noteq> 768 \<longrightarrow> pde r j = 0) \<and>
     (\<forall>va. pte r va = (if pdi va = 0 then table_cell 0 (pti va)
       else if pdi va = 768 then table_cell KERNEL_ADDRESS (pti va) else 0))"

lemma tables_built:
  assumes inv: "pmm_inv s" and room: "unat (TOTAL_USED_BLOCKS s) + 3 \<le> unat (TOTAL_BLOCK s)"
    and n: "3 \<le> card (free_frames s)"
    and r: "r = snd (setup_page_table (snd (setup_higher_half_kernel (snd (setup_page_directory_table s)))))"
  obtains d t u where "tables_at d t u s r"
proof -
  have lt: "TOTAL_USED_BLOCKS s < TOTAL_BLOCK s" "TOTAL_USED_BLOCKS s + 1 < TOTAL_BLOCK s"
    "TOTAL_USED_BLOCKS s + 1 + 1 < TOTAL_BLOCK s"
    using room unat_u32_lt [of "TOTAL_BLOCK s"] by (simp_all add: word_less_nat_alt unat_word_ariths)
  have v: "unat (0xC0000000 :: u32) mod 4194304 = 0" "unat (0 :: u32) mod 4194304 = 0"
    "pdi 0xC0000000 = 768" "pdi 0 = 0" by (simp_all add: pdi_def)
  define r1 where "r1 = snd (setup_page_directory_table s)"
  have "Suc 0 \<le> card (free_frames s)" using n by simp
  note R1 = directory_stage [OF inv lt(1) this r1_def]
  note S1 = R1(1) [unfolded table_stage_def]
  define r2 where "r2 = snd (setup_higher_half_kernel r1)"
  have c2: "TOTAL_USED_BLOCKS r1 < TOTAL_BLOCK r1" "Suc 0 \<le> card (free_frames r1)" using S1 lt(2) n by (simp_all add: card_Diff_singleton_if)
  have r2: "r2 = link_table t 0xC0000000 (fill_table t KERNEL_ADDRESS 0xC0000000 (s1\<lparr>mem := memset (mem s1) t 0 4096\<rparr>))"
    if "allocate_block 1 r1 = (t, s1)" "t \<noteq> 0" for t s1
    using that by (simp add: r2_def setup_higher_half_kernel_def Let_def)
  have i1: "vm_inv r1" using S1 by simp
  note R2 = one_table_stage [OF i1 c2 v(1) R1(2) [OF pdi_lt] r2, unfolded v]
  note S2 = R2(1) [unfolded table_stage_def]
  have c3: "TOTAL_USED_BLOCKS r2 < TOTAL_BLOCK r2" "Suc 0 \<le> card (free_frames r2)" using S1 S2 lt(3) n
    by (simp_all add: card_Diff_singleton_if)
  have r3: "r = link_table t 0 (fill_table t 0 0 (s1\<lparr>mem := memset (mem s1) t 0 4096\<rparr>))"
    if "allocate_block 1 r2 = (t, s1)" "t \<noteq> 0" for t s1
    using that by (simp add: r r2_def r1_def setup_page_table_def Let_def)
  have i2: "vm_inv r2" and "pde r2 (pdi 0) = 0" using S2 R2(3) R1(2) v(4) by simp_all
  note R3 = one_table_stage [OF i2 c3 v(2) this(2) r3, unfolded v]
  note S3 = R3(1) [unfolded table_stage_def]
  have t: "page (pde r 768) = page (pde r2 768)" using R3(3) by simp
  have "tables_at (dirf r1) (page (pde r2 768)) (page (pde r 0)) s r"
    unfolding tables_at_def using S1 S2 S3 R1 R2 R3 t by (intro conjI) (auto simp: add.assoc)
  then show thesis by (rule that)
qed

text \<open>With paging switched on, the state of the three stages is the result of \<open>INITIALIZE_VMEMORY\<close>.\<close>

lemma vmemory_tables:
  assumes inv: "pmm_inv s" and room: "unat (TOTAL_USED_BLOCKS s) + 3 \<le> unat (TOTAL_BLOCK s)"
    and n: "3 \<le> card (free_frames s)"
  obtains d t u r where "tables_at d t u s r"
    "INITIALIZE_VMEMORY s = (True, r\<lparr>CR3 := current_page_directory r, CR0 := CR0 s OR 0x80000001\<rparr>)"
proof -
  define r where "r = snd (setup_page_table (snd (setup_higher_half_kernel (snd (setup_page_directory_table s)))))"
  obtain d t u where T: "tables_at d t u s r" using tables_built [OF inv room n r_def] .
  have "d \<in> free_frames s" "current_page_directory r = of_nat d * 4096" "CR0 r = CR0 s"
    using T vm_invD(2) [of r] by (auto simp: tables_at_def)
  moreover have "0 \<notin> free_frames s" using inv by (auto simp: free_frames_def taken_def pmm_inv_def)
  moreover have "d < 0x100000" using calculation inv by (auto simp: free_frames_def pmm_inv_def)
  ultimately have "current_page_directory r \<noteq> 0" using unat_frame_addr [of d] by (metis mult_eq_0_iff unat_0 zero_neq_numeral)
  then have "INITIALIZE_VMEMORY s = (True, r\<lparr>CR3 := current_page_directory r, CR0 := CR0 s OR 0x80000001\<rparr>)"
    using \<open>CR0 r = CR0 s\<close> by (simp add: INITIALIZE_VMEMORY_def set_page_directory_def enable_paging_def Let_def flip: r_def)
  with T show thesis by (rule that)
qed

lemma tables_at_walk:
  assumes "tables_at d t u s r"
  shows "walk (mem r) (current_page_directory r) va =
      (if va < 0x400000 then Some va
       else if 0xC0000000 \<le> va \<and> va < 0xC0400000 then Some (va - 0xC0000000 + KERNEL_ADDRESS) else None)"
    "\<not> user_ok (mem r) (current_page_directory r) va" "\<not> bit (pte r va) 2"
proof -
  have inv: "vm_inv r" and pte: "pte r va = (if pdi va = 0 then table_cell 0 (pti va)
      else if pdi va = 768 then table_cell KERNEL_ADDRESS (pti va) else 0)" for va
    using assms by (simp_all add: tables_at_def)
  have K: "PAGE_PHYS_ADDRESS KERNEL_ADDRESS = KERNEL_ADDRESS" "PAGE_PHYS_ADDRESS 0 = 0"
    by (simp_all add: PAGE_PHYS_ADDRESS_def KERNEL_ADDRESS_def)
  note lo = table_cell_translates [OF K(2) low_half(1) refl, of va]
  note hi = table_cell_translates [OF K(1) high_half(1,3), of va]
  show nu: "\<not> bit (pte r va) 2" using lo hi by (simp add: pte)
  show "\<not> user_ok (mem r) (current_page_directory r) va" unfolding user_ok_pte [OF inv] using nu by simp
  show "walk (mem r) (current_page_directory r) va =
      (if va < 0x400000 then Some va
       else if 0xC0000000 \<le> va \<and> va < 0xC0400000 then Some (va - 0xC0000000 + KERNEL_ADDRESS) else None)"
    unfolding range_pdi walk_pte [OF inv] pte using lo hi by simp
qed

lemma initial_address_space:
  assumes "pmm_inv s" and "unat (TOTAL_USED_BLOCKS s) + 3 \<le> unat (TOTAL_BLOCK s)"
    and "3 \<le> card (free_frames s)" and "INITIALIZE_VMEMORY s = (ok, s')"
  shows "ok \<and> vm_inv s' \<and> user_pde s' \<and> CR3 s' = current_page_directory s' \<and>
    CR0 s' = CR0 s OR 0x80000001 \<and>
    (\<forall>va. walk (mem s') (current_page_directory s') va =
       (if va < 0x400000 then Some va
        else if 0xC0000000 \<le> va \<and> va < 0xC0400000 then Some (va - 0xC0000000 + KERNEL_ADDRESS)
        else None) \<and>
       \<not> user_ok (mem s') (current_page_directory s') va)"
proof -
  obtain d t u r where T: "tables_at d t u s r"
    and s': "INITIALIZE_VMEMORY s = (True, r\<lparr>CR3 := current_page_directory r, CR0 := CR0 s OR 0x80000001\<rparr>)"
    using vmemory_tables [OF assms(1-3)] .
  note X = tables_at_walk [OF T]
  have "vm_inv r" using T by (simp add: tables_at_def)
  from paging_on_inv [OF this X(3)] show ?thesis using s' assms(4) X(1,2) by auto
qed

text \<open>C11 \<open>INITIALIZE_VMEMORY\<close>, when the allocator has three frames to give: the invariant of
  the tables holds, CR3 holds the directory and CR0 the paging and protection bits; the first
  4 MiB are mapped to themselves, the 4 MiB from \<open>0xC0000000\<close> to the 4 MiB from
  \<open>KERNEL_ADDRESS\<close>, no other address is mapped and none is accessible from ring 3.\<close>

theorem INITIALIZE_VMEMORY_correct:
  assumes "pmm_inv s" and "unat (TOTAL_USED_BLOCKS s) + 3 \<le> unat (TOTAL_BLOCK s)"
    and "3 \<le> card (free_frames s)" and "INITIALIZE_VMEMORY s = (ok, s')"
  shows "ok \<and> vm_inv s' \<and> user_pde s' \<and> CR3 s' = current_page_directory s' \<and>
    CR0 s' = CR0 s OR 0x80000001 \<and>
    (\<forall>va. walk (mem s') (current_page_directory s') va =
       (if va < 0x400000 then Some va
        else if 0xC0000000 \<le> va \<and> va < 0xC0400000 then Some (va - 0xC0000000 + KERNEL_ADDRESS)
        else None) \<and>
       \<not> user_ok (mem s') (current_page_directory s') va)"
  using assms by (rule initial_address_space)


text \<open>The small machine with a bitmap of 8 words: it can set up its address space.\<close>

theorem INITIALIZE_VMEMORY_correct_witness:
  "walk (mem (snd (INITIALIZE_VMEMORY (tiny_vm\<lparr>TOTAL_BLOCK := 8\<rparr>))))
     (CR3 (snd (INITIALIZE_VMEMORY (tiny_vm\<lparr>TOTAL_BLOCK := 8\<rparr>)))) 0xC0000004 = Some 0x100004"
proof -
  let ?s = "tiny_vm\<lparr>TOTAL_BLOCK := 8\<rparr>"
  have nb: "nbits ?s = 256" by (simp add: nbits_def)
  have bm: "page a = 16" if "in_bitmap ?s a" for a
  proof -
    from that have "65536 \<le> unat a \<and> unat a < 65568"
      by (simp add: in_bitmap_def tiny_vm_def in_range_unat)
    then show "page a = 16" unfolding page_def by (intro div_nat_eqI) simp_all
  qed
  have u: "used ?s 16" "used ?s 0" "\<not> used ?s 2" "\<not> used ?s 4" "\<not> used ?s 5" by code_simp+
  have p: "pmm_inv ?s" using bm u by (auto simp: pmm_inv_def nb)
  have "{2, 4, 5} \<subseteq> free_frames ?s" using u by (simp add: free_frames_def taken_def nb)
  moreover have "finite (free_frames ?s)" by (simp add: free_frames_def)
  ultimately have "card {2, 4, 5 :: nat} \<le> card (free_frames ?s)" by (intro card_mono)
  then have c: "3 \<le> card (free_frames ?s)" by simp
  have "unat (TOTAL_USED_BLOCKS ?s) + 3 \<le> unat (TOTAL_BLOCK ?s)" by (simp add: tiny_vm_def)
  note I = INITIALIZE_VMEMORY_correct [OF p this c prod.collapse [symmetric]]
  let ?s' = "snd (INITIALIZE_VMEMORY ?s)"
  have w: "walk (mem ?s') (current_page_directory ?s') va =
       (if va < 0x400000 then Some va
        else if 0xC0000000 \<le> va \<and> va < 0xC0400000 then Some (va - 0xC0000000 + KERNEL_ADDRESS)
        else None)" for va using I by blast
  moreover have "CR3 ?s' = current_page_directory ?s'" using I by blast
  ultimately show ?thesis by (simp add: KERNEL_ADDRESS_def)
qed

end
