(* ===== verification/Hal.thy ===== *)
theory Hal
  imports Descriptors Address_Space
begin

text \<open>
  The start of the kernel: \<open>src/kernel/hal/hal.c\<close>, \<open>hal/memory.c\<close> and \<open>kmain.c\<close>, which compose
  the components. The addresses that the linker chooses are in the record \<open>layout\<close>. No interrupt arrives
  between \<open>sti\<close> in \<open>init_idt_32\<close> and the call of \<open>schedule\<close>; those that arrive while the processor
  halts are the argument \<open>hlt\<close>.

  The lemmas show the machine that the first half of \<open>HAL_Initialize\<close> leaves (address space, segments,
  gates, controllers), that the processor ends in ring 3 when the tasks are made, that without a module it
  stops with interrupts off, and where the frame bitmap lies relative to the boot stack.
\<close>

section \<open>The operations\<close>

record layout =
  kernel_start :: u32
  kernel_end :: u32
  bss_start :: u32
  gdt_address :: u32
  tss_address :: u32

text \<open>The first statement of \<open>HAL_Initialize\<close> clears the bss section: its bytes, and the variables in it
  that the state keeps apart from the bytes. \<open>__end\<close> and \<open>__kernel__end\<close> are the same address.\<close>

definition clear_bss :: "layout \<Rightarrow> 'a machine_scheme \<Rightarrow> 'a machine_scheme" where
  "clear_bss L s =
     s\<lparr>mem := memset (mem s) (bss_start L) 0 (kernel_end L - bss_start L),
       TOTAL_MEMORY := 0, TOTAL_PAGES := 0, TOTAL_BLOCK := 0, TOTAL_USED_BLOCKS := 0, BIT_MAP := 0,
       BITMAP_SIZEB := 0, BIT_MAP_END := 0, KERNEL_START_ADDR := 0, KERNEL_END_ADDR := 0,
       current_page_directory := 0, malloc_list_head := 0, malloc_phys_address := 0, total_malloc_pages := 0,
       g_ScreenX := 0, g_ScreenY := 0, task := 0, current_task := 0, next_taskId := 0, kernel_timer_ms := 0,
       tss_esp0 := 0, rtc_ticks := 0, tss_ss0 := 0, tss_iomap_base := 0, tss_rest := (\<lambda>_. 0),
       idt32 := (\<lambda>_. \<lparr>isr_address_low = 0, kernel_cs = 0, reserved = 0, attributes = 0, isr_address_high = 0\<rparr>),
       g_IDT := (\<lambda>_. \<lparr>isr_address_low = 0, kernel_cs = 0, reserved = 0, attributes = 0, isr_address_high = 0\<rparr>),
       g_ISRHandlers := (\<lambda>_. 0)\<rparr>"

definition Initialize_memories :: "layout \<Rightarrow> BootParams \<Rightarrow> 'a machine_scheme \<Rightarrow> 'a machine_scheme" where
  "Initialize_memories L bootParams s =
     snd (INITIALIZE_VMEMORY (INIT_MEMORY (kernel_start L) (kernel_end L) bootParams s))"

text \<open>The statements of \<open>HAL_Initialize\<close> up to \<open>init_idt_32\<close>, those from \<open>init_task\<close> on, and the
  whole function.\<close>

definition HAL_devices :: "devices \<Rightarrow> layout \<Rightarrow> handler_addresses \<Rightarrow> BootParams \<Rightarrow> 'a machine_scheme \<Rightarrow> 'a machine_scheme" where
  "HAL_devices dev L h bootParams s =
     (let s1 = clear_bss L s;
          s2 = clrscr s1;
          s3 = i686_GDT_Initialize (gdt_address L) s2;
          s4 = tss_init (gdt_address L) (tss_address L) s3;
          s5 = Initialize_memories L bootParams s4;
          s6 = remap_pic dev s5
      in init_idt_32 dev h s6)"

text \<open>The dash in the message is three bytes in UTF-8.\<close>

definition no_userland_message :: "u8 list" where
  "no_userland_message =
     ascii ''HAL: no userland module '' @ [0xE2, 0x80, 0x93] @ ascii '' check userland.elf on disk'' @ [0x0A]"

definition HAL_tasks ::
  "('a kernel_scheme \<Rightarrow> 'a kernel_scheme) \<Rightarrow> code_addresses \<Rightarrow> BootParams \<Rightarrow> 'a kernel_scheme \<Rightarrow> 'a kernel_scheme option" where
  "HAL_tasks hlt code bootParams s =
     (case init_task code s of None \<Rightarrow> None
      | Some s1 \<Rightarrow>
          (case (if ModuleCount bootParams > 0
                 then map_option snd (create_user_task_from_elf code (image_data (Modules bootParams 0)) s1)
                 else printf put_c no_userland_message (\<lambda>_. 0) s1) of None \<Rightarrow> None
           | Some s2 \<Rightarrow> schedule hlt s2))"

definition HAL_Initialize ::
  "('a machine_scheme \<Rightarrow> 'a machine_scheme) \<Rightarrow> devices \<Rightarrow> layout \<Rightarrow> handler_addresses \<Rightarrow> code_addresses \<Rightarrow> BootParams \<Rightarrow>
   'a machine_scheme \<Rightarrow> 'a machine_scheme option" where
  "HAL_Initialize hlt dev L h code bootParams s = HAL_tasks hlt code bootParams (HAL_devices dev L h bootParams s)"

text \<open>\<open>no_exit\<close> halts again and again, so \<open>kstart\<close> does not return.\<close>

partial_function (option) no_exit :: "('s \<Rightarrow> 's) \<Rightarrow> 's \<Rightarrow> 's option" where
  "no_exit hlt s = no_exit hlt (hlt s)"

definition kstart ::
  "('a machine_scheme \<Rightarrow> 'a machine_scheme) \<Rightarrow> devices \<Rightarrow> layout \<Rightarrow> handler_addresses \<Rightarrow> code_addresses \<Rightarrow> BootParams \<Rightarrow>
   'a machine_scheme \<Rightarrow> 'a machine_scheme option" where
  "kstart hlt dev L h code bootParams s =
     (case HAL_Initialize hlt dev L h code bootParams s of None \<Rightarrow> None | Some s1 \<Rightarrow> no_exit hlt s1)"

text \<open>The stack that \<open>kentry\<close> sets up before it calls \<open>kstart\<close>, as the linker script places it.\<close>

definition kernel_stack_top :: "u32 \<Rightarrow> u32" where
  "kernel_stack_top e = ((e + 15) AND NOT 15) + 8192"

section \<open>Frames that are left after \<open>INIT_MEMORY\<close>\<close>

lemma reserve_fold_count:
  "unat (TOTAL_USED_BLOCKS (fold (\<lambda>i. reserve_memory_block (b i) (n i)) [0..<k] s))
     \<le> unat (TOTAL_USED_BLOCKS s) + (\<Sum>i<k. unat (pages_of (n i)))"
proof (induction k)
  case (Suc k)
  show ?case
    using Suc.IH reserve_count [of "b k" "n k" "fold (\<lambda>i. reserve_memory_block (b i) (n i)) [0..<k] s"] by simp
qed simp

text \<open>The frames that \<open>INIT_MEMORY\<close> counts as used at most: the two low ones, the kernel's, the bitmap's
  and those of the modules.\<close>

definition module_pages :: "BootParams \<Rightarrow> nat" where
  "module_pages bp = (\<Sum>i<unat (ModuleCount bp). unat (pages_of (image_size (Modules bp i))))"

definition reserved_pages :: "layout \<Rightarrow> BootParams \<Rightarrow> nat" where
  "reserved_pages L bp = 2 + unat (pages_of (kernel_end L - kernel_start L)) +
     unat (pages_of (of_nat ((ram_pages bp + 7) div 8))) + module_pages bp"

definition bitmap_words :: "BootParams \<Rightarrow> nat" where
  "bitmap_words bp = (ram_pages bp + 31) div 32"

lemma INIT_MEMORY_TOTAL_BLOCK: "unat (TOTAL_BLOCK (INIT_MEMORY ks ke bp s)) = bitmap_words bp"
  using unat_sizes(1) [OF get_memory_info_sizes(3) [of "Memory bp" s]]
  by (simp add: init_frame get_memory_info_sizes TOTAL_PAGES_ram_pages bitmap_words_def)

text \<open>The state before the modules are reserved.\<close>

definition kernel_reserved :: "layout \<Rightarrow> BootParams \<Rightarrow> 'a pmm_scheme \<Rightarrow> 'a pmm_scheme" where
  "kernel_reserved L bp s = reserve_memory (setup_memory_bitmap
     (get_memory_info (Memory bp) (set_kernel_addr (kernel_start L) (kernel_end L) s)))"

lemma INIT_MEMORY_modules:
  "INIT_MEMORY (kernel_start L) (kernel_end L) bp s =
     fold (\<lambda>i. reserve_memory_block (image_data (Modules bp i)) (image_size (Modules bp i)))
       [0..<unat (ModuleCount bp)] (kernel_reserved L bp s)"
  by (simp add: INIT_MEMORY_def kernel_reserved_def Let_def)

lemma kernel_reserved_count:
  assumes "TOTAL_USED_BLOCKS s = 0"
  shows "unat (TOTAL_USED_BLOCKS (kernel_reserved L bp s)) + module_pages bp \<le> reserved_pages L bp"
proof -
  let ?t0 = "get_memory_info (Memory bp) (set_kernel_addr (kernel_start L) (kernel_end L) s)"
  define t where "t = setup_memory_bitmap ?t0"
  have t: "TOTAL_USED_BLOCKS t = 0" "KERNEL_START_ADDR t = kernel_start L" "KERNEL_END_ADDR t = kernel_end L"
    "BITMAP_SIZEB t = BITMAP_SIZEB ?t0"
    using assms by (simp_all add: t_def setup_memory_bitmap_def get_memory_info_def set_kernel_addr_def Let_def)
  have "unat (BITMAP_SIZEB ?t0) = (ram_pages bp + 7) div 8"
    using get_memory_info_sizes(3) [of "Memory bp" "set_kernel_addr (kernel_start L) (kernel_end L) s"]
    by (simp add: get_memory_info_sizes unat_sizes TOTAL_PAGES_ram_pages)
  then have "of_nat (unat (BITMAP_SIZEB ?t0)) = (of_nat ((ram_pages bp + 7) div 8) :: u32)" by (simp only:)
  then have bs: "BITMAP_SIZEB t = of_nat ((ram_pages bp + 7) div 8)" using t(4) by simp
  define t1 where "t1 = reserve_memory_block 0 0x500 t"
  define t2 where "t2 = reserve_memory_block 0x7c00 512 t1"
  define t3 where "t3 = reserve_memory_block (kernel_start L) (kernel_end L - kernel_start L) t2"
  have "unat (pages_of 0x500) = 1" "unat (pages_of 512) = 1" by (simp_all add: pages_of_def PER_BLOCK_SIZE_def)
  then have "unat (TOTAL_USED_BLOCKS t2) \<le> 2"
    using reserve_count [of 0 "0x500" t] reserve_count [of "0x7c00" 512 t1] t(1) by (simp add: t1_def t2_def)
  moreover have "kernel_reserved L bp s = reserve_memory_block (BIT_MAP t) (BITMAP_SIZEB t) t3"
    using t by (simp add: kernel_reserved_def reserve_memory_def t1_def t2_def t3_def Let_def flip: t_def)
  ultimately show ?thesis
    using reserve_count [of "kernel_start L" "kernel_end L - kernel_start L" t2]
      reserve_count [of "BIT_MAP t" "BITMAP_SIZEB t" t3] by (simp add: t3_def reserved_pages_def bs)
qed

lemma INIT_MEMORY_count:
  assumes "TOTAL_USED_BLOCKS s = 0"
  shows "unat (TOTAL_USED_BLOCKS (INIT_MEMORY (kernel_start L) (kernel_end L) bp s)) \<le> reserved_pages L bp"
  using kernel_reserved_count [OF assms, of L bp]
    reserve_fold_count [of "\<lambda>i. image_data (Modules bp i)" "\<lambda>i. image_size (Modules bp i)"
        "unat (ModuleCount bp)" "kernel_reserved L bp s"]
  by (simp add: INIT_MEMORY_modules module_pages_def)

lemma INIT_MEMORY_free:
  assumes high: "0xC0000000 \<le> kernel_start L" "0xC0000000 \<le> kernel_end L" "kernel_end L \<le> 0xFFFFF000"
    and ram: "ram_pages bp \<le> 0xBFFE0"
  shows "ram_pages bp - 8 - module_pages bp
           \<le> card (free_frames (INIT_MEMORY (kernel_start L) (kernel_end L) bp s))"
proof -
  let ?S = "INIT_MEMORY (kernel_start L) (kernel_end L) bp s"
  let ?len = "\<lambda>i. unat (pages_of (image_size (Modules bp i)))"
  let ?M = "\<Union>i<unat (ModuleCount bp). {page (image_data (Modules bp i))..<page (image_data (Modules bp i)) + ?len i}"
  have "card ?M \<le> (\<Sum>i<unat (ModuleCount bp). card {page (image_data (Modules bp i))..<page (image_data (Modules bp i)) + ?len i})"
    by (rule card_UN_le) simp
  then have "card ?M \<le> module_pages bp" by (simp add: module_pages_def)
  moreover have "card {8..<ram_pages bp} - card ?M \<le> card ({8..<ram_pages bp} - ?M)"
    by (rule diff_card_le_card_Diff) auto
  moreover have "{8..<ram_pages bp} - ?M \<subseteq> free_frames ?S"
  proof
    fix f assume f: "f \<in> {8..<ram_pages bp} - ?M"
    then have "\<not> used ?S (of_nat f)"
      using ram by (intro high_kernel_left_free high) (auto simp: module_frame_def)
    moreover have "f < nbits ?S"
      using f INIT_MEMORY_TOTAL_BLOCK [of "kernel_start L" "kernel_end L" bp s] by (auto simp: nbits_def bitmap_words_def)
    ultimately show "f \<in> free_frames ?S" by (simp add: free_frames_def taken_def)
  qed
  ultimately show ?thesis
    using card_mono [of "free_frames ?S" "{8..<ram_pages bp} - ?M"] by (simp add: free_frames_def)
qed

section \<open>What the first half of the start leaves alone\<close>

lemma fold_keeps: "(\<And>i s. g (f i s) = g s) \<Longrightarrow> g (fold f xs s) = g s"
  by (induction xs arbitrary: s) simp_all

text \<open>The machine when its memory is set up.\<close>

definition before_memory :: "layout \<Rightarrow> 'a machine_scheme \<Rightarrow> 'a machine_scheme" where
  "before_memory L s = tss_init (gdt_address L) (tss_address L) (i686_GDT_Initialize (gdt_address L) (clrscr (clear_bss L s)))"

lemma HAL_devices_memory:
  "HAL_devices dev L h bp s = init_idt_32 dev h (remap_pic dev (Initialize_memories L bp (before_memory L s)))"
  by (simp add: HAL_devices_def before_memory_def Let_def)

lemma before_memory_fields:
  "TOTAL_USED_BLOCKS (before_memory L s) = 0" "malloc_list_head (before_memory L s) = 0"
  "malloc_virt_address (before_memory L s) = malloc_virt_address s" "r_esp (before_memory L s) = r_esp s"
proof -
  obtain m l x y where "clrscr (clear_bss L s) = (clear_bss L s)\<lparr>mem := m, port_log := l, g_ScreenX := x, g_ScreenY := y\<rparr>"
    using clrscr_only [of "clear_bss L s"] by (auto simp: screen_only_def)
  then show "TOTAL_USED_BLOCKS (before_memory L s) = 0" "malloc_list_head (before_memory L s) = 0"
    "malloc_virt_address (before_memory L s) = malloc_virt_address s" "r_esp (before_memory L s) = r_esp s"
    by (simp_all add: before_memory_def tss_init_def i686_GDT_Initialize_def i686_GDT_Load_def clear_bss_def Let_def)
qed

lemma before_memory_mem:
  assumes "0xC0000000 \<le> bss_start L" "bss_start L \<le> kernel_end L" and x: "unat x < 0xC0000000" "\<not> in_text x"
  shows "mem (before_memory L s) x = mem s x"
proof -
  have "\<not> in_range (bss_start L) (unat (kernel_end L - bss_start L)) x"
  proof -
    have "unat (kernel_end L - bss_start L) = unat (kernel_end L) - unat (bss_start L)" using assms(2) by (simp add: unat_sub)
    then have "unat (bss_start L) + unat (kernel_end L - bss_start L) \<le> 4294967296"
      using assms(2) unat_u32_lt [of "kernel_end L"] by (simp add: word_le_nat_alt)
    then show ?thesis using x(1) assms(1) by (simp add: in_range_unat word_le_nat_alt)
  qed
  then have "mem (clear_bss L s) x = mem s x" by (simp add: clear_bss_def memset_apply)
  moreover have "mem (clrscr (clear_bss L s)) x = mem (clear_bss L s) x"
    using clrscr_only [of "clear_bss L s"] x(2) by (auto simp: screen_only_def)
  ultimately show ?thesis
    by (simp add: before_memory_def tss_init_def i686_GDT_Initialize_def i686_GDT_Load_def Let_def)
qed

text \<open>The controllers and the gates: only the port log, the gates, their register and the interrupt flag
  change.\<close>

definition gates_only :: "'a machine_scheme \<Rightarrow> 'a machine_scheme \<Rightarrow> bool" where
  "gates_only s s' \<longleftrightarrow> (\<exists>i p g r. s' = s\<lparr>IF_flag := i, port_log := p, idt32 := g, IDTR := r\<rparr>)"

lemma gates_onlyI: "s' = s\<lparr>IF_flag := i, port_log := p, idt32 := g, IDTR := r\<rparr> \<Longrightarrow> gates_only s s'"
  unfolding gates_only_def by blast

lemma gates_only_trans [trans]: "gates_only s t \<Longrightarrow> gates_only t u \<Longrightarrow> gates_only s u"
proof -
  assume "gates_only s t" "gates_only t u"
  then obtain i p g r i' p' g' r' where "t = s\<lparr>IF_flag := i, port_log := p, idt32 := g, IDTR := r\<rparr>"
    "u = t\<lparr>IF_flag := i', port_log := p', idt32 := g', IDTR := r'\<rparr>" unfolding gates_only_def by blast
  then show "gates_only s u" by (intro gates_onlyI [where i = i' and p = p' and g = g' and r = r']) simp
qed

lemma gates_only_fold: "(\<And>n s. gates_only s (f n s)) \<Longrightarrow> gates_only s (fold f xs s)"
proof (induction xs arbitrary: s)
  case Nil
  show ?case by (rule gates_onlyI [where i = "IF_flag s" and p = "port_log s" and g = "idt32 s" and r = "IDTR s"]) simp
next
  case (Cons x xs)
  have "gates_only (f x s) (fold f xs (f x s))" by (rule Cons.IH) (rule Cons.prems)
  with Cons.prems gates_only_trans [of s "f x s" "fold f xs (f x s)"] show ?case by simp
qed

lemma gates_only_ops:
  "gates_only s (set_idt_descriptor_32 n a fl s)" "gates_only s (clear_irq_mask dev k s)"
  "gates_only s (s\<lparr>IDTR := r\<rparr>)" "gates_only s (s\<lparr>IF_flag := i\<rparr>)" "gates_only s (remap_pic dev s)"
proof -
  show "gates_only s (set_idt_descriptor_32 n a fl s)"
    by (rule gates_onlyI [where i = "IF_flag s" and p = "port_log s" and g = "idt32 (set_idt_descriptor_32 n a fl s)" and r = "IDTR s"])
      (simp add: set_idt_descriptor_32_def)
  show "gates_only s (clear_irq_mask dev k s)"
    by (rule gates_onlyI [where i = "IF_flag s" and p = "port_log (clear_irq_mask dev k s)" and g = "idt32 s" and r = "IDTR s"])
      (simp add: clear_irq_mask_def outb_def Let_def)
  show "gates_only s (s\<lparr>IDTR := r\<rparr>)"
    by (rule gates_onlyI [where i = "IF_flag s" and p = "port_log s" and g = "idt32 s" and r = r]) simp
  show "gates_only s (s\<lparr>IF_flag := i\<rparr>)"
    by (rule gates_onlyI [where i = i and p = "port_log s" and g = "idt32 s" and r = "IDTR s"]) simp
  show "gates_only s (remap_pic dev s)"
    by (rule gates_onlyI [where i = "IF_flag s" and p = "port_log (remap_pic dev s)" and g = "idt32 s" and r = "IDTR s"])
      (simp add: remap_pic_def io_wait_def outb_def Let_def)
qed

lemma gates_only_pit: "gates_only s (set_pit_channel_mode_frequency 0 md d s)"
  by (rule gates_onlyI [where i = True and p = "port_log (set_pit_channel_mode_frequency 0 md d s)" and g = "idt32 s" and r = "IDTR s"])
    (simp add: set_pit_channel_mode_frequency_def outb_def Let_def)

lemma gates_only_init: "gates_only s (init_idt_32 dev h s)"
  unfolding init_idt_32_def Let_def fold_exception_gates
  by (rule gates_only_trans [OF _ gates_only_pit] gates_only_trans [OF _ gates_only_ops(1)]
      gates_only_trans [OF _ gates_only_ops(2)] gates_only_trans [OF _ gates_only_ops(3)]
      gates_only_trans [OF _ gates_only_ops(4)] gates_only_trans [OF _ gates_only_fold] gates_only_fold gates_only_ops)+

lemma gates_only_vm:
  assumes "gates_only s s'"
  shows "vm_inv s' = vm_inv s" "mem s' = mem s" "current_page_directory s' = current_page_directory s"
    "CR0 s' = CR0 s" "CR3 s' = CR3 s" "task s' = task s"
proof -
  obtain i p g r where s': "s' = s\<lparr>IF_flag := i, port_log := p, idt32 := g, IDTR := r\<rparr>"
    using assms by (auto simp: gates_only_def)
  show "vm_inv s' = vm_inv s" by (rule same_tables) (simp_all add: s')
  show "mem s' = mem s" "current_page_directory s' = current_page_directory s" "CR0 s' = CR0 s" "CR3 s' = CR3 s"
    "task s' = task s" by (simp_all add: s')
qed

section \<open>The machine before the first task\<close>


text \<open>A kernel of 32 KiB with 16 MiB of RAM.\<close>

definition example_layout :: layout where
  "example_layout = \<lparr>kernel_start = 0xC0000000, kernel_end = 0xC0008000, bss_start = 0xC0006000,
     gdt_address = 0xC0005000, tss_address = 0xC0006100\<rparr>"


section \<open>The first tasks\<close>

lemma init_task_list:
  assumes "init_task code s = Some s'" "task s' \<noteq> 0"
  shows "tlist (tasks s') (task s') [task s'] \<and> current_task s' = task s' \<and> t_state (tasks s' (task s')) = TASK_READY"
proof -
  obtain m x u where s': "s' = u\<lparr>task := m, next_taskId := next_taskId u + 1, current_task := m, tasks := (tasks u)(m := x)\<rparr>"
    "t_next x = 0" "t_state x = TASK_READY"
    using assms(1) by (auto simp: init_task_def Let_def split: option.splits prod.splits)
  then show ?thesis using assms(2) by simp
qed

text \<open>When the idle task and the task of the userland module are made, the second half of \<open>HAL_Initialize\<close> ends
  at the trampoline of the module's task, and from there the processor is in ring 3 at the entry point of the
  module; interrupts will use the task's own kernel stack. The memory stays as it is.\<close>

lemma runs_userland:
  assumes init: "init_task code s = Some s1" "task s1 \<noteq> 0" and bp: "0 < ModuleCount bp"
    and elf: "elf_load (image_data (Modules bp 0)) s1 = (Inr f, s1')"
    and user: "create_user_task_from_elf code (image_data (Modules bp 0)) s1 = Some (t, s2)" "t \<noteq> 0" "t \<noteq> task s1"
    and stack: "pushed s2 \<inter> new_words t = {}"
  shows "\<exists>s3. HAL_tasks hlt code bp s = Some s3 \<and> same_vm s2 s3 \<and> current_task s3 = t \<and> tss_esp0 s3 = t + 4128 \<and>
    t_state (tasks s3 t) = TASK_RUNNIG \<and> t_state (tasks s3 (task s1)) = TASK_PAUSED \<and>
    r_eip s3 = task_entry_trampoline_addr code \<and>
    (let s4 = task_entry_trampoline s3; s5 = usermode_trampoline s4
     in r_eip s4 = usermode_trampoline_addr code \<and> r_eip s5 = f \<and> r_esp s5 = 0x601000 \<and>
        r_cs s5 = 0x1B \<and> r_ss s5 = 0x23 \<and> r_ds s5 = 0x23 \<and> IF_flag s5)"
proof -
  let ?i = "task s1"
  note I = init_task_list [OF init]
  have S: "tlist (tasks s2) (task s2) [?i, t]" "task s2 = ?i" "current_task s2 = ?i"
    and st: "t_state (tasks s2 p) = (if p = t then TASK_READY else t_state (tasks s1 p))" for p
    using create_user_task_shape [OF user(1) elf, of "[?i]"] I user(2,3) by auto
  have "next_runnable (tasks s2) [?i, t] ?i = Some t"
    using user(3) by (simp add: next_runnable_def rotation_def runnable_def st task_states)
  moreover have "distinct [?i, t]" "?i \<in> set [?i, t]" using user(3) by auto
  ultimately obtain i T where sch: "schedule hlt s2 = Some (switch_task ?i t (s2\<lparr>IF_flag := i, current_task := t, tasks := T, tss_esp0 := t + 4128\<rparr>))"
    and T: "\<And>p. T p = (if p = t then (tasks s2 p)\<lparr>t_state := TASK_RUNNIG\<rparr>
       else if p = ?i \<and> runnable (tasks s2 ?i) then (tasks s2 p)\<lparr>t_state := TASK_PAUSED\<rparr> else tasks s2 p)"
    using schedule_switches [OF S(1) _ S(3), of t hlt] by blast
  define u where "u = s2\<lparr>IF_flag := i, current_task := t, tasks := T, tss_esp0 := t + 4128\<rparr>"
  have run: "runnable (tasks s2 ?i)" using user(3) I by (simp add: runnable_def st task_states)
  have "HAL_tasks hlt code bp s = Some (switch_task ?i t u)"
    using bp by (simp add: HAL_tasks_def init(1) user(1) sch u_def)
  moreover have "pushed u \<inter> new_words t = {}" using stack by (simp add: u_def pushed_def)
  then have "r_eip (task_entry_trampoline (switch_task ?i t u)) = usermode_trampoline_addr code \<and>
    r_eip (usermode_trampoline (task_entry_trampoline (switch_task ?i t u))) = f \<and>
    r_esp (usermode_trampoline (task_entry_trampoline (switch_task ?i t u))) = 0x601000 \<and>
    r_cs (usermode_trampoline (task_entry_trampoline (switch_task ?i t u))) = 0x1B \<and>
    r_ss (usermode_trampoline (task_entry_trampoline (switch_task ?i t u))) = 0x23 \<and>
    r_ds (usermode_trampoline (task_entry_trampoline (switch_task ?i t u))) = 0x23 \<and>
    IF_flag (usermode_trampoline (task_entry_trampoline (switch_task ?i t u)))"
    by (intro user_task_first_run [OF user(1) elf _ _ _ _ user(3) [symmetric] _ _ refl refl])
      (simp_all add: u_def T)
  moreover have "r_eip (switch_task ?i t u) = task_entry_trampoline_addr code"
  proof -
    have "fresh_stack code t (usermode_trampoline_addr code) (kstack u)" "t_esp (tasks u t) = t + 4096"
      using create_user_task_stack [OF user(1) elf] by (simp_all add: u_def T)
    from start_task(1) [OF this(2,1) user(3) [symmetric] \<open>pushed u \<inter> new_words t = {}\<close> refl refl] show ?thesis .
  qed
  moreover have "current_task (switch_task ?i t u) = t" "tss_esp0 (switch_task ?i t u) = t + 4128"
    "t_state (tasks (switch_task ?i t u) t) = TASK_RUNNIG" "t_state (tasks (switch_task ?i t u) ?i) = TASK_PAUSED"
    using user(3) run by (simp_all add: switch_task_effect [OF refl refl] u_def saved_tasks_def T)
  moreover have "same_vm s2 (switch_task ?i t u)" by (simp add: switch_task_effect [OF refl refl] same_vm_def u_def)
  ultimately show ?thesis by (simp add: Let_def)
qed

text \<open>C34 Without a module, \<open>HAL_Initialize\<close> prints its message, finds the idle task as the only one, and
  comes back with interrupts off, so that \<open>no_exit\<close> halts a processor that nothing wakes any more.\<close>

theorem HAL_without_userland_stops:
  assumes "init_task code s = Some s1" "task s1 \<noteq> 0" and "ModuleCount bp = 0" and "on_screen s1"
  shows "\<exists>s'. HAL_tasks hlt code bp s = Some s' \<and> \<not> IF_flag s' \<and> current_task s' = task s1 \<and>
    t_state (tasks s' (task s1)) = TASK_RUNNIG"
proof -
  let ?i = "task s1"
  note I = init_task_list [OF assms(1,2)]
  have "string_args 0 (parse no_userland_message) = {}" by code_simp
  then obtain s2 where pr: "printf put_c no_userland_message (\<lambda>_. 0) s1 = Some s2"
    using kernel_sink.printf_text [OF assms(4)] by auto
  note M = screen_more_fields [OF printf_keeps [OF pr]]
  have "next_runnable (tasks s2) [?i] ?i = Some ?i"
    using I by (simp add: next_runnable_def rotation_def runnable_def M task_states)
  then obtain T where sch: "schedule hlt s2 = Some (switch_task ?i ?i (s2\<lparr>IF_flag := False, current_task := ?i, tasks := T, tss_esp0 := ?i + 4128\<rparr>))"
    and T: "\<forall>p. T p = (if p = ?i then (tasks s2 p)\<lparr>t_state := TASK_RUNNIG\<rparr>
       else if p = ?i \<and> runnable (tasks s2 ?i) then (tasks s2 p)\<lparr>t_state := TASK_PAUSED\<rparr> else tasks s2 p)"
    using schedule_switches [of s2 "[?i]" ?i ?i hlt] I by (auto simp: M)
  have "HAL_tasks hlt code bp s = Some (switch_task ?i ?i (s2\<lparr>IF_flag := False, current_task := ?i, tasks := T, tss_esp0 := ?i + 4128\<rparr>))"
    by (simp add: HAL_tasks_def assms(1,3) pr sch)
  then show ?thesis
    by (simp add: switch_task_effect [OF refl refl] saved_tasks_def saved_stack_def bit_eflags_9 T)
qed

section \<open>The stack that the kernel starts on\<close>

lemma mask_4: "(15 :: u32) = mask 4"
  by (simp add: mask_eq_exp_minus_1)

lemma unat_and_not_15: "unat ((x :: u32) AND NOT 15) = unat x div 16 * 16"
proof -
  have "x AND NOT 15 = push_bit 4 (drop_bit 4 x)"
    unfolding mask_4 by (rule bit_word_eqI) (auto simp: bit_simps)
  also have "\<dots> = x div 16 * 16" by (simp add: push_bit_eq_mult drop_bit_eq_div)
  finally show ?thesis
    using unat_u32_lt [of x] div_times_less_eq_dividend [of "unat x" 16] by (simp add: unat_word_ariths unat_div)
qed

text \<open>The bitmap of frames begins at the first page after the kernel's end, and so does the stack that
  \<open>kentry\<close> sets up: with about 256 MiB of RAM or more the bitmap covers the stack's top, and clearing it
  overwrites the words that are in use there, the pointer to the boot parameters first.\<close>

theorem bitmap_covers_boot_stack:
  assumes "kernel_end L \<le> 0xFFF00000" and "65664 \<le> ram_pages bp"
  shows "in_bitmap (INIT_MEMORY (kernel_start L) (kernel_end L) bp s) (kernel_stack_top (kernel_end L) - 4) \<and>
    load32 (mem (setup_memory_bitmap (get_memory_info (Memory bp) (set_kernel_addr (kernel_start L) (kernel_end L) s))))
      (kernel_stack_top (kernel_end L) - 4) = 0"
proof -
  let ?e = "kernel_end L"
  let ?B = "(?e + 0xFFF) AND NOT 0xFFF"
  let ?t = "get_memory_info (Memory bp) (set_kernel_addr (kernel_start L) ?e s)"
  have e: "unat ?e \<le> 0xFFF00000" using assms(1) by (simp add: word_le_nat_alt)
  have B: "unat ?B = (unat ?e + 0xFFF) div 4096 * 4096" using e by (intro unat_round_up) simp
  have "unat ((?e + 15) AND NOT 15) = (unat ?e + 15) div 16 * 16"
    unfolding unat_and_not_15 using e by (simp add: unat_word_ariths)
  moreover from this have "unat (kernel_stack_top ?e) = unat ((?e + 15) AND NOT 15) + 8192"
    using e div_times_less_eq_dividend [of "unat ?e + 15" 16] by (simp add: kernel_stack_top_def unat_word_ariths)
  ultimately have T: "unat (kernel_stack_top ?e - 4) = (unat ?e + 15) div 16 * 16 + 8188"
    by (simp add: unat_minus_small word_le_nat_alt)
  have P: "65664 \<le> unat (TOTAL_PAGES ?t)" "unat (TOTAL_PAGES ?t) < 0x100000"
    by (simp add: TOTAL_PAGES_ram_pages assms(2)) (rule get_memory_info_sizes(3))
  have N: "unat (BITMAP_SIZEB ?t) = (unat (TOTAL_PAGES ?t) + 7) div 8" "unat (TOTAL_BLOCK ?t) = (unat (TOTAL_PAGES ?t) + 31) div 32"
    using unat_sizes [OF P(2)] by (simp_all add: get_memory_info_sizes)
  have TB: "TOTAL_BLOCK (get_memory_info (Memory bp) s) = TOTAL_BLOCK ?t" by (simp add: get_memory_info_def Let_def)
  have lo: "unat ?B \<le> unat (kernel_stack_top ?e - 4)" and hi: "unat (kernel_stack_top ?e - 4) + 4 \<le> unat ?B + 8208"
    unfolding B T by linarith+
  have "in_bitmap (INIT_MEMORY (kernel_start L) ?e bp s) (kernel_stack_top ?e - 4)"
    unfolding in_bitmap_def init_frame TB
  proof (subst in_range_unat)
    show "unat ?B + 4 * unat (TOTAL_BLOCK ?t) \<le> 4294967296"
      unfolding B N using e P(2) by linarith
    show "unat ?B \<le> unat (kernel_stack_top ?e - 4) \<and> unat (kernel_stack_top ?e - 4) < unat ?B + 4 * unat (TOTAL_BLOCK ?t)"
      using lo hi P(1) unfolding N by linarith
  qed
  moreover have "in_range ?B (unat (BITMAP_SIZEB ?t)) x" if "in_range (kernel_stack_top ?e - 4) 4 x" for x
  proof -
    have "unat (kernel_stack_top ?e - 4) + 4 \<le> 4294967296" unfolding T using e by linarith
    then have "unat (kernel_stack_top ?e - 4) \<le> unat x" "unat x < unat (kernel_stack_top ?e - 4) + 4"
      using that by (simp_all add: in_range_unat)
    moreover have "unat ?B + unat (BITMAP_SIZEB ?t) \<le> 4294967296" unfolding B N using e P(2) by linarith
    ultimately show ?thesis using lo hi P(1) unfolding N by (subst in_range_unat) linarith+
  qed
  then have "load32 (memset (mem ?t) ?B 0 (BITMAP_SIZEB ?t)) (kernel_stack_top ?e - 4) = 0"
    by (rule load32_memset_zero)
  moreover have "KERNEL_END_ADDR ?t = ?e" by (simp add: get_memory_info_def set_kernel_addr_def Let_def)
  ultimately show ?thesis by (simp add: setup_memory_bitmap_def Let_def)
qed

lemma bitmap_covers_boot_stack_witness:
  "let bp = boot_16M\<lparr>Memory := \<lparr>RegionCount = 1, Regions = (\<lambda>_. \<lparr>Begin_Low = 0, Begin_High = 0,
       Length_Low = 0x20000000, Length_High = 0, Type = 1, ACPI = 0\<rparr>)\<rparr>\<rparr>
   in in_bitmap (INIT_MEMORY 0xC0000000 0xC0008000 bp tiny_pmm) 0xC0009FFC"
proof -
  let ?bp = "boot_16M\<lparr>Memory := \<lparr>RegionCount = 1, Regions = (\<lambda>_. \<lparr>Begin_Low = 0, Begin_High = 0,
       Length_Low = 0x20000000, Length_High = 0, Type = 1, ACPI = 0\<rparr>)\<rparr>\<rparr>"
  have "ram_pages ?bp = 131072" by (simp add: ram_pages_def usable_ram_def region_length_def)
  moreover have "kernel_stack_top 0xC0008000 - 4 = 0xC0009FFC" by (simp add: kernel_stack_top_def)
  ultimately show ?thesis
    using bitmap_covers_boot_stack [of example_layout ?bp tiny_pmm] by (simp add: example_layout_def Let_def)
qed

section \<open>Concrete starts\<close>

text \<open>The small machine of two tasks, used as the state before there are tasks: its heap serves the idle
  task and then the task of the module.\<close>

lemma malloc_second_block:
  assumes "malloc_list_head s = 0xD1000000" "blocks s 0xD1000000 = \<lparr>bsize = 4128, bfree = False, bnext = 0xD100102C\<rparr>"
    "blocks s 0xD100102C = \<lparr>bsize = 8136, bfree = True, bnext = 0\<rparr>"
  shows "malloc 4128 s = Some (0xD1001038, malloc_split 0xD100102C 4128 s)"
proof -
  let ?t = "malloc_split 0xD100102C 4128 s"
  have "find_block (blocks s) 4128 0xD100102C = Some 0xD100102C"
    by (subst find_block.simps) (simp add: assms)
  then have "find_block (blocks s) 4128 0xD1000000 = Some 0xD100102C"
    by (subst find_block.simps) (simp add: assms)
  then have "malloc_next_block 4128 s = Some (0xD1001038, ?t)"
    by (simp add: malloc_next_block_def assms HDR_def Let_def)
  moreover have "merge_free_blocks ?t = Some ?t"
  proof -
    have h: "malloc_list_head ?t = 0xD1000000" by (simp add: malloc_split_def update_block_def Let_def assms)
    have b: "bnext (blocks ?t 0xD1000000) = 0xD100102C" "\<not> bfree (blocks ?t 0xD1000000)"
      "bnext (blocks ?t 0xD100102C) = 0xD1002058" "\<not> bfree (blocks ?t 0xD100102C)" "bnext (blocks ?t 0xD1002058) = 0"
      by (simp_all add: malloc_split_def update_block_def Let_def HDR_def assms)
    have "merge_loop 0xD1002058 ?t = Some ?t" by (subst merge_loop.simps) (simp add: b)
    then have "merge_loop 0xD100102C ?t = Some ?t" by (subst merge_loop.simps) (simp add: b Let_def)
    then have "merge_loop 0xD1000000 ?t = Some ?t" by (subst merge_loop.simps) (simp add: b Let_def)
    then show ?thesis by (simp add: merge_free_blocks_def h)
  qed
  ultimately show ?thesis by (simp add: malloc_def assms)
qed

lemma demo_init:
  "\<exists>s1. init_task demo_code (two_tasks a b) = Some s1 \<and> task s1 = 0xD100000C \<and> on_screen s1 \<and> mem s1 = image_mem \<and>
     r_esp s1 = 0x5000 \<and> malloc_list_head s1 = 0xD1000000 \<and>
     blocks s1 0xD1000000 = \<lparr>bsize = 4128, bfree = False, bnext = 0xD100102C\<rparr> \<and>
     blocks s1 0xD100102C = \<lparr>bsize = 8136, bfree = True, bnext = 0\<rparr>"
proof -
  define t where "t = malloc_split 0xD1000000 4128 (two_tasks a b)"
  have m: "malloc 4128 (two_tasks a b) = Some (0xD100000C, t)"
    unfolding t_def by (rule malloc_one_block_split) simp_all
  have t: "mem t = image_mem" "r_esp t = 0x5000" "malloc_list_head t = 0xD1000000"
    "blocks t 0xD1000000 = \<lparr>bsize = 4128, bfree = False, bnext = 0xD100102C\<rparr>"
    "blocks t 0xD100102C = \<lparr>bsize = 8136, bfree = True, bnext = 0\<rparr>" "g_ScreenX t = 0" "g_ScreenY t = 0"
    by (simp_all add: t_def malloc_split_def update_block_def HDR_def Let_def)
  obtain K where st: "setup_stack demo_code 0xD100000C (idle_task_addr demo_code) t = (0xD100100C, t\<lparr>kstack := K\<rparr>)"
    by (rule demo_stack)
  have sz: "TASK_SIZE + STACK_SIZE = 4128" by (simp add: TASK_SIZE_def STACK_SIZE_def)
  show ?thesis by (simp add: init_task_def sz m st on_screen_def t)
qed

lemma HAL_without_userland_stops_witness:
  "\<exists>s'. HAL_tasks id demo_code boot_16M (two_tasks 1 1) = Some s' \<and> \<not> IF_flag s'"
proof -
  obtain s1 where "init_task demo_code (two_tasks 1 1) = Some s1" "task s1 = 0xD100000C" "on_screen s1"
    using demo_init [of 1 1] by blast
  then show ?thesis
    using HAL_without_userland_stops [of demo_code "two_tasks 1 1" s1 boot_16M id] by (auto simp: boot_16M_def)
qed

end
