(* ===== verification/Heap_Setup.thy ===== *)
theory Heap_Setup
  imports Malloc Elf
begin

text \<open>
  What the kernel heap does to the page tables, \<open>src/kernel/mm/handler/malloc.c\<close>: \<open>malloc_init\<close> takes a run of
  frames and maps it, page by page, at the start of the heap; the list operations do not touch memory or tables.

  The lemmas follow the pages: the invariant of the tables and the bytes of every client stay, no page gets the
  user bit, only the translations of the heap's pages change.
\<close>

section \<open>One page and a run of pages\<close>

text \<open>The page of the kernel heap: \<open>map_page\<close>, then the entry is made writable.\<close>

lemma heap_page_mapped:
  assumes inv: "vm_inv s" "user_pde s" and b: "budget s (Suc n)"
    and t: "PAGE_PHYS_ADDRESS t = t"
    and s': "s' = snd (map_page t v s)" "s'' = update32 (get_page v s') (\<lambda>e. SET_ATTRIBUTE e PTE_READ_WRITE) s'"
  shows "vm_inv s''" "user_pde s''" "budget s'' n" "keeps s s''"
    "\<And>vb. bit (pte s'' vb) 2 \<longleftrightarrow> bit (pte s vb) 2"
    "\<And>vb. pte s'' vb = (if page vb = page v then SET_ATTRIBUTE (SET_FRAME (SET_ATTRIBUTE (pte s v) PTE_PRESENT) t) PTE_READ_WRITE else pte s vb)"
proof -
  obtain u r where al: "allocate_block 1 s = (u, r)" by fastforce
  have "fst (allocate_block 1 s) \<noteq> 0" using budget_alloc(1) [OF vm_invD(1) [OF inv(1)] b al] al by simp
  then have mp: "map_page t v s = (True, s')" using map_succeeds(1) [OF inv(1)] by (simp add: s'(1) prod_eq_iff)
  from map_page_mapped [OF inv(1) mp] obtain s2
    where r: "room_made s s2" "pde s2 (pdi v) \<noteq> 0"
      and w: "s' = update32 (at (page (pde s2 (pdi v))) (pti v)) (\<lambda>p. SET_FRAME (SET_ATTRIBUTE p PTE_PRESENT) t) s2"
    unfolding mapped_def by blast
  note M = mapped_effect [OF inv(1) map_page_mapped [OF inv(1) mp]]
  have "vm_inv s2" using r(1) by (simp add: room_made_def)
  then have nz: "pde s' (pdi v) \<noteq> 0" using write_pte(2) [OF _ pdi_lt r(2) pti_lt w] r(2) by simp
  have w2: "s'' = update32 (at (page (pde s' (pdi v))) (pti v)) (\<lambda>e. SET_ATTRIBUTE e PTE_READ_WRITE) s'"
    by (simp add: s'(2) get_page_at [OF M(1)])
  note W = write_pte [OF M(1) pdi_lt nz pti_lt w2]
  show i2: "vm_inv s''" by (rule W(1))
  show p: "pte s'' vb = (if page vb = page v then SET_ATTRIBUTE (SET_FRAME (SET_ATTRIBUTE (pte s v) PTE_PRESENT) t) PTE_READ_WRITE else pte s vb)" for vb
    using pte_write [OF M(1) nz w2] by (simp add: M(3))
  have "keeps s' s''" using write_tables_only [OF M(1) nz w2] by (intro tables_only_keeps) (simp_all add: w2)
  with tables_only_keeps [OF M(2,7)] show "keeps s s''" by (rule keeps_trans)
  have "one_frame s s''" using M(6) W(4) by (simp add: one_frame_def w2)
  with b show "budget s'' n" by (rule budget_one_frame)
  show nu: "bit (pte s'' vb) 2 \<longleftrightarrow> bit (pte s vb) 2" for vb
    by (auto simp: p bit_SET_ATTRIBUTE bits_SET_FRAME_low [OF t] flag_bits pte_def [of s] same_page_iff)
  show "user_pde s''"
    using inv(2) M(4) W(2) nu by (simp add: user_pde_def)
qed

definition heap_page :: "u32 \<Rightarrow> u32 \<Rightarrow> nat \<Rightarrow> 'a heap_scheme \<Rightarrow> 'a heap_scheme" where
  "heap_page phys virt i s = (let s' = snd (map_page (phys + of_nat i * PAGE_SIZE) (virt + of_nat i * PAGE_SIZE) s)
     in update32 (get_page (virt + of_nat i * PAGE_SIZE) s') (\<lambda>e. SET_ATTRIBUTE e PTE_READ_WRITE) s')"

lemma heap_page_pmm_only: "pmm_only s (heap_page phys virt i s)"
  unfolding heap_page_def Let_def by (rule pmm_only_update32 [OF map_page_shape])

lemma PAGE_PHYS_multiple: "PAGE_PHYS_ADDRESS (x * 4096) = x * 4096"
proof -
  have "x * 4096 = push_bit 12 x" by (simp add: push_bit_eq_mult)
  moreover have "PAGE_PHYS_ADDRESS (push_bit 12 x) = push_bit 12 x"
    unfolding PAGE_PHYS_ADDRESS_def mask_12 by (rule bit_word_eqI) (auto simp: bit_simps)
  ultimately show ?thesis by simp
qed

lemma heap_pages_mapped:
  assumes "vm_inv s" "user_pde s" "budget s (n + k)" "page virt + n < 0x100000" "PAGE_PHYS_ADDRESS phys = phys"
  defines "r \<equiv> fold (heap_page phys virt) [0..<n] s"
  shows "vm_inv r \<and> user_pde r \<and> budget r k \<and> keeps s r \<and> pmm_only s r \<and>
    (\<forall>vb. page vb \<notin> {page virt..<page virt + n} \<longrightarrow> pte r vb = pte s vb) \<and> (\<forall>vb. bit (pte r vb) 2 \<longleftrightarrow> bit (pte s vb) 2)"
proof -
  have "vm_inv (fold (heap_page phys virt) [0..<m] s) \<and> user_pde (fold (heap_page phys virt) [0..<m] s) \<and>
    budget (fold (heap_page phys virt) [0..<m] s) (n - m + k) \<and> keeps s (fold (heap_page phys virt) [0..<m] s) \<and>
    pmm_only s (fold (heap_page phys virt) [0..<m] s) \<and>
    (\<forall>vb. page vb \<notin> {page virt..<page virt + m} \<longrightarrow> pte (fold (heap_page phys virt) [0..<m] s) vb = pte s vb) \<and>
    (\<forall>vb. bit (pte (fold (heap_page phys virt) [0..<m] s) vb) 2 \<longleftrightarrow> bit (pte s vb) 2)" if "m \<le> n" for m
    using that
  proof (induction m)
    case 0
    then show ?case using assms(1-3) by simp
  next
    case (Suc m)
    let ?t = "fold (heap_page phys virt) [0..<m] s"
    let ?v = "virt + of_nat m * PAGE_SIZE" and ?p = "phys + of_nat m * PAGE_SIZE"
    have IH: "vm_inv ?t" "user_pde ?t" "budget ?t (Suc (n - Suc m + k))" "keeps s ?t" "pmm_only s ?t"
      "\<And>vb. page vb \<notin> {page virt..<page virt + m} \<Longrightarrow> pte ?t vb = pte s vb"
      "\<And>vb. bit (pte ?t vb) 2 \<longleftrightarrow> bit (pte s vb) 2"
      using Suc by (simp_all add: Suc_diff_Suc Suc_le_eq)
    have pv: "page ?v = page virt + m" using Suc.prems assms(4) by (intro page_add_pages) simp
    have "phys = of_nat (page phys) * 4096" using assms(5) by (simp add: PAGE_PHYS_eq)
    then have "?p = of_nat (page phys + m) * 4096" by (simp add: PAGE_SIZE_def distrib_right)
    then have ph: "PAGE_PHYS_ADDRESS ?p = ?p" using PAGE_PHYS_multiple by metis
    note H = heap_page_mapped [OF IH(1-3) ph refl refl, of ?v]
    have st: "fold (heap_page phys virt) [0..<Suc m] s = update32 (get_page ?v (snd (map_page ?p ?v ?t))) (\<lambda>e. SET_ATTRIBUTE e PTE_READ_WRITE) (snd (map_page ?p ?v ?t))"
      by (simp add: heap_page_def Let_def)
    have "pmm_only ?t (fold (heap_page phys virt) [0..<Suc m] s)" by (simp add: heap_page_pmm_only)
    then have po: "pmm_only s (fold (heap_page phys virt) [0..<Suc m] s)" by (rule pmm_only_trans [OF IH(5)])
    have "page vb \<notin> {page virt..<page virt + Suc m} \<Longrightarrow> pte (fold (heap_page phys virt) [0..<Suc m] s) vb = pte s vb" for vb
      using IH(6) [of vb] unfolding st H(6) pv by auto
    moreover have "bit (pte (fold (heap_page phys virt) [0..<Suc m] s) vb) 2 \<longleftrightarrow> bit (pte s vb) 2" for vb
      unfolding st H(5) by (rule IH(7))
    ultimately show ?case using H(1-3) keeps_trans [OF IH(4) H(4)] po unfolding st by blast
  qed
  from this [of n] show ?thesis by (simp add: r_def)
qed

section \<open>The first allocation\<close>

lemma pmm_only_heap:
  assumes "pmm_only s r"
  shows "heap.more r = heap.more s" "malloc_list_head r = malloc_list_head s" "blocks r = blocks s"
    "malloc_virt_address r = malloc_virt_address s" "CR3 r = CR3 s" "current_page_directory r = current_page_directory s"
  using assms by (auto simp: pmm_only_def)

lemma malloc_init_eq:
  assumes "n = (if bytes mod PAGE_SIZE > 0 then (bytes + PAGE_SIZE - 1) div PAGE_SIZE + 1 else (bytes + PAGE_SIZE - 1) div PAGE_SIZE)"
    and "allocate_block n (s\<lparr>total_malloc_pages := n\<rparr>) = (phys, s1)"
    and "s2 = s1\<lparr>malloc_phys_address := phys, malloc_list_head := malloc_virt_address s1\<rparr>"
    and "s3 = fold (heap_page phys (malloc_virt_address s2)) [0..<unat n] s2"
  shows "malloc_init bytes s = (if malloc_list_head s3 \<noteq> 0
    then update_block (malloc_list_head s3) (\<lambda>_. \<lparr>bsize = n * PAGE_SIZE - HDR, bfree = True, bnext = 0\<rparr>) s3 else s3)"
  unfolding assms(3,4) heap_page_def malloc_init_def Let_def assms(1) [symmetric] assms(2) prod.case ..

lemma malloc_init_task:
  fixes s :: "'a heap_scheme"
  assumes inv: "vm_inv s" "user_pde s" and b: "budget s (6 + k)" and v: "malloc_virt_address s = KERNEL_HEAP_START"
    and f: "first_run 3 s = Some f" "f + 3 \<le> nbits s"
  defines "r \<equiv> malloc_init 4128 s"
  shows "vm_inv r \<and> user_pde r \<and> budget r k \<and> keeps s r \<and> heap.more r = heap.more s \<and>
    malloc_list_head r = 0xD1000000 \<and> blocks r 0xD1000000 = \<lparr>bsize = 12276, bfree = True, bnext = 0\<rparr> \<and>
    (\<forall>vb. page vb \<notin> {0xD1000..<0xD1003} \<longrightarrow> pte r vb = pte s vb) \<and> (\<forall>vb. bit (pte r vb) 2 \<longleftrightarrow> bit (pte s vb) 2) \<and>
    CR3 r = CR3 s \<and> current_page_directory r = current_page_directory s"
proof -
  let ?s = "s\<lparr>total_malloc_pages := 3\<rparr>"
  have same: "mem ?s = mem s" "BIT_MAP ?s = BIT_MAP s" "TOTAL_BLOCK ?s = TOTAL_BLOCK s"
    "current_page_directory ?s = current_page_directory s" "TOTAL_USED_BLOCKS ?s = TOTAL_USED_BLOCKS s" by simp_all
  note S = same_bitmap [OF same(1-3)] same_tables [OF same(1-4)] same_client [OF same(1-4)]
  have c: "TOTAL_USED_BLOCKS ?s < TOTAL_BLOCK ?s" using budget_less [of s "5 + k"] b by simp
  have "pmm_inv ?s" "first_run (unat (3 :: u32)) ?s = Some f" "f + unat (3 :: u32) \<le> nbits ?s"
    using vm_invD(1) [OF inv(1)] f by (simp_all add: S)
  from allocate_run [OF this(1) _ c this(2,3)] obtain s1
    where al: "allocate_block 3 ?s = (of_nat f * 4096, s1)" "alloc_post ?s f (unat (3::u32)) s1" by auto
  have i0: "vm_inv ?s" "user_pde ?s" "budget ?s (unat (3 :: u32) + (3 + k))" using inv b by (simp_all add: S)
  note R = run_keeps [OF i0(1) al]
  define s2 where "s2 = s1\<lparr>malloc_phys_address := of_nat f * 4096, malloc_list_head := 0xD1000000\<rparr>"
  have same2: "mem s2 = mem s1" "BIT_MAP s2 = BIT_MAP s1" "TOTAL_BLOCK s2 = TOTAL_BLOCK s1"
    "current_page_directory s2 = current_page_directory s1" "TOTAL_USED_BLOCKS s2 = TOTAL_USED_BLOCKS s1" by (simp_all add: s2_def)
  note S2 = same_tables [OF same2(1-4)] same_client [OF same2(1-4)]
  have sh: "malloc_virt_address s2 = 0xD1000000" "malloc_virt_address s1 = 0xD1000000" "heap.more s1 = heap.more s" "CR3 s2 = CR3 s" "current_page_directory s2 = current_page_directory s"
    using allocate_block_shape [of 3 ?s] v unfolding al(1) by (auto simp: s2_def KERNEL_HEAP_START_def)
  have "user_pde s1" using inv(2) R(4,5) by (simp add: user_pde_def S)
  then have i2: "vm_inv s2" "user_pde s2" "budget s2 (3 + k)" "keeps s s2" "\<And>va. pte s2 va = pte s va"
    using R(1,4,6) R(7) [OF i0(3)] by (simp_all add: S2 S same2 keeps_def)
  define s3 where "s3 = fold (heap_page (of_nat f * 4096) 0xD1000000) [0..<3] s2"
  have pg: "page 0xD1000000 = 0xD1000" by (simp add: page_def)
  then have "page 0xD1000000 + 3 < 0x100000" by simp
  note H = heap_pages_mapped [OF i2(1-3) this PAGE_PHYS_multiple [of "of_nat f"], folded s3_def, unfolded pg]
  then have "pmm_only s2 s3" by blast
  note M = pmm_only_heap [OF this]
  have h3: "malloc_list_head s3 = 0xD1000000" "heap.more s3 = heap.more s" "CR3 s3 = CR3 s" "current_page_directory s3 = current_page_directory s"
    using M(1,2,5,6) sh(3,4,5) by (simp_all add: s2_def)
  have n: "(3 :: u32) = (if 4128 mod PAGE_SIZE > 0 then (4128 + PAGE_SIZE - 1) div PAGE_SIZE + 1 else (4128 + PAGE_SIZE - 1) div PAGE_SIZE)"
    by (simp add: PAGE_SIZE_def)
  have u3: "unat (3 :: u32) = 3" by simp
  have "s2 = s1\<lparr>malloc_phys_address := of_nat f * 4096, malloc_list_head := malloc_virt_address s1\<rparr>"
    "s3 = fold (heap_page (of_nat f * 4096) (malloc_virt_address s2)) [0..<unat (3 :: u32)] s2"
    by (simp only: s2_def sh(2), simp only: s3_def sh(1) u3)
  from malloc_init_eq [OF n al(1) this] have r: "r = update_block 0xD1000000 (\<lambda>_. \<lparr>bsize = 12276, bfree = True, bnext = 0\<rparr>) s3"
    unfolding r_def h3(1) by (simp add: PAGE_SIZE_def HDR_def)
  have same4: "mem r = mem s3" "BIT_MAP r = BIT_MAP s3" "TOTAL_BLOCK r = TOTAL_BLOCK s3"
    "current_page_directory r = current_page_directory s3" "TOTAL_USED_BLOCKS r = TOTAL_USED_BLOCKS s3" by (simp_all add: r update_block_def)
  note S4 = same_tables [OF same4(1-4)] same_client [OF same4(1-4)]
  have "keeps s s3" using keeps_trans [OF i2(4)] H by blast
  then have "keeps s r" by (simp add: keeps_def S4 same4)
  moreover have "vm_inv r \<and> user_pde r \<and> budget r k" using H by (simp add: S4 same4)
  moreover have "\<forall>vb. page vb \<notin> {0xD1000..<0xD1003} \<longrightarrow> pte r vb = pte s vb"
        "\<forall>vb. bit (pte r vb) 2 \<longleftrightarrow> bit (pte s vb) 2"
    using conjunct2 [OF conjunct2 [OF conjunct2 [OF conjunct2 [OF conjunct2 [OF H]]]]] by (simp_all add: S4 i2(5))
  moreover have "heap.more r = heap.more s" "CR3 r = CR3 s" "current_page_directory r = current_page_directory s" "malloc_list_head r = 0xD1000000" "blocks r 0xD1000000 = \<lparr>bsize = 12276, bfree = True, bnext = 0\<rparr>"
    using h3 by (simp_all add: r update_block_def)
  ultimately show ?thesis by blast
qed

lemma malloc_split_vm: "same_vm s (malloc_split p n s)" "heap.more (malloc_split p n s) = heap.more s"
  "malloc_list_head (malloc_split p n s) = malloc_list_head s"
  by (simp_all add: malloc_split_def update_block_def Let_def same_vm_def)

text \<open>The heap after the first allocation.\<close>

definition one_task_heap :: "'a heap_scheme \<Rightarrow> bool" where
  "one_task_heap s \<longleftrightarrow> malloc_list_head s = 0xD1000000 \<and>
     blocks s 0xD1000000 = \<lparr>bsize = 4128, bfree = False, bnext = 0xD100102C\<rparr> \<and>
     blocks s 0xD100102C = \<lparr>bsize = 8136, bfree = True, bnext = 0\<rparr>"

end
