(* ===== verification/Kernel_Start.thy ===== *)
theory Kernel_Start
  imports Hal Heap_Setup
begin

text \<open>
  The start of the kernel from end to end: \<open>HAL_Initialize\<close> of \<open>src/kernel/hal/hal.c\<close> with everything it calls, from
  the state the boot loader leaves to the first instruction in ring 3.

  The allocator is followed through the whole start: the directory and the two first tables lie in frames 1 to 3,
  the heap in frames 4 to 6, and the module's frames are reserved, so that its bytes are still there when the ELF
  loader copies them. \<open>start_ok\<close> and \<open>module_ok\<close> say what the layout, the hand-over and the image must satisfy;
  the number of frames that the start needs is eleven and two for every page of the segment.
\<close>

section \<open>Memory after INIT_MEMORY\<close>

lemma used_reserve_module:
  assumes "i < n" "page (b i) \<le> unat c" "unat c < page (b i) + unat (pages_of (k i))"
    and "unat (TOTAL_USED_BLOCKS s) + (\<Sum>j<n. unat (pages_of (k j))) < unat (TOTAL_BLOCK s)"
  shows "used (fold (\<lambda>j. reserve_memory_block (b j) (k j)) [0..<n] s) c"
  using assms(1,4)
proof (induction n)
  case (Suc n)
  let ?t = "fold (\<lambda>j. reserve_memory_block (b j) (k j)) [0..<n] s"
  have tb: "TOTAL_BLOCK ?t = TOTAL_BLOCK s" by (rule fold_invariant_upt [where P = "\<lambda>t. TOTAL_BLOCK t = TOTAL_BLOCK s"]) simp_all
  have "unat (TOTAL_USED_BLOCKS ?t) < unat (TOTAL_BLOCK ?t)"
    using reserve_fold_count [of b k n s] Suc.prems(2) unfolding tb by simp
  then have "TOTAL_USED_BLOCKS ?t < TOTAL_BLOCK ?t" by (simp add: word_less_nat_alt)
  then show ?case using Suc assms(2,3) by (auto simp: used_reserve less_Suc_eq)
qed simp

lemma kernel_memory:
  assumes high: "0xC0000000 \<le> kernel_start L" "0xC0000000 \<le> kernel_end L" "kernel_end L \<le> 0xFFF00000"
    and ram: "ram_pages bp \<le> 0xBFFE0" and u: "TOTAL_USED_BLOCKS s = 0"
    and room: "reserved_pages L bp < bitmap_words bp"
  defines "m \<equiv> INIT_MEMORY (kernel_start L) (kernel_end L) bp s"
  shows "\<And>x. unat x < 0xC0000000 \<Longrightarrow> mem m x = mem s x" "\<And>x. in_bitmap m x \<Longrightarrow> 0xC0000 \<le> page x"
    "\<And>i f. i < unat (ModuleCount bp) \<Longrightarrow> module_frame bp i f \<Longrightarrow> f < 0x100000 \<Longrightarrow> used m (of_nat f)"
proof -
  define B where "B = (kernel_end L + 0xFFF) AND NOT 0xFFF"
  have up: "unat B = (unat (kernel_end L) + 0xFFF) div 4096 * 4096"
    unfolding B_def using high(3) by (intro unat_round_up) (simp add: word_le_nat_alt)
  have B: "0xC0000000 \<le> unat B" "unat B \<le> 0xFFF00FFF"
    unfolding up using high(2,3) div_times_less_eq_dividend [of "unat (kernel_end L) + 0xFFF" 4096]
    by (auto simp: word_le_nat_alt)
  show "0xC0000 \<le> page x" if "in_bitmap m x" for x
  proof -
    have "unat (TOTAL_BLOCK m) \<le> 0x6000" unfolding m_def INIT_MEMORY_TOTAL_BLOCK bitmap_words_def using ram by simp
    moreover have "BIT_MAP m = B" by (simp add: m_def B_def init_frame)
    ultimately have "unat B \<le> unat x" using that B by (simp add: in_bitmap_def in_range_unat)
    with B show ?thesis by (simp add: page_def less_eq_div_iff_mult_less_eq)
  qed
  show "used m (of_nat f)" if i: "i < unat (ModuleCount bp)" and f: "module_frame bp i f" "f < 0x100000" for i f
  proof -
    have "TOTAL_BLOCK (kernel_reserved L bp s) = TOTAL_BLOCK m"
      unfolding m_def init_frame by (simp add: kernel_reserved_def get_memory_info_def Let_def)
    then have "unat (TOTAL_USED_BLOCKS (kernel_reserved L bp s)) + module_pages bp < unat (TOTAL_BLOCK (kernel_reserved L bp s))"
      using kernel_reserved_count [OF u, of L bp] room by (simp add: m_def INIT_MEMORY_TOTAL_BLOCK)
    moreover have "unat (of_nat f :: u32) = f" using f(2) by (intro unat_of_nat32) simp
    ultimately show ?thesis
      using f(1) unfolding m_def INIT_MEMORY_modules module_pages_def module_frame_def
      by (intro used_reserve_module [OF i]) simp_all
  qed
  show "mem m x = mem s x" if x: "unat x < 0xC0000000" for x
  proof -
    have out: "\<not> in_range B 0x40000 x" using x B by (simp add: in_range_unat)
    have R: "mem (reserve_memory_block b n t) x = mem t x" if "BIT_MAP t = B" for b n and t :: "'a pmm_scheme"
      using unat_pages_of [of n] page_lt [of b] out that by (intro reserve_mem_outside [where k = "0x10000"]) simp_all
    define t where "t = setup_memory_bitmap (get_memory_info (Memory bp) (set_kernel_addr (kernel_start L) (kernel_end L) s))"
    have t: "BIT_MAP t = B" by (simp add: t_def B_def get_memory_info_def set_kernel_addr_def Let_def)
    have "mem t x = mem s x"
    proof -
      let ?g = "get_memory_info (Memory bp) (set_kernel_addr (kernel_start L) (kernel_end L) s)"
      have "unat (BITMAP_SIZEB ?g) = (ram_pages bp + 7) div 8"
        using get_memory_info_sizes(3) [of "Memory bp" "set_kernel_addr (kernel_start L) (kernel_end L) s"]
        by (simp add: get_memory_info_sizes unat_sizes TOTAL_PAGES_ram_pages)
      then have "unat (BITMAP_SIZEB ?g) \<le> 0x40000" using ram by simp
      then have "\<not> in_range B (unat (BITMAP_SIZEB ?g)) x" using out by (auto simp: in_range_def)
      then show ?thesis
        by (simp add: t_def setup_memory_bitmap_def memset_apply B_def Let_def get_memory_info_def set_kernel_addr_def)
    qed
    moreover have "BIT_MAP (kernel_reserved L bp s) = B \<and> mem (kernel_reserved L bp s) x = mem t x"
      using t by (simp add: kernel_reserved_def reserve_memory_def Let_def R flip: t_def)
    then have "BIT_MAP m = B \<and> mem m x = mem t x"
      unfolding m_def INIT_MEMORY_modules by (intro fold_invariant_upt [where P = "\<lambda>u. BIT_MAP u = B \<and> mem u x = mem t x"]) (simp_all add: R)
    ultimately show ?thesis by simp
  qed
qed

section \<open>What the set-up of memory leaves alone\<close>

lemma more_INIT_MEMORY: "pmm.more (INIT_MEMORY ks ke bp s) = pmm.more s"
proof -
  have R: "pmm.more (reserve_memory_block b n t) = pmm.more t" for b n and t :: "'a pmm_scheme"
    by (rule reserve_fold_keeps [where P = "\<lambda>u. pmm.more u = pmm.more t"]) (simp_all add: used_inc_def set_bit_def Let_def)
  show ?thesis
    unfolding INIT_MEMORY_def Let_def
    by (rule fold_invariant_upt [where P = "\<lambda>u. pmm.more u = pmm.more s"])
      (simp_all add: R reserve_memory_def setup_memory_bitmap_def get_memory_info_def set_kernel_addr_def Let_def)
qed

lemma vmm_more_update32 [simp]: "vmm.more (update32 a f s) = vmm.more s"
  by (simp add: update32_def)

lemma more_allocate: "allocate_block n s = (t, s1) \<Longrightarrow> vmm.more s1 = vmm.more s"
  using pmm_only_alloc [of n s t s1] by (auto simp: pmm_only_def)

lemma more_tables: "vmm.more (link_table t v (fill_table t fr v s)) = vmm.more s"
  by (simp add: link_table_def fill_table_def fold_keeps [where g = vmm.more])

lemma more_INITIALIZE_VMEMORY: "vmm.more (snd (INITIALIZE_VMEMORY s)) = vmm.more s"
proof -
  have "vmm.more (snd (setup_page_directory_table s)) = vmm.more s" for s :: "'a vmm_scheme"
    by (auto simp: setup_page_directory_table_def Let_def fold_keeps [where g = vmm.more] more_allocate split: prod.splits)
  moreover have "vmm.more (snd (setup_higher_half_kernel s)) = vmm.more s" "vmm.more (snd (setup_page_table s)) = vmm.more s"
    for s :: "'a vmm_scheme"
    by (auto simp: setup_higher_half_kernel_def setup_page_table_def Let_def more_tables more_allocate split: prod.splits)
  ultimately show ?thesis
    by (simp add: INITIALIZE_VMEMORY_def set_page_directory_def enable_paging_def Let_def)
qed

section \<open>The machine before the first task, in detail\<close>

lemma first_runI:
  assumes "k < nbits s" "run_free s n k" "\<And>j. j < k \<Longrightarrow> \<not> run_free s n j"
  shows "first_run n s = Some k"
  unfolding first_run_def find_Some_iff using assms by (intro exI [of _ k]) simp

lemma run_free_frames:
  assumes "f + n \<le> nbits s"
  shows "run_free s n f \<longleftrightarrow> {f..<f + n} \<subseteq> free_frames s"
  using assms by (auto simp: run_free_nat free_frames_def taken_def)

text \<open>The assumptions on the layout and the hand-over.\<close>

definition start_ok :: "layout \<Rightarrow> BootParams \<Rightarrow> nat \<Rightarrow> bool" where
  "start_ok L bp k \<longleftrightarrow> 0xC0000000 \<le> kernel_start L \<and> 0xC0000000 \<le> kernel_end L \<and> kernel_end L \<le> 0xFFF00000 \<and>
     0xC0000000 \<le> bss_start L \<and> bss_start L \<le> kernel_end L \<and> ram_pages bp \<le> 0xBFFE0 \<and>
     reserved_pages L bp + k \<le> bitmap_words bp \<and> (\<forall>i<unat (ModuleCount bp). 8 \<le> page (image_data (Modules bp i)))"

lemma memory_ready:
  fixes s :: "'a pmm_scheme"
  assumes ok: "start_ok L bp (Suc k)" and u: "TOTAL_USED_BLOCKS s = 0"
  defines "m \<equiv> INIT_MEMORY (kernel_start L) (kernel_end L) bp s"
  shows "pmm_inv m" "unat (TOTAL_USED_BLOCKS m) + Suc k \<le> unat (TOTAL_BLOCK m)" "Suc k \<le> card (free_frames m)"
    "{1..6} \<subseteq> free_frames m" "0 \<notin> free_frames m" "8 \<le> nbits m"
    "\<And>x. unat x < 0xC0000000 \<Longrightarrow> mem m x = mem s x" "\<And>x. in_bitmap m x \<Longrightarrow> 0xC0000 \<le> page x"
    "\<And>i f. i < unat (ModuleCount bp) \<Longrightarrow> module_frame bp i f \<Longrightarrow> f < ram_pages bp \<Longrightarrow> taken m f"
proof -
  have O: "0xC0000000 \<le> kernel_start L" "0xC0000000 \<le> kernel_end L" "kernel_end L \<le> 0xFFF00000" "ram_pages bp \<le> 0xBFFE0"
    "reserved_pages L bp + Suc k \<le> bitmap_words bp" "\<And>i. i < unat (ModuleCount bp) \<Longrightarrow> 8 \<le> page (image_data (Modules bp i))"
    using ok by (simp_all add: start_ok_def)
  have less: "reserved_pages L bp < bitmap_words bp" using O(5) by simp
  note K = kernel_memory [OF O(1-4) u less, folded m_def]
  show "mem m x = mem s x" if "unat x < 0xC0000000" for x using K(1) that .
  show "0xC0000 \<le> page x" if "in_bitmap m x" for x using K(2) that .
  have words: "module_pages bp + Suc k + 2 \<le> (ram_pages bp + 31) div 32"
    using O(5) by (simp add: reserved_pages_def bitmap_words_def)
  have nb: "ram_pages bp \<le> nbits m" by (simp add: nbits_def m_def INIT_MEMORY_TOTAL_BLOCK bitmap_words_def)
  have ram8: "8 \<le> ram_pages bp" using words by linarith
  then show "8 \<le> nbits m" using nb by simp
  have pos: "0 < ram_pages bp" using ram8 by simp
  show inv: "pmm_inv m" unfolding m_def by (rule INIT_MEMORY_inv [OF O(2,3) u pos O(4)])
  then show "0 \<notin> free_frames m" by (auto simp: free_frames_def taken_def pmm_inv_def)
  show "unat (TOTAL_USED_BLOCKS m) + Suc k \<le> unat (TOTAL_BLOCK m)"
    using INIT_MEMORY_count [OF u, of L bp] O(5) by (simp add: m_def INIT_MEMORY_TOTAL_BLOCK)
  have ke: "kernel_end L \<le> 0xFFFFF000" using O(3) by (rule order_trans) simp
  have "Suc k \<le> ram_pages bp - 8 - module_pages bp" using words by linarith
  also have "\<dots> \<le> card (free_frames m)" unfolding m_def by (rule INIT_MEMORY_free [OF O(1,2) ke O(4)])
  finally show "Suc k \<le> card (free_frames m)" .
  show "{1..6} \<subseteq> free_frames m"
  proof
    fix f :: nat assume f: "f \<in> {1..6}"
    have "\<not> used m (of_nat f)"
      unfolding m_def
    proof (rule high_kernel_left_free [OF O(1,2) ke])
      show "\<forall>i\<in>{0..<unat (ModuleCount bp)}. \<not> module_frame bp i f" using f O(6) by (fastforce simp: module_frame_def)
    qed (use f ram8 in auto)
    then show "f \<in> free_frames m" using f nb ram8 by (simp add: free_frames_def taken_def)
  qed
  show "taken m f" if "i < unat (ModuleCount bp)" "module_frame bp i f" "f < ram_pages bp" for i f
    using K(3) [OF that(1,2)] that(3) O(4) nb by (simp add: taken_def)
qed

text \<open>The directory and the two tables lie in frames 1 to 3.\<close>

lemma address_space_ready:
  fixes s :: "'a vmm_scheme"
  assumes ok: "start_ok L bp (3 + k)" and u: "TOTAL_USED_BLOCKS s = 0"
  defines "r \<equiv> snd (INITIALIZE_VMEMORY (INIT_MEMORY (kernel_start L) (kernel_end L) bp s))"
  shows "vm_inv r" "user_pde r" "CR3 r = current_page_directory r" "budget r k"
    "\<And>va. pte r va = (if pdi va = 0 then table_cell 0 (pti va) else if pdi va = 768 then table_cell KERNEL_ADDRESS (pti va) else 0)"
    "first_run 3 r = Some 4" "4 + 3 \<le> nbits r"
    "\<And>x. unat x < 0xC0000000 \<Longrightarrow> 4 \<le> page x \<Longrightarrow> mem r x = mem s x"
    "\<And>i x. i < unat (ModuleCount bp) \<Longrightarrow> module_frame bp i (page x) \<Longrightarrow> page x < ram_pages bp \<Longrightarrow> client_byte r x"
proof -
  define m where "m = INIT_MEMORY (kernel_start L) (kernel_end L) bp s"
  have ok': "start_ok L bp (Suc (2 + k))" using ok by (simp add: numeral_eq_Suc)
  note M = memory_ready [OF ok' u, folded m_def]
  have "unat (TOTAL_USED_BLOCKS m) + 3 \<le> unat (TOTAL_BLOCK m)" "3 \<le> card (free_frames m)" using M(2,3) by simp_all
  then obtain d t u q where T: "tables_at d t u m q"
    and r: "INITIALIZE_VMEMORY m = (True, q\<lparr>CR3 := current_page_directory q, CR0 := CR0 m OR 0x80000001\<rparr>)"
    using vmemory_tables [OF M(1)] by metis
  note W = tables_at_walk [OF T]
  have "vm_inv q" using T by (simp add: tables_at_def)
  note P = paging_on_inv [OF this W(3)]
  have r: "r = q\<lparr>CR3 := current_page_directory q, CR0 := CR0 m OR 0x80000001\<rparr>" by (simp add: r_def r flip: m_def)
  show i: "vm_inv r" "user_pde r" unfolding r by (rule P)+
  show "CR3 r = current_page_directory r" by (simp add: r)
  have in_free: "1 \<in> free_frames m" "2 \<in> free_frames m" "3 \<in> free_frames m" using M(4) by auto
  have least: "d \<in> free_frames m" "t \<in> free_frames m - {d}" "u \<in> free_frames m - {d, t}"
    "\<forall>g\<in>free_frames m. d \<le> g" "\<forall>g\<in>free_frames m - {d}. t \<le> g" "\<forall>g\<in>free_frames m - {d, t}. u \<le> g"
    using T by (auto simp: tables_at_def)
  have pos: "0 < g" if "g \<in> free_frames m" for g using that M(5) by (cases g) auto
  have "d \<le> 1" using least(4) in_free(1) by blast
  then have d: "d = 1" using pos [OF least(1)] by simp
  have "t \<le> 2" "t \<noteq> 1" "0 < t" using least(2,5) in_free(2) pos d by auto
  then have t: "t = 2" by simp
  have "u \<le> 3" "u \<noteq> 1" "u \<noteq> 2" "0 < u" using least(3,6) in_free(3) pos d t by auto
  then have u3: "u = 3" by simp
  have same: "mem r = mem q" "BIT_MAP r = BIT_MAP q" "TOTAL_BLOCK r = TOTAL_BLOCK q"
    "current_page_directory r = current_page_directory q" "TOTAL_USED_BLOCKS r = TOTAL_USED_BLOCKS q" by (simp_all add: r)
  note S = same_bitmap [OF same(1-3)] same_free_frames [OF same(1-3)] same_tables [OF same(1-4)] same_client [OF same(1-4)]
  have Q: "free_frames q = free_frames m - {1, 2, 3}" "TOTAL_USED_BLOCKS q = TOTAL_USED_BLOCKS m + 3" "TOTAL_BLOCK q = TOTAL_BLOCK m"
    "in_bitmap q = in_bitmap m" "dirf q = 1" "page (pde q 768) = 2" "page (pde q 0) = 3"
    "\<And>j. j < 1024 \<Longrightarrow> j \<noteq> 0 \<Longrightarrow> j \<noteq> 768 \<Longrightarrow> pde q j = 0"
    "\<And>x. page x \<notin> {1, 2, 3} \<Longrightarrow> \<not> in_bitmap m x \<Longrightarrow> mem q x = mem m x"
    using T unfolding tables_at_def d t u3 by simp_all
  show "pte r va = (if pdi va = 0 then table_cell 0 (pti va) else if pdi va = 768 then table_cell KERNEL_ADDRESS (pti va) else 0)" for va
    using T by (simp add: tables_at_def S)
  have nb: "nbits q = nbits m" by (simp add: nbits_def Q)
  then show "4 + 3 \<le> nbits r" using M(6) by (simp add: S)
  show "budget r k"
    using M(2,3) in_free unat_u32_lt [of "TOTAL_BLOCK m"] by (simp add: S same budget_def Q card_Diff_subset unat_word_ariths)
  show "first_run 3 r = Some 4"
  proof (rule first_runI)
    show "4 < nbits r" using M(6) by (simp add: S nb)
    have "{4..<4 + 3} \<subseteq> free_frames q" using M(4) by (auto simp: Q)
    then show "run_free r 3 4" using M(6) by (simp add: run_free_frames S nb)
    show "\<not> run_free r 3 j" if "j < 4" for j
    proof -
      have "j \<in> {0, 1, 2, 3}" using that by auto
      then have "j \<notin> free_frames q" using M(5) by (auto simp: Q)
      then have "\<not> {j..<j + 3} \<subseteq> free_frames q" using subsetD [of "{j..<j + 3}" "free_frames q" j] by auto
      then show ?thesis using M(6) that by (simp add: run_free_frames S nb)
    qed
  qed
  show "mem r x = mem s x" if x: "unat x < 0xC0000000" "4 \<le> page x" for x
  proof -
    have "\<not> in_bitmap m x" using M(8) [of x] x(1) by (auto simp: page_def)
    moreover have "page x \<notin> {1, 2, 3}" using x(2) by auto
    ultimately have "mem q x = mem m x" by (rule Q(9) [rotated])
    then show ?thesis using M(7) [OF x(1)] by (simp add: same)
  qed
  show "client_byte r x" if x: "i < unat (ModuleCount bp)" "module_frame bp i (page x)" "page x < ram_pages bp" for i x
  proof -
    have "taken m (page x)" using M(9) x by simp
    then have "taken q (page x)" using Q(1) nb by (auto simp: free_frames_def taken_def)
    moreover have "8 \<le> page x" using x(1,2) ok by (auto simp: module_frame_def start_ok_def intro: le_trans)
    moreover have "pt_frame q f \<Longrightarrow> f \<in> {1, 2, 3}" for f
      using Q(5-8) by (auto simp: pt_frame_def)
    moreover have "\<not> in_bitmap q x" using M(8) [of x] x(3) ok by (auto simp: Q start_ok_def)
    ultimately show ?thesis by (fastforce simp: S client_byte_def)
  qed
qed

lemma HAL_devices_start:
  fixes s :: "'a machine_scheme" and dev h
  assumes ok: "start_ok L bp (3 + k)"
  defines "s' \<equiv> HAL_devices dev L h bp s"
  shows "vm_inv s'" "user_pde s'" "CR3 s' = current_page_directory s'" "budget s' k"
    "\<And>va. \<not> bit (pte s' va) 2" "\<And>va. pdi va \<noteq> 0 \<Longrightarrow> pdi va \<noteq> 768 \<Longrightarrow> pte s' va = 0"
    "first_run 3 s' = Some 4" "4 + 3 \<le> nbits s'"
    "\<And>x. unat x < 0xC0000000 \<Longrightarrow> 4 \<le> page x \<Longrightarrow> \<not> in_text x \<Longrightarrow> mem s' x = mem s x"
    "\<And>i x. i < unat (ModuleCount bp) \<Longrightarrow> module_frame bp i (page x) \<Longrightarrow> page x < ram_pages bp \<Longrightarrow> client_byte s' x"
    "malloc_list_head s' = 0" "malloc_virt_address s' = malloc_virt_address s" "r_esp s' = r_esp s"
proof -
  define s4 where "s4 = before_memory L s"
  note B = before_memory_fields [of L s, folded s4_def]
  define m where "m = INIT_MEMORY (kernel_start L) (kernel_end L) bp s4"
  define r where "r = snd (INITIALIZE_VMEMORY m)"
  note A = address_space_ready [OF ok B(1), folded m_def, folded r_def]
  have "s' = init_idt_32 dev h (remap_pic dev r)"
    by (simp add: s'_def HAL_devices_memory Initialize_memories_def r_def m_def s4_def)
  then have "gates_only r s'" using gates_only_trans [OF gates_only_ops(5) gates_only_init] by simp
  then obtain i p g q where s': "s' = r\<lparr>IF_flag := i, port_log := p, idt32 := g, IDTR := q\<rparr>"
    unfolding gates_only_def by blast
  have "same_vm r s'" by (simp add: s' same_vm_def)
  note S = same_vm_facts [OF this]
  show "vm_inv s'" "user_pde s'" "CR3 s' = current_page_directory s'" "budget s' k" "first_run 3 s' = Some 4" "4 + 3 \<le> nbits s'"
    unfolding S by (rule A)+
  show "client_byte s' x" if "i < unat (ModuleCount bp)" "module_frame bp i (page x)" "page x < ram_pages bp" for i x
    unfolding S by (rule A(9) [OF that])
  have K: "PAGE_PHYS_ADDRESS KERNEL_ADDRESS = KERNEL_ADDRESS" "PAGE_PHYS_ADDRESS 0 = 0"
    by (simp_all add: PAGE_PHYS_ADDRESS_def KERNEL_ADDRESS_def)
  show "\<not> bit (pte s' va) 2" for va
    using table_cell_translates [OF K(2) low_half(1) refl, of va] table_cell_translates [OF K(1) high_half(1,3), of va]
    by (simp add: S A(5))
  show "pte s' va = 0" if "pdi va \<noteq> 0" "pdi va \<noteq> 768" for va using that by (simp add: S A(5))
  show "mem s' x = mem s x" if "unat x < 0xC0000000" "4 \<le> page x" "\<not> in_text x" for x
    using that A(8) [OF that(1,2)] before_memory_mem [of L x s] ok by (simp add: S start_ok_def s4_def)
  have "vmm.more r = vmm.more m" "pmm.more m = pmm.more s4" by (simp_all add: r_def m_def more_INITIALIZE_VMEMORY more_INIT_MEMORY)
  then have "vmm.more r = vmm.more s4" by (cases m; cases s4; cases r; simp)
  then show "malloc_list_head s' = 0" "malloc_virt_address s' = malloc_virt_address s" "r_esp s' = r_esp s"
    using B(2-4) by (cases r; cases s4; simp add: s')+
qed

section \<open>The idle task\<close>

lemma idle_task_made:
  fixes s :: "'a kernel_scheme"
  assumes "vm_inv s" "user_pde s" "budget s (6 + k)" "malloc_virt_address s = KERNEL_HEAP_START"
    "first_run 3 s = Some f" "f + 3 \<le> nbits s" "malloc_list_head s = 0"
  shows "\<exists>s1. init_task code s = Some s1 \<and> task s1 = 0xD100000C \<and> vm_inv s1 \<and> user_pde s1 \<and> budget s1 k \<and> keeps s s1 \<and>
    one_task_heap s1 \<and> r_esp s1 = r_esp s \<and> (\<forall>vb. page vb \<notin> {0xD1000..<0xD1003} \<longrightarrow> pte s1 vb = pte s vb) \<and>
    (\<forall>vb. bit (pte s1 vb) 2 \<longleftrightarrow> bit (pte s vb) 2) \<and> CR3 s1 = CR3 s \<and> current_page_directory s1 = current_page_directory s"
proof -
  define r where "r = malloc_init 4128 s"
  have R: "vm_inv r" "user_pde r" "budget r k" "keeps s r" "heap.more r = heap.more s" "malloc_list_head r = 0xD1000000"
    "blocks r 0xD1000000 = \<lparr>bsize = 12276, bfree = True, bnext = 0\<rparr>"
    "\<forall>vb. page vb \<notin> {0xD1000..<0xD1003} \<longrightarrow> pte r vb = pte s vb" "\<forall>vb. bit (pte r vb) 2 \<longleftrightarrow> bit (pte s vb) 2" "CR3 r = CR3 s" "current_page_directory r = current_page_directory s"
    using malloc_init_task [OF assms(1-6)] unfolding r_def by blast+
  define t where "t = malloc_split 0xD1000000 4128 r"
  have "malloc 4128 s = malloc 4128 r" using assms(7) R(6) by (simp add: malloc_def r_def)
  then have m: "malloc 4128 s = Some (0xD100000C, t)" using malloc_one_block_split [OF R(6,7)] by (simp add: t_def)
  obtain K where st: "setup_stack code 0xD100000C (idle_task_addr code) t = (0xD100100C, t\<lparr>kstack := K\<rparr>)"
    by (rule demo_stack)
  have sz: "TASK_SIZE + STACK_SIZE = 4128" by (simp add: TASK_SIZE_def STACK_SIZE_def)
  obtain s1 where s1: "init_task code s = Some s1" "same_vm t s1" "task s1 = 0xD100000C" "one_task_heap s1" "r_esp s1 = r_esp t"
    by (simp add: init_task_def sz m st same_vm_def)
      (simp add: one_task_heap_def t_def malloc_split_def update_block_def HDR_def R(6,7) Let_def)
  note T = same_vm_facts [OF malloc_split_vm(1) [of r "0xD1000000" 4128], folded t_def] and S = same_vm_facts [OF s1(2)]
  have "r_esp t = r_esp s" using R(5) malloc_split_vm(2) [of "0xD1000000" 4128 r] by (cases t; cases s; simp add: t_def [symmetric])
  moreover have "keeps s s1" using R(4) by (simp add: keeps_def S T)
  ultimately show ?thesis using s1(1,3,4,5) R(1-3,8-11) by (intro exI [of _ s1]) (simp add: S T)
qed

section \<open>The task of the user program\<close>

lemma loader_only_fields:
  assumes "loader_only s s'"
  shows "CR3 s' = CR3 s" "current_page_directory s' = current_page_directory s"
  using assms by (auto simp: loader_only_def)

lemma loader_only_heap:
  fixes s :: "'a kernel_scheme"
  assumes "loader_only s s'" "one_task_heap s"
  shows "one_task_heap s'" "r_esp s' = r_esp s" "tasks s' = tasks s" "task s' = task s"
  using assms by (auto simp: loader_only_def one_task_heap_def)

text \<open>The stack page and the rest of \<open>create_user_task_from_elf\<close>, behind the loader.\<close>

lemma user_stack_mapped:
  assumes inv: "vm_inv s" "user_pde s" and b: "budget s 2" and fresh: "\<And>va. page va = 0x600 \<Longrightarrow> \<not> bit (pte s va) 31"
  shows "\<exists>ph s2 s3. allocate_block 1 s = (ph, s2) \<and> s3 = snd (map_page_user ph USER_STACK_VIRT s2) \<and> loader_only s s3 \<and>
    vm_inv s3 \<and> user_pde s3 \<and> keeps s s3 \<and> (\<forall>va. page va \<noteq> 0x600 \<longrightarrow> pte s3 va = pte s va) \<and>
    (\<forall>va. page va = 0x600 \<longrightarrow> bit (pte s3 va) 0 \<and> bit (pte s3 va) 2)"
proof -
  obtain ph s2 where al: "allocate_block 1 s = (ph, s2)" by fastforce
  have b2: "budget s (Suc (Suc 0))" using b by (simp add: numeral_2_eq_2)
  note A = budget_alloc [OF vm_invD(1) [OF inv(1)] b2 al]
  note K = alloc_keeps [OF inv(1) al A(1)]
  have u2: "user_pde s2" using inv(2) by (simp add: user_pde_def K(4,5))
  have pg: "page USER_STACK_VIRT = 0x600" by (simp add: USER_STACK_VIRT_def page_def)
  have "PAGE_PHYS_ADDRESS ph = ph" by (rule alloc_phys [OF vm_invD(1) [OF inv(1)] al A(1)])
  moreover have "\<not> bit (pte s2 USER_STACK_VIRT) 31" using fresh [OF pg] by (simp add: K(4))
  ultimately have M: "vm_inv (snd (map_page_user ph USER_STACK_VIRT s2))" "user_pde (snd (map_page_user ph USER_STACK_VIRT s2))"
    "keeps s2 (snd (map_page_user ph USER_STACK_VIRT s2))"
    "\<And>vb. page vb \<noteq> 0x600 \<Longrightarrow> pte (snd (map_page_user ph USER_STACK_VIRT s2)) vb = pte s2 vb"
    "\<And>vb. page vb = 0x600 \<Longrightarrow> bit (pte (snd (map_page_user ph USER_STACK_VIRT s2)) vb) 0 \<and> bit (pte (snd (map_page_user ph USER_STACK_VIRT s2)) vb) 2"
    using mapped_for_user [OF K(1) u2 A(2) _ _ refl, of ph USER_STACK_VIRT] by (simp_all add: pg)
  have "loader_only s (snd (map_page_user ph USER_STACK_VIRT s2))"
    by (rule loader_only_trans [OF loader_only_pmm [OF pmm_only_alloc [OF al]] loader_only_map])
  then show ?thesis using al M K(4) keeps_trans [OF K(7) M(3)] by (intro exI [of _ ph] exI [of _ s2] exI) auto
qed

lemma user_task_made:
  fixes s :: "'a kernel_scheme"
  assumes inv: "vm_inv s" "user_pde s" and b: "budget s (2 * seg_pages phdr + 2)" and h: "one_task_heap s"
    and tl: "tlist (tasks s) (task s) [0xD100000C]"
    and elf: "elf_ok (mem s) data" "e_phnum (read_ehdr (mem s) data) = 1"
      "phdr = read_phdr (mem s) (phdr_addr (mem s) data 0)" "p_type phdr = 1" "page (p_vaddr phdr) + seg_pages phdr < 0x100000"
    and low: "\<forall>va. page va \<in> insert 0x600 (seg_range phdr) \<longrightarrow> \<not> bit (pte s va) 31" "0x600 \<notin> seg_range phdr"
    and bytes: "\<forall>q<52. client_byte s (data + of_nat q)" "\<forall>q<unat (p_filesz phdr). client_byte s (data + p_offset phdr + of_nat q)"
  shows "\<exists>s0 s2. elf_load data s = (Inr (e_entry (read_ehdr (mem s) data)), s0) \<and>
    create_user_task_from_elf code data s = Some (0xD1001038, s2) \<and> vm_inv s2 \<and> user_pde s2 \<and> CR3 s2 = CR3 s \<and> current_page_directory s2 = current_page_directory s \<and>
    r_esp s2 = r_esp s \<and> segment_loaded (mem s) data phdr s2 \<and>
    (\<forall>va. page va = 0x600 \<longrightarrow> user_ok (mem s2) (current_page_directory s2) va) \<and>
    (\<forall>va. bit (pte s2 va) 2 \<longrightarrow> page va \<in> insert 0x600 (seg_range phdr) \<or> bit (pte s va) 2)"
proof -
  obtain s0 where s0: "elf_load data s = (Inr (e_entry (read_ehdr (mem s) data)), s0)" "vm_inv s0" "user_pde s0" "budget s0 2"
    "segment_loaded (mem s) data phdr s0" "\<And>va. page va \<notin> seg_range phdr \<Longrightarrow> pte s0 va = pte s va"
    using single_segment_loaded [OF inv elf(1-4) b elf(5) _ bytes] low(1) by auto
  have "\<not> bit (pte s0 va) 31" if "page va = 0x600" for va using s0(6) low that by simp
  from user_stack_mapped [OF s0(2-4) this] obtain ph s2 s3
    where al: "allocate_block 1 s0 = (ph, s2)" and s3: "s3 = snd (map_page_user ph USER_STACK_VIRT s2)" "loader_only s0 s3" "vm_inv s3"
      "user_pde s3" "keeps s0 s3" "\<And>va. page va \<noteq> 0x600 \<Longrightarrow> pte s3 va = pte s0 va"
      "\<And>va. page va = 0x600 \<Longrightarrow> bit (pte s3 va) 0 \<and> bit (pte s3 va) 2" by blast
  have lo: "loader_only s s3" by (rule loader_only_trans [OF loader_only_elf [OF s0(1)] s3(2)])
  note F = loader_only_heap [OF lo h]
  define s4 where "s4 = malloc_split 0xD100102C 4128 s3"
  have m: "malloc 4128 s3 = Some (0xD1001038, s4)"
    unfolding s4_def using F(1) by (intro malloc_second_block) (simp_all add: one_task_heap_def)
  obtain sp K where st: "setup_stack code 0xD1001038 (usermode_trampoline_addr code) s4 = (sp, s4\<lparr>kstack := K\<rparr>)"
    using setup_stack_fresh by (metis surj_pair)
  have sz: "TASK_SIZE + STACK_SIZE = 4128" by (simp add: TASK_SIZE_def STACK_SIZE_def)
  have M4: "heap.more s4 = heap.more s3" by (simp add: s4_def malloc_split_vm)
  note M = more_fields [OF M4]
  have "tlist (tasks s4) (task s4) [0xD100000C]" using tl by (simp add: M F)
  note A = append_task_effect(1) [OF this, where t = "0xD1001038" and K = K, OF _ _ _ _ refl]
  obtain s5 where c: "create_user_task_from_elf code data s = Some (0xD1001038, s5)" and v5: "same_vm s4 s5" "r_esp s5 = r_esp s4"
    by (simp add: create_user_task_from_elf_def s0(1) al s3(1) [symmetric] sz m st Let_def A same_vm_def) (simp add: update_task_def)
  note S4 = same_vm_facts [OF malloc_split_vm(1) [of s3 "0xD100102C" 4128], folded s4_def] and S5 = same_vm_facts [OF v5(1)]
  have "r_esp s4 = r_esp s3" using M4 by (cases s4; cases s3; simp)
  then have "r_esp s5 = r_esp s" using v5(2) F(2) by simp
  moreover have "CR3 s5 = CR3 s" "current_page_directory s5 = current_page_directory s"
    using loader_only_fields [OF lo] by (simp_all add: S4 S5)
  moreover have "segment_loaded (mem s) data phdr s3"
    using s0(5) low(2) holds_kept [OF s0(2,3) s3(3-5)] s3(6) unfolding segment_loaded_def by metis
  then have "segment_loaded (mem s) data phdr s5" by (simp add: segment_loaded_def S4 S5)
  moreover have "user_ok (mem s5) (current_page_directory s5) va" if "page va = 0x600" for va
    using s3(7) [OF that] s3(4) by (simp add: S4 S5 user_ok_pte [OF s3(3)] user_pde_def)
  moreover have "page va \<in> insert 0x600 (seg_range phdr) \<or> bit (pte s va) 2" if "bit (pte s5 va) 2" for va
    using that s3(6) [of va] s0(6) [of va]
    by (cases "page va \<in> insert 0x600 (seg_range phdr)") (simp_all add: S4 S5)
  moreover have "vm_inv s5" "user_pde s5" using s3(3,4) by (simp_all add: S4 S5)
  ultimately show ?thesis using s0(1) c by (intro exI [of _ s0] exI [of _ s5]) blast
qed

lemma trampolines_vm: "same_vm s (task_entry_trampoline s)" "same_vm s (usermode_trampoline s)"
  by (simp_all add: same_vm_def task_entry_trampoline_def ret_def drop_top_def usermode_trampoline_def enter_usermode_def
      push_def popfd_def Let_def)

section \<open>The whole start\<close>

text \<open>The first module is a page-aligned ELF image in RAM, off the text page, with one loadable segment
  in the pages from 4 MiB to 6 MiB.\<close>

definition module_ok :: "BootParams \<Rightarrow> ram \<Rightarrow> Elf32_Phdr \<Rightarrow> bool" where
  "module_ok bp m phdr \<longleftrightarrow> (let d = image_data (Modules bp 0); n = unat (image_size (Modules bp 0)); k = (n + 4095) div 4096
     in 0 < ModuleCount bp \<and> PAGE_PHYS_ADDRESS d = d \<and> page d + k \<le> ram_pages bp \<and> 0xB8 \<notin> {page d..<page d + k} \<and>
        elf_ok m d \<and> e_phnum (read_ehdr m d) = 1 \<and> phdr = read_phdr m (phdr_addr m d 0) \<and> p_type phdr = 1 \<and>
        52 \<le> n \<and> unat (e_phoff (read_ehdr m d)) + 32 \<le> n \<and> unat (p_offset phdr) + unat (p_filesz phdr) \<le> n \<and>
        0x400 \<le> page (p_vaddr phdr) \<and> page (p_vaddr phdr) + seg_pages phdr \<le> 0x600)"

text \<open>The image is read the same in memories that agree on it.\<close>

lemma load_same:
  assumes m: "\<forall>q<n. m' (d + of_nat q) = m (d + of_nat q)" and j: "j + 4 \<le> n"
  shows "load32 m' (d + of_nat j) = load32 m (d + of_nat j)" "load16 m' (d + of_nat j) = load16 m (d + of_nat j)"
proof -
  have "m' (d + of_nat j + i) = m (d + of_nat j + i)" if "i \<in> {0, 1, 2, 3}" for i
  proof -
    have eq: "d + of_nat j + i = d + of_nat (j + unat i)" by (simp add: add.assoc)
    show ?thesis unfolding eq by (rule m [rule_format]) (use that j in auto)
  qed
  from this [of 0] this [of 1] this [of 2] this [of 3]
  show "load32 m' (d + of_nat j) = load32 m (d + of_nat j)" "load16 m' (d + of_nat j) = load16 m (d + of_nat j)"
    by (simp_all add: load32_def load16_def)
qed

lemma ehdr_same:
  assumes m: "\<forall>q<n. m' (d + of_nat q) = m (d + of_nat q)" and n: "52 \<le> n"
  shows "elf_ok m' d = elf_ok m d" "e_entry (read_ehdr m' d) = e_entry (read_ehdr m d)"
    "e_phnum (read_ehdr m' d) = e_phnum (read_ehdr m d)" "phdr_addr m' d 0 = phdr_addr m d 0"
proof -
  note L = load_same [OF m]
  have b: "m' (d + of_nat q) = m (d + of_nat q)" if "q < 5" for q using that n m by simp
  show "elf_ok m' d = elf_ok m d"
    using b [of 0] b [of 1] b [of 2] b [of 3] b [of 4] L(2) [of 16] n by (simp add: elf_ok_def read_ehdr_def)
  show "e_entry (read_ehdr m' d) = e_entry (read_ehdr m d)" "e_phnum (read_ehdr m' d) = e_phnum (read_ehdr m d)"
    "phdr_addr m' d 0 = phdr_addr m d 0"
    using L(1) [of 24] L(1) [of 28] L(2) [of 44] n by (simp_all add: read_ehdr_def phdr_addr_def)
qed

lemma phdr_same:
  assumes m: "\<forall>q<n. m' (d + of_nat q) = m (d + of_nat q)" and j: "j + 32 \<le> n"
  shows "read_phdr m' (d + of_nat j) = read_phdr m (d + of_nat j)"
proof -
  note L = load_same(1) [OF m]
  have "load32 m' (d + of_nat j + of_nat i) = load32 m (d + of_nat j + of_nat i)" if "i \<le> 20" for i
    using L [of "j + i"] that j by (simp add: add.assoc)
  from this [of 0] this [of 4] this [of 8] this [of 16] this [of 20] show ?thesis by (simp add: read_phdr_def)
qed

lemma image_byte_same:
  assumes "\<forall>q<n. m' (d + of_nat q) = m (d + of_nat q)" "unat off + unat filesz \<le> n"
  shows "image_byte m' (d + off) va filesz vb = image_byte m (d + off) va filesz vb"
  using assms(1) [rule_format, of "unat off + q" for q] assms(2) by (simp add: image_byte_def Let_def add.assoc)

lemma module_same:
  assumes ok: "module_ok bp m phdr"
    and same: "\<And>q. q < unat (image_size (Modules bp 0)) \<Longrightarrow> m' (image_data (Modules bp 0) + of_nat q) = m (image_data (Modules bp 0) + of_nat q)"
  shows "module_ok bp m' phdr"
    "e_entry (read_ehdr m' (image_data (Modules bp 0))) = e_entry (read_ehdr m (image_data (Modules bp 0)))"
    "segment_loaded m' (image_data (Modules bp 0)) phdr s = segment_loaded m (image_data (Modules bp 0)) phdr s"
proof -
  define d where "d = image_data (Modules bp 0)"
  define n where "n = unat (image_size (Modules bp 0))"
  have M: "52 \<le> n" "unat (e_phoff (read_ehdr m d)) + 32 \<le> n" "unat (p_offset phdr) + unat (p_filesz phdr) \<le> n"
    using ok [unfolded module_ok_def Let_def, folded d_def n_def] by blast+
  have same: "\<forall>q<n. m' (d + of_nat q) = m (d + of_nat q)" using same by (simp add: d_def n_def)
  note E = ehdr_same [OF same M(1)]
  have p: "read_phdr m' (phdr_addr m d 0) = read_phdr m (phdr_addr m d 0)"
    using phdr_same [OF same M(2)] by (simp add: phdr_addr_def)
  have e: "e_phoff (read_ehdr m' d) = e_phoff (read_ehdr m d)"
    using E(4) by (simp add: phdr_addr_def)
  show "module_ok bp m' phdr" using ok unfolding module_ok_def Let_def d_def [symmetric] unfolding E p e by blast
  show "e_entry (read_ehdr m' (image_data (Modules bp 0))) = e_entry (read_ehdr m (image_data (Modules bp 0)))"
    using E(2) by (simp add: d_def)
  show "segment_loaded m' (image_data (Modules bp 0)) phdr s = segment_loaded m (image_data (Modules bp 0)) phdr s"
    using image_byte_same [OF same M(3)] by (simp add: segment_loaded_def flip: d_def)
qed

text \<open>Where the bytes of the module lie.\<close>

lemma module_byte:
  assumes ok: "module_ok bp m phdr" and ram: "ram_pages bp \<le> 0xBFFE0" and q: "q < unat (image_size (Modules bp 0))"
  defines "x \<equiv> image_data (Modules bp 0) + of_nat q"
  shows "unat x < 0xC0000000" "page (image_data (Modules bp 0)) \<le> page x" "\<not> in_text x" "module_frame bp 0 (page x)" "page x < ram_pages bp"
proof -
  define d where "d = image_data (Modules bp 0)"
  define n where "n = unat (image_size (Modules bp 0))"
  define k where "k = (n + 4095) div 4096"
  have O: "PAGE_PHYS_ADDRESS d = d" "page d + k \<le> ram_pages bp" "0xB8 \<notin> {page d..<page d + k}"
    using ok by (simp_all add: module_ok_def Let_def d_def n_def k_def)
  have "d = of_nat (page d) * 4096" using O(1) by (simp add: PAGE_PHYS_eq)
  then have d: "unat d = page d * 4096" using page_lt [of d] by (metis unat_frame_addr)
  have qn: "q < n" using q by (simp add: n_def)
  have nk: "n \<le> k * 4096" unfolding k_def using div_mult_mod_eq [of "n + 4095" 4096] mod_less_divisor [of 4096 "n + 4095"] by linarith
  then have k: "q div 4096 < k" using qn by (simp add: div_less_iff_less_mult)
  have "unat d + q < 4294967296" using O(2) ram qn nk unfolding d by linarith
  then have x: "unat x = page d * 4096 + q" by (simp add: x_def d_def [symmetric] unat_add_of_nat d)
  then have px: "page x = page d + q div 4096" by (simp add: page_def)
  with k O(2) show lt: "page x < ram_pages bp" by simp
  show "page (image_data (Modules bp 0)) \<le> page x" using px by (simp add: d_def)
  have "unat x div 4096 < 0xC0000" using lt ram by (simp add: page_def)
  then show "unat x < 0xC0000000" by (simp add: div_less_iff_less_mult)
  have "page x \<noteq> 0xB8" using O(3) px k by auto
  then show "\<not> in_text x" by (auto simp: in_text_def page_def)
  have "n < 0xC0000000" using nk O(2) ram by linarith
  then have "unat (pages_of (image_size (Modules bp 0))) = k"
    by (simp add: pages_of_def PER_BLOCK_SIZE_def unat_div unat_word_ariths k_def n_def)
  then show "module_frame bp 0 (page x)" using px k by (simp add: module_frame_def d_def)
qed

text \<open>The first half of the start keeps the module, in frames that the allocator does not hand out.\<close>

lemma devices_keep_module:
  fixes s :: "'a machine_scheme" and dev h
  assumes ok: "start_ok L bp (3 + k)" and md: "module_ok bp (mem s) phdr" and q: "q < unat (image_size (Modules bp 0))"
  defines "s' \<equiv> HAL_devices dev L h bp s" and "x \<equiv> image_data (Modules bp 0) + of_nat q"
  shows "client_byte s' x \<and> mem s' x = mem s x"
proof -
  note D = HAL_devices_start [OF ok, where dev = dev and h = h and s = s, folded s'_def]
  have ram: "ram_pages bp \<le> 0xBFFE0" using ok by (simp add: start_ok_def)
  note X = module_byte [OF md ram q, folded x_def]
  have "0 < ModuleCount bp" using md unfolding module_ok_def Let_def by blast
  then have count: "0 < unat (ModuleCount bp)" by (simp add: word_less_nat_alt)
  have "8 \<le> page (image_data (Modules bp 0))" using ok count by (simp add: start_ok_def)
  then have "4 \<le> page x" using X(2) by simp
  with X show ?thesis by (intro conjI D(10) [OF count] D(9))
qed

text \<open>The user program's pages are in the second 4 MiB.\<close>

lemma user_pages:
  assumes "module_ok bp m phdr" "page va \<in> insert 0x600 (seg_range phdr)"
  shows "pdi va = 1" "page va \<notin> {0xD1000..<0xD1003}"
proof -
  have "0x400 \<le> page (p_vaddr phdr)" "page (p_vaddr phdr) + seg_pages phdr \<le> 0x600"
    using assms(1) unfolding module_ok_def Let_def by blast+
  then have p: "0x400 \<le> page va" "page va \<le> 0x600" using assms(2) by (auto simp: seg_range_def)
  then have "page va div 1024 = 1" by (intro div_nat_eqI) simp_all
  then show "pdi va = 1" using page_div_mod(1) [of va] by simp
  show "page va \<notin> {0xD1000..<0xD1003}" using p by auto
qed

lemma module_task_made:
  fixes s :: "'a kernel_scheme"
  assumes "vm_inv s" "user_pde s" "budget s (2 * seg_pages phdr + 2)" "one_task_heap s" "tlist (tasks s) (task s) [0xD100000C]"
    and md: "module_ok bp (mem s) phdr"
    and bytes: "\<And>q. q < unat (image_size (Modules bp 0)) \<Longrightarrow> client_byte s (image_data (Modules bp 0) + of_nat q)"
    and low: "\<And>va. page va \<in> insert 0x600 (seg_range phdr) \<Longrightarrow> pte s va = 0"
  defines "d \<equiv> image_data (Modules bp 0)"
  obtains s0 s2 where "elf_load d s = (Inr (e_entry (read_ehdr (mem s) d)), s0)"
    "create_user_task_from_elf code d s = Some (0xD1001038, s2)" "vm_inv s2" "CR3 s2 = CR3 s"
    "current_page_directory s2 = current_page_directory s" "r_esp s2 = r_esp s" "segment_loaded (mem s) d phdr s2"
    "\<And>va. page va = 0x600 \<Longrightarrow> user_ok (mem s2) (current_page_directory s2) va"
    "\<And>va. bit (pte s2 va) 2 \<Longrightarrow> page va \<in> insert 0x600 (seg_range phdr) \<or> bit (pte s va) 2"
proof -
  have M: "elf_ok (mem s) d" "e_phnum (read_ehdr (mem s) d) = 1" "phdr = read_phdr (mem s) (phdr_addr (mem s) d 0)"
    "p_type phdr = 1" "52 \<le> unat (image_size (Modules bp 0))"
    "unat (p_offset phdr) + unat (p_filesz phdr) \<le> unat (image_size (Modules bp 0))" "page (p_vaddr phdr) + seg_pages phdr \<le> 0x600"
    using md unfolding module_ok_def Let_def d_def by blast+
  have "page (p_vaddr phdr) + seg_pages phdr < 0x100000" "0x600 \<notin> seg_range phdr"
    using M(7) by (simp_all add: seg_range_def)
  moreover have "\<forall>q<52. client_byte s (d + of_nat q)" using bytes M(5) by (simp add: d_def)
  moreover have "\<forall>q<unat (p_filesz phdr). client_byte s (d + p_offset phdr + of_nat q)"
    using bytes [of "unat (p_offset phdr) + q" for q] M(6) by (simp add: d_def add.assoc)
  moreover have "\<forall>va. page va \<in> insert 0x600 (seg_range phdr) \<longrightarrow> \<not> bit (pte s va) 31" using low by simp
  ultimately show thesis using user_task_made [OF assms(1-5) M(1-4), of code] that by blast
qed

lemma pushed_below:
  assumes "20 \<le> r_esp s" "r_esp s \<le> 0xD1000000"
  shows "pushed s \<inter> new_words 0xD1001038 = {}"
proof -
  have "unat (r_esp s - k) < 0xD1000000" if "k \<in> {4, 8, 12, 16, 20}" for k
  proof -
    have "k \<le> r_esp s" using assms(1) that by (auto simp: word_le_nat_alt)
    then have "unat (r_esp s - k) = unat (r_esp s) - unat k" by (simp add: unat_sub)
    then show ?thesis using assms(2) that by (auto simp: word_le_nat_alt)
  qed
  then have "unat x < 0xD1000000" if "x \<in> pushed s" for x using that by (auto simp: pushed_def)
  moreover have "0xD1000000 \<le> unat x" if "x \<in> new_words 0xD1001038" for x using that by (auto simp: new_words_def)
  ultimately show ?thesis by fastforce
qed

text \<open>The second half of the start, from the idle task on.\<close>

lemma module_runs:
  fixes s1 :: "'a kernel_scheme"
  assumes i: "init_task code s = Some s1" "task s1 = 0xD100000C"
    and I: "vm_inv s1" "user_pde s1" "budget s1 (2 * seg_pages phdr + 2)" "one_task_heap s1" "CR3 s1 = current_page_directory s1"
    and md: "module_ok bp (mem s1) phdr"
    and cb: "\<And>q. q < unat (image_size (Modules bp 0)) \<Longrightarrow> client_byte s1 (image_data (Modules bp 0) + of_nat q)"
    and low: "\<And>va. page va \<in> insert 0x600 (seg_range phdr) \<Longrightarrow> pte s1 va = 0" "\<And>va. \<not> bit (pte s1 va) 2"
    and esp: "20 \<le> r_esp s1" "r_esp s1 \<le> 0xD1000000"
  shows "\<exists>s3. HAL_tasks hlt code bp s = Some s3 \<and> r_eip s3 = task_entry_trampoline_addr code \<and>
    (let s4 = task_entry_trampoline s3; s5 = usermode_trampoline s4; d = image_data (Modules bp 0)
     in r_eip s4 = usermode_trampoline_addr code \<and> r_eip s5 = e_entry (read_ehdr (mem s1) d) \<and> r_esp s5 = 0x601000 \<and>
        r_cs s5 = 0x1B \<and> r_ss s5 = 0x23 \<and> r_ds s5 = 0x23 \<and> IF_flag s5 \<and> CR3 s5 = current_page_directory s5 \<and>
        segment_loaded (mem s1) d phdr s5 \<and>
        (\<forall>va. user_ok (mem s5) (CR3 s5) va \<longleftrightarrow> page va \<in> insert 0x600 (seg_range phdr)))"
proof -
  define d where "d = image_data (Modules bp 0)"
  have tl: "tlist (tasks s1) (task s1) [0xD100000C]" using init_task_list [OF i(1)] i(2) by simp
  from module_task_made [OF I(1-4) tl md cb low(1), of code] obtain s0 s2 where u: "elf_load d s1 = (Inr (e_entry (read_ehdr (mem s1) d)), s0)"
    "create_user_task_from_elf code d s1 = Some (0xD1001038, s2)" "vm_inv s2" "CR3 s2 = CR3 s1"
    "current_page_directory s2 = current_page_directory s1" "r_esp s2 = r_esp s1" "segment_loaded (mem s1) d phdr s2"
    "\<And>va. page va = 0x600 \<Longrightarrow> user_ok (mem s2) (current_page_directory s2) va"
    "\<And>va. bit (pte s2 va) 2 \<Longrightarrow> page va \<in> insert 0x600 (seg_range phdr) \<or> bit (pte s1 va) 2"
    unfolding d_def by blast
  have cnt: "0 < ModuleCount bp" using md unfolding module_ok_def Let_def by blast
  have "pushed s2 \<inter> new_words 0xD1001038 = {}" using esp by (intro pushed_below) (simp_all add: u(6))
  from runs_userland [OF i(1) _ cnt u(1,2) [unfolded d_def] _ _ this] obtain s3
    where r: "HAL_tasks hlt code bp s = Some s3" "same_vm s2 s3" "r_eip s3 = task_entry_trampoline_addr code"
      "let s4 = task_entry_trampoline s3; s5 = usermode_trampoline s4
       in r_eip s4 = usermode_trampoline_addr code \<and> r_eip s5 = e_entry (read_ehdr (mem s1) d) \<and> r_esp s5 = 0x601000 \<and>
          r_cs s5 = 0x1B \<and> r_ss s5 = 0x23 \<and> r_ds s5 = 0x23 \<and> IF_flag s5"
    using i(2) unfolding d_def by auto
  define s5 where "s5 = usermode_trampoline (task_entry_trampoline s3)"
  note V = same_vm_facts [OF r(2)] same_vm_facts [OF trampolines_vm(1) [of s3]]
    same_vm_facts [OF trampolines_vm(2) [of "task_entry_trampoline s3"], folded s5_def]
  have "user_ok (mem s2) (current_page_directory s2) va \<longleftrightarrow> page va \<in> insert 0x600 (seg_range phdr)" for va
    using u(7) u(8,9) [of va] user_ok_pte [OF u(3), of va] low(2) by (auto simp: segment_loaded_def holds_def)
  moreover have "segment_loaded (mem s1) d phdr s5" using u(7) by (simp add: segment_loaded_def V)
  moreover have "CR3 s2 = current_page_directory s2" using u(4,5) I(5) by simp
  ultimately show ?thesis
    using r(1,3,4) by (intro exI [of _ s3]) (simp add: V Let_def flip: d_def s5_def)
qed


text \<open>A user program of 86 bytes at 2 MiB: one segment, two bytes in the file and a third behind them.\<close>

definition user_image :: ram where
  "user_image = (\<lambda>a. mem elf_vm (a - 0x1FA000))"

definition boot_userland :: BootParams where
  "boot_userland = boot_16M\<lparr>ModuleCount := 1, Modules := (\<lambda>_. \<lparr>image_data = 0x200000, image_size = 86, image_name = []\<rparr>)\<rparr>"

definition user_phdr :: Elf32_Phdr where
  "user_phdr = \<lparr>p_type = 1, p_offset = 84, p_vaddr = 0x400000, p_filesz = 2, p_memsz = 3\<rparr>"

lemma user_image_reads:
  "elf_ok user_image 0x200000" "e_phnum (read_ehdr user_image 0x200000) = 1" "e_entry (read_ehdr user_image 0x200000) = 0x400000"
  "e_phoff (read_ehdr user_image 0x200000) = 52" "read_phdr user_image (phdr_addr user_image 0x200000 0) = user_phdr"
  "user_image 0x200055 = 0xFE"
  by code_simp+

lemma boot_userland_ok: "start_ok example_layout boot_userland 13" "module_ok boot_userland user_image user_phdr"
  "seg_pages user_phdr = 1"
proof -
  have r: "ram_pages boot_userland = 4096" by (simp add: ram_pages_def boot_userland_def boot_16M_ram)
  show n: "seg_pages user_phdr = 1" by (simp add: seg_pages_def user_phdr_def PAGE_SIZE_def)
  have p: "page 0x200000 = 0x200" "page 0x400000 = 0x400" "PAGE_PHYS_ADDRESS 0x200000 = 0x200000"
    by (simp_all add: page_def PAGE_PHYS_ADDRESS_def)
  have "unat (pages_of (0xC0008000 - 0xC0000000)) = 8" "unat (pages_of 512) = 1" "unat (pages_of 86) = 1"
    by (simp_all add: pages_of_def PER_BLOCK_SIZE_def)
  then have "reserved_pages example_layout boot_userland + 13 \<le> bitmap_words boot_userland"
    by (simp add: reserved_pages_def module_pages_def bitmap_words_def r example_layout_def) (simp add: boot_userland_def)
  then show "start_ok example_layout boot_userland 13"
    by (simp add: start_ok_def r) (simp add: example_layout_def boot_userland_def p)
  show "module_ok boot_userland user_image user_phdr"
    using n by (simp add: module_ok_def r Let_def) (simp add: boot_userland_def p user_image_reads, simp add: user_phdr_def p)
qed


end
