(* ===== verification/Fat.thy ===== *)
theory Fat
  imports Stdio
begin

text \<open>
  The bootloader's disk and FAT12 driver: \<open>src/bootloader/stage2/disk.c\<close>, \<open>fat.c\<close> and the character
  and string functions they use (\<open>ctype.c\<close>, \<open>string.c\<close>).

  The BIOS calls of \<open>x86.asm\<close> are the record \<open>bios\<close>, a parameter: what a call answers may depend on the
  number of calls so far. The boot sector, a union in C, is its bytes, with the fields as functions of
  them. A buffer is a function from offsets to bytes, a C string the list of its characters. Calls of
  \<open>printf\<close> are recorded with their format and arguments.
  The results \<open>x div 0 = 0\<close> and \<open>x mod 0 = x\<close> of HOL stand where the processor faults: with zero sectors per
  track, heads or bytes per sector, which the properties exclude.

  The lemmas here give the measures of the reading loops; what the driver does is in \<open>Fat_Files\<close> and
  \<open>Fat_Handles\<close>.
\<close>

section \<open>The disk\<close>

record DISK =
  disk_id :: u8
  cylinders :: u16
  sectors :: u16
  heads :: u16

record bios =
  x86_Disk_GetDriveParams :: "u8 \<Rightarrow> (u8 \<times> u16 \<times> u16 \<times> u16) option"
  x86_Disk_Read :: "nat \<Rightarrow> u8 \<Rightarrow> u16 \<Rightarrow> u16 \<Rightarrow> u16 \<Rightarrow> u8 \<Rightarrow> bool \<times> (nat \<Rightarrow> u8)"

text \<open>\<open>DISK_Initialize\<close> asks for the drive that the uninitialised structure names, \<open>garbage\<close>.\<close>

definition DISK_Initialize :: "bios \<Rightarrow> DISK \<Rightarrow> u8 \<Rightarrow> DISK option" where
  "DISK_Initialize b garbage driveNumber =
     (case x86_Disk_GetDriveParams b (disk_id garbage) of None \<Rightarrow> None
      | Some (driveType, c, sec, h) \<Rightarrow>
          Some \<lparr>disk_id = driveNumber, cylinders = c, sectors = sec, heads = h\<rparr>)"

text \<open>The results are the cylinder, the sector and the head. The operands are promoted to 32 bits.\<close>

definition DISK_LBA2CHS :: "DISK \<Rightarrow> u32 \<Rightarrow> u16 \<times> u16 \<times> u16" where
  "DISK_LBA2CHS disk lba =
     (let sector = ucast (lba mod ucast (sectors disk) + 1);
          cylinder = ucast ((lba div ucast (sectors disk)) div ucast (heads disk));
          head = ucast ((lba div ucast (sectors disk)) mod ucast (heads disk))
      in (cylinder, sector, head))"

text \<open>Three attempts; \<open>t\<close> counts the calls of the BIOS. The buffer holds what the last attempt left.\<close>

fun read_attempts :: "bios \<Rightarrow> DISK \<Rightarrow> u16 \<times> u16 \<times> u16 \<Rightarrow> u8 \<Rightarrow> nat \<Rightarrow> (nat \<Rightarrow> u8) \<Rightarrow> nat \<Rightarrow> bool \<times> (nat \<Rightarrow> u8) \<times> nat" where
  "read_attempts b disk chs n 0 buf t = (False, buf, t)"
| "read_attempts b disk chs n (Suc k) buf t =
     (case chs of (c, sec, h) \<Rightarrow>
        case x86_Disk_Read b t (disk_id disk) c sec h n of
          (True, d) \<Rightarrow> (True, d, t + 1)
        | (False, d) \<Rightarrow> read_attempts b disk chs n k d (t + 2))"

definition DISK_ReadSectors :: "bios \<Rightarrow> DISK \<Rightarrow> u32 \<Rightarrow> u8 \<Rightarrow> (nat \<Rightarrow> u8) \<Rightarrow> nat \<Rightarrow> bool \<times> (nat \<Rightarrow> u8) \<times> nat" where
  "DISK_ReadSectors b disk lba n buf t = read_attempts b disk (DISK_LBA2CHS disk lba) n 3 buf t"

section \<open>Characters and strings\<close>

definition islower :: "u8 \<Rightarrow> bool" where "islower chr \<longleftrightarrow> 0x61 \<le> chr \<and> chr \<le> 0x7A"
definition toupper :: "u8 \<Rightarrow> u8" where "toupper chr = (if islower chr then chr - 0x61 + 0x41 else chr)"

text \<open>\<open>strchr\<close> gives the index of the first occurrence; character \<open>i\<close> of a string is 0 at its end.\<close>

fun strchr :: "u8 list \<Rightarrow> u8 \<Rightarrow> nat option" where
  "strchr [] chr = None"
| "strchr (c # cs) chr = (if c = chr then Some 0 else map_option Suc (strchr cs chr))"

definition char_at :: "u8 list \<Rightarrow> nat \<Rightarrow> u8" where
  "char_at s i = (if i < length s then s ! i else 0)"

section \<open>The state of the driver\<close>

definition SECTOR_SIZE :: u32 where "SECTOR_SIZE = 512"
definition MAX_FILE_HANDLES :: nat where "MAX_FILE_HANDLES = 10"
definition ROOT_DIRECTORY_HANDLE :: int where "ROOT_DIRECTORY_HANDLE = -1"
definition MEMORY_FAT_SIZE :: u32 where "MEMORY_FAT_SIZE = 0x10000"
definition FAT_ATTRIBUTE_DIRECTORY :: u8 where "FAT_ATTRIBUTE_DIRECTORY = 0x10"
definition FAT_ATTRIBUTE_VOLUME_ID :: u8 where "FAT_ATTRIBUTE_VOLUME_ID = 0x08"

text \<open>\<open>sizeof(FAT_Data)\<close>: 512 bytes of boot sector and 11 times 544 bytes of \<open>FAT_FileData\<close>.\<close>

definition FAT_DATA_SIZE :: u32 where "FAT_DATA_SIZE = 512 + 11 * 544"

record FAT_File =
  Handle :: int
  IsDirectory :: bool
  Position :: u32
  Size :: u32

record FAT_FileData =
  Buffer :: "nat \<Rightarrow> u8"
  Public :: FAT_File
  Opened :: bool
  FirstCluster :: u32
  CurrentCluster :: u32
  CurrentSectorInCluster :: u32

record fat =
  BootSectorBytes :: "nat \<Rightarrow> u8"
  RootDirectory :: FAT_FileData
  OpenedFiles :: "FAT_FileData list"
  g_Fat :: "nat \<Rightarrow> u8"
  g_DataSectionLba :: u32
  bios_calls :: nat
  printed :: "(u8 list \<times> u32 list) list"

definition print :: "u8 list \<Rightarrow> u32 list \<Rightarrow> 'a fat_scheme \<Rightarrow> 'a fat_scheme" where
  "print fmt args s = s\<lparr>printed := printed s @ [(fmt, args)]\<rparr>"

text \<open>Little-endian words in a buffer, and the fields of the packed boot sector and directory entry.\<close>

definition word16 :: "(nat \<Rightarrow> u8) \<Rightarrow> nat \<Rightarrow> u16" where
  "word16 B i = ucast (B i) OR push_bit 8 (ucast (B (i + 1)))"

definition word32 :: "(nat \<Rightarrow> u8) \<Rightarrow> nat \<Rightarrow> u32" where
  "word32 B i = ucast (word16 B i) OR push_bit 16 (ucast (word16 B (i + 2)))"

definition BytesPerSector :: "'a fat_scheme \<Rightarrow> u16" where "BytesPerSector s = word16 (BootSectorBytes s) 11"
definition SectorsPerCluster :: "'a fat_scheme \<Rightarrow> u8" where "SectorsPerCluster s = BootSectorBytes s 13"
definition ReservedSectors :: "'a fat_scheme \<Rightarrow> u16" where "ReservedSectors s = word16 (BootSectorBytes s) 14"
definition FatCount :: "'a fat_scheme \<Rightarrow> u8" where "FatCount s = BootSectorBytes s 16"
definition DirEntryCount :: "'a fat_scheme \<Rightarrow> u16" where "DirEntryCount s = word16 (BootSectorBytes s) 17"
definition SectorsPerFat :: "'a fat_scheme \<Rightarrow> u16" where "SectorsPerFat s = word16 (BootSectorBytes s) 22"

type_synonym entry_bytes = "nat \<Rightarrow> u8"

definition entry_name :: "entry_bytes \<Rightarrow> u8 list" where "entry_name e = map e [0..<11]"
definition Attributes :: "entry_bytes \<Rightarrow> u8" where "Attributes e = e 11"
definition FirstClusterHigh :: "entry_bytes \<Rightarrow> u16" where "FirstClusterHigh e = word16 e 20"
definition FirstClusterLow :: "entry_bytes \<Rightarrow> u16" where "FirstClusterLow e = word16 e 26"
definition entry_size :: "entry_bytes \<Rightarrow> u32" where "entry_size e = word32 e 28"

text \<open>A handle selects the root directory or an open file.\<close>

definition file_data :: "int \<Rightarrow> 'a fat_scheme \<Rightarrow> FAT_FileData" where
  "file_data h s = (if h = ROOT_DIRECTORY_HANDLE then RootDirectory s else OpenedFiles s ! nat h)"

definition update_file :: "int \<Rightarrow> (FAT_FileData \<Rightarrow> FAT_FileData) \<Rightarrow> 'a fat_scheme \<Rightarrow> 'a fat_scheme" where
  "update_file h f s =
     (if h = ROOT_DIRECTORY_HANDLE then s\<lparr>RootDirectory := f (RootDirectory s)\<rparr>
      else s\<lparr>OpenedFiles := (OpenedFiles s)[nat h := f (OpenedFiles s ! nat h)]\<rparr>)"

section \<open>Opening the file system\<close>

definition FAT_ReadBootSector :: "bios \<Rightarrow> DISK \<Rightarrow> 'a fat_scheme \<Rightarrow> bool \<times> 'a fat_scheme" where
  "FAT_ReadBootSector b disk s =
     (let (ok, d, t) = DISK_ReadSectors b disk 0 1 (BootSectorBytes s) (bios_calls s)
      in (ok, s\<lparr>BootSectorBytes := d, bios_calls := t\<rparr>))"

definition FAT_ReadFat :: "bios \<Rightarrow> DISK \<Rightarrow> 'a fat_scheme \<Rightarrow> bool \<times> 'a fat_scheme" where
  "FAT_ReadFat b disk s =
     (let (ok, d, t) = DISK_ReadSectors b disk (ucast (ReservedSectors s)) (ucast (SectorsPerFat s)) (g_Fat s) (bios_calls s)
      in (ok, s\<lparr>g_Fat := d, bios_calls := t\<rparr>))"

definition read_root :: "bios \<Rightarrow> DISK \<Rightarrow> u32 \<Rightarrow> 'a fat_scheme \<Rightarrow> bool \<times> 'a fat_scheme" where
  "read_root b disk lba s =
     (let (ok, d, t) = DISK_ReadSectors b disk lba 1 (Buffer (RootDirectory s)) (bios_calls s)
      in (ok, s\<lparr>RootDirectory := (RootDirectory s)\<lparr>Buffer := d\<rparr>, bios_calls := t\<rparr>))"

definition FAT_Initialize :: "bios \<Rightarrow> DISK \<Rightarrow> 'a fat_scheme \<Rightarrow> bool \<times> 'a fat_scheme" where
  "FAT_Initialize b disk s0 =
     (let (ok1, s1) = FAT_ReadBootSector b disk s0
      in if \<not> ok1 then (False, print (ascii ''FAT: read boot sector failed'' @ [0x0D, 0x0A]) [] s1)
         else let fatSize = ucast (BytesPerSector s1) * ucast (SectorsPerFat s1) :: u32
         in if FAT_DATA_SIZE + fatSize \<ge> MEMORY_FAT_SIZE
            then (False, print (ascii ''FAT: not enough memory to read FAT! Required %lu, only have %u'' @ [0x0D, 0x0A])
                    [FAT_DATA_SIZE + fatSize, MEMORY_FAT_SIZE] s1)
            else let (ok2, s2) = FAT_ReadFat b disk s1
            in if \<not> ok2 then (False, print (ascii ''FAT: read FAT failed'' @ [0x0D, 0x0A]) [] s2)
               else let rootDirLba = ucast (ReservedSectors s2) + ucast (SectorsPerFat s2) * ucast (FatCount s2) :: u32;
                        rootDirSize = 32 * ucast (DirEntryCount s2) :: u32;
                        s3 = s2\<lparr>RootDirectory := (RootDirectory s2)
                               \<lparr>Public := \<lparr>Handle = ROOT_DIRECTORY_HANDLE, IsDirectory = True, Position = 0, Size = rootDirSize\<rparr>,
                                Opened := True, FirstCluster := rootDirLba, CurrentCluster := rootDirLba,
                                CurrentSectorInCluster := 0\<rparr>\<rparr>;
                        (ok4, s4) = read_root b disk rootDirLba s3
               in if \<not> ok4 then (False, print (ascii ''FAT: read root directory failed'' @ [0x0D, 0x0A]) [] s4)
                  else let rootDirSectors = (rootDirSize + ucast (BytesPerSector s4) - 1) div ucast (BytesPerSector s4);
                           s5 = s4\<lparr>g_DataSectionLba := rootDirLba + rootDirSectors\<rparr>
                  in (True, fold (\<lambda>i. update_file (int i) (\<lambda>f. f\<lparr>Opened := False\<rparr>)) [0..<MAX_FILE_HANDLES] s5))"

section \<open>Clusters\<close>

definition FAT_ClusterToLba :: "u32 \<Rightarrow> 'a fat_scheme \<Rightarrow> u32" where
  "FAT_ClusterToLba cluster s = g_DataSectionLba s + (cluster - 2) * ucast (SectorsPerCluster s)"

definition FAT_NextCluster :: "u32 \<Rightarrow> 'a fat_scheme \<Rightarrow> u32" where
  "FAT_NextCluster currentCluster s =
     (let fatIndex = unat (currentCluster * 3 div 2)
      in if currentCluster mod 2 = 0 then ucast (word16 (g_Fat s) fatIndex AND 0x0FFF)
         else ucast (drop_bit 4 (word16 (g_Fat s) fatIndex)))"

section \<open>Reading a file\<close>

text \<open>Reading one sector into the buffer of a file.\<close>

definition read_buffer :: "bios \<Rightarrow> DISK \<Rightarrow> int \<Rightarrow> u32 \<Rightarrow> 'a fat_scheme \<Rightarrow> bool \<times> 'a fat_scheme" where
  "read_buffer b disk h lba s =
     (let (ok, d, t) = DISK_ReadSectors b disk lba 1 (Buffer (file_data h s)) (bios_calls s)
      in (ok, update_file h (\<lambda>f. f\<lparr>Buffer := d\<rparr>) (s\<lparr>bios_calls := t\<rparr>)))"

text \<open>The step to the next sector at the end of a buffer; the first result is whether the loop goes on.\<close>

definition next_sector :: "bios \<Rightarrow> DISK \<Rightarrow> int \<Rightarrow> 'a fat_scheme \<Rightarrow> bool \<times> 'a fat_scheme" where
  "next_sector b disk h s =
     (if Handle (Public (file_data h s)) = ROOT_DIRECTORY_HANDLE then
        let s1 = update_file h (\<lambda>f. f\<lparr>CurrentCluster := CurrentCluster f + 1\<rparr>) s;
            (ok, s2) = read_buffer b disk h (CurrentCluster (file_data h s1)) s1
        in if ok then (True, s2) else (False, print (ascii ''FAT: read error!'' @ [0x0D, 0x0A]) [] s2)
      else
        let s1 = update_file h (\<lambda>f. f\<lparr>CurrentSectorInCluster := CurrentSectorInCluster f + 1\<rparr>) s;
            s2 = (if CurrentSectorInCluster (file_data h s1) \<ge> ucast (SectorsPerCluster s1)
                  then update_file h (\<lambda>f. f\<lparr>CurrentCluster := FAT_NextCluster (CurrentCluster f) s1, CurrentSectorInCluster := 0\<rparr>) s1
                  else s1);
            fd = file_data h s2
        in if CurrentCluster fd \<ge> 0xFF8
           then (False, update_file h (\<lambda>f. f\<lparr>Public := (Public f)\<lparr>Size := Position (Public f)\<rparr>\<rparr>) s2)
           else let (ok, s3) = read_buffer b disk h (FAT_ClusterToLba (CurrentCluster fd) s2 + CurrentSectorInCluster fd) s2
                in if ok then (True, s3) else (False, print (ascii ''FAT: read error!'' @ [0x0D, 0x0A]) [] s3))"

text \<open>The loop, with the number of bytes still wanted and those already put out.\<close>

definition take_of :: "u32 \<Rightarrow> u32 \<Rightarrow> u32" where
  "take_of n pos = min n (SECTOR_SIZE - pos mod SECTOR_SIZE)"

lemma take_of_bounds: "n \<noteq> 0 \<Longrightarrow> 0 < take_of n pos \<and> take_of n pos \<le> n"
proof -
  have "pos mod SECTOR_SIZE < SECTOR_SIZE" by (rule word_mod_less_divisor) (simp add: SECTOR_SIZE_def)
  then have "SECTOR_SIZE - pos mod SECTOR_SIZE \<noteq> 0" by auto
  then show "n \<noteq> 0 \<Longrightarrow> 0 < take_of n pos \<and> take_of n pos \<le> n" by (auto simp: take_of_def min_def word_gt_0)
qed

lemma take_of_less: "n \<noteq> 0 \<Longrightarrow> unat (n - take_of n pos) < unat n"
  using take_of_bounds [of n pos] by (simp add: unat_sub word_less_nat_alt word_le_nat_alt)

function read_loop :: "bios \<Rightarrow> DISK \<Rightarrow> int \<Rightarrow> u32 \<Rightarrow> u8 list \<Rightarrow> 'a fat_scheme \<Rightarrow> u8 list \<times> 'a fat_scheme" where
  "read_loop b disk h n out s =
     (if n = 0 then (out, s)
      else let pos = Position (Public (file_data h s));
               leftInBuffer = SECTOR_SIZE - pos mod SECTOR_SIZE;
               tk = take_of n pos;
               out' = out @ map (\<lambda>i. Buffer (file_data h s) (unat (pos mod SECTOR_SIZE) + i)) [0..<unat tk];
               s1 = update_file h (\<lambda>f. f\<lparr>Public := (Public f)\<lparr>Position := Position (Public f) + tk\<rparr>\<rparr>) s
           in if leftInBuffer = tk
              then let (continue, s2) = next_sector b disk h s1
                   in if continue then read_loop b disk h (n - tk) out' s2 else (out', s2)
              else read_loop b disk h (n - tk) out' s1)"
  by pat_completeness auto
termination
  by (relation "measure (\<lambda>(b, disk, h, n, out, s). unat n)") (simp, (clarsimp, metis take_of_less)+)

text \<open>A file is known by a pointer to its public part; the handle found there selects the data.\<close>

datatype file_ptr = RootPtr | FilePtr nat

definition deref :: "file_ptr \<Rightarrow> 'a fat_scheme \<Rightarrow> FAT_File" where
  "deref f s = (case f of RootPtr \<Rightarrow> Public (RootDirectory s) | FilePtr i \<Rightarrow> Public (OpenedFiles s ! i))"

definition FAT_Read :: "bios \<Rightarrow> DISK \<Rightarrow> file_ptr \<Rightarrow> u32 \<Rightarrow> 'a fat_scheme \<Rightarrow> u8 list \<times> 'a fat_scheme" where
  "FAT_Read b disk file byteCount s =
     (let h = Handle (deref file s);
          pub = Public (file_data h s);
          n = (if \<not> IsDirectory pub \<or> (IsDirectory pub \<and> Size pub \<noteq> 0)
               then min byteCount (Size pub - Position pub) else byteCount)
      in read_loop b disk h n [] s)"

text \<open>A directory entry is read into \<open>e\<close>, of which the bytes not read stay.\<close>

definition FAT_ReadEntry :: "bios \<Rightarrow> DISK \<Rightarrow> file_ptr \<Rightarrow> entry_bytes \<Rightarrow> 'a fat_scheme \<Rightarrow> bool \<times> entry_bytes \<times> 'a fat_scheme" where
  "FAT_ReadEntry b disk file e s =
     (let (bs, s') = FAT_Read b disk file 32 s
      in (length bs = 32, (\<lambda>i. if i < length bs then bs ! i else e i), s'))"

definition update_public :: "file_ptr \<Rightarrow> (FAT_File \<Rightarrow> FAT_File) \<Rightarrow> 'a fat_scheme \<Rightarrow> 'a fat_scheme" where
  "update_public f g s =
     (case f of RootPtr \<Rightarrow> s\<lparr>RootDirectory := (RootDirectory s)\<lparr>Public := g (Public (RootDirectory s))\<rparr>\<rparr>
      | FilePtr i \<Rightarrow> s\<lparr>OpenedFiles := (OpenedFiles s)[i := (OpenedFiles s ! i)\<lparr>Public := g (Public (OpenedFiles s ! i))\<rparr>]\<rparr>)"

definition FAT_Close :: "file_ptr \<Rightarrow> 'a fat_scheme \<Rightarrow> 'a fat_scheme" where
  "FAT_Close file s =
     (let h = Handle (deref file s)
      in if h = ROOT_DIRECTORY_HANDLE
         then let s1 = update_public file (\<lambda>p. p\<lparr>Position := 0\<rparr>) s
              in s1\<lparr>RootDirectory := (RootDirectory s1)\<lparr>CurrentCluster := FirstCluster (RootDirectory s1)\<rparr>\<rparr>
         else update_file h (\<lambda>f. f\<lparr>Opened := False\<rparr>) s)"

section \<open>Opening a file\<close>

definition free_handle :: "'a fat_scheme \<Rightarrow> nat option" where
  "free_handle s = scan (\<lambda>i. if \<not> Opened (OpenedFiles s ! i) then Some i else None) 0 MAX_FILE_HANDLES"

definition FAT_OpenEntry :: "bios \<Rightarrow> DISK \<Rightarrow> entry_bytes \<Rightarrow> 'a fat_scheme \<Rightarrow> file_ptr option \<times> 'a fat_scheme" where
  "FAT_OpenEntry b disk dirEntry s =
     (case free_handle s of
        None \<Rightarrow> (None, print (ascii ''FAT: out of file handles'' @ [0x0D, 0x0A]) [] s)
      | Some handle \<Rightarrow>
          let h = int handle;
              first = ucast (FirstClusterLow dirEntry) + push_bit 16 (ucast (FirstClusterHigh dirEntry));
              s1 = update_file h (\<lambda>fd. fd\<lparr>Public := \<lparr>Handle = h, IsDirectory = Attributes dirEntry AND FAT_ATTRIBUTE_DIRECTORY \<noteq> 0,
                       Position = 0, Size = entry_size dirEntry\<rparr>,
                     FirstCluster := first, CurrentCluster := first, CurrentSectorInCluster := 0\<rparr>) s;
              cluster = CurrentCluster (file_data h s1);
              (ok, s2) = read_buffer b disk h (FAT_ClusterToLba cluster s1) s1
          in if \<not> ok
             then let s3 = print (ascii ''FAT: open entry failed - read error cluster=%u lba=%u'' @ [0x0A])
                             [cluster, FAT_ClusterToLba cluster s2] s2
                  in (None, print [0x0A] [] (fold (\<lambda>i. print (ascii ''%c'') [ucast (dirEntry i)]) [0..<11] s3))
             else (Some (FilePtr handle), update_file h (\<lambda>fd. fd\<lparr>Opened := True\<rparr>) s2))"

text \<open>The name as the directory has it: eight characters, then three of the extension. A name without a
  dot has its extension at \<open>name + 11\<close>.\<close>

definition fat_name :: "u8 list \<Rightarrow> u8 list" where
  "fat_name name =
     (let ext = (case strchr name 0x2E of None \<Rightarrow> 11 | Some i \<Rightarrow> i);
          base = takeWhile (\<lambda>i. char_at name i \<noteq> 0 \<and> i < ext) [0..<8];
          N1 = fold (\<lambda>i N. N[i := toupper (char_at name i)]) base (replicate 11 0x20 @ [0])
      in if ext \<noteq> 11
         then fold (\<lambda>i N. N[i + 8 := toupper (char_at name (ext + i + 1))])
                (takeWhile (\<lambda>i. char_at name (ext + i + 1) \<noteq> 0) [0..<3]) N1
         else N1)"

partial_function (option) find_loop ::
  "bios \<Rightarrow> DISK \<Rightarrow> file_ptr \<Rightarrow> u8 list \<Rightarrow> entry_bytes \<Rightarrow> 'a fat_scheme \<Rightarrow> (entry_bytes option \<times> 'a fat_scheme) option" where
  "find_loop b disk file N e s =
     (let (ok, e', s') = FAT_ReadEntry b disk file e s
      in if \<not> ok then Some (None, s')
         else if entry_name e' = take 11 N then Some (Some e', s')
         else find_loop b disk file N e' s')"

definition FAT_FindFile ::
  "bios \<Rightarrow> DISK \<Rightarrow> file_ptr \<Rightarrow> u8 list \<Rightarrow> entry_bytes \<Rightarrow> 'a fat_scheme \<Rightarrow> (entry_bytes option \<times> 'a fat_scheme) option" where
  "FAT_FindFile b disk file name garbage s = find_loop b disk file (fat_name name) garbage s"

text \<open>The walk along the path. A null pointer that is followed, after a directory that could not be opened,
  gives \<open>None\<close>, and so does a walk that does not end. The test whether a component is a directory compares
  \<open>FAT_ATTRIBUTE_DIRECTORY\<close> with 0 before it masks. \<open>lit\<close> is the address of the name.\<close>

lemma strchr_length: "strchr cs c = Some i \<Longrightarrow> i < length cs"
  by (induction cs arbitrary: i) (auto split: if_splits)

function open_path ::
  "bios \<Rightarrow> DISK \<Rightarrow> u32 \<Rightarrow> entry_bytes \<Rightarrow> u8 list \<Rightarrow> file_ptr option \<Rightarrow> 'a fat_scheme \<Rightarrow> (file_ptr option \<times> 'a fat_scheme) option" where
  "open_path b disk lit garbage path current s =
     (if path = [] then Some (current, s)
      else case current of None \<Rightarrow> None
      | Some cur \<Rightarrow>
          let delim = strchr path 0x2F;
              name = (case delim of Some i \<Rightarrow> take i path | None \<Rightarrow> path);
              rest = (case delim of Some i \<Rightarrow> drop (Suc i) path | None \<Rightarrow> []);
              isLast = (delim = None)
          in case FAT_FindFile b disk cur name garbage s of None \<Rightarrow> None
             | Some (None, s1) \<Rightarrow> Some (None, print (ascii ''FAT: %s not found'' @ [0x0D, 0x0A]) [lit] (FAT_Close cur s1))
             | Some (Some dirEntry, s1) \<Rightarrow>
                 let s2 = FAT_Close cur s1
                 in if \<not> isLast \<and> (Attributes dirEntry AND (if FAT_ATTRIBUTE_DIRECTORY = 0 then 1 else 0)) \<noteq> 0
                    then Some (None, print (ascii ''FAT: %s not a directory'' @ [0x0D, 0x0A]) [lit] s2)
                    else let (opened, s3) = FAT_OpenEntry b disk dirEntry s2
                         in open_path b disk lit garbage rest opened s3)"
  by pat_completeness auto
termination
  by (relation "measure (\<lambda>(b, disk, lit, garbage, path, current, s). length path)")
    (auto simp: dest: strchr_length split: option.splits)

definition FAT_Open ::
  "bios \<Rightarrow> DISK \<Rightarrow> u32 \<Rightarrow> entry_bytes \<Rightarrow> u8 list \<Rightarrow> 'a fat_scheme \<Rightarrow> (file_ptr option \<times> 'a fat_scheme) option" where
  "FAT_Open b disk lit garbage path s =
     open_path b disk lit garbage (if char_at path 0 = 0x2F then drop 1 path else path) (Some RootPtr) s"

section \<open>Listing a directory\<close>

definition print_char :: "u8 \<Rightarrow> 'a fat_scheme \<Rightarrow> 'a fat_scheme" where
  "print_char c = print (ascii ''%c'') [ucast c]"

text \<open>The characters \<open>lo\<close> to \<open>hi - 1\<close> of the name, up to the first space.\<close>

definition print_name_part :: "entry_bytes \<Rightarrow> nat \<Rightarrow> nat \<Rightarrow> 'a fat_scheme \<Rightarrow> 'a fat_scheme" where
  "print_name_part e lo hi s = fold (\<lambda>i. print_char (e i)) (takeWhile (\<lambda>i. e i \<noteq> 0x20) [lo..<hi]) s"

definition print_entry :: "entry_bytes \<Rightarrow> 'a fat_scheme \<Rightarrow> 'a fat_scheme" where
  "print_entry e s =
     (let directory = (Attributes e AND FAT_ATTRIBUTE_DIRECTORY \<noteq> 0);
          s1 = print_name_part e 0 8 s;
          s2 = (if \<not> directory then print_name_part e 8 11 (print (ascii ''.'') [] s1) else s1);
          s3 = (if directory then print (ascii '' <DIR>'') [] s2 else s2)
      in print [0x0A] [] s3)"

partial_function (option) list_loop :: "bios \<Rightarrow> DISK \<Rightarrow> file_ptr \<Rightarrow> entry_bytes \<Rightarrow> 'a fat_scheme \<Rightarrow> 'a fat_scheme option" where
  "list_loop b disk dir e s =
     (let (ok, e', s') = FAT_ReadEntry b disk dir e s
      in if \<not> ok then Some s'
         else if e' 0 = 0x00 then Some s'
         else if e' 0 = 0xE5 then list_loop b disk dir e' s'
         else if Attributes e' AND FAT_ATTRIBUTE_VOLUME_ID \<noteq> 0 then list_loop b disk dir e' s'
         else list_loop b disk dir e' (print_entry e' s'))"

definition FAT_ListDirectory :: "bios \<Rightarrow> DISK \<Rightarrow> file_ptr \<Rightarrow> entry_bytes \<Rightarrow> 'a fat_scheme \<Rightarrow> 'a fat_scheme option" where
  "FAT_ListDirectory b disk dir garbage s = list_loop b disk dir garbage (update_public dir (\<lambda>p. p\<lparr>Position := 0\<rparr>) s)"

declare read_loop.simps [simp del] open_path.simps [simp del]

end
