(* ===== verification/Boot_Memory.thy ===== *)
theory Boot_Memory
  imports Vmm
begin

text \<open>
  The bootloader's copies of the memory routines (\<open>src/bootloader/stage2/string.c\<close>), the physical memory
  manager (\<open>mm/pmm/pmm.c\<close>), the virtual memory manager (\<open>mm/vmm/vmm.c\<close>) and \<open>memory.c\<close>, on the same state
  as the kernel's, whose macros and structures they share.

  The copies differ from the kernel's in three points: \<open>memset\<close> takes a 16-bit count, so a bitmap of 64 KiB
  or an allocation of 16 frames is not cleared as it should be; \<open>INIT_MEMORY\<close> does not reserve the boot
  modules; and there is no \<open>map_page_user\<close>. The lemmas show that the copies do the same as the kernel's
  functions otherwise, which carries the kernel's theorems over to them.
\<close>

section \<open>src/bootloader/stage2/string.c\<close>

definition boot_memcpy :: "ram \<Rightarrow> u32 \<Rightarrow> u32 \<Rightarrow> u16 \<Rightarrow> ram" where
  "boot_memcpy m dst src num = fold (\<lambda>i m. m(dst + of_nat i := m (src + of_nat i))) [0..<unat num] m"

definition boot_memset :: "ram \<Rightarrow> u32 \<Rightarrow> u32 \<Rightarrow> u16 \<Rightarrow> ram" where
  "boot_memset m ptr value num = fold (\<lambda>i m. m(ptr + of_nat i := ucast value)) [0..<unat num] m"

definition boot_memcmp :: "ram \<Rightarrow> u32 \<Rightarrow> u32 \<Rightarrow> u16 \<Rightarrow> u32" where
  "boot_memcmp m ptr1 ptr2 num =
     (case scan (\<lambda>i. if m (ptr1 + of_nat i) \<noteq> m (ptr2 + of_nat i) then Some 1 else None) 0 (unat num)
      of Some r \<Rightarrow> r | None \<Rightarrow> 0)"

text \<open>A string without an end makes \<open>strlen\<close> and \<open>strcpy\<close> run for ever.\<close>

partial_function (option) strlen_loop :: "ram \<Rightarrow> u32 \<Rightarrow> u32 \<Rightarrow> u32 option" where
  "strlen_loop m str len = (if m str = 0 then Some len else strlen_loop m (str + 1) (len + 1))"

definition boot_strlen :: "ram \<Rightarrow> u32 \<Rightarrow> u32 option" where
  "boot_strlen m str = strlen_loop m str 0"

text \<open>The loop of \<open>strcpy\<close>; the result of the function is its first argument.\<close>

partial_function (option) copy_loop :: "u32 \<Rightarrow> u32 \<Rightarrow> ram \<Rightarrow> ram option" where
  "copy_loop dst src m =
     (if m src = 0 then Some (m(dst := 0)) else copy_loop (dst + 1) (src + 1) (m(dst := m src)))"

definition boot_strcpy :: "ram \<Rightarrow> u32 \<Rightarrow> u32 \<Rightarrow> (u32 \<times> ram) option" where
  "boot_strcpy m dst src =
     (if dst = 0 then Some (0, m)
      else if src = 0 then Some (dst, m(dst := 0))
      else map_option (\<lambda>m'. (dst, m')) (copy_loop dst src m))"

section \<open>src/bootloader/stage2/mm/pmm/pmm.c\<close>

definition boot_usable_ram :: "MemoryInfo \<Rightarrow> u32" where
  "boot_usable_ram memory =
     fold (\<lambda>i total. if Type (Regions memory i) = 1
                      then ucast (ucast total + region_length (Regions memory i))
                      else total)
       [0..<nat (sint (RegionCount memory))] 0"

definition boot_get_memory_info :: "MemoryInfo \<Rightarrow> 'a pmm_scheme \<Rightarrow> 'a pmm_scheme" where
  "boot_get_memory_info memory s =
     (let total = boot_usable_ram memory; pages = total div PER_BLOCK_SIZE
      in s\<lparr>TOTAL_MEMORY := total,
           TOTAL_PAGES := pages,
           BITMAP_SIZEB := (pages + 7) div 8,
           TOTAL_BLOCK := (pages + 31) div 32\<rparr>)"

definition boot_set_kernel_addr :: "u32 \<Rightarrow> u32 \<Rightarrow> 'a pmm_scheme \<Rightarrow> 'a pmm_scheme" where
  "boot_set_kernel_addr kernel_start kernel_end s =
     s\<lparr>KERNEL_START_ADDR := kernel_start, KERNEL_END_ADDR := kernel_end\<rparr>"

definition boot_set_bit :: "u32 \<Rightarrow> 'a pmm_scheme \<Rightarrow> 'a pmm_scheme" where
  "boot_set_bit b s =
     (let a = BIT_MAP s + 4 * sdiv32 b 32
      in s\<lparr>mem := store32 (mem s) a (load32 (mem s) a OR shl1 (smod32 b 32))\<rparr>)"

definition boot_unset_bit :: "u32 \<Rightarrow> 'a pmm_scheme \<Rightarrow> 'a pmm_scheme" where
  "boot_unset_bit b s =
     (let a = BIT_MAP s + 4 * sdiv32 b 32
      in s\<lparr>mem := store32 (mem s) a (load32 (mem s) a AND NOT (shl1 (smod32 b 32)))\<rparr>)"

definition boot_test_bit :: "u32 \<Rightarrow> 'a pmm_scheme \<Rightarrow> u32" where
  "boot_test_bit b s = load32 (mem s) (BIT_MAP s + 4 * (b div 32)) AND shl1 (b mod 32)"

definition boot_setup_memory_bitmap :: "'a pmm_scheme \<Rightarrow> 'a pmm_scheme" where
  "boot_setup_memory_bitmap s =
     (let bit_map_start = (KERNEL_END_ADDR s + 0xFFF) AND NOT 0xFFF
      in s\<lparr>BIT_MAP := bit_map_start,
           BIT_MAP_END := bit_map_start + BITMAP_SIZEB s,
           mem := boot_memset (mem s) bit_map_start 0 (ucast (BITMAP_SIZEB s))\<rparr>)"

definition boot_get_free_memory_block :: "'a pmm_scheme \<Rightarrow> u32" where
  "boot_get_free_memory_block s =
     (case scan (\<lambda>i.
             if load32 (mem s) (BIT_MAP s + 4 * of_nat i) \<noteq> 0xffffffff
             then scan (\<lambda>j. let b = of_nat i * 32 + of_nat j
                            in if boot_test_bit b s = 0 then Some b else None) 0 32
             else None) 0 (unat (TOTAL_BLOCK s))
      of Some b \<Rightarrow> b | None \<Rightarrow> INVALID_FRAME)"

definition boot_reserve_memory_block :: "u32 \<Rightarrow> u32 \<Rightarrow> 'a pmm_scheme \<Rightarrow> 'a pmm_scheme" where
  "boot_reserve_memory_block base n s =
     (let start_page = base div PER_BLOCK_SIZE; pages = pages_of n
      in if TOTAL_USED_BLOCKS s \<ge> TOTAL_BLOCK s then s
         else fold (\<lambda>i s. if boot_test_bit (start_page + of_nat i) s = 0
                          then used_inc (boot_set_bit (start_page + of_nat i) s)
                          else s) [0..<unat pages] s)"

definition boot_unreserve_memory_block :: "u32 \<Rightarrow> u32 \<Rightarrow> 'a pmm_scheme \<Rightarrow> 'a pmm_scheme" where
  "boot_unreserve_memory_block base n s =
     (let start_page = base div PER_BLOCK_SIZE; pages = pages_of n
      in fold (\<lambda>i s. used_dec (boot_unset_bit (start_page + of_nat i) s)) [0..<unat pages] s)"

definition boot_reserve_memory :: "'a pmm_scheme \<Rightarrow> 'a pmm_scheme" where
  "boot_reserve_memory s0 =
     (let s1 = boot_reserve_memory_block 0x0 0x500 s0;
          s2 = boot_reserve_memory_block 0x7c00 512 s1;
          s3 = boot_reserve_memory_block (KERNEL_START_ADDR s2)
                 (KERNEL_END_ADDR s2 - KERNEL_START_ADDR s2) s2
      in boot_reserve_memory_block (BIT_MAP s3) (BITMAP_SIZEB s3) s3)"

definition boot_allocate_chunk :: "'a pmm_scheme \<Rightarrow> u32 \<times> 'a pmm_scheme" where
  "boot_allocate_chunk s =
     (if TOTAL_USED_BLOCKS s \<ge> TOTAL_BLOCK s then (0, s)
      else let frame = boot_get_free_memory_block s
           in if frame = INVALID_FRAME then (0, s)
              else (frame * PER_BLOCK_SIZE, used_inc (boot_set_bit frame s)))"

fun boot_count_run :: "'a pmm_scheme \<Rightarrow> u32 \<Rightarrow> u32 \<Rightarrow> nat \<Rightarrow> nat \<Rightarrow> u32 \<Rightarrow> bool" where
  "boot_count_run s b size' count 0 free = False"
| "boot_count_run s b size' count (Suc n) free =
     (if boot_test_bit (b + of_nat count) s = 0
      then if free + 1 = size' then True
           else boot_count_run s b size' (Suc count) n (free + 1)
      else False)"

definition boot_get_free_frame_by_size :: "u32 \<Rightarrow> 'a pmm_scheme \<Rightarrow> u32" where
  "boot_get_free_frame_by_size n s =
     (if n = 0 then INVALID_FRAME
      else if TOTAL_USED_BLOCKS s \<ge> TOTAL_BLOCK s then INVALID_FRAME
      else if n = 1 then boot_get_free_memory_block s
      else case scan (\<lambda>i.
             if load32 (mem s) (BIT_MAP s + 4 * of_nat i) \<noteq> 0xffffffff
             then scan (\<lambda>j. let b = of_nat i * 32 + of_nat j
                            in if boot_test_bit b s = 0 \<and> boot_count_run s b n 0 (unat n + 1) 0
                               then Some b else None) 0 32
             else None) 0 (unat (TOTAL_BLOCK s))
        of Some b \<Rightarrow> b | None \<Rightarrow> INVALID_FRAME)"

definition boot_mark_run :: "u32 \<Rightarrow> nat \<Rightarrow> 'a pmm_scheme \<Rightarrow> 'a pmm_scheme" where
  "boot_mark_run frame n s = fold (\<lambda>i s. used_inc (boot_set_bit (frame + of_nat i) s)) [0..<n] s"

definition boot_allocate_byte :: "u32 \<Rightarrow> 'a pmm_scheme \<Rightarrow> u32 \<times> 'a pmm_scheme" where
  "boot_allocate_byte n s =
     (let frames = pages_of n; frame = boot_get_free_frame_by_size frames s
      in if frame = INVALID_FRAME then (0, s)
         else let s1 = boot_mark_run frame (unat frames) s; addr = frame * PER_BLOCK_SIZE
              in (addr, s1\<lparr>mem := boot_memset (mem s1) addr 0 (ucast n)\<rparr>))"

definition boot_allocate_block :: "u32 \<Rightarrow> 'a pmm_scheme \<Rightarrow> u32 \<times> 'a pmm_scheme" where
  "boot_allocate_block n s =
     (let frame = boot_get_free_frame_by_size n s
      in if frame = INVALID_FRAME then (0, s)
         else let s1 = boot_mark_run frame (unat n) s; addr = frame * PER_BLOCK_SIZE
              in (addr, s1\<lparr>mem := boot_memset (mem s1) addr 0 (ucast (n * PER_BLOCK_SIZE))\<rparr>))"

definition boot_deallocate_memory :: "u32 \<Rightarrow> 'a pmm_scheme \<Rightarrow> 'a pmm_scheme" where
  "boot_deallocate_memory base s = used_dec (boot_unset_bit (base div PER_BLOCK_SIZE) s)"

definition boot_deallocate_memory_by_size :: "u32 \<Rightarrow> u32 \<Rightarrow> 'a pmm_scheme \<Rightarrow> 'a pmm_scheme" where
  "boot_deallocate_memory_by_size base n s =
     (let pages = pages_of n; start = base div PER_BLOCK_SIZE
      in fold (\<lambda>i s. used_dec (boot_unset_bit (start + of_nat i) s)) [0..<unat pages] s)"

definition boot_INIT_MEMORY :: "u32 \<Rightarrow> u32 \<Rightarrow> BootParams \<Rightarrow> 'a pmm_scheme \<Rightarrow> 'a pmm_scheme" where
  "boot_INIT_MEMORY kernel_start kernel_end bootParams s0 =
     (let s1 = boot_set_kernel_addr kernel_start kernel_end s0;
          s2 = boot_get_memory_info (Memory bootParams) s1;
          s3 = boot_setup_memory_bitmap s2
      in boot_reserve_memory s3)"

section \<open>src/bootloader/stage2/mm/vmm/vmm.c\<close>

definition boot_setup_page_directory_table :: "'a vmm_scheme \<Rightarrow> bool \<times> 'a vmm_scheme" where
  "boot_setup_page_directory_table s =
     (let (dir, s1) = boot_allocate_block 1 s; s2 = s1\<lparr>current_page_directory := dir\<rparr>
      in if dir = 0 then (False, s2)
         else let s3 = s2\<lparr>mem := boot_memset (mem s2) dir 0 4096\<rparr>
              in (True, fold (\<lambda>i. update32 (dir + 4 * of_nat i) (\<lambda>_. 0)) [0..<1024] s3))"

definition boot_fill_table :: "u32 \<Rightarrow> u32 \<Rightarrow> u32 \<Rightarrow> 'a vmm_scheme \<Rightarrow> 'a vmm_scheme" where
  "boot_fill_table table frame virt s =
     fold (\<lambda>i. update32 (pt_entry_addr table (virt + of_nat i * PAGE_SIZE))
             (\<lambda>_. SET_FRAME (SET_ATTRIBUTE (SET_ATTRIBUTE 0 PTE_PRESENT) PTE_READ_WRITE)
                     (frame + of_nat i * PAGE_SIZE))) [0..<1024] s"

definition boot_link_table :: "u32 \<Rightarrow> u32 \<Rightarrow> 'a vmm_scheme \<Rightarrow> 'a vmm_scheme" where
  "boot_link_table table virt s =
     update32 (pd_entry_addr s virt)
       (\<lambda>ent. SET_FRAME (SET_ATTRIBUTE (SET_ATTRIBUTE ent PDE_PRESENT) PDE_READ_WRITE) table) s"

definition boot_setup_higher_half_kernel :: "'a vmm_scheme \<Rightarrow> bool \<times> 'a vmm_scheme" where
  "boot_setup_higher_half_kernel s =
     (let (table, s1) = boot_allocate_block 1 s
      in if table = 0 then (False, s1)
         else let s2 = s1\<lparr>mem := boot_memset (mem s1) table 0 4096\<rparr>
              in (True, boot_link_table table 0xC0000000 (boot_fill_table table KERNEL_ADDRESS 0xC0000000 s2)))"

definition boot_setup_page_table :: "'a vmm_scheme \<Rightarrow> bool \<times> 'a vmm_scheme" where
  "boot_setup_page_table s =
     (let (table, s1) = boot_allocate_block 1 s
      in if table = 0 then (False, s1)
         else let s2 = s1\<lparr>mem := boot_memset (mem s1) table 0 4096\<rparr>
              in (True, boot_link_table table 0 (boot_fill_table table 0 0 s2)))"

definition boot_enable_paging :: "'a vmm_scheme \<Rightarrow> bool \<times> 'a vmm_scheme" where
  "boot_enable_paging s = (True, s\<lparr>CR0 := CR0 s OR 0x80000001\<rparr>)"

definition boot_set_page_directory :: "'a vmm_scheme \<Rightarrow> bool \<times> 'a vmm_scheme" where
  "boot_set_page_directory s =
     (if current_page_directory s = 0 then (False, s)
      else (True, s\<lparr>CR3 := current_page_directory s\<rparr>))"

definition boot_get_page :: "u32 \<Rightarrow> 'a vmm_scheme \<Rightarrow> u32" where
  "boot_get_page address s =
     pt_entry_addr (PAGE_PHYS_ADDRESS (load32 (mem s) (pd_entry_addr s address))) address"

definition boot_allocate_page :: "u32 \<Rightarrow> 'a vmm_scheme \<Rightarrow> u32 \<times> u32 \<times> 'a vmm_scheme" where
  "boot_allocate_page ent s =
     (let (block, s1) = boot_allocate_block 1 s
      in if block \<noteq> 0 then (block, SET_ATTRIBUTE (SET_FRAME ent block) PTE_PRESENT, s1)
         else (block, ent, s1))"

definition boot_flush_tlb_entry :: "u32 \<Rightarrow> 'a vmm_scheme \<Rightarrow> 'a vmm_scheme" where
  "boot_flush_tlb_entry address s = s\<lparr>IF_flag := True\<rparr>"

definition boot_free_page :: "u32 \<Rightarrow> 'a vmm_scheme \<Rightarrow> 'a vmm_scheme" where
  "boot_free_page ent s =
     (let address = PAGE_PHYS_ADDRESS (load32 (mem s) ent);
          s1 = (if address \<noteq> 0 then boot_deallocate_memory_by_size address 1 s else s)
      in update32 ent (\<lambda>e. CLEAR_ATTRIBUTE e PTE_PRESENT) s1)"

definition boot_unmap_page :: "u32 \<Rightarrow> 'a vmm_scheme \<Rightarrow> 'a vmm_scheme" where
  "boot_unmap_page virt_address s =
     update32 (boot_get_page virt_address s)
       (\<lambda>e. CLEAR_ATTRIBUTE (SET_FRAME e 0) PTE_PRESENT) s"

definition boot_map_page :: "u32 \<Rightarrow> u32 \<Rightarrow> 'a vmm_scheme \<Rightarrow> bool \<times> 'a vmm_scheme" where
  "boot_map_page phys_address virt_address s =
     (let ent = pd_entry_addr s virt_address;
          (ok, s1) =
            (if load32 (mem s) ent AND PTE_PRESENT \<noteq> PTE_PRESENT then
               let (table, s1) = boot_allocate_block 1 s
               in if table = 0 then (False, s1)
                  else let s2 = s1\<lparr>mem := boot_memset (mem s1) table 0 4096\<rparr>
                       in (True, update32 ent (\<lambda>e. SET_FRAME (SET_ATTRIBUTE (SET_ATTRIBUTE e
                                    PDE_PRESENT) PDE_READ_WRITE) table) s2)
             else (True, s))
      in if \<not> ok then (False, s1)
         else let table = PAGE_PHYS_ADDRESS (load32 (mem s1) ent)
              in (True, update32 (pt_entry_addr table virt_address)
                          (\<lambda>e. SET_FRAME (SET_ATTRIBUTE e PTE_PRESENT) phys_address) s1))"

definition boot_INITIALIZE_VMEMORY :: "'a vmm_scheme \<Rightarrow> bool \<times> 'a vmm_scheme" where
  "boot_INITIALIZE_VMEMORY s =
     (let s1 = snd (boot_setup_page_directory_table s);
          s2 = snd (boot_setup_higher_half_kernel s1);
          s3 = snd (boot_setup_page_table s2);
          s4 = snd (boot_set_page_directory s3)
      in (True, snd (boot_enable_paging s4)))"

section \<open>src/bootloader/stage2/memory.c\<close>

definition boot_Initialize_memories :: "u32 \<Rightarrow> u32 \<Rightarrow> BootParams \<Rightarrow> 'a vmm_scheme \<Rightarrow> 'a vmm_scheme" where
  "boot_Initialize_memories kernel_start kernel_end bootParams s =
     snd (boot_INITIALIZE_VMEMORY (boot_INIT_MEMORY kernel_start kernel_end bootParams s))"

section \<open>The copies and the kernel's functions\<close>

text \<open>The C \<open>memset\<close> is the kernel's with the count cut to 16 bits.\<close>

lemma boot_memset_eq: "boot_memset m p v n = memset m p v (ucast n)"
  by (simp add: boot_memset_def memset_def unat_ucast16_32)

lemma boot_memcpy_eq [simp]: "boot_memcpy = memcpy"
  by (simp add: boot_memcpy_def memcpy_def fun_eq_iff)

lemma boot_bits [simp]: "boot_set_bit = set_bit" "boot_unset_bit = unset_bit" "boot_test_bit = test_bit"
  by (simp_all add: fun_eq_iff boot_set_bit_def set_bit_def boot_unset_bit_def unset_bit_def boot_test_bit_def test_bit_def)

lemma boot_count_run [simp]: "boot_count_run s b n k j f = count_run s b n k j f"
  by (induction s b n k j f rule: count_run.induct) simp_all

lemma boot_search [simp]:
  "boot_usable_ram = usable_ram" "boot_set_kernel_addr = set_kernel_addr" "boot_get_free_memory_block = get_free_memory_block"
  by (unfold boot_usable_ram_def usable_ram_def boot_set_kernel_addr_def set_kernel_addr_def
      boot_get_free_memory_block_def get_free_memory_block_def boot_bits) (rule refl)+

lemma boot_marking [simp]:
  "boot_reserve_memory_block = reserve_memory_block" "boot_unreserve_memory_block = unreserve_memory_block"
  "boot_mark_run = mark_run" "boot_deallocate_memory = deallocate_memory"
  "boot_deallocate_memory_by_size = deallocate_memory_by_size"
  by (unfold boot_reserve_memory_block_def reserve_memory_block_def boot_unreserve_memory_block_def
      unreserve_memory_block_def boot_mark_run_def mark_run_def boot_deallocate_memory_def deallocate_memory_def
      boot_deallocate_memory_by_size_def deallocate_memory_by_size_def boot_bits) (rule refl)+

lemma boot_composed [simp]:
  "boot_get_memory_info = get_memory_info" "boot_reserve_memory = reserve_memory" "boot_allocate_chunk = allocate_chunk"
  "boot_get_free_frame_by_size = get_free_frame_by_size"
  by (unfold boot_get_memory_info_def get_memory_info_def boot_reserve_memory_def reserve_memory_def
      boot_allocate_chunk_def allocate_chunk_def boot_get_free_frame_by_size_def get_free_frame_by_size_def
      boot_bits boot_count_run boot_search boot_marking) (rule refl)+

text \<open>Up to 15 frames an allocation is the kernel's; 16 frames are \<open>2^16\<close> bytes, of which the cut count
  leaves none to clear.\<close>

lemma ucast_u16_back: "unat (x :: u32) < 65536 \<Longrightarrow> ucast (ucast x :: u16) = x"
  by (simp add: word_unat_eq_iff unat_ucast16_32) (simp add: unsigned_ucast_eq take_bit_eq_mod)

lemma boot_allocate_block_eq: "unat n < 16 \<Longrightarrow> boot_allocate_block n = allocate_block n"
proof -
  assume "unat n < 16"
  then have "ucast (ucast (n * PER_BLOCK_SIZE) :: u16) = n * PER_BLOCK_SIZE"
    by (intro ucast_u16_back) (simp add: PER_BLOCK_SIZE_def unat_word_ariths)
  then show ?thesis
    by (intro ext) (unfold boot_allocate_block_def allocate_block_def boot_memset_eq boot_composed boot_marking, simp only:)
qed

lemma boot_allocate_1 [simp]: "boot_allocate_block 1 = allocate_block 1"
  by (rule boot_allocate_block_eq) simp

lemma boot_memset_page [simp]: "boot_memset m p v 4096 = memset m p v 4096"
  by (simp add: boot_memset_eq)

text \<open>The page tables.\<close>

lemma boot_tables [simp]: "boot_fill_table = fill_table" "boot_link_table = link_table"
  by (unfold boot_fill_table_def fill_table_def boot_link_table_def link_table_def) (rule refl)+

lemma boot_paging [simp]:
  "boot_setup_page_directory_table = setup_page_directory_table" "boot_setup_higher_half_kernel = setup_higher_half_kernel"
  "boot_setup_page_table = setup_page_table" "boot_enable_paging = enable_paging" "boot_set_page_directory = set_page_directory"
  "boot_get_page = get_page" "boot_allocate_page = allocate_page" "boot_flush_tlb_entry = flush_tlb_entry" "boot_free_page = free_page"
  by (unfold boot_setup_page_directory_table_def setup_page_directory_table_def boot_setup_higher_half_kernel_def
      setup_higher_half_kernel_def boot_setup_page_table_def setup_page_table_def boot_enable_paging_def enable_paging_def
      boot_set_page_directory_def set_page_directory_def boot_get_page_def get_page_def boot_allocate_page_def allocate_page_def
      boot_flush_tlb_entry_def flush_tlb_entry_def boot_free_page_def free_page_def boot_allocate_1 boot_memset_page boot_tables
      boot_marking) (rule refl)+

lemma boot_mapping [simp]:
  "boot_unmap_page = unmap_page" "boot_map_page = map_page" "boot_INITIALIZE_VMEMORY = INITIALIZE_VMEMORY"
  by (unfold boot_unmap_page_def unmap_page_def boot_map_page_def map_page_def boot_INITIALIZE_VMEMORY_def
      INITIALIZE_VMEMORY_def boot_allocate_1 boot_memset_page boot_paging) (rule refl)+

text \<open>A bitmap of less than 64 KiB, that is, less than 2 GiB of memory, is cleared as in the kernel.\<close>

lemma boot_setup_memory_bitmap_eq:
  "unat (BITMAP_SIZEB s) < 65536 \<Longrightarrow> boot_setup_memory_bitmap s = setup_memory_bitmap s"
  by (simp add: boot_setup_memory_bitmap_def setup_memory_bitmap_def boot_memset_eq ucast_u16_back)

end
