(* ===== verification/Boot_Main.thy ===== *)
theory Boot_Main
  imports Fat Boot_Memory Boot_Stdio Descriptors
begin

text \<open>
  The main program of the bootloader: \<open>src/bootloader/stage2/main.c\<close> and \<open>memdetects.c\<close>.

  The state \<open>boot\<close> is the file system driver's, the machine and the parameters for the kernel. The
  variables of the memory managers in the machine are the bootloader's own; the kernel starts with its
  own. The E820 call of \<open>x86.asm\<close> is a parameter, and so are the linker symbols, the address of the
  descriptor table and what the uninitialised local variables hold (\<open>boot_env\<close>). \<open>FAT_Read\<close> puts its bytes
  into the memory of the machine at the address the caller gives. A result \<open>None\<close> stands for a loop that
  does not end or a null pointer that is followed.
\<close>

section \<open>src/bootloader/stage2/memdetects.c\<close>

record E820MemoryBlock =
  block_Base_Low :: u32
  block_Base_High :: u32
  block_Length_Low :: u32
  block_Length_High :: u32
  block_Type :: u32
  block_ACPI :: u32

text \<open>\<open>x86_E820GetNextBlock\<close>: from the block and the continuation value to the result and the two values
  it leaves there.\<close>

type_synonym e820_call = "E820MemoryBlock \<Rightarrow> u32 \<Rightarrow> u32 \<times> E820MemoryBlock \<times> u32"

definition region_of :: "E820MemoryBlock \<Rightarrow> MemoryRegion" where
  "region_of block =
     \<lparr>Begin_Low = block_Base_Low block, Begin_High = block_Base_High block,
      Length_Low = block_Length_Low block, Length_High = block_Length_High block,
      Type = block_Type block, ACPI = block_ACPI block\<rparr>"

partial_function (option) detect_loop ::
  "e820_call \<Rightarrow> u32 \<Rightarrow> E820MemoryBlock \<Rightarrow> u32 \<Rightarrow> (nat \<Rightarrow> MemoryRegion) \<Rightarrow> nat \<Rightarrow> ((nat \<Rightarrow> MemoryRegion) \<times> nat) option" where
  "detect_loop e820 res block continuation regions count =
     (if 0 < sint res \<and> continuation \<noteq> 0
      then let regions' = regions(count := region_of block);
               (res', block', continuation') = e820 block continuation
           in detect_loop e820 res' block' continuation' regions' (count + 1)
      else Some (regions, count))"

text \<open>\<open>regions\<close> is the array \<open>g_MemRegions\<close>; its 256 elements are not checked in the code.\<close>

definition Memory_Detect :: "e820_call \<Rightarrow> E820MemoryBlock \<Rightarrow> (nat \<Rightarrow> MemoryRegion) \<Rightarrow> MemoryInfo option" where
  "Memory_Detect e820 garbage regions =
     (let (res, block, continuation) = e820 garbage 0
      in map_option (\<lambda>(rs, n). \<lparr>RegionCount = of_nat n, Regions = rs\<rparr>) (detect_loop e820 res block continuation regions 0))"

section \<open>The state\<close>

definition MEMORY_LOAD_KERNEL :: u32 where "MEMORY_LOAD_KERNEL = 0x30000"
definition MEMORY_LOAD_SIZE :: u32 where "MEMORY_LOAD_SIZE = 0x00010000"
definition MEMORY_KERNEL_ADDR :: u32 where "MEMORY_KERNEL_ADDR = 0x100000"
definition MEMORY_USERLAND_ADDR :: u32 where "MEMORY_USERLAND_ADDR = 0x50000"

record boot = fat +
  world :: machine
  g_BootParams :: BootParams
  g_MemRegions :: "nat \<Rightarrow> MemoryRegion"

record boot_env =
  stack_disk :: DISK
  stack_block :: E820MemoryBlock
  stack_entry :: entry_bytes
  name_addr :: u32
  link_start :: u32
  link_end :: u32
  gdt_addr :: u32

section \<open>src/bootloader/stage2/gdt.c\<close>

definition boot_g_GDTDescriptor :: "u32 \<Rightarrow> u16 \<times> u32" where
  "boot_g_GDTDescriptor addr = (of_nat (8 * length boot_g_GDT) - 1, addr)"

definition boot_i686_GDT_Initialize :: "u32 \<Rightarrow> 'a machine_scheme \<Rightarrow> 'a machine_scheme" where
  "boot_i686_GDT_Initialize addr s =
     i686_GDT_Load (boot_g_GDTDescriptor addr) i686_GDT_CODE_SEGMENT i686_GDT_DATA_SEGMENT s"

section \<open>src/bootloader/stage2/main.c\<close>

text \<open>The bytes \<open>bs\<close> at address \<open>a\<close>.\<close>

definition put_bytes :: "u32 \<Rightarrow> u8 list \<Rightarrow> ram \<Rightarrow> ram" where
  "put_bytes a bs m = (\<lambda>x. if unat (x - a) < length bs then bs ! unat (x - a) else m x)"

definition update_mem :: "(ram \<Rightarrow> ram) \<Rightarrow> 'a boot_scheme \<Rightarrow> 'a boot_scheme" where
  "update_mem f s = s\<lparr>world := (world s)\<lparr>mem := f (mem (world s))\<rparr>\<rparr>"

definition FAT_Read_into :: "bios \<Rightarrow> DISK \<Rightarrow> file_ptr \<Rightarrow> u32 \<Rightarrow> u32 \<Rightarrow> 'a boot_scheme \<Rightarrow> u32 \<times> 'a boot_scheme" where
  "FAT_Read_into b disk file byteCount dataOut s =
     (let (bs, s1) = FAT_Read b disk file byteCount s
      in (of_nat (length bs), update_mem (put_bytes dataOut bs) s1))"

partial_function (option) load_kernel ::
  "bios \<Rightarrow> DISK \<Rightarrow> file_ptr \<Rightarrow> u32 \<Rightarrow> 'a boot_scheme \<Rightarrow> 'a boot_scheme option" where
  "load_kernel b disk fd kernelBuffer s =
     (let (readSize, s1) = FAT_Read_into b disk fd MEMORY_LOAD_SIZE MEMORY_LOAD_KERNEL s
      in if readSize = 0 then Some s1
         else load_kernel b disk fd (kernelBuffer + readSize)
                (update_mem (\<lambda>m. boot_memcpy m kernelBuffer MEMORY_LOAD_KERNEL (ucast readSize)) s1))"

partial_function (option) load_userland ::
  "bios \<Rightarrow> DISK \<Rightarrow> file_ptr \<Rightarrow> u32 \<Rightarrow> 'a boot_scheme \<Rightarrow> (u32 \<times> 'a boot_scheme) option" where
  "load_userland b disk ufd totalRead s =
     (let (readSize, s1) = FAT_Read_into b disk ufd MEMORY_LOAD_SIZE MEMORY_LOAD_KERNEL s
      in if readSize = 0 then Some (totalRead, s1)
         else load_userland b disk ufd (totalRead + readSize)
                (update_mem (\<lambda>m. boot_memcpy m (MEMORY_USERLAND_ADDR + totalRead) MEMORY_LOAD_KERNEL (ucast readSize)) s1))"

text \<open>The part of \<open>start\<close> that loads the module; the name ends with a zero.\<close>

definition load_module :: "bios \<Rightarrow> DISK \<Rightarrow> boot_env \<Rightarrow> 'a boot_scheme \<Rightarrow> 'a boot_scheme option" where
  "load_module b disk env s0 =
     (let s1 = s0\<lparr>g_BootParams := (g_BootParams s0)\<lparr>ModuleCount := 0\<rparr>\<rparr>
      in case FAT_Open b disk (name_addr env) (stack_entry env) (ascii ''/userland.elf'') s1 of None \<Rightarrow> None
         | Some (None, s2) \<Rightarrow> Some (print (ascii ''Warning: userland.elf not found on disk'' @ [0x0D, 0x0A]) [] s2)
         | Some (Some ufd, s2) \<Rightarrow>
             (case load_userland b disk ufd 0 s2 of None \<Rightarrow> None
              | Some (totalRead, s3) \<Rightarrow>
                  let s4 = FAT_Close ufd s3;
                      module0 = \<lparr>image_data = MEMORY_USERLAND_ADDR, image_size = totalRead, image_name = ascii ''userland.elf'' @ [0]\<rparr>;
                      s5 = s4\<lparr>g_BootParams := (g_BootParams s4)\<lparr>Modules := (Modules (g_BootParams s4))(0 := module0), ModuleCount := 1\<rparr>\<rparr>
                  in Some (print (ascii ''Loaded userland.elf (%u bytes at 0x%x)'' @ [0x0D, 0x0A]) [totalRead, MEMORY_USERLAND_ADDR] s5)))"

text \<open>The last part: descriptor table, memory managers, and the low mapping of the kernel removed.\<close>

definition prepare_jump :: "boot_env \<Rightarrow> 'a boot_scheme \<Rightarrow> 'a boot_scheme" where
  "prepare_jump env s =
     (let w1 = boot_i686_GDT_Initialize (gdt_addr env) (world s);
          w2 = boot_Initialize_memories (link_start env) (link_end env) (g_BootParams s) w1;
          w3 = fold (\<lambda>i. boot_unmap_page (KERNEL_ADDRESS + of_nat i * PAGE_SIZE))
                 [0..<unat ((0x400000 - KERNEL_ADDRESS) div PAGE_SIZE)] w2
      in s\<lparr>world := w3\<rparr>)"

text \<open>\<open>start\<close> ends in an endless loop or jumps to \<open>0xC0000000\<close> with the address of the parameters.\<close>

datatype boot_result = Hangs boot | Jumps boot

definition start :: "bios \<Rightarrow> e820_call \<Rightarrow> boot_env \<Rightarrow> u16 \<Rightarrow> boot \<Rightarrow> boot_result option" where
  "start b e820 env bootDrive s0 =
     (let s1 = s0\<lparr>world := boot_clrscr (world s0)\<rparr>
      in case DISK_Initialize b (stack_disk env) (ucast bootDrive) of
           None \<Rightarrow> Some (Hangs (print (ascii ''Disk init error'' @ [0x0D, 0x0A]) [] s1))
         | Some disk \<Rightarrow>
             let (ok, s2) = FAT_Initialize b disk s1
             in if \<not> ok then Some (Hangs (print (ascii ''FAT init error'' @ [0x0D, 0x0A]) [] s2))
                else let s3 = s2\<lparr>g_BootParams := (g_BootParams s2)\<lparr>BootDevice := ucast bootDrive\<rparr>\<rparr>
                in case FAT_Open b disk (name_addr env) (stack_entry env) (ascii ''/kernel.bin'') s3 of None \<Rightarrow> None
                   | Some (fd, s4) \<Rightarrow>
                       case Memory_Detect e820 (stack_block env) (g_MemRegions s4) of None \<Rightarrow> None
                       | Some info \<Rightarrow>
                           let s5 = s4\<lparr>g_BootParams := (g_BootParams s4)\<lparr>Memory := info\<rparr>, g_MemRegions := Regions info\<rparr>
                           in case fd of None \<Rightarrow> None
                              | Some f \<Rightarrow>
                                  case load_kernel b disk f MEMORY_KERNEL_ADDR s5 of None \<Rightarrow> None
                                  | Some s6 \<Rightarrow> map_option (\<lambda>s7. Jumps (prepare_jump env s7)) (load_module b disk env (FAT_Close f s6)))"

end
