(* ===== verification/Fat_Files.thy ===== *)
theory Fat_Files
  imports Fat
begin

text \<open>
  What the disk and FAT12 driver of \<open>Fat\<close> does on a disk that can be read.

  The medium is a function from sector numbers to bytes. The geometry conversion addresses each sector
  by its number, a table entry is a 12-bit number of the packed table, and an open file is the bytes of
  the sectors of its cluster chain. The locale \<open>byte_stream\<close> is the contract between the loop of
  \<open>FAT_Read\<close> and the step to the next sector; it holds for the root directory and for every open file,
  and gives what reading and searching return.
\<close>

section \<open>Sectors and geometry\<close>

lemma unat_of_u8: "unat (ucast (x :: u8) :: 'a::len word) = unat x mod 2 ^ LENGTH('a)"
  by (simp add: unsigned_ucast_eq take_bit_eq_mod)

lemma unat_to_u16: "unat (ucast (x :: u32) :: u16) = unat x mod 65536"
  by (simp add: unsigned_ucast_eq take_bit_eq_mod)

lemma LBA2CHS_bounds:
  assumes "0 < sectors disk" "0 < heads disk" and "DISK_LBA2CHS disk lba = (c, sec, h)"
  shows "unat sec = unat lba mod unat (sectors disk) + 1" "unat h = unat lba div unat (sectors disk) mod unat (heads disk)"
    "unat c = unat lba div unat (sectors disk) div unat (heads disk) mod 65536"
    "1 \<le> unat sec" "unat sec \<le> unat (sectors disk)" "unat h < unat (heads disk)"
proof -
  let ?S = "unat (sectors disk)" and ?H = "unat (heads disk)"
  have pos: "0 < ?S" "0 < ?H" using assms(1,2) by (simp_all add: word_less_nat_alt)
  have lt: "?S < 65536" "?H < 65536" using unat_u16_lt by simp_all
  have m: "unat lba mod ?S < ?S" "unat lba div ?S mod ?H < ?H" using pos by simp_all
  have "unat (lba mod ucast (sectors disk) + 1) = unat lba mod ?S + 1"
    using m(1) lt(1) by (simp add: unat_word_ariths unat_mod unat_ucast16_32)
  then show sec: "unat sec = unat lba mod ?S + 1"
    using assms(3) m(1) lt(1) by (auto simp: DISK_LBA2CHS_def unat_to_u16)
  show h: "unat h = unat lba div ?S mod ?H"
    using assms(3) m(2) lt(2) by (auto simp: DISK_LBA2CHS_def unat_to_u16 unat_mod unat_div unat_ucast16_32)
  show "unat c = unat lba div ?S div ?H mod 65536"
    using assms(3) by (auto simp: DISK_LBA2CHS_def unat_to_u16 unat_mod unat_div unat_ucast16_32)
  show "1 \<le> unat sec" "unat sec \<le> ?S" "unat h < ?H" using m sec h by simp_all
qed

lemma LBA2CHS_lba:
  assumes "0 < sectors disk" "0 < heads disk" and "unat lba div unat (sectors disk) div unat (heads disk) < 65536"
    and "DISK_LBA2CHS disk lba = (c, sec, h)"
  shows "(unat c * unat (heads disk) + unat h) * unat (sectors disk) + (unat sec - 1) = unat lba"
  using assms(3) by (simp add: LBA2CHS_bounds(1-3) [OF assms(1,2,4)])

text \<open>A disk that can be read: a call for \<open>n\<close> sectors that stay on one track gets the sectors of the medium
  from the one that is addressed, numbered from 0.\<close>

definition reads_medium :: "bios \<Rightarrow> DISK \<Rightarrow> (nat \<Rightarrow> nat \<Rightarrow> u8) \<Rightarrow> bool" where
  "reads_medium b disk medium \<longleftrightarrow> 0 < sectors disk \<and> 0 < heads disk \<and>
     (\<forall>t c sec h n. unat c < unat (cylinders disk) \<longrightarrow> 1 \<le> unat sec \<longrightarrow> unat h < unat (heads disk) \<longrightarrow> 1 \<le> unat n \<longrightarrow>
        unat sec - 1 + unat n \<le> unat (sectors disk) \<longrightarrow>
        (let r = x86_Disk_Read b t (disk_id disk) c sec h n;
             lba = (unat c * unat (heads disk) + unat h) * unat (sectors disk) + (unat sec - 1)
         in fst r \<and> (\<forall>i<512 * unat n. snd r i = medium (lba + i div 512) (i mod 512))))"

definition lba_on_disk :: "DISK \<Rightarrow> u32 \<Rightarrow> bool" where
  "lba_on_disk disk lba \<longleftrightarrow> unat lba div unat (sectors disk) div unat (heads disk) < unat (cylinders disk)"

definition on_track :: "DISK \<Rightarrow> u32 \<Rightarrow> u8 \<Rightarrow> bool" where
  "on_track disk lba n \<longleftrightarrow> 1 \<le> unat n \<and> unat lba mod unat (sectors disk) + unat n \<le> unat (sectors disk)"

lemma read_sectors:
  assumes "reads_medium b disk medium" "on_track disk lba n" "lba_on_disk disk lba"
  shows "\<exists>d. DISK_ReadSectors b disk lba n buf t = (True, d, t + 1) \<and>
    (\<forall>i<512 * unat n. d i = medium (unat lba + i div 512) (i mod 512))"
proof -
  obtain c sec h where chs: "DISK_LBA2CHS disk lba = (c, sec, h)" by (metis prod_cases3)
  obtain ok d where r: "x86_Disk_Read b t (disk_id disk) c sec h n = (ok, d)" by fastforce
  have geo: "0 < sectors disk" "0 < heads disk" using assms by (simp_all add: reads_medium_def)
  note B = LBA2CHS_bounds [OF geo chs]
  let ?lba = "(unat c * unat (heads disk) + unat h) * unat (sectors disk) + (unat sec - 1)"
  have fit: "1 \<le> unat n" "unat sec - 1 + unat n \<le> unat (sectors disk)" using assms(2) by (simp_all add: on_track_def B(1))
  have cyl: "unat lba div unat (sectors disk) div unat (heads disk) < 65536"
    using assms(3) unat_u16_lt [of "cylinders disk"] by (simp add: lba_on_disk_def)
  then have "unat c < unat (cylinders disk)" using assms(3) by (simp add: lba_on_disk_def B(3))
  then have R: "ok \<and> (\<forall>i<512 * unat n. d i = medium (?lba + i div 512) (i mod 512))"
    using assms(1) B(4,6) fit unfolding reads_medium_def Let_def by (metis fst_conv snd_conv r)
  then have "DISK_ReadSectors b disk lba n buf t = (True, d, t + 1)"
    by (simp add: DISK_ReadSectors_def chs r numeral_3_eq_3)
  moreover have "\<forall>i<512 * unat n. d i = medium (unat lba + i div 512) (i mod 512)"
    using R LBA2CHS_lba [OF geo cyl chs] by simp
  ultimately show ?thesis by blast
qed

lemma read_sector:
  assumes "reads_medium b disk medium"
  shows "\<exists>ok d t'. DISK_ReadSectors b disk lba 1 buf t = (ok, d, t') \<and>
    (lba_on_disk disk lba \<longrightarrow> ok \<and> (\<forall>i<512. d i = medium (unat lba) i))"
proof (cases "lba_on_disk disk lba")
  case True
  have "0 < unat (sectors disk)" using assms by (simp add: reads_medium_def word_less_nat_alt)
  then have "on_track disk lba 1" by (simp add: on_track_def Suc_leI)
  from read_sectors [OF assms this True, of buf t] show ?thesis by auto
next
  case False
  then show ?thesis by (metis prod_cases3)
qed

lemma read_sector_on_disk:
  assumes "reads_medium b disk medium" "lba_on_disk disk lba"
  obtains d t' where "DISK_ReadSectors b disk lba 1 buf t = (True, d, t')" "\<forall>i<512. d i = medium (unat lba) i"
proof -
  obtain ok d t' where "DISK_ReadSectors b disk lba 1 buf t = (ok, d, t')" "ok \<and> (\<forall>i<512. d i = medium (unat lba) i)"
    using read_sector [OF assms(1), of lba buf t] assms(2) by blast
  with that show thesis by simp
qed

section \<open>The packed table\<close>

text \<open>The table as a sequence of half bytes, the low half of each byte first; an entry is three of
  them, the least significant first.\<close>

definition nibble :: "(nat \<Rightarrow> u8) \<Rightarrow> nat \<Rightarrow> nat" where
  "nibble B k = (if even k then unat (B (k div 2)) mod 16 else unat (B (k div 2)) div 16)"

definition fat12_entry :: "(nat \<Rightarrow> u8) \<Rightarrow> nat \<Rightarrow> nat" where
  "fat12_entry B n = nibble B (3 * n) + 16 * nibble B (3 * n + 1) + 256 * nibble B (3 * n + 2)"

lemma unat_word16: "unat (word16 B i) = unat (B i) + 256 * unat (B (i + 1))"
proof -
  have "word16 B i = ucast (B i) + push_bit 8 (ucast (B (i + 1)))"
    unfolding word16_def
    by (rule disjunctive_add [symmetric]) (auto simp: bit_simps dest: bit_imp_le_length)
  also have "unat \<dots> = unat (B i) + 256 * unat (B (i + 1))"
    using unat_u8_lt [of "B i"] unat_u8_lt [of "B (i + 1)"]
    by (simp add: push_bit_eq_mult unat_word_ariths unat_of_u8)
  finally show ?thesis .
qed

lemma low_12_bits: "a < 256 \<Longrightarrow> (a + 256 * b) mod 4096 = a mod 16 + 16 * (a div 16) + 256 * (b mod 16)" for a b :: nat
proof -
  assume a: "a < 256"
  have "a + 256 * b = (a + 256 * (b mod 16)) + 4096 * (b div 16)" using div_mult_mod_eq [of b 16] by linarith
  moreover have "a + 256 * (b mod 16) < 4096" using a mod_less_divisor [of 16 b] by linarith
  ultimately have "(a + 256 * b) mod 4096 = a + 256 * (b mod 16)" by (metis mod_less mod_mult_self2)
  then show ?thesis using div_mult_mod_eq [of a 16] by linarith
qed

lemma high_12_bits: "(a + 256 * b) div 16 = a div 16 + 16 * (b mod 16) + 256 * (b div 16)" for a b :: nat
proof -
  have "(a + 256 * b) div 16 = a div 16 + 16 * b" by (simp add: div_add1_eq)
  then show ?thesis using div_mult_mod_eq [of b 16] by linarith
qed

lemma next_cluster_entry:
  assumes "unat c < 0x55555556"
  shows "unat (FAT_NextCluster c s) = fat12_entry (g_Fat s) (unat c)"
proof -
  let ?B = "g_Fat s"
  have idx: "unat (c * 3 div 2) = unat c * 3 div 2" using assms by (simp add: unat_div unat_word_ariths)
  have parity: "c mod 2 = 0 \<longleftrightarrow> even (unat c)"
    by (simp add: even_iff_mod_2_eq_zero unat_eq_zero [symmetric] unat_mod)
  have low: "unat (x AND 0xFFF) = unat x mod 4096" for x :: u16
  proof -
    have "(0xFFF :: u16) = mask 12" by (simp add: mask_eq_exp_minus_1)
    then have "x AND 0xFFF = take_bit 12 x" by (simp add: take_bit_eq_mask)
    then have "unat (x AND 0xFFF) = take_bit 12 (unat x)" by (simp only: unsigned_take_bit_eq)
    then show ?thesis by (simp add: take_bit_eq_mod)
  qed
  have up: "unat (ucast (x :: u16) :: u32) = unat x" for x by (rule unat_ucast16_32)
  show ?thesis
  proof (cases "even (unat c)")
    case True
    then obtain m where m: "unat c = 2 * m" by (elim evenE)
    have "nibble ?B (3 * (2 * m)) = unat (?B (3 * m)) mod 16" "nibble ?B (3 * (2 * m) + 1) = unat (?B (3 * m)) div 16"
      "nibble ?B (3 * (2 * m) + 2) = unat (?B (3 * m + 1)) mod 16"
      by (simp_all add: nibble_def)
    moreover have "unat (FAT_NextCluster c s) = unat (word16 ?B (3 * m)) mod 4096"
      using True by (simp add: FAT_NextCluster_def Let_def parity idx m low up)
    ultimately show ?thesis
      using low_12_bits [OF unat_u8_lt, of "?B (3 * m)"] by (simp add: fat12_entry_def m unat_word16)
  next
    case False
    then obtain m where m: "unat c = 2 * m + 1" by (elim oddE)
    have "nibble ?B (3 * (2 * m + 1)) = unat (?B (3 * m + 1)) div 16"
      "nibble ?B (3 * (2 * m + 1) + 1) = unat (?B (3 * m + 2)) mod 16"
      "nibble ?B (3 * (2 * m + 1) + 2) = unat (?B (3 * m + 2)) div 16"
    proof -
      have "3 * (2 * m + 1) div 2 = 3 * m + 1" "(3 * (2 * m + 1) + 2) div 2 = 3 * m + 2" by presburger+
      then show "nibble ?B (3 * (2 * m + 1)) = unat (?B (3 * m + 1)) div 16"
        "nibble ?B (3 * (2 * m + 1) + 2) = unat (?B (3 * m + 2)) div 16"
        unfolding nibble_def by simp_all
      show "nibble ?B (3 * (2 * m + 1) + 1) = unat (?B (3 * m + 2)) mod 16" by (simp add: nibble_def)
    qed
    moreover have "unat (c * 3 div 2) = 3 * m + 1" using idx m by presburger
    then have "FAT_NextCluster c s = ucast (drop_bit 4 (word16 ?B (3 * m + 1)))"
      using False by (simp only: FAT_NextCluster_def Let_def parity if_False)
    then have "unat (FAT_NextCluster c s) = unat (word16 ?B (3 * m + 1)) div 16"
      by (simp add: up drop_bit_eq_div unat_div)
    ultimately show ?thesis
      using high_12_bits [of "unat (?B (3 * m + 1))"] by (simp add: fat12_entry_def m unat_word16)
  qed
qed

section \<open>A file as the sectors of its chain\<close>

definition same_volume :: "'a fat_scheme \<Rightarrow> 'a fat_scheme \<Rightarrow> bool" where
  "same_volume s s' \<longleftrightarrow> BootSectorBytes s' = BootSectorBytes s \<and> g_Fat s' = g_Fat s \<and>
     g_DataSectionLba s' = g_DataSectionLba s \<and> length (OpenedFiles s') = length (OpenedFiles s)"

lemma same_volume_refl [simp]: "same_volume s s"
  by (simp add: same_volume_def)

lemma same_volume_trans [trans]: "same_volume s t \<Longrightarrow> same_volume t u \<Longrightarrow> same_volume s u"
  by (simp add: same_volume_def)

lemma same_volume_update [simp]: "same_volume s (update_file h f s)" "same_volume s (s\<lparr>bios_calls := t\<rparr>)"
  "same_volume s (print fmt args u) = same_volume s u"
  by (simp_all add: same_volume_def update_file_def print_def)

text \<open>Cluster \<open>j\<close> of the chain that begins at \<open>c0\<close>, by the entries of the packed table; sector \<open>k\<close> of the
  file, and its bytes.\<close>

definition spc :: "'a fat_scheme \<Rightarrow> nat" where "spc s = unat (SectorsPerCluster s)"

definition chain :: "'a fat_scheme \<Rightarrow> u32 \<Rightarrow> nat \<Rightarrow> u32" where
  "chain s c0 j = ((\<lambda>c. of_nat (fat12_entry (g_Fat s) (unat c))) ^^ j) c0"

definition sector_of :: "'a fat_scheme \<Rightarrow> u32 \<Rightarrow> nat \<Rightarrow> u32" where
  "sector_of s c0 k = FAT_ClusterToLba (chain s c0 (k div spc s)) s + of_nat (k mod spc s)"

definition file_byte :: "(nat \<Rightarrow> nat \<Rightarrow> u8) \<Rightarrow> 'a fat_scheme \<Rightarrow> u32 \<Rightarrow> nat \<Rightarrow> u8" where
  "file_byte medium s c0 i = medium (unat (sector_of s c0 (i div 512))) (i mod 512)"

definition chain_ok :: "DISK \<Rightarrow> 'a fat_scheme \<Rightarrow> u32 \<Rightarrow> nat \<Rightarrow> bool" where
  "chain_ok disk s c0 len \<longleftrightarrow> 0 < spc s \<and>
     (\<forall>k. 512 * k < len \<longrightarrow> chain s c0 (k div spc s) < 0xFF8 \<and> lba_on_disk disk (sector_of s c0 k))"

lemma volume_functions:
  assumes "same_volume s s'"
  shows "spc s' = spc s" "SectorsPerCluster s' = SectorsPerCluster s" "FAT_NextCluster c s' = FAT_NextCluster c s"
    "FAT_ClusterToLba c s' = FAT_ClusterToLba c s"
    "chain s' c0 j = chain s c0 j" "sector_of s' c0 k = sector_of s c0 k" "file_byte medium s' c0 i = file_byte medium s c0 i"
    "chain_ok disk s' c0 len = chain_ok disk s c0 len"
proof -
  show sc: "SectorsPerCluster s' = SectorsPerCluster s" and n: "FAT_NextCluster c s' = FAT_NextCluster c s"
    and l: "FAT_ClusterToLba c s' = FAT_ClusterToLba c s" for c
    using assms by (simp_all add: same_volume_def SectorsPerCluster_def FAT_NextCluster_def FAT_ClusterToLba_def Let_def)
  show sp: "spc s' = spc s" by (simp add: spc_def sc)
  show ch: "chain s' c0 j = chain s c0 j" for c0 j using assms by (simp add: chain_def same_volume_def)
  show so: "sector_of s' c0 k = sector_of s c0 k" for c0 k by (simp add: sector_of_def l sp ch)
  show "file_byte medium s' c0 i = file_byte medium s c0 i" by (simp add: file_byte_def so)
  show "chain_ok disk s' c0 len = chain_ok disk s c0 len" by (simp add: chain_ok_def sp ch so)
qed

text \<open>An open file of \<open>len\<close> bytes at position \<open>p\<close>: before the end, the buffer is the sector of the position.\<close>

definition at_sector :: "(nat \<Rightarrow> nat \<Rightarrow> u8) \<Rightarrow> 'a fat_scheme \<Rightarrow> FAT_FileData \<Rightarrow> u32 \<Rightarrow> nat \<Rightarrow> bool" where
  "at_sector medium s fd c0 k \<longleftrightarrow> CurrentCluster fd = chain s c0 (k div spc s) \<and>
     unat (CurrentSectorInCluster fd) = k mod spc s \<and> (\<forall>i<512. Buffer fd i = medium (unat (sector_of s c0 k)) i)"

definition at_pos :: "(nat \<Rightarrow> nat \<Rightarrow> u8) \<Rightarrow> 'a fat_scheme \<Rightarrow> nat \<Rightarrow> u32 \<Rightarrow> nat \<Rightarrow> nat \<Rightarrow> bool" where
  "at_pos medium s h c0 len p \<longleftrightarrow> h < length (OpenedFiles s) \<and>
     (let fd = file_data (int h) s
      in Handle (Public fd) = int h \<and> \<not> IsDirectory (Public fd) \<and> unat (Position (Public fd)) = p \<and>
         unat (Size (Public fd)) = len \<and> p \<le> len \<and> (p < len \<longrightarrow> at_sector medium s fd c0 (p div 512)))"

lemma file_data_update [simp]:
  "h < length (OpenedFiles s) \<Longrightarrow> file_data (int h) (update_file (int h) f s) = f (file_data (int h) s)"
  "h < length (OpenedFiles (update_file (int h) f s)) \<longleftrightarrow> h < length (OpenedFiles s)"
  "file_data h' (s\<lparr>bios_calls := t\<rparr>) = file_data h' s" "OpenedFiles (s\<lparr>bios_calls := t\<rparr>) = OpenedFiles s"
  "file_data h' (print fmt args s) = file_data h' s" "OpenedFiles (print fmt args s) = OpenedFiles s"
  "RootDirectory (print fmt args s) = RootDirectory s"
  by (simp_all add: file_data_def update_file_def ROOT_DIRECTORY_HANDLE_def print_def)

lemma read_buffer_medium:
  assumes "reads_medium b disk medium" "h < length (OpenedFiles s)"
  shows "\<exists>ok s' d. read_buffer b disk (int h) lba s = (ok, s') \<and> same_volume s s' \<and>
    file_data (int h) s' = (file_data (int h) s)\<lparr>Buffer := d\<rparr> \<and>
    (lba_on_disk disk lba \<longrightarrow> ok \<and> (\<forall>i<512. d i = medium (unat lba) i))"
proof -
  obtain ok d t where d: "DISK_ReadSectors b disk lba 1 (Buffer (file_data (int h) s)) (bios_calls s) = (ok, d, t)"
    "lba_on_disk disk lba \<longrightarrow> ok \<and> (\<forall>i<512. d i = medium (unat lba) i)"
    using read_sector [OF assms(1)] by blast
  let ?s = "update_file (int h) (\<lambda>f. f\<lparr>Buffer := d\<rparr>) (s\<lparr>bios_calls := t\<rparr>)"
  have "same_volume s ?s" by (rule same_volume_trans [OF same_volume_update(2) same_volume_update(1)])
  with d assms(2) show ?thesis
    by (intro exI [of _ ok] exI [of _ ?s] exI [of _ d]) (simp add: read_buffer_def)
qed

text \<open>The step at the end of sector \<open>k\<close>.\<close>

lemma chain_Suc: "chain s c0 (Suc j) = of_nat (fat12_entry (g_Fat s) (unat (chain s c0 j)))"
  by (simp add: chain_def)

lemma next_in_chain:
  assumes "c < 0xFF8"
  shows "FAT_NextCluster c s = of_nat (fat12_entry (g_Fat s) (unat c))"
proof -
  have "unat c < 0xFF8" using assms by (simp add: word_less_nat_alt)
  then have "unat (FAT_NextCluster c s) = fat12_entry (g_Fat s) (unat c)" by (intro next_cluster_entry) simp
  then show ?thesis by (metis of_nat_unat ucast_id)
qed

lemma div_mod_Suc:
  "0 < m \<Longrightarrow> Suc k div m = (if Suc (k mod m) = m then Suc (k div m) else k div m)"
  "0 < m \<Longrightarrow> Suc k mod m = (if Suc (k mod m) = m then 0 else Suc (k mod m))"
  by (simp_all add: div_Suc mod_Suc)

text \<open>The step of \<open>next_sector\<close> in a file: to the next sector of the cluster, or to the first of the next one.\<close>

definition step_in_chain :: "int \<Rightarrow> 'a fat_scheme \<Rightarrow> 'a fat_scheme" where
  "step_in_chain h s =
     (let s1 = update_file h (\<lambda>f. f\<lparr>CurrentSectorInCluster := CurrentSectorInCluster f + 1\<rparr>) s
      in if CurrentSectorInCluster (file_data h s1) \<ge> ucast (SectorsPerCluster s1)
         then update_file h (\<lambda>f. f\<lparr>CurrentCluster := FAT_NextCluster (CurrentCluster f) s1, CurrentSectorInCluster := 0\<rparr>) s1
         else s1)"

lemma next_sector_file:
  "Handle (Public (file_data h s)) \<noteq> ROOT_DIRECTORY_HANDLE \<Longrightarrow> next_sector b disk h s =
     (let s2 = step_in_chain h s; fd = file_data h s2
      in if CurrentCluster fd \<ge> 0xFF8
         then (False, update_file h (\<lambda>f. f\<lparr>Public := (Public f)\<lparr>Size := Position (Public f)\<rparr>\<rparr>) s2)
         else let (ok, s3) = read_buffer b disk h (FAT_ClusterToLba (CurrentCluster fd) s2 + CurrentSectorInCluster fd) s2
              in if ok then (True, s3) else (False, print (ascii ''FAT: read error!'' @ [0x0D, 0x0A]) [] s3))"
  unfolding next_sector_def step_in_chain_def Let_def by (simp only: if_False)

lemma step_in_chain_correct:
  assumes spc: "0 < spc s" and h: "h < length (OpenedFiles s)" and inside: "chain s c0 (k div spc s) < 0xFF8"
    and cur: "CurrentCluster (file_data (int h) s) = chain s c0 (k div spc s)"
      "unat (CurrentSectorInCluster (file_data (int h) s)) = k mod spc s"
  shows "same_volume s (step_in_chain (int h) s)"
    "CurrentCluster (file_data (int h) (step_in_chain (int h) s)) = chain s c0 (Suc k div spc s)"
    "unat (CurrentSectorInCluster (file_data (int h) (step_in_chain (int h) s))) = Suc k mod spc s"
    "Public (file_data (int h) (step_in_chain (int h) s)) = Public (file_data (int h) s)"
proof -
  define s1 where "s1 = update_file (int h) (\<lambda>f. f\<lparr>CurrentSectorInCluster := CurrentSectorInCluster f + 1\<rparr>) s"
  have v1: "same_volume s s1" by (simp add: s1_def)
  note V1 = volume_functions [OF v1]
  have h1: "h < length (OpenedFiles s1)"
    and f1: "file_data (int h) s1 = (file_data (int h) s)\<lparr>CurrentSectorInCluster := CurrentSectorInCluster (file_data (int h) s) + 1\<rparr>"
    using h by (simp_all add: s1_def)
  have "k mod spc s < spc s" "spc s < 256" using spc by (simp_all add: spc_def unat_u8_lt)
  then have inc: "unat (CurrentSectorInCluster (file_data (int h) s) + 1) = Suc (k mod spc s)"
    using cur(2) by (simp add: unat_word_ariths)
  have full: "CurrentSectorInCluster (file_data (int h) s1) \<ge> ucast (SectorsPerCluster s1) \<longleftrightarrow> Suc (k mod spc s) = spc s"
    using mod_less_divisor [OF spc, of k]
    by (auto simp: f1 V1 word_le_nat_alt inc unat_ucast8_32 spc_def [symmetric])
  have s2: "step_in_chain (int h) s = (if Suc (k mod spc s) = spc s
      then update_file (int h) (\<lambda>f. f\<lparr>CurrentCluster := FAT_NextCluster (CurrentCluster f) s1, CurrentSectorInCluster := 0\<rparr>) s1
      else s1)"
    unfolding step_in_chain_def Let_def s1_def [symmetric] full ..
  show "same_volume s (step_in_chain (int h) s)" using v1 same_volume_trans [OF v1] by (simp add: s2)
  show "CurrentCluster (file_data (int h) (step_in_chain (int h) s)) = chain s c0 (Suc k div spc s)"
    "unat (CurrentSectorInCluster (file_data (int h) (step_in_chain (int h) s))) = Suc k mod spc s"
    "Public (file_data (int h) (step_in_chain (int h) s)) = Public (file_data (int h) s)"
    using h1 by (simp_all add: s2 f1 div_mod_Suc [OF spc] inc cur(1) V1 next_in_chain [OF inside] chain_Suc)
qed

lemma next_sector_step:
  assumes b: "reads_medium b disk medium" and ok: "chain_ok disk s c0 len" and h: "h < length (OpenedFiles s)"
    and fd: "fd = file_data (int h) s" "Handle (Public fd) = int h" "\<not> IsDirectory (Public fd)"
      "unat (Position (Public fd)) = 512 * Suc k" "unat (Size (Public fd)) = len" "512 * Suc k \<le> len"
    and cur: "CurrentCluster fd = chain s c0 (k div spc s)" "unat (CurrentSectorInCluster fd) = k mod spc s"
  shows "\<exists>cont s'. next_sector b disk (int h) s = (cont, s') \<and> same_volume s s' \<and>
    at_pos medium s' h c0 len (512 * Suc k) \<and> (\<not> cont \<longrightarrow> len = 512 * Suc k)"
proof -
  have spc: "0 < spc s" using ok by (simp add: chain_ok_def)
  have "512 * k < len" using fd(6) by simp
  then have inside: "chain s c0 (k div spc s) < 0xFF8" using ok unfolding chain_ok_def by blast
  let ?s2 = "step_in_chain (int h) s"
  define g where "g = file_data (int h) ?s2"
  note S = step_in_chain_correct [OF spc h inside cur [unfolded fd(1)], folded g_def fd(1)]
  note V2 = volume_functions [OF S(1)]
  have h2: "h < length (OpenedFiles ?s2)" using S(1) h by (simp add: same_volume_def)
  have unf: "next_sector b disk (int h) s =
      (if CurrentCluster g \<ge> 0xFF8
       then (False, update_file (int h) (\<lambda>f. f\<lparr>Public := (Public f)\<lparr>Size := Position (Public f)\<rparr>\<rparr>) ?s2)
       else let (ok, s3) = read_buffer b disk (int h) (FAT_ClusterToLba (CurrentCluster g) ?s2 + CurrentSectorInCluster g) ?s2
            in if ok then (True, s3) else (False, print (ascii ''FAT: read error!'' @ [0x0D, 0x0A]) [] s3))"
    using next_sector_file [of "int h" s b disk] fd(1,2) by (simp add: ROOT_DIRECTORY_HANDLE_def g_def Let_def)
  show ?thesis
  proof (cases "CurrentCluster g \<ge> 0xFF8")
    case True
    then have "\<not> chain s c0 (Suc k div spc s) < 0xFF8" using S(2) by simp
    then have "\<not> 512 * Suc k < len" using ok unfolding chain_ok_def by blast
    then have len: "len = 512 * Suc k" using fd(6) by simp
    let ?s = "update_file (int h) (\<lambda>f. f\<lparr>Public := (Public f)\<lparr>Size := Position (Public f)\<rparr>\<rparr>) ?s2"
    have "file_data (int h) ?s = g\<lparr>Public := (Public fd)\<lparr>Size := Position (Public fd)\<rparr>\<rparr>" "h < length (OpenedFiles ?s)"
      using h2 by (simp_all add: g_def [symmetric] S(4))
    then have "at_pos medium ?s h c0 len (512 * Suc k)"
      using fd(2-4) len by (simp add: at_pos_def Let_def del: mult_Suc_right)
    moreover have "same_volume s ?s" using S(1) by (rule same_volume_trans) simp
    moreover have "next_sector b disk (int h) s = (False, ?s)" using unf True by simp
    ultimately show ?thesis using len by blast
  next
    case False
    let ?lba = "FAT_ClusterToLba (CurrentCluster g) ?s2 + CurrentSectorInCluster g"
    have lba: "?lba = sector_of s c0 (Suc k)"
      using S(3) by (simp add: sector_of_def V2 S(2)) (metis of_nat_unat ucast_id)
    obtain cont s3 d where r: "read_buffer b disk (int h) ?lba ?s2 = (cont, s3)" "same_volume ?s2 s3"
      "file_data (int h) s3 = g\<lparr>Buffer := d\<rparr>" "lba_on_disk disk ?lba \<longrightarrow> cont \<and> (\<forall>i<512. d i = medium (unat ?lba) i)"
      using read_buffer_medium [OF b h2, of ?lba] by (auto simp: g_def)
    define s4 where "s4 = (if cont then s3 else print (ascii ''FAT: read error!'' @ [0x0D, 0x0A]) [] s3)"
    have v4: "same_volume s s4" using same_volume_trans [OF S(1) r(2)] by (simp add: s4_def)
    have h4: "h < length (OpenedFiles s4)" using v4 h by (simp add: same_volume_def)
    have f4: "file_data (int h) s4 = g\<lparr>Buffer := d\<rparr>" using r(3) by (simp add: s4_def)
    have here: "lba_on_disk disk ?lba" if "512 * Suc k < len"
      using ok that unfolding lba chain_ok_def by blast
    then have sec: "at_sector medium s4 (g\<lparr>Buffer := d\<rparr>) c0 (Suc k)" if "512 * Suc k < len"
      using r(4) that unfolding lba
      by (simp add: at_sector_def volume_functions [OF v4] S(2,3) del: mult_Suc_right)
    have "512 * Suc k div 512 = Suc k" by simp
    with sec have "at_pos medium s4 h c0 len (512 * Suc k)"
      using h4 fd(2-6) by (simp add: at_pos_def f4 S(4) Let_def del: mult_Suc_right)
    moreover have "len = 512 * Suc k" if "\<not> cont" using here r(4) that fd(6) by linarith
    moreover have "next_sector b disk (int h) s = (cont, s4)" using False unf r(1) by (simp add: s4_def)
    ultimately show ?thesis using v4 by blast
  qed
qed

section \<open>Reading is taking the bytes of the file\<close>

lemma unat_take_of: "unat (take_of n pos) = min (unat n) (512 - unat pos mod 512)"
proof -
  have "unat (SECTOR_SIZE - pos mod SECTOR_SIZE) = 512 - unat pos mod 512"
    by (subst unat_sub) (simp_all add: SECTOR_SIZE_def unat_mod word_le_nat_alt less_imp_le)
  then show ?thesis by (simp add: take_of_def min_def word_le_nat_alt)
qed

lemma block_offset:
  assumes "p mod 512 + i < (512 :: nat)"
  shows "(p + i) div 512 = p div 512" "(p + i) mod 512 = p mod 512 + i"
proof -
  have "p + i = (p mod 512 + i) + 512 * (p div 512)" using div_mult_mod_eq [of p 512] by linarith
  then show "(p + i) div 512 = p div 512" "(p + i) mod 512 = p mod 512 + i"
    using assms by (metis div_less div_mult_self2 add_0_right zero_neq_numeral, metis mod_less mod_mult_self2)
qed

lemma next_block: "p + (512 - p mod 512) = 512 * Suc (p div 512)" for p :: nat
proof -
  have "p mod 512 < 512" "p = 512 * (p div 512) + p mod 512" by simp_all
  then show ?thesis unfolding mult_Suc_right by linarith
qed

lemma left_in_buffer: "unat pos = p \<Longrightarrow> unat (SECTOR_SIZE - pos mod SECTOR_SIZE) = 512 - p mod 512"
  by (subst unat_sub) (auto simp: SECTOR_SIZE_def unat_mod word_le_nat_alt less_imp_le)

text \<open>Advancing the position by \<open>m\<close> bytes within the buffer, or to its end and to the next sector.\<close>

definition advance :: "u32 \<Rightarrow> FAT_FileData \<Rightarrow> FAT_FileData" where
  "advance m f = f\<lparr>Public := (Public f)\<lparr>Position := Position (Public f) + m\<rparr>\<rparr>"

lemma advance_simps [simp]:
  "Position (Public (advance m f)) = Position (Public f) + m" "Handle (Public (advance m f)) = Handle (Public f)"
  "IsDirectory (Public (advance m f)) = IsDirectory (Public f)" "Size (Public (advance m f)) = Size (Public f)"
  "Buffer (advance m f) = Buffer f" "CurrentCluster (advance m f) = CurrentCluster f"
  "CurrentSectorInCluster (advance m f) = CurrentSectorInCluster f"
  by (simp_all add: advance_def)

lemma at_posD:
  assumes "at_pos medium s h c0 len p" "fd = file_data (int h) s"
  shows "h < length (OpenedFiles s)" "Handle (Public fd) = int h" "\<not> IsDirectory (Public fd)"
    "unat (Position (Public fd)) = p" "unat (Size (Public fd)) = len" "p \<le> len"
    "p < len \<Longrightarrow> at_sector medium s fd c0 (p div 512)"
  using assms by (simp_all add: at_pos_def Let_def)

lemma advance_position:
  assumes "at_pos medium s h c0 len p" "fd = file_data (int h) s" "p + unat m \<le> len"
  shows "unat (Position (Public fd) + m) = p + unat m"
proof -
  have "len < 4294967296" using at_posD(5) [OF assms(1,2)] unat_u32_lt [of "Size (Public fd)"] by simp
  with assms(3) show ?thesis by (simp add: unat_word_ariths at_posD(4) [OF assms(1,2)])
qed

lemma advance_within:
  assumes "at_pos medium s h c0 len p" "p mod 512 + unat m < 512" "p + unat m \<le> len" "p < len"
  shows "at_pos medium (update_file (int h) (advance m) s) h c0 len (p + unat m)"
proof -
  define fd where "fd = file_data (int h) s"
  note P = at_posD [OF assms(1) fd_def]
  note V = volume_functions [OF same_volume_update(1) [of s "int h" "advance m"]]
  have "at_sector medium s fd c0 ((p + unat m) div 512)"
    using P(7) assms(4) by (simp only: block_offset(1) [OF assms(2)])
  then show ?thesis
    using P(1-6) advance_position [OF assms(1) fd_def assms(3)] assms(3)
    by (simp add: at_pos_def at_sector_def V Let_def fd_def [symmetric])
qed

lemma advance_to_next:
  assumes "reads_medium b disk medium" "chain_ok disk s c0 len" "at_pos medium s h c0 len p"
    "unat m = 512 - p mod 512" "p + unat m \<le> len"
  shows "\<exists>cont t. next_sector b disk (int h) (update_file (int h) (advance m) s) = (cont, t) \<and> same_volume s t \<and>
    at_pos medium t h c0 len (p + unat m) \<and> (\<not> cont \<longrightarrow> len = p + unat m)"
proof -
  define fd where "fd = file_data (int h) s"
  let ?s = "update_file (int h) (advance m) s"
  note P = at_posD [OF assms(3) fd_def]
  have v: "same_volume s ?s" by (rule same_volume_update)
  note V = volume_functions [OF v]
  have pk: "p + unat m = 512 * Suc (p div 512)" by (simp only: assms(4) next_block)
  have "0 < unat m" using assms(4) by simp
  then have "p < len" using assms(5) by linarith
  then have sec: "at_sector medium s fd c0 (p div 512)" by (rule P(7))
  have "\<exists>cont t. next_sector b disk (int h) ?s = (cont, t) \<and> same_volume ?s t \<and>
      at_pos medium t h c0 len (512 * Suc (p div 512)) \<and> (\<not> cont \<longrightarrow> len = 512 * Suc (p div 512))"
    by (rule next_sector_step [where fd = "advance m fd", OF assms(1)])
      (use P(1-5) sec assms(2,5) advance_position [OF assms(3) fd_def assms(5)] in
        \<open>simp_all add: V pk fd_def [symmetric] at_sector_def del: mult_Suc_right\<close>)
  then show ?thesis unfolding pk using same_volume_trans [OF v] by blast
qed

section \<open>The contract of the reading loop\<close>

text \<open>The bytes \<open>content\<close> of the \<open>len\<close> bytes behind a handle, and \<open>at s p\<close>: it stands at position \<open>p\<close>.
  The position can be advanced within the buffer, and to the end of the buffer when the step to the next
  sector follows.\<close>

locale byte_stream =
  fixes b :: bios and disk :: DISK and ptr :: file_ptr and h :: int and content :: "nat \<Rightarrow> u8" and len :: nat
    and at :: "'a fat_scheme \<Rightarrow> nat \<Rightarrow> bool"
  assumes pointer: "at s p \<Longrightarrow> Handle (deref ptr s) = h"
    and position: "at s p \<Longrightarrow> unat (Position (Public (file_data h s))) = p"
    and bounded: "at s p \<Longrightarrow> unat (Size (Public (file_data h s))) = len \<and> p \<le> len \<and>
      (IsDirectory (Public (file_data h s)) \<longrightarrow> 0 < len)"
    and buffered: "at s p \<Longrightarrow> p < len \<Longrightarrow> p mod 512 + i < 512 \<Longrightarrow> Buffer (file_data h s) (p mod 512 + i) = content (p + i)"
    and within: "at s p \<Longrightarrow> p < len \<Longrightarrow> p mod 512 + unat m < 512 \<Longrightarrow> p + unat m \<le> len \<Longrightarrow>
      at (update_file h (advance m) s) (p + unat m)"
    and to_next: "at s p \<Longrightarrow> unat m = 512 - p mod 512 \<Longrightarrow> p + unat m \<le> len \<Longrightarrow>
      \<exists>cont t. next_sector b disk h (update_file h (advance m) s) = (cont, t) \<and> at t (p + unat m) \<and> (\<not> cont \<longrightarrow> len = p + unat m)"
begin

lemma buffer_bytes:
  assumes "at s p" "p < len" "p mod 512 + m \<le> 512"
  shows "map (\<lambda>i. Buffer (file_data h s) (p mod 512 + i)) [0..<m] = map content [p..<p + m]"
  using assms by (intro nth_equalityI) (simp_all add: buffered)

lemma read_loop_step:
  assumes "at s p" "p + unat n \<le> len" "n \<noteq> 0"
  shows "\<exists>tk cont t. 0 < unat tk \<and> unat tk \<le> unat n \<and>
    (let out' = out @ map content [p..<p + unat tk]
     in read_loop b disk h n out s = (if cont then read_loop b disk h (n - tk) out' t else (out', t))) \<and>
    at t (p + unat tk) \<and> (\<not> cont \<longrightarrow> unat tk = unat n)"
proof -
  define fd where "fd = file_data h s"
  define tk where "tk = take_of n (Position (Public fd))"
  define out' where "out' = out @ map content [p..<p + unat tk]"
  let ?left = "SECTOR_SIZE - Position (Public fd) mod SECTOR_SIZE" and ?s = "update_file h (advance tk) s"
  have pos: "unat (Position (Public fd)) = p" unfolding fd_def by (rule position [OF assms(1)])
  have n0: "0 < unat n" using assms(3) by (simp add: unat_gt_0)
  then have plen: "p < len" using assms(2) by linarith
  have "unat tk = min (unat n) (512 - p mod 512)" by (simp add: tk_def unat_take_of pos)
  then have tkn: "0 < unat tk" "unat tk \<le> unat n" "p mod 512 + unat tk \<le> 512" using n0 by simp_all
  then have tkl: "p + unat tk \<le> len" using assms(2) by linarith
  have off: "unat (Position (Public fd) mod SECTOR_SIZE) = p mod 512" by (simp add: SECTOR_SIZE_def unat_mod pos)
  have unf: "read_loop b disk h n out s =
      (if ?left = tk
       then let (continue, t) = next_sector b disk h ?s
            in if continue then read_loop b disk h (n - tk) out' t else (out', t)
       else read_loop b disk h (n - tk) out' ?s)"
    using assms(3) buffer_bytes [OF assms(1) plen tkn(3)] by (subst read_loop.simps)
      (simp only: fd_def [symmetric] tk_def [symmetric] advance_def [symmetric] out'_def Let_def off if_False)
  show ?thesis
  proof (cases "?left = tk")
    case True
    then have "unat tk = 512 - p mod 512" using left_in_buffer [OF pos] by simp
    then obtain cont t where ns: "next_sector b disk h ?s = (cont, t)" "at t (p + unat tk)" "\<not> cont \<longrightarrow> len = p + unat tk"
      using to_next [OF assms(1) _ tkl] by blast
    then have "\<not> cont \<longrightarrow> unat tk = unat n" using assms(2) tkn(2) by linarith
    then show ?thesis using ns unf True tkn unfolding Let_def out'_def [symmetric]
      by (intro exI [of _ tk] exI [of _ cont] exI [of _ t]) (simp add: out'_def)
  next
    case False
    then have "unat tk \<noteq> 512 - p mod 512" using left_in_buffer [OF pos] by (metis unsigned_word_eqI)
    then have "p mod 512 + unat tk < 512" using tkn(3) by linarith
    from within [OF assms(1) plen this tkl] show ?thesis
      using unf False tkn by (intro exI [of _ tk] exI [of _ True] exI [of _ ?s]) (simp add: out'_def)
  qed
qed

lemma read_loop_bytes:
  assumes "at s p" "p + unat n \<le> len"
  shows "\<exists>s'. read_loop b disk h n out s = (out @ map content [p..<p + unat n], s') \<and> at s' (p + unat n)"
  using assms
proof (induction "unat n" arbitrary: n p out s rule: less_induct)
  case less
  show ?case
  proof (cases "n = 0")
    case True
    then show ?thesis using less.prems by (subst read_loop.simps) simp
  next
    case False
    obtain tk cont t where tk: "0 < unat tk" "unat tk \<le> unat n"
      and unf: "read_loop b disk h n out s =
        (if cont then read_loop b disk h (n - tk) (out @ map content [p..<p + unat tk]) t
         else (out @ map content [p..<p + unat tk], t))"
      and t: "at t (p + unat tk)" "\<not> cont \<longrightarrow> unat tk = unat n"
      using read_loop_step [OF less.prems False, of out] unfolding Let_def by blast
    have nn: "unat (n - tk) = unat n - unat tk" using tk(2) by (simp add: unat_sub word_le_nat_alt)
    have lt: "unat (n - tk) < unat n" and sum: "p + unat tk + unat (n - tk) = p + unat n" using nn tk by simp_all
    show ?thesis
    proof (cases cont)
      case True
      have "[p..<p + unat n] = [p..<p + unat tk] @ [p + unat tk..<p + unat n]"
        using tk(2) upt_add_eq_append [of p "p + unat tk" "unat n - unat tk"] by simp
      then show ?thesis
        using less.hyps [OF lt t(1), of "out @ map content [p..<p + unat tk]", unfolded sum] less.prems(2) unf True
        by auto
    next
      case False
      with unf t show ?thesis by simp
    qed
  qed
qed

lemma read:
  assumes "at s p"
  shows "\<exists>s'. FAT_Read b disk ptr n s = (map content [p..<min (p + unat n) len], s') \<and> at s' (min (p + unat n) len)"
proof -
  let ?pub = "Public (file_data h s)"
  define m where "m = min n (Size ?pub - Position ?pub)"
  note B = bounded [OF assms]
  have "unat (Size ?pub - Position ?pub) = len - p"
    using B position [OF assms] by (simp add: unat_sub word_le_nat_alt)
  then have "unat m = min (unat n) (len - p)" by (simp add: m_def min_def word_le_nat_alt)
  then have sum: "p + unat m = min (p + unat n) len" using B by (auto simp: min_def)
  moreover have "IsDirectory ?pub \<longrightarrow> Size ?pub \<noteq> 0" using B by (auto simp: unat_eq_zero)
  then have "FAT_Read b disk ptr n s = read_loop b disk h m [] s"
    by (auto simp: FAT_Read_def Let_def pointer [OF assms] m_def)
  moreover have "p + unat m \<le> len" using sum by simp
  ultimately show ?thesis using read_loop_bytes [OF assms, of m "[]"] by auto
qed

lemma read_entry:
  assumes "at s (32 * j)" "32 dvd len"
  shows "32 * j < len \<Longrightarrow> \<exists>e' s'. FAT_ReadEntry b disk ptr e s = (True, e', s') \<and> (\<forall>i<32. e' i = content (32 * j + i)) \<and> at s' (32 * Suc j)"
    and "\<not> 32 * j < len \<Longrightarrow> \<exists>s'. FAT_ReadEntry b disk ptr e s = (False, e, s') \<and> at s' len"
proof -
  obtain s' where r: "FAT_Read b disk ptr 32 s = (map content [32 * j..<min (32 * j + 32) len], s')" "at s' (min (32 * j + 32) len)"
    using read [OF assms(1), of 32] by auto
  { assume "32 * j < len"
    then have "min (32 * j + 32) len = 32 * j + 32" using assms(2) by (auto elim!: dvdE)
    with r show "\<exists>e' s'. FAT_ReadEntry b disk ptr e s = (True, e', s') \<and> (\<forall>i<32. e' i = content (32 * j + i)) \<and> at s' (32 * Suc j)"
      by (simp add: FAT_ReadEntry_def add.commute) }
  { assume "\<not> 32 * j < len"
    then have "min (32 * j + 32) len = len" "32 * j \<ge> len" by simp_all
    with r show "\<exists>s'. FAT_ReadEntry b disk ptr e s = (False, e, s') \<and> at s' len" by (simp add: FAT_ReadEntry_def) }
qed

text \<open>The search stops at the first entry with the name.\<close>

definition name_at :: "nat \<Rightarrow> u8 list" where "name_at k = map (\<lambda>i. content (32 * k + i)) [0..<11]"

lemma find_loop_first:
  assumes "at s (32 * j)" "32 dvd len"
  shows "(case scan (\<lambda>k. if name_at k = take 11 N then Some k else None) j (len div 32 - j) of
      None \<Rightarrow> \<exists>s'. find_loop b disk ptr N e s = Some (None, s') \<and> at s' len
    | Some k \<Rightarrow> \<exists>e' s'. find_loop b disk ptr N e s = Some (Some e', s') \<and> (\<forall>i<32. e' i = content (32 * k + i)) \<and> at s' (32 * Suc k))"
  using assms(1)
proof (induction "len div 32 - j" arbitrary: j e s)
  case 0
  then have "\<not> 32 * j < len" using assms(2) by auto
  with read_entry(2) [OF 0(2) assms(2), of e] obtain s' where "FAT_ReadEntry b disk ptr e s = (False, e, s')" "at s' len" by blast
  then show ?case using 0(1) by (subst find_loop.simps) simp
next
  case (Suc d)
  then have lt: "32 * j < len" by auto
  obtain e' s' where r: "FAT_ReadEntry b disk ptr e s = (True, e', s')" "\<forall>i<32. e' i = content (32 * j + i)" "at s' (32 * Suc j)"
    using read_entry(1) [OF Suc(3) assms(2) lt] by blast
  have name: "entry_name e' = name_at j" using r(2) by (simp add: entry_name_def name_at_def)
  have "d = len div 32 - Suc j" "len div 32 - j = Suc (len div 32 - Suc j)" using Suc(2) by simp_all
  note IH = Suc(1) [OF this(1) r(3), of e'] and step = this(2)
  show ?case
  proof (cases "name_at j = take 11 N")
    case True
    then have "find_loop b disk ptr N e s = Some (Some e', s')" using r(1) name by (subst find_loop.simps) simp
    then show ?thesis using r(2,3) True by (simp add: step)
  next
    case False
    then have eq: "find_loop b disk ptr N e s = find_loop b disk ptr N e' s'" using r(1) name by (subst find_loop.simps) simp
    show ?thesis using IH False unfolding eq by (simp add: step)
  qed
qed

end

text \<open>An open file keeps the contract.\<close>

definition file_at :: "bios \<Rightarrow> DISK \<Rightarrow> (nat \<Rightarrow> nat \<Rightarrow> u8) \<Rightarrow> 'a fat_scheme \<Rightarrow> nat \<Rightarrow> u32 \<Rightarrow> nat \<Rightarrow> 'a fat_scheme \<Rightarrow> nat \<Rightarrow> bool" where
  "file_at b disk medium s0 h c0 len s p \<longleftrightarrow> reads_medium b disk medium \<and> chain_ok disk s0 c0 len \<and> same_volume s0 s \<and>
     at_pos medium s h c0 len p"

interpretation open_file: byte_stream b disk "FilePtr h" "int h" "file_byte medium s0 c0" len "file_at b disk medium s0 h c0 len"
  for b disk medium s0 h c0 len
proof unfold_locales
  fix s p i and m :: u32 assume a: "file_at b disk medium s0 h c0 len s p"
  note A = a [unfolded file_at_def]
  note P = at_posD [OF conjunct2 [OF conjunct2 [OF conjunct2 [OF A]]] refl]
  have v: "same_volume s0 s" using A by simp
  note V = volume_functions [OF v]
  show "Handle (deref (FilePtr h) s) = int h" using P(2) by (simp add: deref_def file_data_def ROOT_DIRECTORY_HANDLE_def)
  show "unat (Position (Public (file_data (int h) s))) = p" by (rule P(4))
  show "unat (Size (Public (file_data (int h) s))) = len \<and> p \<le> len \<and> (IsDirectory (Public (file_data (int h) s)) \<longrightarrow> 0 < len)"
    using P(3,5,6) by simp
  show "Buffer (file_data (int h) s) (p mod 512 + i) = file_byte medium s0 c0 (p + i)" if "p < len" "p mod 512 + i < 512"
    using P(7) that block_offset [OF that(2)] by (simp add: at_sector_def file_byte_def V)
  show "file_at b disk medium s0 h c0 len (update_file (int h) (advance m) s) (p + unat m)"
    if "p < len" "p mod 512 + unat m < 512" "p + unat m \<le> len"
    using A advance_within [of medium s h c0 len p m] that same_volume_trans [OF v same_volume_update(1)]
    by (simp add: file_at_def)
  show "\<exists>cont t. next_sector b disk (int h) (update_file (int h) (advance m) s) = (cont, t) \<and>
      file_at b disk medium s0 h c0 len t (p + unat m) \<and> (\<not> cont \<longrightarrow> len = p + unat m)"
    if "unat m = 512 - p mod 512" "p + unat m \<le> len"
    using A advance_to_next [OF _ _ _ that, of b disk medium s c0 h] same_volume_trans [OF v]
    by (simp add: file_at_def V) blast
qed

text \<open>So does the root directory, whose sectors follow one another from \<open>lba\<close>.\<close>

definition root_byte :: "(nat \<Rightarrow> nat \<Rightarrow> u8) \<Rightarrow> u32 \<Rightarrow> nat \<Rightarrow> u8" where
  "root_byte medium lba i = medium (unat (lba + of_nat (i div 512))) (i mod 512)"

definition root_sector :: "(nat \<Rightarrow> nat \<Rightarrow> u8) \<Rightarrow> u32 \<Rightarrow> FAT_FileData \<Rightarrow> nat \<Rightarrow> bool" where
  "root_sector medium lba fd k \<longleftrightarrow> CurrentCluster fd = lba + of_nat k \<and>
     (\<forall>i<512. Buffer fd i = medium (unat (lba + of_nat k)) i)"

definition root_at :: "bios \<Rightarrow> DISK \<Rightarrow> (nat \<Rightarrow> nat \<Rightarrow> u8) \<Rightarrow> 'a fat_scheme \<Rightarrow> u32 \<Rightarrow> nat \<Rightarrow> 'a fat_scheme \<Rightarrow> nat \<Rightarrow> bool" where
  "root_at b disk medium s0 lba len s p \<longleftrightarrow> reads_medium b disk medium \<and>
     (\<forall>k. 512 * k < len \<longrightarrow> lba_on_disk disk (lba + of_nat k)) \<and> same_volume s0 s \<and> OpenedFiles s = OpenedFiles s0 \<and>
     (let fd = RootDirectory s
      in Handle (Public fd) = ROOT_DIRECTORY_HANDLE \<and> IsDirectory (Public fd) \<and> FirstCluster fd = lba \<and>
         unat (Position (Public fd)) = p \<and> unat (Size (Public fd)) = len \<and> 0 < len \<and> p \<le> len \<and>
         (p < len \<longrightarrow> root_sector medium lba fd (p div 512)))"

lemma root_data [simp]:
  "file_data ROOT_DIRECTORY_HANDLE s = RootDirectory s"
  "RootDirectory (update_file ROOT_DIRECTORY_HANDLE f s) = f (RootDirectory s)"
  "OpenedFiles (update_file ROOT_DIRECTORY_HANDLE f s) = OpenedFiles s"
  by (simp_all add: file_data_def update_file_def)

lemma advance_FirstCluster [simp]: "FirstCluster (advance m f) = FirstCluster f"
  by (simp add: advance_def)

lemma root_advance:
  assumes "root_at b disk medium s0 lba len s p" "p + unat m \<le> len"
  shows "unat (Position (Public (RootDirectory s)) + m) = p + unat m"
proof -
  have "len < 4294967296" "unat (Position (Public (RootDirectory s))) = p"
    using assms(1) unat_u32_lt [of "Size (Public (RootDirectory s))"] by (simp_all add: root_at_def Let_def)
  with assms(2) show ?thesis by (simp add: unat_word_ariths)
qed

lemma root_next:
  assumes r: "root_at b disk medium s0 lba len s p" and m: "unat m = 512 - p mod 512" "p + unat m \<le> len"
  shows "\<exists>cont t. next_sector b disk ROOT_DIRECTORY_HANDLE (update_file ROOT_DIRECTORY_HANDLE (advance m) s) = (cont, t) \<and>
    root_at b disk medium s0 lba len t (p + unat m) \<and> (\<not> cont \<longrightarrow> len = p + unat m)"
proof -
  define k where "k = p div 512"
  have pk: "p + unat m = 512 * Suc k" unfolding k_def by (simp only: m(1) next_block)
  have plen: "p < len" using m(2) m(1) by simp
  note R = r [unfolded root_at_def Let_def]
  have cur: "CurrentCluster (RootDirectory s) = lba + of_nat k" using R plen by (simp add: root_sector_def k_def)
  define fd where "fd = (advance m (RootDirectory s))\<lparr>CurrentCluster := lba + of_nat (Suc k)\<rparr>"
  obtain cont d n where d: "DISK_ReadSectors b disk (lba + of_nat (Suc k)) 1 (Buffer (RootDirectory s)) (bios_calls s) = (cont, d, n)"
    "lba_on_disk disk (lba + of_nat (Suc k)) \<longrightarrow> cont \<and> (\<forall>i<512. d i = medium (unat (lba + of_nat (Suc k))) i)"
    using read_sector [OF conjunct1 [OF R]] by blast
  define t where "t = s\<lparr>bios_calls := n, RootDirectory := fd\<lparr>Buffer := d\<rparr>\<rparr>"
  define t' where "t' = (if cont then t else print (ascii ''FAT: read error!'' @ [0x0D, 0x0A]) [] t)"
  have "next_sector b disk ROOT_DIRECTORY_HANDLE (update_file ROOT_DIRECTORY_HANDLE (advance m) s) = (cont, t')"
    using R d(1) by (simp add: next_sector_def read_buffer_def Let_def t_def t'_def fd_def cur update_file_def add.assoc [symmetric] add.commute [of 1])
  moreover have here: "lba_on_disk disk (lba + of_nat (Suc k))" if "512 * Suc k < len" using R that by blast
  then have "root_at b disk medium s0 lba len t (p + unat m)"
    using R m(2) d(2) root_advance [OF r m(2)]
    by (simp add: root_at_def t_def fd_def Let_def root_sector_def pk same_volume_def del: mult_Suc_right of_nat_Suc)
  then have "root_at b disk medium s0 lba len t' (p + unat m)" by (simp add: root_at_def t'_def)
  moreover have "len = p + unat m" if "\<not> cont" using here d(2) that m(2) unfolding pk by linarith
  ultimately show ?thesis by blast
qed

interpretation root_directory: byte_stream b disk RootPtr ROOT_DIRECTORY_HANDLE "root_byte medium lba" len
    "root_at b disk medium s0 lba len"
  for b disk medium s0 lba len
proof unfold_locales
  fix s p i and m :: u32 assume r: "root_at b disk medium s0 lba len s p"
  note R = r [unfolded root_at_def Let_def]
  show "Handle (deref RootPtr s) = ROOT_DIRECTORY_HANDLE" using R by (simp add: deref_def)
  show "unat (Position (Public (file_data ROOT_DIRECTORY_HANDLE s))) = p" using R by simp
  show "unat (Size (Public (file_data ROOT_DIRECTORY_HANDLE s))) = len \<and> p \<le> len \<and>
      (IsDirectory (Public (file_data ROOT_DIRECTORY_HANDLE s)) \<longrightarrow> 0 < len)" using R by simp
  show "Buffer (file_data ROOT_DIRECTORY_HANDLE s) (p mod 512 + i) = root_byte medium lba (p + i)" if "p < len" "p mod 512 + i < 512"
    using R that block_offset [OF that(2)] by (simp add: root_sector_def root_byte_def)
  show "root_at b disk medium s0 lba len (update_file ROOT_DIRECTORY_HANDLE (advance m) s) (p + unat m)"
    if "p < len" "p mod 512 + unat m < 512" "p + unat m \<le> len"
    using R that root_advance [OF r that(3)] block_offset(1) [OF that(2)]
      same_volume_trans [of s0 s, OF _ same_volume_update(1)]
    by (simp add: root_at_def root_sector_def Let_def)
  show "\<exists>cont t. next_sector b disk ROOT_DIRECTORY_HANDLE (update_file ROOT_DIRECTORY_HANDLE (advance m) s) = (cont, t) \<and>
      root_at b disk medium s0 lba len t (p + unat m) \<and> (\<not> cont \<longrightarrow> len = p + unat m)"
    if "unat m = 512 - p mod 512" "p + unat m \<le> len"
    using root_next [OF r that] by blast
qed

section \<open>Opening\<close>

definition first_cluster :: "entry_bytes \<Rightarrow> u32" where
  "first_cluster e = ucast (FirstClusterLow e) + push_bit 16 (ucast (FirstClusterHigh e))"

lemma entry_bytes_cong:
  assumes "\<forall>i<32. e i = e' i"
  shows "Attributes e = Attributes e'" "first_cluster e = first_cluster e'" "entry_size e = entry_size e'"
  using assms by (simp_all add: Attributes_def first_cluster_def FirstClusterLow_def FirstClusterHigh_def
      entry_size_def word16_def word32_def)

lemma free_handle_bound: "free_handle s = Some h \<Longrightarrow> h < MAX_FILE_HANDLES"
  by (auto simp: free_handle_def scan_Some_iff split: if_splits)

lemma sector_of_0: "chain_ok disk s c0 len \<Longrightarrow> sector_of s c0 0 = FAT_ClusterToLba c0 s"
  by (simp add: sector_of_def chain_def)

lemma FAT_OpenEntry_file:
  assumes "reads_medium b disk medium" "free_handle s = Some h" "length (OpenedFiles s) = MAX_FILE_HANDLES"
    "Attributes e AND FAT_ATTRIBUTE_DIRECTORY = 0" "0 < unat (entry_size e)"
    "chain_ok disk s (first_cluster e) (unat (entry_size e))"
  shows "\<exists>s'. FAT_OpenEntry b disk e s = (Some (FilePtr h), s') \<and>
    file_at b disk medium s h (first_cluster e) (unat (entry_size e)) s' 0"
proof -
  let ?c = "first_cluster e" and ?len = "unat (entry_size e)"
  define s1 where "s1 = update_file (int h) (\<lambda>fd. fd\<lparr>Public := \<lparr>Handle = int h, IsDirectory = Attributes e AND FAT_ATTRIBUTE_DIRECTORY \<noteq> 0,
                       Position = 0, Size = entry_size e\<rparr>,
                     FirstCluster := ?c, CurrentCluster := ?c, CurrentSectorInCluster := 0\<rparr>) s"
  have h: "h < length (OpenedFiles s)" using free_handle_bound [OF assms(2)] assms(3) by simp
  have v1: "same_volume s s1" by (simp add: s1_def)
  note V1 = volume_functions [OF v1]
  have h1: "h < length (OpenedFiles s1)" using h by (simp add: s1_def)
  have f1: "Public (file_data (int h) s1) = \<lparr>Handle = int h, IsDirectory = False, Position = 0, Size = entry_size e\<rparr>"
    "CurrentCluster (file_data (int h) s1) = ?c" "CurrentSectorInCluster (file_data (int h) s1) = 0"
    using h assms(4) by (simp_all add: s1_def)
  have "lba_on_disk disk (FAT_ClusterToLba ?c s1)"
    using assms(5,6) sector_of_0 [OF assms(6)] unfolding chain_ok_def V1 by (metis mult_0_right)
  then obtain s2 d where r: "read_buffer b disk (int h) (FAT_ClusterToLba ?c s1) s1 = (True, s2)" "same_volume s1 s2"
    "file_data (int h) s2 = (file_data (int h) s1)\<lparr>Buffer := d\<rparr>" "\<forall>i<512. d i = medium (unat (FAT_ClusterToLba ?c s1)) i"
    using read_buffer_medium [OF assms(1) h1, of "FAT_ClusterToLba ?c s1"] by auto
  define s3 where "s3 = update_file (int h) (\<lambda>fd. fd\<lparr>Opened := True\<rparr>) s2"
  have v3: "same_volume s s3" using same_volume_trans [OF v1 same_volume_trans [OF r(2) same_volume_update(1)]] by (simp add: s3_def)
  note V3 = volume_functions [OF v3]
  have h2: "h < length (OpenedFiles s2)" using h1 r(2) by (simp add: same_volume_def)
  then have h3: "h < length (OpenedFiles s3)" and f3: "file_data (int h) s3 = (file_data (int h) s1)\<lparr>Buffer := d, Opened := True\<rparr>"
    by (simp_all add: s3_def r(3))
  have "at_sector medium s3 (file_data (int h) s3) ?c 0"
    using r(4) sector_of_0 [OF assms(6)] by (simp add: at_sector_def f3 f1 V3 V1) (simp add: chain_def)
  then have "at_pos medium s3 h ?c ?len 0" using h3 by (simp add: at_pos_def f3 f1 Let_def)
  moreover have "FAT_OpenEntry b disk e s = (Some (FilePtr h), s3)"
    using assms(2) r(1) f1(2)
    by (simp add: FAT_OpenEntry_def Let_def first_cluster_def [symmetric] s1_def [symmetric] s3_def)
  ultimately show ?thesis using assms(1,6) v3 by (auto simp: file_at_def)
qed

text \<open>A path of one component looks for its name in the root directory.\<close>

lemma FAT_Close_root [simp]:
  assumes "Handle (Public (RootDirectory s)) = ROOT_DIRECTORY_HANDLE"
  shows "same_volume s0 (FAT_Close RootPtr s) = same_volume s0 s" "OpenedFiles (FAT_Close RootPtr s) = OpenedFiles s"
  using assms by (simp_all add: FAT_Close_def deref_def update_public_def Let_def same_volume_def)

text \<open>Closing the root directory goes back to its beginning, but leaves the buffer as it is: the directory
  can be read again only when the buffer still holds its first sector.\<close>

lemma FAT_Close_reopens:
  assumes "root_at b disk medium s0 lba len s p" "p < 512" "p < len"
  shows "root_at b disk medium s0 lba len (FAT_Close RootPtr s) 0"
  using assms
  by (auto simp: root_at_def FAT_Close_def deref_def update_public_def Let_def root_sector_def same_volume_def)

text \<open>The root directory does not depend on the rest of the state, and file operations leave it alone.\<close>

lemma root_at_self:
  "root_at b disk medium s0 lba len s p \<Longrightarrow> RootDirectory s' = RootDirectory s \<Longrightarrow> root_at b disk medium s' lba len s' p"
  by (simp add: root_at_def Let_def)

lemma root_frame [simp]:
  "h \<noteq> ROOT_DIRECTORY_HANDLE \<Longrightarrow> RootDirectory (update_file h f s) = RootDirectory s"
  "RootDirectory (s\<lparr>bios_calls := t\<rparr>) = RootDirectory s"
  by (simp_all add: update_file_def)

lemma root_read_buffer [simp]:
  "h \<noteq> ROOT_DIRECTORY_HANDLE \<Longrightarrow> RootDirectory (snd (read_buffer b disk h lba s)) = RootDirectory s"
  by (simp add: read_buffer_def split: prod.split)

lemma root_checked_read [simp]:
  "h \<noteq> ROOT_DIRECTORY_HANDLE \<Longrightarrow> RootDirectory (snd (case read_buffer b disk h lba s of (ok, t) \<Rightarrow>
     if ok then (True, t) else (False, print fmt args t))) = RootDirectory s"
  using root_read_buffer [of h b disk lba s] by (cases "read_buffer b disk h lba s") simp

lemma root_next_sector [simp]: "h \<noteq> ROOT_DIRECTORY_HANDLE \<Longrightarrow> RootDirectory (snd (next_sector b disk h s)) = RootDirectory s"
  by (simp add: next_sector_def Let_def)

lemma root_read_loop: "h \<noteq> ROOT_DIRECTORY_HANDLE \<Longrightarrow> RootDirectory (snd (read_loop b disk h n out s)) = RootDirectory s"
proof (induction b disk h n out s rule: read_loop.induct)
  case (1 b disk h n out s)
  let ?s = "update_file h (\<lambda>f. f\<lparr>Public := (Public f)\<lparr>Position := Position (Public f) + take_of n (Position (Public (file_data h s)))\<rparr>\<rparr>) s"
  obtain c t where "next_sector b disk h ?s = (c, t)" by fastforce
  moreover from this have "RootDirectory t = RootDirectory s" using root_next_sector [OF 1(3), of b disk ?s] 1(3) by simp
  ultimately show ?case using 1 by (subst read_loop.simps) (auto simp: Let_def)
qed

lemma root_FAT_OpenEntry: "RootDirectory (snd (FAT_OpenEntry b disk e s)) = RootDirectory s"
proof (cases "free_handle s")
  case None
  then show ?thesis by (simp add: FAT_OpenEntry_def)
next
  case (Some h)
  have ne: "int h \<noteq> ROOT_DIRECTORY_HANDLE" by (simp add: ROOT_DIRECTORY_HANDLE_def)
  have pr: "RootDirectory (fold (\<lambda>i. print (ascii ''%c'') [ucast (e i)]) is t) = RootDirectory t" for "is" and t :: "'a fat_scheme"
    by (induction "is" arbitrary: t) simp_all
  let ?c = "ucast (FirstClusterLow e) + push_bit 16 (ucast (FirstClusterHigh e)) :: u32"
  let ?s1 = "update_file (int h) (\<lambda>fd. fd\<lparr>Public := \<lparr>Handle = int h, IsDirectory = Attributes e AND FAT_ATTRIBUTE_DIRECTORY \<noteq> 0,
                       Position = 0, Size = entry_size e\<rparr>, FirstCluster := ?c, CurrentCluster := ?c, CurrentSectorInCluster := 0\<rparr>) s"
  obtain ok t where r: "read_buffer b disk (int h) (FAT_ClusterToLba (CurrentCluster (file_data (int h) ?s1)) ?s1) ?s1 = (ok, t)" by fastforce
  then have "RootDirectory t = RootDirectory ?s1" using root_read_buffer [OF ne, of b disk _ ?s1] by (metis snd_conv)
  then show ?thesis using Some ne r by (simp add: FAT_OpenEntry_def Let_def pr)
qed

lemma open_path_root:
  assumes "root_at b disk medium s lba len s 0" "32 dvd len" "nm \<noteq> []" "strchr nm 0x2F = None"
  shows "case scan (\<lambda>k. if map (\<lambda>i. root_byte medium lba (32 * k + i)) [0..<11] = take 11 (fat_name nm) then Some k else None) 0 (len div 32) of
      None \<Rightarrow> \<exists>s'. open_path b disk lit garbage nm (Some RootPtr) s = Some (None, s') \<and> same_volume s s'
    | Some k \<Rightarrow> \<exists>e t. open_path b disk lit garbage nm (Some RootPtr) s = Some (FAT_OpenEntry b disk e t) \<and>
        (\<forall>i<32. e i = root_byte medium lba (32 * k + i)) \<and> same_volume s t \<and> OpenedFiles t = OpenedFiles s \<and>
        (k < 15 \<longrightarrow> 32 * Suc k < len \<longrightarrow> root_at b disk medium s lba len t 0)"
proof -
  have over: "open_path b disk lit garbage [] c t = Some (c, t)" for c t by (subst open_path.simps) simp
  have rd: "Handle (Public (RootDirectory t)) = ROOT_DIRECTORY_HANDLE" "same_volume s t" "OpenedFiles t = OpenedFiles s"
    if "root_at b disk medium s lba len t p" for t p using that by (simp_all add: root_at_def Let_def)
  let ?scan = "scan (\<lambda>k. if root_directory.name_at medium lba k = take 11 (fat_name nm) then Some k else None) 0 (len div 32)"
  have F: "case ?scan of
      None \<Rightarrow> \<exists>s'. find_loop b disk RootPtr (fat_name nm) garbage s = Some (None, s') \<and> root_at b disk medium s lba len s' len
    | Some k \<Rightarrow> \<exists>e' s'. find_loop b disk RootPtr (fat_name nm) garbage s = Some (Some e', s') \<and>
        (\<forall>i<32. e' i = root_byte medium lba (32 * k + i)) \<and> root_at b disk medium s lba len s' (32 * Suc k)"
    using root_directory.find_loop_first [of b disk medium s lba len s 0 "fat_name nm" garbage] assms(1,2) by simp
  show ?thesis
  proof (cases ?scan)
    case None
    with F obtain s' where "find_loop b disk RootPtr (fat_name nm) garbage s = Some (None, s')" "root_at b disk medium s lba len s' len"
      by auto
    then have "open_path b disk lit garbage nm (Some RootPtr) s = Some (None, print (ascii ''FAT: %s not found'' @ [0x0D, 0x0A]) [lit] (FAT_Close RootPtr s'))"
      "same_volume s s'" "Handle (Public (RootDirectory s')) = ROOT_DIRECTORY_HANDLE"
      using assms(3,4) rd by (auto simp: open_path.simps [of b disk lit garbage nm] FAT_FindFile_def)
    with None show ?thesis by (auto simp: root_directory.name_at_def)
  next
    case (Some k)
    with F obtain e s' where f: "find_loop b disk RootPtr (fat_name nm) garbage s = Some (Some e, s')"
      "\<forall>i<32. e i = root_byte medium lba (32 * k + i)" "root_at b disk medium s lba len s' (32 * Suc k)"
      by auto
    have "open_path b disk lit garbage nm (Some RootPtr) s = Some (FAT_OpenEntry b disk e (FAT_Close RootPtr s'))"
      using assms(3,4) f(1) by (subst open_path.simps) (simp add: FAT_FindFile_def over split: prod.split)
    with Some f(2) rd [OF f(3)] FAT_Close_reopens [OF f(3)] show ?thesis
      by (auto simp: root_directory.name_at_def intro!: exI [of _ e] exI [of _ "FAT_Close RootPtr s'"])
  qed
qed

section \<open>Mounting\<close>

text \<open>What the boot sector \<open>bs\<close> of the medium says of the layout: the reserved sectors, the sectors of one
  table, the first sector and the size in bytes of the root directory.\<close>

definition reserved_of :: "(nat \<Rightarrow> u8) \<Rightarrow> nat" where "reserved_of bs = unat (word16 bs 14)"
definition table_of :: "(nat \<Rightarrow> u8) \<Rightarrow> nat" where "table_of bs = unat (word16 bs 22)"
definition root_lba_of :: "(nat \<Rightarrow> u8) \<Rightarrow> nat" where "root_lba_of bs = reserved_of bs + table_of bs * unat (bs 16)"
definition root_size_of :: "(nat \<Rightarrow> u8) \<Rightarrow> nat" where "root_size_of bs = 32 * unat (word16 bs 17)"

definition mountable :: "DISK \<Rightarrow> (nat \<Rightarrow> u8) \<Rightarrow> bool" where
  "mountable disk bs \<longleftrightarrow> word16 bs 11 = 512 \<and> 0 < table_of bs \<and> 512 * table_of bs + 6496 < 65536 \<and>
     on_track disk (of_nat (reserved_of bs)) (of_nat (table_of bs)) \<and>
     lba_on_disk disk 0 \<and> lba_on_disk disk (of_nat (reserved_of bs)) \<and> 0 < root_size_of bs \<and>
     (\<forall>k. 512 * k < root_size_of bs \<longrightarrow> lba_on_disk disk (of_nat (root_lba_of bs + k)))"

lemma word16_cong: "B i = B' i \<Longrightarrow> B (i + 1) = B' (i + 1) \<Longrightarrow> word16 B i = word16 B' i"
  by (simp add: word16_def)

lemma fold_close_handles:
  "set is \<subseteq> {i. i < length (OpenedFiles s)} \<Longrightarrow>
   \<exists>fs. fold (\<lambda>i. update_file (int i) (\<lambda>f. f\<lparr>Opened := False\<rparr>)) is s = s\<lparr>OpenedFiles := fs\<rparr> \<and>
     length fs = length (OpenedFiles s) \<and>
     (\<forall>i<length fs. Opened (fs ! i) = (i \<notin> set is \<and> Opened (OpenedFiles s ! i)))"
proof (induction "is" arbitrary: s)
  case Nil
  then show ?case by (intro exI [of _ "OpenedFiles s"]) simp
next
  case (Cons i "is")
  let ?s = "update_file (int i) (\<lambda>f. f\<lparr>Opened := False\<rparr>) s"
  have s: "?s = s\<lparr>OpenedFiles := (OpenedFiles s)[i := (OpenedFiles s ! i)\<lparr>Opened := False\<rparr>]\<rparr>"
    by (simp add: update_file_def ROOT_DIRECTORY_HANDLE_def)
  obtain fs where "fold (\<lambda>i. update_file (int i) (\<lambda>f. f\<lparr>Opened := False\<rparr>)) is ?s = ?s\<lparr>OpenedFiles := fs\<rparr>"
    "length fs = length (OpenedFiles ?s)" "\<forall>j<length fs. Opened (fs ! j) = (j \<notin> set is \<and> Opened (OpenedFiles ?s ! j))"
    using Cons.IH [of ?s] Cons.prems by (auto simp: s)
  then show ?case using Cons.prems by (intro exI [of _ fs]) (auto simp: s nth_list_update)
qed

lemma free_handle_first: "\<not> Opened (OpenedFiles s ! 0) \<Longrightarrow> free_handle s = Some 0"
  by (simp add: free_handle_def MAX_FILE_HANDLES_def)

lemma boot_sector_fields:
  assumes "\<forall>i<512. BootSectorBytes s i = bs i"
  shows "BytesPerSector s = word16 bs 11" "ReservedSectors s = word16 bs 14" "SectorsPerFat s = word16 bs 22"
    "FatCount s = bs 16" "DirEntryCount s = word16 bs 17" "SectorsPerCluster s = bs 13"
  using assms by (auto simp: BytesPerSector_def ReservedSectors_def SectorsPerFat_def FatCount_def DirEntryCount_def
      SectorsPerCluster_def intro!: word16_cong)

lemma layout_words:
  assumes "\<forall>i<512. BootSectorBytes s i = bs i" "mountable disk bs"
  shows "ucast (ReservedSectors s) = (of_nat (reserved_of bs) :: u32)" "ucast (SectorsPerFat s) = (of_nat (table_of bs) :: u8)"
    "ucast (ReservedSectors s) + ucast (SectorsPerFat s) * ucast (FatCount s) = (of_nat (root_lba_of bs) :: u32)"
    "32 * ucast (DirEntryCount s) = (of_nat (root_size_of bs) :: u32)" "ucast (BytesPerSector s) = (512 :: u32)"
    "\<not> FAT_DATA_SIZE + ucast (BytesPerSector s) * ucast (SectorsPerFat s) \<ge> MEMORY_FAT_SIZE"
proof -
  note F = boot_sector_fields [OF assms(1)]
  show "ucast (ReservedSectors s) = (of_nat (reserved_of bs) :: u32)" "ucast (SectorsPerFat s) = (of_nat (table_of bs) :: u8)"
    "ucast (ReservedSectors s) + ucast (SectorsPerFat s) * ucast (FatCount s) = (of_nat (root_lba_of bs) :: u32)"
    "32 * ucast (DirEntryCount s) = (of_nat (root_size_of bs) :: u32)"
    by (simp_all add: F reserved_of_def table_of_def root_lba_of_def root_size_of_def)
  show bps: "ucast (BytesPerSector s) = (512 :: u32)" using assms(2) by (simp add: F mountable_def)
  have t: "table_of bs < 116" using assms(2) by (simp add: mountable_def)
  have "unat (FAT_DATA_SIZE + 512 * (of_nat (table_of bs) :: u32)) = 6496 + 512 * table_of bs"
    using t by (simp add: FAT_DATA_SIZE_def unat_word_ariths unat_of_nat32)
  then show "\<not> FAT_DATA_SIZE + ucast (BytesPerSector s) * ucast (SectorsPerFat s) \<ge> MEMORY_FAT_SIZE"
    unfolding bps using t by (simp add: F(3) table_of_def MEMORY_FAT_SIZE_def word_le_nat_alt)
qed

text \<open>The stages of mounting: the boot sector, the table, the handles, and the place of the data.\<close>

lemma boot_sector_read:
  assumes "reads_medium b disk medium" "mountable disk (medium 0)"
  shows "\<exists>d t. FAT_ReadBootSector b disk s = (True, s\<lparr>BootSectorBytes := d, bios_calls := t\<rparr>) \<and> (\<forall>i<512. d i = medium 0 i)"
proof -
  obtain d t where "DISK_ReadSectors b disk 0 1 (BootSectorBytes s) (bios_calls s) = (True, d, t)" "\<forall>i<512. d i = medium 0 i"
    using read_sector_on_disk [OF assms(1), of 0 "BootSectorBytes s" "bios_calls s"] assms(2)
    unfolding unat_0 mountable_def by blast
  then show ?thesis by (auto simp: FAT_ReadBootSector_def)
qed

lemma table_read:
  assumes "reads_medium b disk medium" and mt: "mountable disk (medium 0)" and bs: "\<forall>i<512. BootSectorBytes s i = medium 0 i"
  shows "\<exists>d t. FAT_ReadFat b disk s = (True, s\<lparr>g_Fat := d, bios_calls := t\<rparr>) \<and>
    (\<forall>i<512 * table_of (medium 0). d i = medium (reserved_of (medium 0) + i div 512) (i mod 512))"
proof -
  let ?bs = "medium 0"
  note M = mt [unfolded mountable_def]
  have tb: "unat (of_nat (table_of ?bs) :: u8) = table_of ?bs" using M by (simp add: unat_of_nat)
  have rs: "unat (of_nat (reserved_of ?bs) :: u32) = reserved_of ?bs" by (simp add: reserved_of_def unat_ucast16_32)
  obtain d t where "DISK_ReadSectors b disk (of_nat (reserved_of ?bs)) (of_nat (table_of ?bs)) (g_Fat s) (bios_calls s) = (True, d, t)"
    "\<forall>i<512 * table_of ?bs. d i = medium (reserved_of ?bs + i div 512) (i mod 512)"
    using read_sectors [OF assms(1), of "of_nat (reserved_of ?bs)" "of_nat (table_of ?bs)" "g_Fat s" "bios_calls s"] M
    unfolding tb rs by blast
  then show ?thesis using layout_words(1,2) [OF bs mt] by (auto simp: FAT_ReadFat_def)
qed

lemma handles_closed:
  assumes "length (OpenedFiles s) = MAX_FILE_HANDLES"
  obtains fs where "fold (\<lambda>i. update_file (int i) (\<lambda>f. f\<lparr>Opened := False\<rparr>)) [0..<MAX_FILE_HANDLES] s = s\<lparr>OpenedFiles := fs\<rparr>"
    "length fs = MAX_FILE_HANDLES" "\<forall>i<length fs. \<not> Opened (fs ! i)"
proof -
  have "set [0..<MAX_FILE_HANDLES] \<subseteq> {i. i < length (OpenedFiles s)}" using assms by auto
  from fold_close_handles [OF this] that show thesis by (auto simp: assms)
qed

lemma data_section:
  "of_nat (root_lba_of bs) + (of_nat (root_size_of bs) + 512 - 1 :: u32) div 512 = of_nat (root_lba_of bs + (root_size_of bs + 511) div 512)"
proof -
  have rsz: "root_size_of bs < 4294967296 - 512" using unat_u16_lt [of "word16 bs 17"] by (simp add: root_size_of_def)
  have "(511 + of_nat (root_size_of bs) :: u32) = of_nat (root_size_of bs + 511)" by simp
  moreover have "(of_nat (root_size_of bs + 511) :: u32) div 512 = of_nat ((root_size_of bs + 511) div 512)"
    using rsz by (simp add: word_unat_eq_iff unat_div unat_of_nat32 del: of_nat_add)
  ultimately show ?thesis by (simp del: of_nat_add) simp
qed

lemma FAT_Initialize_layout:
  assumes "reads_medium b disk medium" "mountable disk (medium 0)" "length (OpenedFiles s0) = MAX_FILE_HANDLES"
  shows "\<exists>s'. FAT_Initialize b disk s0 = (True, s') \<and>
    root_at b disk medium s' (of_nat (root_lba_of (medium 0))) (root_size_of (medium 0)) s' 0 \<and>
    (\<forall>i<512. BootSectorBytes s' i = medium 0 i) \<and>
    (\<forall>i<512 * table_of (medium 0). g_Fat s' i = medium (reserved_of (medium 0) + i div 512) (i mod 512)) \<and>
    g_DataSectionLba s' = of_nat (root_lba_of (medium 0) + (root_size_of (medium 0) + 511) div 512) \<and>
    length (OpenedFiles s') = MAX_FILE_HANDLES \<and> free_handle s' = Some 0"
proof -
  let ?bs = "medium 0" and ?rd = "of_nat (root_lba_of (medium 0)) :: u32"
  note M = assms(2) [unfolded mountable_def]
  obtain d0 t0 where r0: "FAT_ReadBootSector b disk s0 = (True, s0\<lparr>BootSectorBytes := d0, bios_calls := t0\<rparr>)" "\<forall>i<512. d0 i = ?bs i"
    using boot_sector_read [OF assms(1,2)] by blast
  define s1 where "s1 = s0\<lparr>BootSectorBytes := d0, bios_calls := t0\<rparr>"
  have bs1: "\<forall>i<512. BootSectorBytes s1 i = ?bs i" using r0(2) by (simp add: s1_def)
  obtain d1 t1 where r1: "FAT_ReadFat b disk s1 = (True, s1\<lparr>g_Fat := d1, bios_calls := t1\<rparr>)"
    "\<forall>i<512 * table_of ?bs. d1 i = medium (reserved_of ?bs + i div 512) (i mod 512)"
    using table_read [OF assms(1,2) bs1] by blast
  define s2 where "s2 = s1\<lparr>g_Fat := d1, bios_calls := t1\<rparr>"
  have bs2: "\<forall>i<512. BootSectorBytes s2 i = ?bs i" using bs1 by (simp add: s2_def)
  note L2 = layout_words [OF bs2 assms(2)]
  define rd where "rd = (RootDirectory s2)\<lparr>Public := \<lparr>Handle = ROOT_DIRECTORY_HANDLE, IsDirectory = True, Position = 0, Size = of_nat (root_size_of ?bs)\<rparr>,
     Opened := True, FirstCluster := ?rd, CurrentCluster := ?rd, CurrentSectorInCluster := 0\<rparr>"
  have "\<forall>k. 512 * k < root_size_of ?bs \<longrightarrow> lba_on_disk disk (of_nat (root_lba_of ?bs + k))" "0 < root_size_of ?bs" using M by blast+
  then have on0: "lba_on_disk disk ?rd" by (metis add_0_right mult_0_right)
  obtain d2 t2 where r2: "DISK_ReadSectors b disk ?rd 1 (Buffer rd) (bios_calls s2) = (True, d2, t2)" "\<forall>i<512. d2 i = medium (unat ?rd) i"
    by (rule read_sector_on_disk [OF assms(1) on0])
  define s5 where "s5 = s2\<lparr>RootDirectory := rd\<lparr>Buffer := d2\<rparr>, bios_calls := t2,
     g_DataSectionLba := ?rd + (of_nat (root_size_of ?bs) + 512 - 1) div 512\<rparr>"
  have "length (OpenedFiles s5) = MAX_FILE_HANDLES" using assms(3) by (simp add: s5_def s2_def s1_def)
  then obtain fs where fs: "fold (\<lambda>i. update_file (int i) (\<lambda>f. f\<lparr>Opened := False\<rparr>)) [0..<MAX_FILE_HANDLES] s5 = s5\<lparr>OpenedFiles := fs\<rparr>"
    "length fs = MAX_FILE_HANDLES" "\<forall>i<length fs. \<not> Opened (fs ! i)" by (rule handles_closed)
  define s6 where "s6 = s5\<lparr>OpenedFiles := fs\<rparr>"
  have init: "FAT_Initialize b disk s0 = (True, s6)"
  proof -
    have root: "read_root b disk ?rd (s2\<lparr>RootDirectory := rd\<rparr>) = (True, s2\<lparr>RootDirectory := rd\<lparr>Buffer := d2\<rparr>, bios_calls := t2\<rparr>)"
      by (simp add: read_root_def r2(1))
    have bps: "ucast (BytesPerSector (s2\<lparr>RootDirectory := r, bios_calls := n\<rparr>)) = (512 :: u32)" for r n
      using L2(5) by (simp add: BytesPerSector_def)
    show ?thesis
      unfolding FAT_Initialize_def r0(1) s1_def [symmetric] using layout_words(6) [OF bs1 assms(2)]
      by (simp only: prod.case if_False if_True not_True_eq_False Let_def r1(1) s2_def [symmetric] L2(3,4) rd_def [symmetric]
          root bps s5_def [symmetric] fs(1) s6_def)
  qed
  have "root_size_of ?bs < 4294967296" using unat_u16_lt [of "word16 ?bs 17"] by (simp add: root_size_of_def)
  then have "root_at b disk medium s6 ?rd (root_size_of ?bs) s6 0"
    using assms(1) M r2(2)
    by (simp add: root_at_def s6_def s5_def rd_def Let_def root_sector_def same_volume_def unat_of_nat32)
  moreover have "free_handle s6 = Some 0" using fs(2,3) by (intro free_handle_first) (simp add: s6_def MAX_FILE_HANDLES_def)
  moreover have "\<forall>i<512. BootSectorBytes s6 i = ?bs i" "\<forall>i<512 * table_of ?bs. g_Fat s6 i = medium (reserved_of ?bs + i div 512) (i mod 512)"
    using bs2 r1(2) by (simp_all add: s6_def s5_def s2_def)
  moreover have "length (OpenedFiles s6) = MAX_FILE_HANDLES" using fs(2) by (simp add: s6_def)
  moreover have "g_DataSectionLba s6 = of_nat (root_lba_of ?bs + (root_size_of ?bs + 511) div 512)"
    unfolding data_section [symmetric] by (simp add: s6_def s5_def)
  ultimately show ?thesis using init by blast
qed

section \<open>An example\<close>

text \<open>A floppy disk with one file of 600 bytes in clusters 2 and 3, and a drive that reads every sector of it.\<close>

definition image_bios :: "DISK \<Rightarrow> (nat \<Rightarrow> nat \<Rightarrow> u8) \<Rightarrow> bios" where
  "image_bios disk medium =
     \<lparr>x86_Disk_GetDriveParams = (\<lambda>d. Some (0, cylinders disk, sectors disk, heads disk)),
      x86_Disk_Read = (\<lambda>t d c sec h n. (True, \<lambda>i. medium ((unat c * unat (heads disk) + unat h) * unat (sectors disk)
        + (unat sec - 1) + i div 512) (i mod 512)))\<rparr>"

definition example_disk :: DISK where "example_disk = \<lparr>disk_id = 0, cylinders = 80, sectors = 18, heads = 2\<rparr>"

definition bytes_at :: "nat \<Rightarrow> u8 list \<Rightarrow> (nat \<Rightarrow> u8) \<Rightarrow> nat \<Rightarrow> u8" where
  "bytes_at p bs B = (\<lambda>i. if p \<le> i \<and> i < p + length bs then bs ! (i - p) else B i)"

definition example_medium :: "nat \<Rightarrow> nat \<Rightarrow> u8" where
  "example_medium n =
     (if n = 0 then bytes_at 11 [0, 2, 1, 1, 0, 2, 16, 0] (bytes_at 22 [1, 0] (\<lambda>i. 0))
      else if n = 1 \<or> n = 2 then bytes_at 0 [0xF0, 0xFF, 0xFF, 0x03, 0xF0, 0xFF] (\<lambda>i. 0)
      else if n = 3 then bytes_at 32 (ascii ''KERNEL  BIN'') (bytes_at 58 [2, 0, 0x58, 2, 0, 0] (\<lambda>i. 0))
      else (\<lambda>i. of_nat (n + i)))"

definition example_fat :: fat where
  "example_fat =
     (let f = \<lparr>Buffer = (\<lambda>i. 0), Public = \<lparr>Handle = 0, IsDirectory = False, Position = 0, Size = 0\<rparr>, Opened = False,
               FirstCluster = 0, CurrentCluster = 0, CurrentSectorInCluster = 0\<rparr>
      in \<lparr>BootSectorBytes = example_medium 0,
          RootDirectory = f\<lparr>Buffer := example_medium 3, Public := \<lparr>Handle = ROOT_DIRECTORY_HANDLE, IsDirectory = True, Position = 0, Size = 512\<rparr>,
            FirstCluster := 3, CurrentCluster := 3\<rparr>,
          OpenedFiles = replicate MAX_FILE_HANDLES f, g_Fat = example_medium 1, g_DataSectionLba = 4, bios_calls = 0, printed = []\<rparr>)"

lemma image_bios_reads: "0 < sectors disk \<Longrightarrow> 0 < heads disk \<Longrightarrow> reads_medium (image_bios disk medium) disk medium"
  by (simp add: reads_medium_def image_bios_def)

lemma example_reads: "reads_medium (image_bios example_disk example_medium) example_disk example_medium"
  by (rule image_bios_reads) (simp_all add: example_disk_def)

lemma example_mountable: "mountable example_disk (example_medium 0)"
  by (simp add: mountable_def table_of_def reserved_of_def root_size_of_def root_lba_of_def example_medium_def bytes_at_def
      word16_def on_track_def lba_on_disk_def example_disk_def)

lemma example_root:
  "root_at (image_bios example_disk example_medium) example_disk example_medium example_fat 3 512 example_fat 0"
  using example_reads
  by (auto simp: root_at_def example_fat_def Let_def root_sector_def lba_on_disk_def example_disk_def)

lemma example_chain: "chain_ok example_disk example_fat 2 600"
proof -
  have c: "chain example_fat 2 0 = 2" "chain example_fat 2 (Suc 0) = 3"
    by (simp_all add: chain_def fat12_entry_def nibble_def example_fat_def example_medium_def bytes_at_def)
  have v: "spc example_fat = Suc 0" "SectorsPerCluster example_fat = 1" "g_DataSectionLba example_fat = 4"
    by (simp_all add: spc_def SectorsPerCluster_def example_fat_def example_medium_def bytes_at_def)
  have "chain example_fat 2 k < 0xFF8 \<and> lba_on_disk example_disk (sector_of example_fat 2 k)" if "512 * k < 600" for k
  proof -
    from that have "k = 0 \<or> k = Suc 0" by linarith
    then show ?thesis
      by (auto simp: c v sector_of_def FAT_ClusterToLba_def lba_on_disk_def example_disk_def)
  qed
  then show ?thesis by (simp add: chain_ok_def v)
qed

section \<open>Properties\<close>

text \<open>C35 Mounting a FAT12 medium succeeds and leaves the driver with the boot sector and the table of the
  medium, the first sector of the data after the root directory, the root directory at its beginning and
  every handle free.\<close>

theorem FAT_Initialize_mounts:
  assumes "reads_medium b disk medium" "mountable disk (medium 0)" "length (OpenedFiles s0) = MAX_FILE_HANDLES"
  shows "\<exists>s'. FAT_Initialize b disk s0 = (True, s') \<and>
    root_at b disk medium s' (of_nat (root_lba_of (medium 0))) (root_size_of (medium 0)) s' 0 \<and>
    (\<forall>i<512. BootSectorBytes s' i = medium 0 i) \<and>
    (\<forall>i<512 * table_of (medium 0). g_Fat s' i = medium (reserved_of (medium 0) + i div 512) (i mod 512)) \<and>
    g_DataSectionLba s' = of_nat (root_lba_of (medium 0) + (root_size_of (medium 0) + 511) div 512) \<and>
    length (OpenedFiles s') = MAX_FILE_HANDLES \<and> free_handle s' = Some 0"
  using assms by (rule FAT_Initialize_layout)

theorem FAT_Initialize_mounts_witness:
  "\<exists>s'. FAT_Initialize (image_bios example_disk example_medium) example_disk example_fat = (True, s') \<and>
    g_DataSectionLba s' = of_nat (root_lba_of (example_medium 0) + (root_size_of (example_medium 0) + 511) div 512) \<and>
    free_handle s' = Some 0"
proof -
  have "length (OpenedFiles example_fat) = MAX_FILE_HANDLES" by (simp add: example_fat_def Let_def)
  from FAT_Initialize_mounts [OF example_reads example_mountable this] show ?thesis by blast
qed

text \<open>C36 Opening a path of one component opens the first entry of the root directory whose name is that of
  the path in the form of the directory, and the reads that follow give the bytes of the cluster chain of
  the entry in order, up to the size in the entry.\<close>

theorem FAT_Open_reads_file:
  assumes "root_at b disk medium s lba dir_len s 0" "32 dvd dir_len" "free_handle s = Some h" "length (OpenedFiles s) = MAX_FILE_HANDLES"
    and "nm \<noteq> []" "strchr nm 0x2F = None"
    and "32 * k < dir_len" "map (\<lambda>i. root_byte medium lba (32 * k + i)) [0..<11] = take 11 (fat_name nm)"
      "\<forall>j<k. map (\<lambda>i. root_byte medium lba (32 * j + i)) [0..<11] \<noteq> take 11 (fat_name nm)"
    and "e = (\<lambda>i. root_byte medium lba (32 * k + i))" "Attributes e AND FAT_ATTRIBUTE_DIRECTORY = 0" "len = unat (entry_size e)" "0 < len"
      "chain_ok disk s (first_cluster e) len"
  shows "\<exists>s1 s2 s3. FAT_Open b disk lit garbage (0x2F # nm) s = Some (Some (FilePtr h), s1) \<and>
    FAT_Read b disk (FilePtr h) n s1 = (map (file_byte medium s (first_cluster e)) [0..<min (unat n) len], s2) \<and>
    FAT_Read b disk (FilePtr h) m s2 =
      (map (file_byte medium s (first_cluster e)) [min (unat n) len..<min (unat n + unat m) len], s3)"
proof -
  let ?find = "\<lambda>k. if map (\<lambda>i. root_byte medium lba (32 * k + i)) [0..<11] = take 11 (fat_name nm) then Some k else None"
  have "k < dir_len div 32" using assms(2,7) by auto
  then have "scan ?find 0 (dir_len div 32) = Some k" using assms(8,9) by (auto simp: scan_Some_iff)
  then obtain e' t where o: "open_path b disk lit garbage nm (Some RootPtr) s = Some (FAT_OpenEntry b disk e' t)"
    "\<forall>i<32. e' i = e i" "same_volume s t" "OpenedFiles t = OpenedFiles s"
    using open_path_root [OF assms(1,2,5,6), of lit garbage] by (auto simp: assms(10))
  note E = entry_bytes_cong [OF o(2)] and T = volume_functions [OF o(3)]
  have "free_handle t = Some h" "length (OpenedFiles t) = MAX_FILE_HANDLES" using assms(3,4) o(4) by (simp_all add: free_handle_def)
  moreover have "reads_medium b disk medium" using assms(1) by (simp add: root_at_def)
  ultimately obtain s1 where s1: "FAT_OpenEntry b disk e' t = (Some (FilePtr h), s1)"
    "file_at b disk medium t h (first_cluster e) len s1 0"
    using FAT_OpenEntry_file [of b disk medium t h e'] assms(11-14) by (auto simp: E T)
  have B: "file_byte medium t c = file_byte medium s c" for c by (rule ext) (rule T)
  obtain s2 where s2: "FAT_Read b disk (FilePtr h) n s1 = (map (file_byte medium s (first_cluster e)) [0..<min (unat n) len], s2)"
    "file_at b disk medium t h (first_cluster e) len s2 (min (unat n) len)"
    using open_file.read [OF s1(2), of n] by (auto simp: B)
  have "min (min (unat n) len + unat m) len = min (unat n + unat m) len" by (auto simp: min_def)
  then obtain s3 where "FAT_Read b disk (FilePtr h) m s2 =
      (map (file_byte medium s (first_cluster e)) [min (unat n) len..<min (unat n + unat m) len], s3)"
    using open_file.read [OF s2(2), of m] by (auto simp: B)
  with o(1) s1(1) s2(1) show ?thesis by (auto simp: FAT_Open_def char_at_def)
qed

theorem FAT_Open_reads_file_witness:
  "\<exists>s1 s2 s3. FAT_Open (image_bios example_disk example_medium) example_disk 0 (\<lambda>i. 0) (ascii ''/kernel.bin'') example_fat = Some (Some (FilePtr 0), s1) \<and>
    FAT_Read (image_bios example_disk example_medium) example_disk (FilePtr 0) 500 s1 = (map (file_byte example_medium example_fat 2) [0..<500], s2) \<and>
    FAT_Read (image_bios example_disk example_medium) example_disk (FilePtr 0) 500 s2 = (map (file_byte example_medium example_fat 2) [500..<600], s3)"
proof -
  let ?nm = "ascii ''kernel.bin''"
  define e where "e = (\<lambda>i. root_byte example_medium 3 (32 * 1 + i))"
  have name: "take 11 (fat_name ?nm) = ascii ''KERNEL  BIN''"
    by code_simp
  have names: "map (\<lambda>i. root_byte example_medium 3 (32 * 1 + i)) [0..<11] = take 11 (fat_name ?nm)"
    "\<forall>j<1. map (\<lambda>i. root_byte example_medium 3 (32 * j + i)) [0..<11] \<noteq> take 11 (fat_name ?nm)"
    unfolding name by (simp_all add: root_byte_def example_medium_def bytes_at_def ascii_def upt_rec)
  have ent: "Attributes e AND FAT_ATTRIBUTE_DIRECTORY = 0" "600 = unat (entry_size e)" "first_cluster e = 2"
    by (simp_all add: e_def root_byte_def example_medium_def bytes_at_def ascii_def Attributes_def entry_size_def first_cluster_def
        FirstClusterLow_def FirstClusterHigh_def word16_def word32_def)
  have st: "free_handle example_fat = Some 0" "length (OpenedFiles example_fat) = MAX_FILE_HANDLES"
    by (simp_all add: example_fat_def Let_def free_handle_def MAX_FILE_HANDLES_def)
  have nm: "?nm \<noteq> []" "strchr ?nm 0x2F = None" by (simp_all add: ascii_def)
  have "0x2F # ?nm = ascii ''/kernel.bin''" by (simp add: ascii_def)
  with FAT_Open_reads_file [OF example_root _ st nm _ names e_def ent(1,2) _ example_chain [folded ent(3)], of 0 "\<lambda>i. 0" 500 500]
  show ?thesis by (simp add: ent(3) del: upt_rec)
qed

end
