(* ===== verification/Fat_Handles.thy ===== *)
theory Fat_Handles
  imports Fat_Files
begin

text \<open>
  What the disk and FAT12 driver of \<open>Fat\<close> leaves alone, for any answers of the BIOS.

  The locale \<open>driver_view\<close> is about a view of the state that does not depend on the buffers and the
  positions of files: reading, searching and listing keep it. One such view is the table of handles;
  with it, every pointer to a file that the driver has given out stays within the table.
\<close>

section \<open>Views of the state that reading keeps\<close>

text \<open>An update of the data of a file that is not about its handle.\<close>

definition same_handle :: "(FAT_FileData \<Rightarrow> FAT_FileData) \<Rightarrow> bool" where
  "same_handle f \<longleftrightarrow> (\<forall>fd. Handle (Public (f fd)) = Handle (Public fd) \<and> Opened (f fd) = Opened fd)"

lemma same_handle_updates [simp]:
  "same_handle (\<lambda>f. f\<lparr>Buffer := d f\<rparr>)" "same_handle (\<lambda>f. f\<lparr>CurrentCluster := c f\<rparr>)"
  "same_handle (\<lambda>f. f\<lparr>CurrentSectorInCluster := n f\<rparr>)"
  "same_handle (\<lambda>f. f\<lparr>CurrentCluster := c f, CurrentSectorInCluster := n f\<rparr>)"
  "same_handle (\<lambda>f. f\<lparr>Public := (Public f)\<lparr>Position := p f\<rparr>\<rparr>)"
  "same_handle (\<lambda>f. f\<lparr>Public := (Public f)\<lparr>Size := p f\<rparr>\<rparr>)"
  by (simp_all add: same_handle_def)

locale driver_view =
  fixes view :: "'a fat_scheme \<Rightarrow> 'v"
  assumes view_update: "same_handle f \<Longrightarrow> view (update_file h f s) = view s"
    and view_print: "view (print fmt args s) = view s"
    and view_calls: "view (s\<lparr>bios_calls := t\<rparr>) = view s"
begin

lemmas view_steps = view_update view_print view_calls

lemma view_read_buffer: "view (snd (read_buffer b disk h lba s)) = view s"
  by (simp add: read_buffer_def view_steps split: prod.split)

lemma view_checked_read:
  "view (snd (case read_buffer b disk h lba s of (ok, t) \<Rightarrow> if ok then (True, t) else (False, print fmt args t))) = view s"
  using view_read_buffer [of b disk h lba s] by (cases "read_buffer b disk h lba s") (simp add: view_steps)

lemma view_next_sector: "view (snd (next_sector b disk h s)) = view s"
  by (simp add: next_sector_def Let_def view_checked_read view_steps)

lemma view_read_loop: "view (snd (read_loop b disk h n out s)) = view s"
proof (induction b disk h n out s rule: read_loop.induct)
  case (1 b disk h n out s)
  let ?s = "update_file h (\<lambda>f. f\<lparr>Public := (Public f)\<lparr>Position := Position (Public f) + take_of n (Position (Public (file_data h s)))\<rparr>\<rparr>) s"
  obtain c t where "next_sector b disk h ?s = (c, t)" by fastforce
  moreover from this have "view t = view s" using view_next_sector [of b disk h ?s] by (simp add: view_steps)
  ultimately show ?case using 1 by (subst read_loop.simps) (auto simp: Let_def view_steps)
qed

lemma view_FAT_Read: "view (snd (FAT_Read b disk f n s)) = view s"
  by (simp add: FAT_Read_def Let_def view_read_loop)

lemma view_FAT_ReadEntry: "FAT_ReadEntry b disk f e s = (ok, e', s') \<Longrightarrow> view s' = view s"
  using view_FAT_Read [of b disk f 32 s] by (cases "FAT_Read b disk f 32 s") (auto simp: FAT_ReadEntry_def)

lemma view_find_loop:
  assumes "find_loop b disk f N e s = Some r"
  shows "view (snd r) = view s"
proof (rule find_loop.raw_induct [where P = "\<lambda>b disk f N e s r. view (snd r) = view s", OF _ assms])
  fix find and b disk f N e and s :: "'a fat_scheme" and r
  assume IH: "\<And>b disk f N e s r. find b disk f N e s = Some r \<Longrightarrow> view (snd r) = view s"
    and step: "(let (ok, e', s') = FAT_ReadEntry b disk f e s
      in if \<not> ok then Some (None, s') else if entry_name e' = take 11 N then Some (Some e', s') else find b disk f N e' s') = Some r"
  obtain ok e' s' where re: "FAT_ReadEntry b disk f e s = (ok, e', s')" by (metis prod_cases3)
  note o = view_FAT_ReadEntry [OF re]
  show "view (snd r) = view s" using step IH [of b disk f N e' s' r] o by (auto simp: re split: if_splits)
qed

lemma view_FAT_FindFile: "FAT_FindFile b disk f nm e s = Some (r, s') \<Longrightarrow> view s' = view s"
  unfolding FAT_FindFile_def by (drule view_find_loop) simp

lemma view_print_fold: "view (fold (\<lambda>i. print fmt (args i)) is s) = view s"
  by (induction "is" arbitrary: s) (simp_all add: view_steps)

lemma view_print_entry: "view (print_entry e s) = view s"
  by (simp add: print_entry_def print_name_part_def print_char_def Let_def view_steps view_print_fold)

lemma view_list_loop:
  assumes "list_loop b disk f e s = Some s1"
  shows "view s1 = view s"
proof (rule list_loop.raw_induct [where P = "\<lambda>b disk f e s s1. view s1 = view s", OF _ assms])
  fix rest and b disk f e and s s1 :: "'a fat_scheme"
  assume IH: "\<And>b disk f e s s1. rest b disk f e s = Some s1 \<Longrightarrow> view s1 = view s"
    and step: "(let (ok, e', s') = FAT_ReadEntry b disk f e s
      in if \<not> ok then Some s'
         else if e' 0 = 0x00 then Some s'
         else if e' 0 = 0xE5 then rest b disk f e' s'
         else if Attributes e' AND FAT_ATTRIBUTE_VOLUME_ID \<noteq> 0 then rest b disk f e' s'
         else rest b disk f e' (print_entry e' s')) = Some s1"
  obtain ok e' s' where re: "FAT_ReadEntry b disk f e s = (ok, e', s')" by (metis prod_cases3)
  note o = view_FAT_ReadEntry [OF re]
  show "view s1 = view s"
    using step IH [of b disk f e' s' s1] IH [of b disk f e' "print_entry e' s'" s1] o
    by (auto simp: re view_print_entry split: if_splits)
qed

end

section \<open>The table of handles\<close>

definition handles :: "'a fat_scheme \<Rightarrow> int \<times> (int \<times> bool) list" where
  "handles s = (Handle (Public (RootDirectory s)), map (\<lambda>f. (Handle (Public f), Opened f)) (OpenedFiles s))"

lemma map_update_same: "f (g (xs ! i)) = f (xs ! i) \<Longrightarrow> map f (xs[i := g (xs ! i)]) = map f xs"
  by (cases "i < length xs") (simp_all add: map_update list_update_same_conv list_update_beyond)

interpretation handle_table: driver_view handles
proof
  show "handles (update_file h f s) = handles s" if "same_handle f" for f h and s :: "'a fat_scheme"
    using that by (simp add: handles_def update_file_def same_handle_def map_update_same [where f = "\<lambda>f. (Handle (Public f), Opened f)" and g = f])
qed (simp_all add: handles_def print_def)

text \<open>Ten slots; a slot in use has its own number, and the root directory has its own handle.\<close>

definition handles_ok :: "'a fat_scheme \<Rightarrow> bool" where
  "handles_ok s \<longleftrightarrow> length (OpenedFiles s) = MAX_FILE_HANDLES \<and> Handle (Public (RootDirectory s)) = ROOT_DIRECTORY_HANDLE \<and>
     (\<forall>i<MAX_FILE_HANDLES. Opened (OpenedFiles s ! i) \<longrightarrow> Handle (Public (OpenedFiles s ! i)) = int i)"

text \<open>A pointer that the driver may follow: to the root directory, or to a slot with its own number.\<close>

definition points :: "file_ptr \<Rightarrow> 'a fat_scheme \<Rightarrow> bool" where
  "points f s \<longleftrightarrow> (case f of RootPtr \<Rightarrow> True | FilePtr i \<Rightarrow> i < MAX_FILE_HANDLES \<and> Handle (Public (OpenedFiles s ! i)) = int i)"

lemma handles_cong:
  assumes "handles s' = handles s"
  shows "handles_ok s' = handles_ok s" "handles_ok s \<Longrightarrow> points f s' = points f s"
proof -
  let ?h = "\<lambda>f. (Handle (Public f), Opened f)"
  have m: "map ?h (OpenedFiles s') = map ?h (OpenedFiles s)" and r: "Handle (Public (RootDirectory s')) = Handle (Public (RootDirectory s))"
    using assms by (simp_all add: handles_def)
  have l: "length (OpenedFiles s') = length (OpenedFiles s)" using m by (metis length_map)
  have n: "Handle (Public (OpenedFiles s' ! i)) = Handle (Public (OpenedFiles s ! i)) \<and> Opened (OpenedFiles s' ! i) = Opened (OpenedFiles s ! i)"
    if "i < length (OpenedFiles s)" for i
    using arg_cong [OF m, of "\<lambda>xs. xs ! i"] that l by simp
  show "handles_ok s' = handles_ok s" using n by (auto simp: handles_ok_def l r)
  show "points f s' = points f s" if "handles_ok s" using n that by (auto simp: points_def handles_ok_def split: file_ptr.split)
qed

text \<open>A pointer that may be followed selects the data it points to, and stays within the table.\<close>

lemma points_data:
  assumes "points f s" "handles_ok s"
  shows "Public (file_data (Handle (deref f s)) s) = deref f s"
    "f = FilePtr i \<Longrightarrow> Handle (deref f s) = int i \<and> i < length (OpenedFiles s)"
  using assms by (auto simp: points_def handles_ok_def deref_def file_data_def ROOT_DIRECTORY_HANDLE_def split: file_ptr.splits)

section \<open>The operations that change the table\<close>

lemma update_slot:
  assumes "handles_ok s" "i < MAX_FILE_HANDLES" "\<And>fd. Opened (f fd) \<Longrightarrow> Handle (Public (f fd)) = int i"
  shows "handles_ok (update_file (int i) f s)"
    "points g s \<Longrightarrow> (g = FilePtr i \<Longrightarrow> Handle (Public (f (OpenedFiles s ! i))) = int i) \<Longrightarrow> points g (update_file (int i) f s)"
  using assms by (auto simp: handles_ok_def update_file_def ROOT_DIRECTORY_HANDLE_def points_def nth_list_update split: file_ptr.splits)

lemma free_slot: "free_handle s = Some i \<Longrightarrow> i < MAX_FILE_HANDLES \<and> \<not> Opened (OpenedFiles s ! i)"
  by (auto simp: free_handle_def scan_Some_iff split: if_splits)

lemma close_keeps:
  assumes "handles_ok s" "points f s"
  shows "handles_ok (FAT_Close f s)" "points g s \<Longrightarrow> points g (FAT_Close f s)"
  using assms by (auto simp: handles_ok_def points_def FAT_Close_def Let_def deref_def update_public_def update_file_def
      ROOT_DIRECTORY_HANDLE_def nth_list_update split: file_ptr.splits)

lemma open_entry_keeps:
  assumes ok: "handles_ok s" and "FAT_OpenEntry b disk e s = (r, s')"
  shows "handles_ok s' \<and> (\<forall>f. r = Some f \<longrightarrow> points f s') \<and> (\<forall>g. points g s \<longrightarrow> points g s')"
proof (cases "free_handle s")
  case None
  then have "handles s' = handles s" using assms(2) by (auto simp: FAT_OpenEntry_def handle_table.view_steps)
  then show ?thesis using handles_cong [of s' s] ok assms(2) None by (auto simp: FAT_OpenEntry_def)
next
  case (Some i)
  note slot = free_slot [OF Some]
  let ?c = "ucast (FirstClusterLow e) + push_bit 16 (ucast (FirstClusterHigh e)) :: u32"
  let ?f = "\<lambda>fd. fd\<lparr>Public := \<lparr>Handle = int i, IsDirectory = Attributes e AND FAT_ATTRIBUTE_DIRECTORY \<noteq> 0,
                       Position = 0, Size = entry_size e\<rparr>, FirstCluster := ?c, CurrentCluster := ?c, CurrentSectorInCluster := 0\<rparr>"
  let ?s1 = "update_file (int i) ?f s"
  obtain okr t where rb: "read_buffer b disk (int i) (FAT_ClusterToLba (CurrentCluster (file_data (int i) ?s1)) ?s1) ?s1 = (okr, t)" by fastforce
  have s1: "handles_ok ?s1" "\<And>g. points g s \<Longrightarrow> points g ?s1" "points (FilePtr i) ?s1"
    using update_slot [OF ok, of i ?f] slot ok
    by (auto simp: points_def update_file_def ROOT_DIRECTORY_HANDLE_def handles_ok_def)
  have "handles t = handles ?s1" using handle_table.view_read_buffer [of b disk "int i" _ ?s1] rb by (metis snd_conv)
  then have t: "handles_ok t" "\<And>g. points g s \<Longrightarrow> points g t" "points (FilePtr i) t"
    using handles_cong [of t ?s1] s1 by simp_all
  show ?thesis
  proof (cases okr)
    case True
    have "handles_ok (update_file (int i) (\<lambda>fd. fd\<lparr>Opened := True\<rparr>) t)"
      "\<And>g. points g t \<Longrightarrow> points g (update_file (int i) (\<lambda>fd. fd\<lparr>Opened := True\<rparr>) t)"
      using t(1,3) slot by (auto simp: handles_ok_def points_def update_file_def ROOT_DIRECTORY_HANDLE_def nth_list_update split: file_ptr.splits)
    then show ?thesis using assms(2) Some rb t True by (auto simp: FAT_OpenEntry_def Let_def)
  next
    case False
    then have "handles s' = handles t" "r = None"
      using assms(2) Some rb by (auto simp: FAT_OpenEntry_def Let_def handle_table.view_steps handle_table.view_print_fold)
    then show ?thesis using handles_cong [of s' t] t by auto
  qed
qed

lemma open_path_keeps:
  "open_path b disk lit garbage path current s = Some (r, s') \<Longrightarrow> handles_ok s \<Longrightarrow> (\<forall>f. current = Some f \<longrightarrow> points f s) \<Longrightarrow>
   handles_ok s' \<and> (\<forall>f. r = Some f \<longrightarrow> points f s') \<and> (\<forall>g. points g s \<longrightarrow> points g s')"
proof (induction b disk lit garbage path current s arbitrary: r s' rule: open_path.induct)
  case (1 b disk lit garbage path current s)
  show ?case
  proof (cases "path = [] \<or> current = None")
    case True
    then show ?thesis using 1(2-4) by (auto simp: open_path.simps split: if_splits)
  next
    case False
    then obtain cur where cur: "path \<noteq> []" "current = Some cur" by auto
    let ?name = "case strchr path 0x2F of Some i \<Rightarrow> take i path | None \<Rightarrow> path"
    let ?rest = "case strchr path 0x2F of Some i \<Rightarrow> drop (Suc i) path | None \<Rightarrow> []"
    obtain found s1 where f: "FAT_FindFile b disk cur ?name garbage s = Some (found, s1)"
      using 1(2) cur by (subst (asm) open_path.simps) (auto simp: Let_def split: option.splits)
    have "handles s1 = handles s" by (rule handle_table.view_FAT_FindFile [OF f])
    then have s1: "handles_ok s1" "\<And>g. points g s1 = points g s" using handles_cong [of s1 s] 1(3) by auto
    let ?s2 = "FAT_Close cur s1"
    have s2: "handles_ok ?s2" "\<And>g. points g s \<Longrightarrow> points g ?s2"
      using close_keeps [OF s1(1), of cur] s1(2) 1(4) cur(2) by auto
    have p: "handles (print fmt args ?s2) = handles ?s2" for fmt args by (simp add: handle_table.view_steps)
    show ?thesis
    proof (cases found)
      case None
      then have "handles s' = handles ?s2" "r = None" using 1(2) cur f p by (subst (asm) open_path.simps, auto simp: Let_def)+
      then show ?thesis using handles_cong [of s' ?s2] s2 by auto
    next
      case (Some e)
      obtain opened s3 where oe: "FAT_OpenEntry b disk e ?s2 = (opened, s3)" by fastforce
      note s3 = open_entry_keeps [OF s2(1) oe]
      let ?file = "\<not> (\<not> (strchr path 0x2F = None) \<and> Attributes e AND (if FAT_ATTRIBUTE_DIRECTORY = 0 then 1 else 0) \<noteq> 0)"
      have "r = None \<and> handles s' = handles ?s2 \<or> ?file \<and> open_path b disk lit garbage ?rest opened s3 = Some (r, s')"
        using 1(2) cur f Some oe p by (subst (asm) open_path.simps) (auto simp: Let_def split: if_splits)
      then show ?thesis
      proof
        assume "r = None \<and> handles s' = handles ?s2"
        then show ?thesis using handles_cong [of s' ?s2] s2 by auto
      next
        assume o: "?file \<and> open_path b disk lit garbage ?rest opened s3 = Some (r, s')"
        then have "?file" "open_path b disk lit garbage ?rest opened s3 = Some (r, s')" by blast+
        note IH = 1(1) [OF cur refl refl refl refl f refl Some refl this(1) refl oe [symmetric] this(2)]
        show ?thesis using IH s2 s3 by blast
      qed
    qed
  qed
qed

text \<open>Mounting closes every handle.\<close>

lemma initialize_handles:
  assumes "length (OpenedFiles s) = MAX_FILE_HANDLES" "FAT_Initialize b disk s = (True, s')"
  shows "handles_ok s'"
proof -
  let ?clear = "fold (\<lambda>i. update_file (int i) (\<lambda>f. f\<lparr>Opened := False\<rparr>)) [0..<MAX_FILE_HANDLES]"
  obtain ok1 s1 where 1: "FAT_ReadBootSector b disk s = (ok1, s1)" by fastforce
  obtain ok2 s2 where 2: "FAT_ReadFat b disk s1 = (ok2, s2)" by fastforce
  let ?lba = "ucast (ReservedSectors s2) + ucast (SectorsPerFat s2) * ucast (FatCount s2) :: u32"
  let ?s3 = "s2\<lparr>RootDirectory := (RootDirectory s2)
       \<lparr>Public := \<lparr>Handle = ROOT_DIRECTORY_HANDLE, IsDirectory = True, Position = 0, Size = 32 * ucast (DirEntryCount s2)\<rparr>,
        Opened := True, FirstCluster := ?lba, CurrentCluster := ?lba, CurrentSectorInCluster := 0\<rparr>\<rparr>"
  obtain ok4 s4 where 4: "read_root b disk ?lba ?s3 = (ok4, s4)" by fastforce
  have kept: "OpenedFiles (snd (FAT_ReadBootSector b disk t)) = OpenedFiles t" "OpenedFiles (snd (FAT_ReadFat b disk t)) = OpenedFiles t"
    "OpenedFiles (snd (read_root b disk lba t)) = OpenedFiles t"
    "Handle (Public (RootDirectory (snd (read_root b disk lba t)))) = Handle (Public (RootDirectory t))" for t :: "'a fat_scheme" and lba
    by (simp_all add: FAT_ReadBootSector_def FAT_ReadFat_def read_root_def split: prod.split)
  have s4: "OpenedFiles s4 = OpenedFiles s" "Handle (Public (RootDirectory s4)) = ROOT_DIRECTORY_HANDLE"
    using kept(1) [of s] kept(2) [of s1] kept(3,4) [of ?lba ?s3] 1 2 4 by simp_all
  have "\<exists>lba. s' = ?clear (s4\<lparr>g_DataSectionLba := lba\<rparr>)"
    using assms(2) unfolding FAT_Initialize_def 1 by (auto simp: Let_def 2 4 split: if_splits)
  then obtain lba where s': "s' = ?clear (s4\<lparr>g_DataSectionLba := lba\<rparr>)" by blast
  let ?s5 = "s4\<lparr>g_DataSectionLba := lba\<rparr>"
  have "set [0..<MAX_FILE_HANDLES] \<subseteq> {i. i < length (OpenedFiles ?s5)}" using assms(1) s4(1) by auto
  from fold_close_handles [OF this] obtain fs where "?clear ?s5 = ?s5\<lparr>OpenedFiles := fs\<rparr>" "length fs = length (OpenedFiles ?s5)"
    "\<forall>i<length fs. Opened (fs ! i) = (i \<notin> set [0..<MAX_FILE_HANDLES] \<and> Opened (OpenedFiles ?s5 ! i))" by blast
  then show ?thesis using assms(1) s4 by (simp add: s' handles_ok_def)
qed

section \<open>Using the driver\<close>

text \<open>The states that calls of the driver lead to, with the pointers that it has given out; a pointer may
  be used any number of times, also after it was closed.\<close>

inductive driver_reaches :: "bios \<Rightarrow> DISK \<Rightarrow> 'a fat_scheme \<Rightarrow> file_ptr set \<Rightarrow> bool" for b disk where
  mount: "length (OpenedFiles s) = MAX_FILE_HANDLES \<Longrightarrow> FAT_Initialize b disk s = (True, s') \<Longrightarrow> driver_reaches b disk s' {}"
| found: "driver_reaches b disk s fs \<Longrightarrow> FAT_Open b disk lit garbage path s = Some (Some f, s') \<Longrightarrow>
    driver_reaches b disk s' (insert f fs)"
| not_found: "driver_reaches b disk s fs \<Longrightarrow> FAT_Open b disk lit garbage path s = Some (None, s') \<Longrightarrow> driver_reaches b disk s' fs"
| read: "driver_reaches b disk s fs \<Longrightarrow> f \<in> fs \<Longrightarrow> FAT_Read b disk f n s = (bs, s') \<Longrightarrow> driver_reaches b disk s' fs"
| read_entry: "driver_reaches b disk s fs \<Longrightarrow> f \<in> fs \<Longrightarrow> FAT_ReadEntry b disk f e s = (ok, e', s') \<Longrightarrow> driver_reaches b disk s' fs"
| list: "driver_reaches b disk s fs \<Longrightarrow> f \<in> fs \<Longrightarrow> FAT_ListDirectory b disk f garbage s = Some s' \<Longrightarrow> driver_reaches b disk s' fs"
| close: "driver_reaches b disk s fs \<Longrightarrow> f \<in> fs \<Longrightarrow> driver_reaches b disk (FAT_Close f s) fs"

lemma list_handles:
  assumes "FAT_ListDirectory b disk f garbage s = Some s'"
  shows "handles s' = handles s"
proof -
  have "handles (update_public f (\<lambda>p. p\<lparr>Position := 0\<rparr>) s) = handles s"
    by (cases f) (simp_all add: handles_def update_public_def
        map_update_same [where f = "\<lambda>f. (Handle (Public f), Opened f)" and g = "\<lambda>f. f\<lparr>Public := (Public f)\<lparr>Position := 0\<rparr>\<rparr>"])
  then show ?thesis using handle_table.view_list_loop assms unfolding FAT_ListDirectory_def by fastforce
qed

section \<open>Properties\<close>

text \<open>C40 After mounting, whatever the disk answers and in whatever order files are opened, read, listed and
  closed, the table keeps its ten slots, every slot in use has its own number, and every pointer that
  was given out selects the data it points to, within the table.\<close>

theorem driver_pointers_valid:
  assumes "driver_reaches b disk s fs"
  shows "handles_ok s \<and> (\<forall>f\<in>fs. points f s \<and> Public (file_data (Handle (deref f s)) s) = deref f s)"
proof -
  have same: "handles s' = handles s \<Longrightarrow> handles_ok s \<and> (\<forall>f\<in>fs. points f s) \<Longrightarrow> handles_ok s' \<and> (\<forall>f\<in>fs. points f s')"
    for s s' :: "'a fat_scheme" and fs using handles_cong [of s' s] by blast
  have "handles_ok s \<and> (\<forall>f\<in>fs. points f s)"
    using assms
  proof induction
    case (mount s s')
    then show ?case using initialize_handles by blast
  next
    case (found s fs lit garbage path f s')
    then show ?case using open_path_keeps [of b disk lit garbage _ "Some RootPtr" s "Some f" s']
      unfolding FAT_Open_def by (auto simp: points_def)
  next
    case (not_found s fs lit garbage path s')
    then show ?case using open_path_keeps [of b disk lit garbage _ "Some RootPtr" s None s']
      unfolding FAT_Open_def by (auto simp: points_def)
  next
    case (read s fs f n bs s')
    then show ?case using handle_table.view_FAT_Read [of b disk f n s] by (intro same [of s' s]) simp_all
  next
    case (read_entry s fs f e ok e' s')
    show ?case by (rule same [OF handle_table.view_FAT_ReadEntry [OF read_entry.hyps(3)] read_entry.IH])
  next
    case (list s fs f garbage s')
    show ?case by (rule same [OF list_handles [OF list.hyps(3)] list.IH])
  next
    case (close s fs f)
    then show ?case using close_keeps [of s f] by blast
  qed
  then show ?thesis using points_data(1) by blast
qed

theorem driver_pointers_valid_witness:
  "\<exists>s. FAT_Initialize (image_bios example_disk example_medium) example_disk example_fat = (True, s) \<and> handles_ok s"
proof -
  let ?b = "image_bios example_disk example_medium"
  have n: "length (OpenedFiles example_fat) = MAX_FILE_HANDLES" by (simp add: example_fat_def Let_def)
  then obtain s where s: "FAT_Initialize ?b example_disk example_fat = (True, s)"
    using FAT_Initialize_layout [OF example_reads example_mountable] by blast
  have "driver_reaches ?b example_disk s {}" by (rule driver_reaches.mount [OF n s])
  from driver_pointers_valid [OF this] s show ?thesis by blast
qed

end
