(* ===== verification/Boot_Load.thy ===== *)
theory Boot_Load
  imports Boot_Main Fat_Handles
begin

text \<open>
  What the bootloader of \<open>Boot_Main\<close> puts into memory and hands over to the kernel.

  The first lemmas are frame facts: the file system driver leaves the machine and the boot parameters
  alone, and what it knows of a file does not depend on them. Then come the loading loops, the memory
  detection, and the composition: on a readable disk the jump finds the kernel at 3 GiB.
\<close>

section \<open>The driver and the rest of the state\<close>

text \<open>The part of the state that is not the driver's.\<close>

definition outside :: "'a boot_scheme \<Rightarrow> machine \<times> BootParams \<times> (nat \<Rightarrow> MemoryRegion)" where
  "outside s = (world s, g_BootParams s, g_MemRegions s)"

lemma outside_steps [simp]:
  "outside (update_file h f s) = outside s" "outside (print fmt args s) = outside s" "outside (s\<lparr>bios_calls := t\<rparr>) = outside s"
  by (simp_all add: outside_def update_file_def print_def)

interpretation machine_view: driver_view outside
  by unfold_locales simp_all

lemmas outside_read_buffer [simp] = machine_view.view_read_buffer
lemmas outside_FAT_Read [simp] = machine_view.view_FAT_Read

lemma outside_FAT_Close [simp]: "outside (FAT_Close f s) = outside s"
  by (auto simp: outside_def FAT_Close_def Let_def update_public_def update_file_def split: file_ptr.split)

lemma outside_FAT_OpenEntry [simp]: "outside (snd (FAT_OpenEntry b disk e s)) = outside s"
proof (cases "free_handle s")
  case None
  then show ?thesis by (simp add: FAT_OpenEntry_def)
next
  case (Some h)
  have pr: "outside (fold (\<lambda>i. print (ascii ''%c'') [ucast (e i)]) is t) = outside t" for "is" and t :: "'a boot_scheme"
    by (rule machine_view.view_print_fold)
  let ?c = "ucast (FirstClusterLow e) + push_bit 16 (ucast (FirstClusterHigh e)) :: u32"
  let ?s1 = "update_file (int h) (\<lambda>fd. fd\<lparr>Public := \<lparr>Handle = int h, IsDirectory = Attributes e AND FAT_ATTRIBUTE_DIRECTORY \<noteq> 0,
                       Position = 0, Size = entry_size e\<rparr>, FirstCluster := ?c, CurrentCluster := ?c, CurrentSectorInCluster := 0\<rparr>) s"
  obtain ok t where r: "read_buffer b disk (int h) (FAT_ClusterToLba (CurrentCluster (file_data (int h) ?s1)) ?s1) ?s1 = (ok, t)" by fastforce
  then have "outside t = outside ?s1" using outside_read_buffer [of b disk "int h" _ ?s1] by (metis snd_conv)
  then show ?thesis using Some r by (simp add: FAT_OpenEntry_def Let_def pr)
qed

lemma outside_open_path:
  "open_path b disk lit garbage path current s = Some r \<Longrightarrow> outside (snd r) = outside s"
proof (induction b disk lit garbage path current s arbitrary: r rule: open_path.induct)
  case (1 b disk lit garbage path current s)
  show ?case
  proof (cases "path = [] \<or> current = None")
    case True
    then show ?thesis using 1(2) by (auto simp: open_path.simps split: if_splits)
  next
    case False
    then obtain cur where cur: "path \<noteq> []" "current = Some cur" by auto
    let ?name = "case strchr path 0x2F of Some i \<Rightarrow> take i path | None \<Rightarrow> path"
    let ?rest = "case strchr path 0x2F of Some i \<Rightarrow> drop (Suc i) path | None \<Rightarrow> []"
    obtain found s1 where f: "FAT_FindFile b disk cur ?name garbage s = Some (found, s1)"
      using 1(2) cur by (subst (asm) open_path.simps) (auto simp: Let_def split: option.splits)
    have o: "outside s1 = outside s" by (rule machine_view.view_FAT_FindFile [OF f])
    show ?thesis
    proof (cases found)
      case None
      then show ?thesis using 1(2) cur f o by (subst (asm) open_path.simps) (auto simp: Let_def)
    next
      case (Some e)
      obtain opened s3 where oe: "FAT_OpenEntry b disk e (FAT_Close cur s1) = (opened, s3)" by fastforce
      have o3: "outside s3 = outside s" using outside_FAT_OpenEntry [of b disk e "FAT_Close cur s1"] oe o by simp
      show ?thesis
        using 1 cur f Some oe o o3 by (subst (asm) open_path.simps) (auto simp: Let_def split: if_splits)
    qed
  qed
qed

text \<open>The facts about files do not depend on the rest.\<close>

lemma same_volume_outside [simp]:
  "same_volume s0 (s\<lparr>world := w\<rparr>) = same_volume s0 s" "same_volume s0 (s\<lparr>g_BootParams := bp\<rparr>) = same_volume s0 s"
  "same_volume s0 (s\<lparr>g_MemRegions := rs\<rparr>) = same_volume s0 s"
  "same_volume (s\<lparr>world := w\<rparr>) s1 = same_volume s s1" "same_volume (s\<lparr>g_BootParams := bp\<rparr>) s1 = same_volume s s1"
  "same_volume (s\<lparr>g_MemRegions := rs\<rparr>) s1 = same_volume s s1"
  by (simp_all add: same_volume_def)

lemma file_at_update_mem [simp]: "file_at b disk medium s0 h c0 len (update_mem f s) p = file_at b disk medium s0 h c0 len s p"
proof -
  have v: "same_volume s (update_mem f s)" by (simp add: update_mem_def)
  note V = volume_functions [OF v]
  have "at_pos medium (update_mem f s) h c0 len p = at_pos medium s h c0 len p"
    by (simp add: at_pos_def at_sector_def Let_def V) (simp add: file_data_def update_mem_def)
  then show ?thesis by (simp add: file_at_def update_mem_def)
qed

section \<open>The loading loops\<close>

lemma update_mem_simps [simp]:
  "world (update_mem f s) = (world s)\<lparr>mem := f (mem (world s))\<rparr>" "g_BootParams (update_mem f s) = g_BootParams s"
  "g_MemRegions (update_mem f s) = g_MemRegions s" "RootDirectory (update_mem f s) = RootDirectory s"
  by (simp_all add: update_mem_def)

lemma root_FAT_Read:
  assumes "file_at b disk medium s0 h c0 len s p"
  shows "RootDirectory (snd (FAT_Read b disk (FilePtr h) n s)) = RootDirectory s"
proof -
  have "Handle (deref (FilePtr h) s) = int h" by (rule open_file.pointer [OF assms])
  moreover have "int h \<noteq> ROOT_DIRECTORY_HANDLE" by (simp add: ROOT_DIRECTORY_HANDLE_def)
  ultimately show ?thesis by (simp add: FAT_Read_def Let_def root_read_loop)
qed

text \<open>One pass: a part of at most 64 KiB goes to the buffer, and a part of less than 64 KiB from there to
  its place. \<open>B\<close> are the bytes of the file.\<close>

definition loads :: "u32 \<Rightarrow> (nat \<Rightarrow> u8) \<Rightarrow> nat \<Rightarrow> nat \<Rightarrow> ram \<Rightarrow> ram \<Rightarrow> bool" where
  "loads base B lo hi m m' \<longleftrightarrow> (\<forall>x. \<not> in_range MEMORY_LOAD_KERNEL 65536 x \<longrightarrow>
     m' x = (if lo \<le> unat (x - base) \<and> unat (x - base) < hi then B (unat (x - base)) else m x))"

text \<open>The copy of one part, from the buffer to its place; its count is cut to 16 bits.\<close>

lemma copied_part:
  assumes r: "r \<le> 65536" "p + r \<le> len" "0 < r"
    and base: "0x40000 \<le> unat base" "unat base + len \<le> 4294967296"
    and m: "m = put_bytes MEMORY_LOAD_KERNEL (map B [p..<p + r]) m0"
  shows "loads base B p (if r < 65536 then p + r else p) m0
    (boot_memcpy m (base + of_nat p) MEMORY_LOAD_KERNEL (ucast (of_nat r :: u32)))"
  unfolding loads_def
proof (intro allI impI)
  fix x :: u32 assume x: "\<not> in_range MEMORY_LOAD_KERNEL 65536 x"
  define n where "n = unat (ucast (of_nat r :: u32) :: u16)"
  have n: "n = (if r < 65536 then r else 0)" using r(1) by (auto simp: n_def unat_to_u16 unat_of_nat32)
  have mx: "m x = m0 x"
    using x r(1) by (auto simp: m put_bytes_def in_range_def)
  have pos: "unat (base + of_nat p) = unat base + p" using base r(2,3) by (simp add: unat_word_ariths unat_of_nat32)
  have ap: "apart (base + of_nat p) n MEMORY_LOAD_KERNEL n"
    using base r n by (intro apart_unat) (auto simp: pos MEMORY_LOAD_KERNEL_def)
  have cp: "boot_memcpy m (base + of_nat p) MEMORY_LOAD_KERNEL (ucast (of_nat r :: u32)) x =
      (if in_range (base + of_nat p) n x then m (MEMORY_LOAD_KERNEL + (x - (base + of_nat p))) else m x)"
    unfolding boot_memcpy_eq n_def by (rule memcpy_apply) (use ap in \<open>simp add: n_def\<close>)
  have rng: "in_range (base + of_nat p) n x \<longleftrightarrow> unat (base + of_nat p) \<le> unat x \<and> unat x < unat (base + of_nat p) + n"
    by (rule in_range_unat) (use base r n in \<open>auto simp: pos\<close>)
  have d: "unat (x - base) = (if unat base \<le> unat x then unat x - unat base else unat x + 4294967296 - unat base)"
    by (rule unat_minus_small)
  show "boot_memcpy m (base + of_nat p) MEMORY_LOAD_KERNEL (ucast (of_nat r :: u32)) x =
    (if p \<le> unat (x - base) \<and> unat (x - base) < (if r < 65536 then p + r else p) then B (unat (x - base)) else m0 x)"
  proof (cases "in_range (base + of_nat p) n x")
    case True
    then have "unat base + p \<le> unat x" "unat x < unat base + p + n" by (simp_all add: rng pos)
    moreover from this have "r < 65536" "n = r" using n by (auto split: if_splits)
    moreover have off: "unat (x - (base + of_nat p)) = unat x - (unat base + p)"
      using calculation by (simp add: unat_minus_small pos)
    moreover have "unat x - (unat base + p) < r" using calculation by linarith
    moreover have "m (MEMORY_LOAD_KERNEL + (x - (base + of_nat p))) = B (p + (unat x - (unat base + p)))"
      using calculation by (subst m, subst put_bytes_def) simp
    moreover have "p \<le> unat x - unat base" "unat x - unat base < p + r" using calculation by linarith+
    ultimately show ?thesis using True unfolding cp d by simp
  next
    case False
    then have "\<not> (unat base + p \<le> unat x \<and> unat x < unat base + p + n)" by (simp add: rng pos)
    then have "\<not> (p \<le> unat (x - base) \<and> unat (x - base) < (if r < 65536 then p + r else p))"
      using base(2) r(2) n unat_u32_lt [of base] by (auto simp: d split: if_splits)
    with False show ?thesis by (simp only: cp mx if_False)
  qed
qed

lemma load_part:
  assumes f: "file_at b disk medium s0 h c0 len s p" and p: "p < len"
    and base: "0x40000 \<le> unat base" "unat base + len \<le> 4294967296"
  defines "B \<equiv> file_byte medium s0 c0" and "r \<equiv> min 65536 (len - p)"
  shows "\<exists>s1. FAT_Read_into b disk (FilePtr h) MEMORY_LOAD_SIZE MEMORY_LOAD_KERNEL s = (of_nat r, s1) \<and>
    file_at b disk medium s0 h c0 len s1 (p + r) \<and> g_BootParams s1 = g_BootParams s \<and> g_MemRegions s1 = g_MemRegions s \<and>
    RootDirectory s1 = RootDirectory s \<and>
    (\<exists>m. world s1 = (world s)\<lparr>mem := m\<rparr> \<and> loads base B p (if r < 65536 then p + r else p) (mem (world s))
      (boot_memcpy m (base + of_nat p) MEMORY_LOAD_KERNEL (ucast (of_nat r :: u32))))"
proof -
  have r: "p + r = min (p + 65536) len" "r \<le> 65536" "0 < r" "p + r \<le> len" using p by (auto simp: r_def min_def)
  have "unat MEMORY_LOAD_SIZE = 65536" by (simp add: MEMORY_LOAD_SIZE_def)
  then obtain t where t: "FAT_Read b disk (FilePtr h) MEMORY_LOAD_SIZE s = (map B [p..<p + r], t)"
    "file_at b disk medium s0 h c0 len t (p + r)"
    using open_file.read [OF f, of MEMORY_LOAD_SIZE] r(1) by (auto simp: B_def)
  have out: "outside t = outside s" using outside_FAT_Read [of b disk "FilePtr h" MEMORY_LOAD_SIZE s] t(1) by simp
  have root: "RootDirectory t = RootDirectory s" using root_FAT_Read [OF f, of MEMORY_LOAD_SIZE] t(1) by simp
  define m where "m = put_bytes MEMORY_LOAD_KERNEL (map B [p..<p + r]) (mem (world s))"
  let ?s1 = "update_mem (put_bytes MEMORY_LOAD_KERNEL (map B [p..<p + r])) t"
  have "FAT_Read_into b disk (FilePtr h) MEMORY_LOAD_SIZE MEMORY_LOAD_KERNEL s = (of_nat r, ?s1)"
    by (simp add: FAT_Read_into_def t(1))
  moreover have "file_at b disk medium s0 h c0 len ?s1 (p + r)" using t(2) by simp
  moreover have "world ?s1 = (world s)\<lparr>mem := m\<rparr>" "g_BootParams ?s1 = g_BootParams s" "g_MemRegions ?s1 = g_MemRegions s"
    "RootDirectory ?s1 = RootDirectory s"
    using out root by (simp_all add: outside_def m_def)
  moreover have "loads base B p (if r < 65536 then p + r else p) (mem (world s))
      (boot_memcpy m (base + of_nat p) MEMORY_LOAD_KERNEL (ucast (of_nat r :: u32)))"
    by (rule copied_part) (use r base in \<open>simp_all add: m_def\<close>)
  ultimately show ?thesis by blast
qed

text \<open>The loops: the parts of 64 KiB leave the memory as it is, because the count is cut to 16 bits; only
  the last part, of less than 64 KiB, gets to its place.\<close>

lemma loads_none: "loads base B p p m m' \<Longrightarrow> loads base B lo hi m' m'' \<Longrightarrow> loads base B lo hi m m''"
  "loads base B lo hi m m' \<Longrightarrow> loads base B p p m' m'' \<Longrightarrow> loads base B lo hi m m''"
  by (simp_all add: loads_def)

lemma loads_refl [simp]: "loads base B p p m m"
  by (auto simp: loads_def)

text \<open>The result of a loop that starts at position \<open>p\<close>.\<close>

definition loaded :: "bios \<Rightarrow> DISK \<Rightarrow> (nat \<Rightarrow> nat \<Rightarrow> u8) \<Rightarrow> 'a boot_scheme \<Rightarrow> nat \<Rightarrow> u32 \<Rightarrow> nat \<Rightarrow> u32 \<Rightarrow> nat \<Rightarrow> 'a boot_scheme \<Rightarrow> 'a boot_scheme \<Rightarrow> bool" where
  "loaded b disk medium s0 h c0 len base p s s1 \<longleftrightarrow>
     file_at b disk medium s0 h c0 len s1 len \<and> g_BootParams s1 = g_BootParams s \<and> g_MemRegions s1 = g_MemRegions s \<and>
     RootDirectory s1 = RootDirectory s \<and>
     world s1 = (world s)\<lparr>mem := mem (world s1)\<rparr> \<and>
     loads base (file_byte medium s0 c0) (max p (65536 * (len div 65536))) len (mem (world s)) (mem (world s1))"

text \<open>At the end of the file the loops stop.\<close>

lemma load_loops_end:
  assumes f: "file_at b disk medium s0 h c0 len s len"
  shows "\<exists>s1. load_kernel b disk (FilePtr h) a s = Some s1 \<and> load_userland b disk (FilePtr h) n s = Some (n, s1) \<and>
    loaded b disk medium s0 h c0 len base len s s1"
proof -
  obtain t where t: "FAT_Read b disk (FilePtr h) MEMORY_LOAD_SIZE s = ([], t)" "file_at b disk medium s0 h c0 len t len"
    using open_file.read [OF f, of MEMORY_LOAD_SIZE] by auto
  have out: "outside t = outside s" using outside_FAT_Read [of b disk "FilePtr h" MEMORY_LOAD_SIZE s] t(1) by simp
  have root: "RootDirectory t = RootDirectory s" using root_FAT_Read [OF f, of MEMORY_LOAD_SIZE] t(1) by simp
  have "put_bytes a [] = (\<lambda>m. m)" for a by (simp add: put_bytes_def fun_eq_iff)
  then have r: "FAT_Read_into b disk (FilePtr h) MEMORY_LOAD_SIZE MEMORY_LOAD_KERNEL s = (0, t)"
    by (simp add: FAT_Read_into_def t(1) update_mem_def)
  have "load_kernel b disk (FilePtr h) a s = Some t" "load_userland b disk (FilePtr h) n s = Some (n, t)"
    by (simp_all add: load_kernel.simps [of b disk "FilePtr h"] load_userland.simps [of b disk "FilePtr h"] r)
  then show ?thesis
    using t(2) out root by (intro exI [of _ t]) (simp add: loaded_def outside_def max_absorb1)
qed

text \<open>What the first part and the rest leave in memory.\<close>

lemma loads_rest:
  assumes dvd: "65536 dvd p" and r: "r \<le> 65536" "p + r \<le> len" "r < 65536 \<Longrightarrow> p + r = len"
    and "loads base B p (if r < 65536 then p + r else p) m m'"
    and "loads base B (max (p + r) (65536 * (len div 65536))) len m' m''"
  shows "loads base B (max p (65536 * (len div 65536))) len m m''"
proof (cases "r = 65536")
  case True
  have "65536 * ((p + r) div 65536) \<le> 65536 * (len div 65536)" using r(2) by (intro mult_le_mono2 div_le_mono)
  moreover have "65536 * ((p + r) div 65536) = p + r" using dvd True by simp
  ultimately have "max p (65536 * (len div 65536)) = max (p + r) (65536 * (len div 65536))" by simp
  then show ?thesis using loads_none(1) [of base B p] assms(5,6) True by simp
next
  case False
  then have r': "r < 65536" "p + r = len" using r by simp_all
  obtain q where q: "p = 65536 * q" using dvd by (elim dvdE)
  have "len div 65536 = q" using r' q by (intro div_nat_eqI) simp_all
  then have x: "max p (65536 * (len div 65536)) = p" "max (p + r) (65536 * (len div 65536)) = len" using q r' by simp_all
  have "loads base B p len m m'" using assms(5) r' by simp
  moreover have "loads base B len len m' m''" using assms(6) unfolding x(2) .
  ultimately show ?thesis unfolding x(1) by (rule loads_none(2))
qed

lemma load_loops:
  assumes "file_at b disk medium s0 h c0 len s p" "65536 dvd p \<or> p = len"
    and "0x40000 \<le> unat base" "unat base + len \<le> 4294967296"
  shows "\<exists>s1. load_kernel b disk (FilePtr h) (base + of_nat p) s = Some s1 \<and>
    (base = MEMORY_USERLAND_ADDR \<longrightarrow> load_userland b disk (FilePtr h) (of_nat p) s = Some (of_nat len, s1)) \<and>
    loaded b disk medium s0 h c0 len base p s s1"
  using assms(1,2)
proof (induction "len - p" arbitrary: p s rule: less_induct)
  case less
  let ?B = "file_byte medium s0 c0"
  show ?case
  proof (cases "p < len")
    case False
    then have "p = len" using open_file.bounded [OF less.prems(1)] by simp
    then show ?thesis using load_loops_end less.prems(1) by blast
  next
    case True
    then have dvd: "65536 dvd p" using less.prems(2) by simp
    define r where "r = min 65536 (len - p)"
    have r: "0 < r" "r \<le> 65536" "p + r \<le> len" "r < 65536 \<Longrightarrow> p + r = len" using True by (auto simp: r_def)
    obtain s1 m where s1: "FAT_Read_into b disk (FilePtr h) MEMORY_LOAD_SIZE MEMORY_LOAD_KERNEL s = (of_nat r, s1)"
      "file_at b disk medium s0 h c0 len s1 (p + r)" "g_BootParams s1 = g_BootParams s" "g_MemRegions s1 = g_MemRegions s"
      "RootDirectory s1 = RootDirectory s" "world s1 = (world s)\<lparr>mem := m\<rparr>"
      "loads base ?B p (if r < 65536 then p + r else p) (mem (world s))
         (boot_memcpy m (base + of_nat p) MEMORY_LOAD_KERNEL (ucast (of_nat r :: u32)))"
      using load_part [OF less.prems(1) True assms(3,4)] unfolding r_def by blast
    define s2 where "s2 = update_mem (\<lambda>m. boot_memcpy m (base + of_nat p) MEMORY_LOAD_KERNEL (ucast (of_nat r :: u32))) s1"
    have nz: "(of_nat r :: u32) \<noteq> 0" using r(1,2) by (auto simp: word_unat_eq_iff unat_of_nat32)
    have "file_at b disk medium s0 h c0 len s2 (p + r)" using s1(2) by (simp add: s2_def)
    moreover have "len - (p + r) < len - p" using r True by simp
    moreover have "65536 dvd p + r \<or> p + r = len" using r dvd by (cases "r = 65536") auto
    ultimately obtain s3 where s3: "load_kernel b disk (FilePtr h) (base + of_nat (p + r)) s2 = Some s3"
      "base = MEMORY_USERLAND_ADDR \<longrightarrow> load_userland b disk (FilePtr h) (of_nat (p + r)) s2 = Some (of_nat len, s3)"
      "loaded b disk medium s0 h c0 len base (p + r) s2 s3"
      using less.hyps by blast
    have "load_kernel b disk (FilePtr h) (base + of_nat p) s = Some s3"
      using s3(1) nz by (simp add: load_kernel.simps [of b disk "FilePtr h" "base + of_nat p"] s1(1) s2_def add.assoc)
    moreover have "base = MEMORY_USERLAND_ADDR \<longrightarrow> load_userland b disk (FilePtr h) (of_nat p) s = Some (of_nat len, s3)"
      using s3(2) nz by (simp add: load_userland.simps [of b disk "FilePtr h" "of_nat p"] s1(1) s2_def)
    moreover have "loads base ?B (max p (65536 * (len div 65536))) len (mem (world s)) (mem (world s3))"
      by (rule loads_rest [OF dvd r(2-4) s1(7)]) (use s3(3) s1(6) in \<open>simp_all add: loaded_def s2_def\<close>)
    ultimately show ?thesis
      using s3(3) s1(3-6) by (intro exI [of _ s3]) (simp add: loaded_def s2_def)
  qed
qed

end
