(* ===== verification/Boot_Paging.thy ===== *)
theory Boot_Paging
  imports Boot_Memory Address_Space
begin

text \<open>
  The bootloader's memory set-up in its own place, below 128 KiB: \<open>Initialize_memories\<close> and the loop of
  \<open>start\<close> that removes the low mapping of the kernel.

  The bitmap lies on the page after the bootloader and the tables in the first free frames behind it, so
  with 32 to 512 MiB of memory nothing from \<open>0x30000\<close> on is written: the files that have been loaded there
  survive. The kernel is mapped at 3 GiB, the first megabyte stays mapped, and the rest of the first
  4 MiB does not.
\<close>

section \<open>The physical memory manager\<close>

lemma pages_of_le: "unat n \<le> 4096 * k \<Longrightarrow> k < 0x100000 \<Longrightarrow> unat (pages_of n) \<le> k"
proof -
  assume n: "unat n \<le> 4096 * k" "k < 0x100000"
  then have "unat (pages_of n) = (unat n + 4095) div 4096"
    by (simp add: pages_of_def PER_BLOCK_SIZE_def unat_div unat_word_ariths)
  also have "\<dots> < Suc k" using n(1) by (simp add: div_less_iff_less_mult)
  finally show ?thesis by simp
qed

lemma boot_INIT_MEMORY_eq:
  assumes "ram_pages bp \<le> 0x7FFF8"
  shows "boot_INIT_MEMORY ks ke bp w =
    reserve_memory (setup_memory_bitmap (get_memory_info (Memory bp) (set_kernel_addr ks ke w)))"
proof -
  have "unat (BITMAP_SIZEB (get_memory_info (Memory bp) (set_kernel_addr ks ke w))) < 65536"
    unfolding get_memory_info_sizes(2) unat_sizes [OF get_memory_info_sizes(3)] TOTAL_PAGES_ram_pages
    using assms by (simp add: div_less_iff_less_mult)
  then show ?thesis by (simp add: boot_INIT_MEMORY_def Let_def boot_setup_memory_bitmap_eq)
qed

text \<open>The state before the reservations, with the bitmap at \<open>B\<close>.\<close>

lemma low_bitmap:
  fixes ks :: u32
  assumes ke: "unat ke \<le> 0x20000" and ram: "ram_pages bp \<le> 0x20000" and w: "TOTAL_USED_BLOCKS w = 0"
  defines "s \<equiv> setup_memory_bitmap (get_memory_info (Memory bp) (set_kernel_addr ks ke w))"
  shows "unat (BIT_MAP s) = (unat ke + 0xFFF) div 4096 * 4096" "unat (BIT_MAP s) \<le> 0x20000"
    "unat (TOTAL_BLOCK s) = (ram_pages bp + 31) div 32" "unat (BITMAP_SIZEB s) = (ram_pages bp + 7) div 8"
    "TOTAL_USED_BLOCKS s = 0" "KERNEL_START_ADDR s = ks" "KERNEL_END_ADDR s = ke"
    "\<And>f. f < ram_pages bp \<Longrightarrow> \<not> used s (of_nat f)" "\<And>x. 0x24000 \<le> unat x \<Longrightarrow> mem s x = mem w x"
proof -
  let ?s0 = "get_memory_info (Memory bp) (set_kernel_addr ks ke w)"
  have bm: "BIT_MAP s = (ke + 0xFFF) AND NOT 0xFFF"
    by (simp add: s_def setup_memory_bitmap_def get_memory_info_def set_kernel_addr_def Let_def)
  show B: "unat (BIT_MAP s) = (unat ke + 0xFFF) div 4096 * 4096"
    unfolding bm using ke by (intro unat_round_up) simp
  have "(unat ke + 0xFFF) div 4096 < 33" using ke by (simp add: div_less_iff_less_mult)
  then show B2: "unat (BIT_MAP s) \<le> 0x20000" unfolding B by simp
  have sz: "unat (TOTAL_BLOCK ?s0) = (ram_pages bp + 31) div 32" "unat (BITMAP_SIZEB ?s0) = (ram_pages bp + 7) div 8"
    unfolding get_memory_info_sizes(1,2) unat_sizes [OF get_memory_info_sizes(3)] TOTAL_PAGES_ram_pages by (rule refl)+
  then show "unat (TOTAL_BLOCK s) = (ram_pages bp + 31) div 32" and S: "unat (BITMAP_SIZEB s) = (ram_pages bp + 7) div 8"
    by (simp_all add: s_def setup_memory_bitmap_def Let_def)
  show "TOTAL_USED_BLOCKS s = 0" "KERNEL_START_ADDR s = ks" "KERNEL_END_ADDR s = ke"
    using w by (simp_all add: s_def setup_memory_bitmap_def get_memory_info_def set_kernel_addr_def Let_def)
  show "\<not> used s (of_nat f)" if "f < ram_pages bp" for f
  proof -
    have "unat (of_nat f :: u32) = f" using that ram by (intro unat_of_nat32) simp
    moreover have "f div 8 < (ram_pages bp + 7) div 8"
      using that by (simp add: less_eq_div_iff_mult_less_eq Suc_le_eq [symmetric])
    ultimately show ?thesis unfolding s_def by (intro used_setup) (simp add: sz)
  qed
  show "mem s x = mem w x" if "0x24000 \<le> unat x" for x
  proof -
    have "(ram_pages bp + 7) div 8 < 0x4001" using ram by (simp add: div_less_iff_less_mult)
    then have "\<not> in_range (BIT_MAP s) (unat (BITMAP_SIZEB s)) x"
      using that B2 by (simp add: S in_range_unat)
    moreover have "mem s = memset (mem w) (BIT_MAP s) 0 (BITMAP_SIZEB s)"
      by (simp add: s_def setup_memory_bitmap_def get_memory_info_def set_kernel_addr_def Let_def)
    ultimately show ?thesis by (simp add: memset_apply)
  qed
qed

text \<open>The four reservations take frames 0 and 7, those of the bootloader and those of the bitmap.\<close>

lemma div_4096_add: "m div 4096 + n div 4096 \<le> (m + n) div 4096" for m n :: nat
proof -
  have "(m div 4096 + n div 4096) * 4096 \<le> m + n"
    using div_times_less_eq_dividend [of m 4096] div_times_less_eq_dividend [of n 4096] by (simp only: distrib_right add_mono)
  then show ?thesis by (simp add: less_eq_div_iff_mult_less_eq)
qed

lemma small_reservations: "unat (pages_of 0x500) = 1" "unat (pages_of 512) = 1" "page 0 = 0" "page 0x7c00 = 7"
  by (simp_all add: pages_of_def PER_BLOCK_SIZE_def page_def)

lemma bootloader_reservation:
  assumes "ks \<le> ke" "unat ke \<le> 0x20000"
  shows "page ks + unat (pages_of (ke - ks)) \<le> 0x20"
proof -
  have d: "unat (ke - ks) = unat ke - unat ks" "unat ks \<le> unat ke" using assms(1) by (simp_all add: unat_sub word_le_nat_alt)
  then have "unat (pages_of (ke - ks)) = (unat ke - unat ks + 4095) div 4096"
    using assms(2) by (simp add: pages_of_def PER_BLOCK_SIZE_def unat_div unat_word_ariths)
  moreover have "unat ks div 4096 + (unat ke - unat ks + 4095) div 4096 \<le> (unat ks + (unat ke - unat ks + 4095)) div 4096"
    by (rule div_4096_add)
  moreover have "(unat ks + (unat ke - unat ks + 4095)) div 4096 < 0x21"
    using assms(2) d(2) by (simp add: div_less_iff_less_mult)
  ultimately show ?thesis unfolding page_def by linarith
qed

lemma bitmap_reservation:
  fixes ks :: u32
  assumes "unat ke \<le> 0x20000" "ram_pages bp \<le> 0x20000" "TOTAL_USED_BLOCKS w = 0"
  defines "s \<equiv> setup_memory_bitmap (get_memory_info (Memory bp) (set_kernel_addr ks ke w))"
  shows "unat (pages_of (BITMAP_SIZEB s)) \<le> 4" "page (BIT_MAP s) \<le> 0x20"
    "in_bitmap s a \<Longrightarrow> page (BIT_MAP s) \<le> page a \<and> page a < page (BIT_MAP s) + unat (pages_of (BITMAP_SIZEB s))"
proof -
  note L = low_bitmap [OF assms(1-3), where ks = ks, folded s_def]
  have sz: "unat (BITMAP_SIZEB s) < 0x4001" unfolding L(4) using assms(2) by (simp add: div_less_iff_less_mult)
  then show "unat (pages_of (BITMAP_SIZEB s)) \<le> 4" by (intro pages_of_le) simp_all
  show B: "page (BIT_MAP s) \<le> 0x20" using L(2) by (simp add: page_def)
  define q where "q = unat (pages_of (BITMAP_SIZEB s))"
  have q: "q = (unat (BITMAP_SIZEB s) + 4095) div 4096"
    using sz by (simp add: q_def pages_of_def PER_BLOCK_SIZE_def unat_div unat_word_ariths)
  then have "unat (BITMAP_SIZEB s) \<le> 4096 * q" using div_mult_mod_eq [of "unat (BITMAP_SIZEB s) + 4095" 4096]
      mod_less_divisor [of 4096 "unat (BITMAP_SIZEB s) + 4095"] by linarith
  then have "ram_pages bp \<le> 32768 * q" unfolding L(4) using div_mult_mod_eq [of "ram_pages bp + 7" 8]
      mod_less_divisor [of 8 "ram_pages bp + 7"] by linarith
  then have tb: "unat (TOTAL_BLOCK s) \<le> 1024 * q" unfolding L(3) using div_mult_mod_eq [of "ram_pages bp + 31" 32]
      mod_less_divisor [of 32 "ram_pages bp + 31"] by linarith
  have q5: "q \<le> 4" using \<open>unat (pages_of (BITMAP_SIZEB s)) \<le> 4\<close> by (simp add: q_def)
  assume "in_bitmap s a"
  then have a: "unat (BIT_MAP s) \<le> unat a" "unat a < unat (BIT_MAP s) + 4096 * q"
    using tb q5 L(2) by (simp_all add: in_bitmap_def in_range_unat)
  have "unat (BIT_MAP s) = page (BIT_MAP s) * 4096" by (simp add: page_def L(1))
  with a show "page (BIT_MAP s) \<le> page a \<and> page a < page (BIT_MAP s) + unat (pages_of (BITMAP_SIZEB s))"
    unfolding q_def [symmetric] by (simp add: page_def [of a] less_eq_div_iff_mult_less_eq div_less_iff_less_mult)
qed

lemma boot_memory_ready:
  assumes ks: "ks \<le> ke" "unat ke \<le> 0x20000" and ram: "0x2000 \<le> ram_pages bp" "ram_pages bp \<le> 0x20000"
    and w: "TOTAL_USED_BLOCKS w = 0"
  defines "s \<equiv> boot_INIT_MEMORY ks ke bp w"
  shows "pmm_inv s" "unat (TOTAL_USED_BLOCKS s) + 3 \<le> unat (TOTAL_BLOCK s)" "0x2000 \<le> nbits s"
    "\<And>f. 0x24 \<le> f \<Longrightarrow> f < 0x2000 \<Longrightarrow> \<not> taken s f" "\<And>x. 0x24000 \<le> unat x \<Longrightarrow> mem s x = mem w x"
    "\<And>x. in_bitmap s x \<Longrightarrow> page x < 0x24"
proof -
  define t0 where "t0 = setup_memory_bitmap (get_memory_info (Memory bp) (set_kernel_addr ks ke w))"
  note L = low_bitmap [OF ks(2) ram(2) w, where ks = ks, folded t0_def]
  note BR = bitmap_reservation [OF ks(2) ram(2) w, where ks = ks, folded t0_def]
  note KR = bootloader_reservation [OF ks]
  define t1 where "t1 = reserve_memory_block 0x0 0x500 t0"
  define t2 where "t2 = reserve_memory_block 0x7c00 512 t1"
  define t3 where "t3 = reserve_memory_block ks (ke - ks) t2"
  have s: "s = reserve_memory_block (BIT_MAP t0) (BITMAP_SIZEB t0) t3"
    using ram(2) L(6,7)
    by (simp add: s_def boot_INIT_MEMORY_eq t0_def [symmetric] reserve_memory_def Let_def t1_def t2_def t3_def)
  have fr: "BIT_MAP s = BIT_MAP t0" "TOTAL_BLOCK s = TOTAL_BLOCK t0" "BIT_MAP t3 = BIT_MAP t0" "TOTAL_BLOCK t3 = TOTAL_BLOCK t0"
    by (simp_all add: s t3_def t2_def t1_def)
  have tb: "256 \<le> unat (TOTAL_BLOCK t0)" using ram(1) by (simp add: L(3) less_eq_div_iff_mult_less_eq)
  have c1: "unat (TOTAL_USED_BLOCKS t1) \<le> 1" using reserve_count [of 0 "0x500" t0] by (simp add: t1_def L(5) small_reservations)
  have c2: "unat (TOTAL_USED_BLOCKS t2) \<le> 2" using reserve_count [of "0x7c00" 512 t1] c1 by (simp add: t2_def small_reservations)
  have c3: "unat (TOTAL_USED_BLOCKS t3) \<le> 34" using reserve_count [of ks "ke - ks" t2] c2 KR by (simp add: t3_def)
  have c4: "unat (TOTAL_USED_BLOCKS s) \<le> 38"
    using reserve_count [of "BIT_MAP t0" "BITMAP_SIZEB t0" t3] c3 BR(1) by (simp add: s)
  then show "unat (TOTAL_USED_BLOCKS s) + 3 \<le> unat (TOTAL_BLOCK s)" using tb by (simp add: fr)
  show nb: "0x2000 \<le> nbits s" using tb by (simp add: nbits_def fr)
  have "unat (TOTAL_BLOCK t0) < 4097" unfolding L(3) using ram(2) by (simp add: div_less_iff_less_mult)
  then have nb': "nbits s \<le> 0x100000" by (simp add: nbits_def fr)
  have room: "TOTAL_USED_BLOCKS t3 < TOTAL_BLOCK t3" "TOTAL_USED_BLOCKS t0 < TOTAL_BLOCK t0"
    using c3 tb by (simp_all add: word_less_nat_alt fr L(5))
  have us: "used s c \<longleftrightarrow> used t3 c \<or> page (BIT_MAP t0) \<le> unat c \<and> unat c < page (BIT_MAP t0) + unat (pages_of (BITMAP_SIZEB t0))" for c
    using room by (simp add: s used_reserve fr)
  have "used t1 0" using room(2) by (simp add: t1_def used_reserve small_reservations)
  then have u0: "used s 0" by (simp add: us t3_def t2_def used_reserve)
  show bmp: "page x < 0x24" if "in_bitmap s x" for x
    using BR(1,2) BR(3) [of x] that by (simp add: in_bitmap_def fr)
  have "used s (of_nat (page x))" if "in_bitmap s x" for x
  proof -
    have "unat (of_nat (page x) :: u32) = page x" using bmp [OF that] by (intro unat_of_nat32) simp
    then show ?thesis using BR(3) [of x] that by (simp add: us in_bitmap_def fr)
  qed
  then show "pmm_inv s" using nb' u0 by (simp add: pmm_inv_def)
  show "\<not> taken s f" if f: "0x24 \<le> f" "f < 0x2000" for f
  proof -
    have fu: "unat (of_nat f :: u32) = f" using f by (intro unat_of_nat32) simp
    have "\<not> used t0 (of_nat f)" using f ram(1) by (intro L(8)) simp
    then show ?thesis
      using f BR(1,2) KR by (auto simp: taken_def us fu t3_def t2_def t1_def used_reserve small_reservations)
  qed
  show "mem s x = mem w x" if "0x24000 \<le> unat x" for x
  proof -
    have out: "\<not> in_range (BIT_MAP t0) 8 x" using that L(2) by (simp add: in_range_unat)
    have b: "page (BIT_MAP t0) + unat (pages_of (BITMAP_SIZEB t0)) \<le> 64" using BR(1,2) by linarith
    have "mem s x = mem t3 x" unfolding s by (rule reserve_mem_outside [where k = 2]) (use b out in \<open>simp_all add: fr\<close>)
    also have "\<dots> = mem t2 x" unfolding t3_def by (rule reserve_mem_outside [where k = 2]) (use KR out in \<open>simp_all add: t2_def t1_def\<close>)
    also have "\<dots> = mem t1 x" unfolding t2_def by (rule reserve_mem_outside [where k = 2]) (use out in \<open>simp_all add: t1_def small_reservations\<close>)
    also have "\<dots> = mem t0 x" unfolding t1_def by (rule reserve_mem_outside [where k = 2]) (use out in \<open>simp_all add: small_reservations\<close>)
    also have "\<dots> = mem w x" using that by (rule L(9))
    finally show ?thesis .
  qed
qed

section \<open>The page tables\<close>

text \<open>With free frames from \<open>f\<close> on, the directory and the two tables lie in frames up to \<open>f + 2\<close>.\<close>

lemma initial_tables:
  assumes inv: "pmm_inv s" and room: "unat (TOTAL_USED_BLOCKS s) + 3 \<le> unat (TOTAL_BLOCK s)"
    and f: "f \<in> free_frames s" "f + 1 \<in> free_frames s" "f + 2 \<in> free_frames s"
  defines "s' \<equiv> snd (INITIALIZE_VMEMORY s)"
  shows "page x > f + 2 \<Longrightarrow> \<not> in_bitmap s x \<Longrightarrow> mem s' x = mem s x"
    "in_bitmap s' = in_bitmap s" "page (pde s' 0) \<le> f + 2"
proof -
  have "card {f, f + 1, f + 2} \<le> card (free_frames s)" using f by (intro card_mono) auto
  then have "3 \<le> card (free_frames s)" by simp
  then obtain d t u r where T: "tables_at d t u s r"
    and r: "INITIALIZE_VMEMORY s = (True, r\<lparr>CR3 := current_page_directory r, CR0 := CR0 s OR 0x80000001\<rparr>)"
    using vmemory_tables [OF inv room] by metis
  have s': "mem s' = mem r" "in_bitmap s' = in_bitmap r" "pde s' 0 = pde r 0"
    by (simp_all add: s'_def r in_bitmap_def pde_def dirf_def fun_eq_iff)
  have least: "\<forall>g\<in>free_frames s. d \<le> g" "\<forall>g\<in>free_frames s - {d}. t \<le> g" "\<forall>g\<in>free_frames s - {d, t}. u \<le> g"
    using T by (simp_all add: tables_at_def)
  have d: "d \<le> f" using least(1) f(1) by blast
  have t: "t \<le> f + 1" using least(2) f(2) d by force
  have u: "u \<le> f + 2" using least(3) f(3) d t by force
  show "in_bitmap s' = in_bitmap s" "page (pde s' 0) \<le> f + 2" using T u by (simp_all add: s' tables_at_def)
  show "mem s' x = mem s x" if x: "page x > f + 2" "\<not> in_bitmap s x"
  proof -
    have "page x \<notin> {d, t, u}" using x(1) d t u by auto
    with T x(2) show ?thesis by (simp add: s' tables_at_def)
  qed
qed

section \<open>The low mapping removed\<close>

text \<open>Pages \<open>0x100\<close> to \<open>0x100 + n - 1\<close> unmapped, one after the other.\<close>

definition unmap_low :: "nat \<Rightarrow> 'a vmm_scheme \<Rightarrow> 'a vmm_scheme" where
  "unmap_low n s = fold (\<lambda>i. unmap_page (KERNEL_ADDRESS + of_nat i * PAGE_SIZE)) [0..<n] s"

lemma low_page:
  assumes "i < 768"
  shows "page (KERNEL_ADDRESS + of_nat i * PAGE_SIZE) = 0x100 + i" "pdi (KERNEL_ADDRESS + of_nat i * PAGE_SIZE) = 0"
proof -
  have "unat (KERNEL_ADDRESS + of_nat i * PAGE_SIZE) = 4096 * (0x100 + i)"
    using assms by (simp add: KERNEL_ADDRESS_def PAGE_SIZE_def unat_word_ariths unat_of_nat32)
  with assms show "page (KERNEL_ADDRESS + of_nat i * PAGE_SIZE) = 0x100 + i" "pdi (KERNEL_ADDRESS + of_nat i * PAGE_SIZE) = 0"
    by (simp_all add: page_def pdi_def)
qed

lemma unmap_page_writes:
  assumes "vm_inv s" "pde s (pdi va) \<noteq> 0"
  shows "only_frame (page (pde s (pdi va))) s (unmap_page va s)" "i < 1024 \<Longrightarrow> pde (unmap_page va s) i = pde s i"
proof -
  let ?f = "page (pde s (pdi va))"
  show w: "only_frame ?f s (unmap_page va s)"
    unfolding unmap_page_def get_page_at [OF assms(1)] at_def by (rule only_frame_update32) (simp_all add: page_lt)
  have "dirf s \<noteq> ?f" using vm_invD(7) [OF assms(1) pdi_lt assms(2)] by simp
  then show "pde (unmap_page va s) i = pde s i" if "i < 1024"
    using w that unfolding pde_def only_frame_def dirf_def by (auto intro!: entry_cong simp: page_lt)
qed

lemma unmap_low_effect:
  assumes inv: "vm_inv s" and nz: "pde s 0 \<noteq> 0" and n: "n \<le> 768"
  shows "vm_inv (unmap_low n s) \<and> only_frame (page (pde s 0)) s (unmap_low n s) \<and> pde (unmap_low n s) 0 = pde s 0 \<and>
    (\<forall>va. walk (mem (unmap_low n s)) (current_page_directory (unmap_low n s)) va =
       (if 0x100 \<le> page va \<and> page va < 0x100 + n then None else walk (mem s) (current_page_directory s) va))"
  using n
proof (induction n)
  case 0
  then show ?case using inv by (auto simp: unmap_low_def)
next
  case (Suc n)
  let ?t = "unmap_low n s" and ?va = "KERNEL_ADDRESS + of_nat n * PAGE_SIZE"
  have IH: "vm_inv ?t" "only_frame (page (pde s 0)) s ?t" "pde ?t 0 = pde s 0"
    "\<And>va. walk (mem ?t) (current_page_directory ?t) va =
       (if 0x100 \<le> page va \<and> page va < 0x100 + n then None else walk (mem s) (current_page_directory s) va)"
    using Suc by simp_all
  have p: "page ?va = 0x100 + n" "pdi ?va = 0" using low_page [of n] Suc.prems by simp_all
  have "pde ?t (pdi ?va) \<noteq> 0" using IH(3) nz p(2) by simp
  note U = unmap_page_effect [OF IH(1) this] and W = unmap_page_writes [OF IH(1) this]
  have step: "unmap_low (Suc n) s = unmap_page ?va ?t" by (simp add: unmap_low_def)
  have "only_frame (page (pde s 0)) ?t (unmap_page ?va ?t)" using W(1) p(2) IH(3) by simp
  then have "only_frame (page (pde s 0)) s (unmap_page ?va ?t)" by (rule only_frame_trans [OF IH(2)])
  then show ?case using U IH(3,4) W(2) [of 0] p(1) unfolding step by (auto simp: less_Suc_eq)
qed

lemma unmap_low_registers: "CR0 (unmap_low n s) = CR0 s \<and> CR3 (unmap_low n s) = CR3 s"
  unfolding unmap_low_def by (rule fold_invariant_upt) (simp_all add: unmap_page_def update32_def)

section \<open>Initialize_memories and the loop of start\<close>

lemma boot_Initialize_memories_effect:
  assumes ks: "ks \<le> ke" "unat ke \<le> 0x20000" and ram: "0x2000 \<le> ram_pages bp" "ram_pages bp \<le> 0x20000"
    and w: "TOTAL_USED_BLOCKS w = 0"
  defines "s \<equiv> boot_Initialize_memories ks ke bp w"
  shows "vm_inv s" "CR3 s = current_page_directory s" "bit (CR0 s) 31"
    "\<And>va. walk (mem s) (current_page_directory s) va =
       (if va < 0x400000 then Some va
        else if 0xC0000000 \<le> va \<and> va < 0xC0400000 then Some (va - 0xC0000000 + KERNEL_ADDRESS)
        else None)"
    "page (pde s 0) \<le> 0x26" "pde s 0 \<noteq> 0" "\<And>x. 0x30000 \<le> unat x \<Longrightarrow> mem s x = mem w x"
proof -
  define r where "r = boot_INIT_MEMORY ks ke bp w"
  note B = boot_memory_ready [OF ks ram w, folded r_def]
  have s: "s = snd (INITIALIZE_VMEMORY r)" by (simp add: s_def boot_Initialize_memories_def r_def)
  have fr: "0x24 \<in> free_frames r" "0x24 + 1 \<in> free_frames r" "0x24 + 2 \<in> free_frames r"
    using B(3,4) by (simp_all add: free_frames_def)
  have "card {0x24, 0x25, 0x26 :: nat} \<le> card (free_frames r)"
    using fr by (intro card_mono) (simp_all add: free_frames_def)
  then have card: "3 \<le> card (free_frames r)" by simp
  obtain ok where "INITIALIZE_VMEMORY r = (ok, s)" using s by (metis prod.collapse)
  note I = initial_address_space [OF B(1,2) card this]
  note T = initial_tables [OF B(1,2) fr, folded s]
  show vi: "vm_inv s" and "CR3 s = current_page_directory s" using I by simp_all
  have "CR0 s = CR0 r OR 0x80000001" using I by simp
  then show "bit (CR0 s) 31" by (simp add: bit_or_iff bit_numeral_rec)
  show wk: "walk (mem s) (current_page_directory s) va =
       (if va < 0x400000 then Some va
        else if 0xC0000000 \<le> va \<and> va < 0xC0400000 then Some (va - 0xC0000000 + KERNEL_ADDRESS)
        else None)" for va using I by blast
  show "page (pde s 0) \<le> 0x26" using T(3) by simp
  have "pte s 0 \<noteq> 0" using wk [of 0] walk_pte [OF vi, of 0] by (auto split: if_splits)
  then show "pde s 0 \<noteq> 0" by (auto simp: pte_def pdi_def)
  show "mem s x = mem w x" if x: "0x30000 \<le> unat x" for x
  proof -
    have p: "0x30 \<le> page x" using x by (simp add: page_def less_eq_div_iff_mult_less_eq)
    then have "\<not> in_bitmap r x" using B(6) [of x] by auto
    then have "mem s x = mem r x" using T(1) [of x] p by simp
    also have "\<dots> = mem w x" using x by (intro B(5)) simp
    finally show ?thesis .
  qed
qed

lemma boot_address_space:
  assumes ks: "ks \<le> ke" "unat ke \<le> 0x20000" and ram: "0x2000 \<le> ram_pages bp" "ram_pages bp \<le> 0x20000"
    and w: "TOTAL_USED_BLOCKS w = 0"
  defines "s \<equiv> unmap_low 768 (boot_Initialize_memories ks ke bp w)"
  shows "vm_inv s" "CR3 s = current_page_directory s" "bit (CR0 s) 31"
    "\<And>va. walk (mem s) (current_page_directory s) va =
       (if va < 0x100000 then Some va
        else if 0xC0000000 \<le> va \<and> va < 0xC0400000 then Some (va - 0xC0000000 + KERNEL_ADDRESS)
        else None)"
    "\<And>x. 0x30000 \<le> unat x \<Longrightarrow> mem s x = mem w x"
proof -
  let ?r = "boot_Initialize_memories ks ke bp w"
  note E = boot_Initialize_memories_effect [OF ks ram w]
  note U = unmap_low_effect [OF E(1,6) order_refl, folded s_def] and G = unmap_low_registers [of 768 ?r, folded s_def]
  show "vm_inv s" using U by simp
  have cd: "current_page_directory s = current_page_directory ?r" using U by (simp add: only_frame_def)
  then show "CR3 s = current_page_directory s" "bit (CR0 s) 31" using G E(2,3) by simp_all
  show "walk (mem s) (current_page_directory s) va =
       (if va < 0x100000 then Some va
        else if 0xC0000000 \<le> va \<and> va < 0xC0400000 then Some (va - 0xC0000000 + KERNEL_ADDRESS)
        else None)" for va
  proof -
    have "0x100 \<le> page va \<longleftrightarrow> 0x100000 \<le> va" "page va < 0x100 + 768 \<longleftrightarrow> va < 0x400000"
      by (simp_all add: page_def word_le_nat_alt word_less_nat_alt less_eq_div_iff_mult_less_eq div_less_iff_less_mult)
    moreover have "va < 0x400000 \<Longrightarrow> \<not> 0xC0000000 \<le> va" "va < 0x100000 \<Longrightarrow> va < 0x400000 \<and> \<not> 0x100000 \<le> va"
      "\<not> va < 0x100000 \<Longrightarrow> 0x100000 \<le> va"
      by (simp_all add: word_less_nat_alt word_le_nat_alt)
    ultimately show ?thesis using U E(4) [of va] by auto
  qed
  show "mem s x = mem w x" if x: "0x30000 \<le> unat x" for x
  proof -
    have "0x30 \<le> page x" using x by (simp add: page_def less_eq_div_iff_mult_less_eq)
    then have "page x \<noteq> page (pde ?r 0)" using E(5) by auto
    then show ?thesis using U E(7) [OF x] by (simp add: only_frame_def)
  qed
qed

end
