(* ===== verification/Boot_Start.thy ===== *)
theory Boot_Start
  imports Boot_Load Boot_Paging
begin

text \<open>
  The bootloader from its first instruction in C to the jump into the kernel: what \<open>Memory_Detect\<close> reports,
  what the loading loops leave in memory, and the composition of mounting, loading and paging in \<open>start\<close>.
\<close>

section \<open>The memory map\<close>

text \<open>The firmware answers the calls with the blocks \<open>bs\<close>; the continuation value is zero with the last
  block and only there.\<close>

fun answers :: "e820_call \<Rightarrow> E820MemoryBlock \<Rightarrow> u32 \<Rightarrow> E820MemoryBlock list \<Rightarrow> bool" where
  "answers e820 block cont [] = False"
| "answers e820 block cont (b # bs) =
     (case e820 block cont of (r, block', cont') \<Rightarrow>
        0 < sint r \<and> block' = b \<and> (cont' = 0 \<longleftrightarrow> bs = []) \<and> (bs = [] \<or> answers e820 b cont' bs))"

lemma detect_loop_blocks:
  assumes "answers e820 block cont bs" "e820 block cont = (r, block', cont')"
  shows "\<exists>rs'. detect_loop e820 r block' cont' rs n = Some (rs', n + (length bs - 1)) \<and>
    (\<forall>i<length bs - 1. rs' (n + i) = region_of (bs ! i)) \<and> (\<forall>i<n. rs' i = rs i)"
  using assms
proof (induction bs arbitrary: block cont r block' cont' rs n)
  case (Cons b bs)
  show ?case
  proof (cases bs)
    case Nil
    then show ?thesis using Cons.prems by (subst detect_loop.simps) simp
  next
    case (Cons c cs)
    then have p: "0 < sint r" "block' = b" "cont' \<noteq> 0" "answers e820 b cont' bs" using Cons.prems by auto
    obtain r2 b2 c2 where n2: "e820 b cont' = (r2, b2, c2)" by (metis prod_cases3)
    obtain rs' where rs': "detect_loop e820 r2 b2 c2 (rs(n := region_of b)) (n + 1) = Some (rs', n + 1 + (length bs - 1))"
      "\<forall>i<length bs - 1. rs' (n + 1 + i) = region_of (bs ! i)" "\<forall>i<n + 1. rs' i = (rs(n := region_of b)) i"
      using Cons.IH [OF p(4) n2] by blast
    have "detect_loop e820 r block' cont' rs n = Some (rs', n + (length (b # bs) - 1))"
      using p n2 rs'(1) Cons by (subst detect_loop.simps) simp
    moreover have "rs' (n + i) = region_of ((b # bs) ! i)" if "i < length (b # bs) - 1" for i
      using rs'(2,3) that Cons by (cases i) auto
    moreover have "\<forall>i<n. rs' i = rs i" using rs'(3) by auto
    ultimately show ?thesis by blast
  qed
qed simp

lemma Memory_Detect_blocks:
  assumes "answers e820 garbage 0 bs"
  shows "\<exists>rs'. Memory_Detect e820 garbage rs = Some \<lparr>RegionCount = of_nat (length bs - 1), Regions = rs'\<rparr> \<and>
    (\<forall>i<length bs - 1. rs' i = region_of (bs ! i))"
proof -
  obtain r b c where e: "e820 garbage 0 = (r, b, c)" by (metis prod_cases3)
  obtain rs' where "detect_loop e820 r b c rs 0 = Some (rs', 0 + (length bs - 1))" "\<forall>i<length bs - 1. rs' (0 + i) = region_of (bs ! i)"
    using detect_loop_blocks [OF assms e] by blast
  then show ?thesis by (simp add: Memory_Detect_def e)
qed

section \<open>Files of the root directory\<close>

text \<open>The file with name \<open>nm\<close> has entry \<open>k\<close> of the root directory at \<open>lba\<close> and is a regular file of the
  volume; its length and its bytes.\<close>

definition dir_entry :: "(nat \<Rightarrow> nat \<Rightarrow> u8) \<Rightarrow> u32 \<Rightarrow> nat \<Rightarrow> entry_bytes" where
  "dir_entry medium lba k = (\<lambda>i. root_byte medium lba (32 * k + i))"

definition file_length :: "(nat \<Rightarrow> nat \<Rightarrow> u8) \<Rightarrow> u32 \<Rightarrow> nat \<Rightarrow> nat" where
  "file_length medium lba k = unat (entry_size (dir_entry medium lba k))"

definition content :: "(nat \<Rightarrow> nat \<Rightarrow> u8) \<Rightarrow> 'a fat_scheme \<Rightarrow> u32 \<Rightarrow> nat \<Rightarrow> nat \<Rightarrow> u8" where
  "content medium v lba k = file_byte medium v (first_cluster (dir_entry medium lba k))"

definition file_on :: "DISK \<Rightarrow> (nat \<Rightarrow> nat \<Rightarrow> u8) \<Rightarrow> 'a fat_scheme \<Rightarrow> u32 \<Rightarrow> nat \<Rightarrow> u8 list \<Rightarrow> nat \<Rightarrow> bool" where
  "file_on disk medium v lba dir_len nm k \<longleftrightarrow> 32 * k < dir_len \<and>
     (\<forall>j\<le>k. entry_name (dir_entry medium lba j) = take 11 (fat_name nm) \<longleftrightarrow> j = k) \<and>
     Attributes (dir_entry medium lba k) AND FAT_ATTRIBUTE_DIRECTORY = 0 \<and> 0 < file_length medium lba k \<and>
     chain_ok disk v (first_cluster (dir_entry medium lba k)) (file_length medium lba k)"

lemma file_on_same_volume: "same_volume v v' \<Longrightarrow> file_on disk medium v' lba dir_len nm k = file_on disk medium v lba dir_len nm k"
  by (simp add: file_on_def volume_functions)

lemma content_same_volume: "same_volume v v' \<Longrightarrow> content medium v' lba k = content medium v lba k"
  by (simp add: content_def fun_eq_iff volume_functions)

text \<open>A volume that is ready: the root directory at its beginning and the first handle free.\<close>

definition ready :: "bios \<Rightarrow> DISK \<Rightarrow> (nat \<Rightarrow> nat \<Rightarrow> u8) \<Rightarrow> u32 \<Rightarrow> nat \<Rightarrow> 'a fat_scheme \<Rightarrow> bool" where
  "ready b disk medium lba dir_len s \<longleftrightarrow> root_at b disk medium s lba dir_len s 0 \<and> 32 dvd dir_len \<and>
     free_handle s = Some 0 \<and> length (OpenedFiles s) = MAX_FILE_HANDLES"

text \<open>Opening a file by its name.\<close>

lemma file_at_base:
  assumes "file_at b disk medium t h c0 len s1 p" "same_volume s t"
  shows "file_at b disk medium s h c0 len s1 p"
  using assms volume_functions [OF assms(2)] same_volume_trans [OF assms(2)] by (simp add: file_at_def)

lemma FAT_Open_ready:
  fixes s :: "'a boot_scheme"
  assumes rd: "ready b disk medium lba dir_len s" and f: "file_on disk medium s lba dir_len nm k"
    and nm: "nm \<noteq> []" "strchr nm 0x2F = None"
  shows "\<exists>s1. FAT_Open b disk lit garbage (0x2F # nm) s = Some (Some (FilePtr 0), s1) \<and> outside s1 = outside s \<and>
    file_at b disk medium s 0 (first_cluster (dir_entry medium lba k)) (file_length medium lba k) s1 0 \<and>
    (k < 15 \<longrightarrow> 32 * Suc k < dir_len \<longrightarrow> root_at b disk medium s1 lba dir_len s1 0)"
proof -
  let ?find = "\<lambda>k. if map (\<lambda>i. root_byte medium lba (32 * k + i)) [0..<11] = take 11 (fat_name nm) then Some k else None"
  let ?e = "dir_entry medium lba k"
  note F = f [unfolded file_on_def] and R = rd [unfolded ready_def]
  have name: "map (\<lambda>i. root_byte medium lba (32 * j + i)) [0..<11] = entry_name (dir_entry medium lba j)" for j
    by (simp add: entry_name_def dir_entry_def)
  have "k < dir_len div 32" using F R by auto
  then have "scan ?find 0 (dir_len div 32) = Some k" using F by (auto simp: scan_Some_iff name)
  then obtain e t where o: "open_path b disk lit garbage nm (Some RootPtr) s = Some (FAT_OpenEntry b disk e t)"
    "\<forall>i<32. e i = ?e i" "same_volume s t" "OpenedFiles t = OpenedFiles s"
    "k < 15 \<longrightarrow> 32 * Suc k < dir_len \<longrightarrow> root_at b disk medium s lba dir_len t 0"
    using open_path_root [of b disk medium s lba dir_len nm lit garbage] R nm by (auto simp: dir_entry_def)
  note E = entry_bytes_cong [OF o(2)] and T = volume_functions [OF o(3)]
  have "free_handle t = Some 0" "length (OpenedFiles t) = MAX_FILE_HANDLES" using R o(4) by (simp_all add: free_handle_def)
  moreover have "reads_medium b disk medium" using R by (simp add: root_at_def)
  ultimately obtain s1 where s1: "FAT_OpenEntry b disk e t = (Some (FilePtr 0), s1)"
    "file_at b disk medium t 0 (first_cluster ?e) (file_length medium lba k) s1 0"
    using FAT_OpenEntry_file [of b disk medium t 0 e] F by (auto simp: E T file_length_def)
  have "FAT_Open b disk lit garbage (0x2F # nm) s = Some (Some (FilePtr 0), s1)"
    using o(1) s1(1) by (simp add: FAT_Open_def char_at_def)
  moreover from this have "outside s1 = outside s" using outside_open_path [OF o(1)] s1(1) by simp
  moreover have "RootDirectory s1 = RootDirectory t" using root_FAT_OpenEntry [of b disk e t] s1(1) by simp
  ultimately show ?thesis
    using file_at_base [OF s1(2) o(3)] o(5) root_at_self by blast
qed

text \<open>Loading an open file and closing it leaves a volume that is ready again.\<close>

lemma ready_after_load:
  fixes s s1 s2 :: "'a boot_scheme"
  assumes "ready b disk medium lba dir_len s" "file_at b disk medium s 0 c0 len s1 0" "root_at b disk medium s1 lba dir_len s1 0"
    and "loaded b disk medium s 0 c0 len base 0 s1 s2"
  shows "ready b disk medium lba dir_len (FAT_Close (FilePtr 0) s2)" "same_volume s (FAT_Close (FilePtr 0) s2)"
    "outside (FAT_Close (FilePtr 0) s2) = outside s2"
proof -
  note L = assms(4) [unfolded loaded_def]
  have v: "same_volume s s2" using L by (simp add: file_at_def)
  have h: "Handle (deref (FilePtr 0) s2) = int 0" using open_file.pointer L by blast
  have c: "FAT_Close (FilePtr 0) s2 = update_file (int 0) (\<lambda>f. f\<lparr>Opened := False\<rparr>) s2"
    using h by (simp add: FAT_Close_def Let_def ROOT_DIRECTORY_HANDLE_def)
  show v2: "same_volume s (FAT_Close (FilePtr 0) s2)" unfolding c by (rule same_volume_trans [OF v same_volume_update(1)])
  show "outside (FAT_Close (FilePtr 0) s2) = outside s2" by simp
  have len: "length (OpenedFiles (FAT_Close (FilePtr 0) s2)) = MAX_FILE_HANDLES"
    using v2 assms(1) by (simp add: ready_def same_volume_def)
  have len2: "0 < length (OpenedFiles s2)" using v assms(1) by (simp add: ready_def same_volume_def MAX_FILE_HANDLES_def)
  have "RootDirectory (FAT_Close (FilePtr 0) s2) = RootDirectory s1"
    using L unfolding c by (simp add: ROOT_DIRECTORY_HANDLE_def)
  then have "root_at b disk medium (FAT_Close (FilePtr 0) s2) lba dir_len (FAT_Close (FilePtr 0) s2) 0"
    by (rule root_at_self [OF assms(3)])
  moreover have "free_handle (FAT_Close (FilePtr 0) s2) = Some 0"
    using len2 unfolding c by (intro free_handle_first) (simp add: update_file_def ROOT_DIRECTORY_HANDLE_def)
  ultimately show "ready b disk medium lba dir_len (FAT_Close (FilePtr 0) s2)"
    using assms(1) len by (simp add: ready_def)
qed

section \<open>Loading\<close>

lemma file_at_outside [simp]:
  "file_at b disk medium s0 h c0 len (s\<lparr>g_BootParams := bp\<rparr>) p = file_at b disk medium s0 h c0 len s p"
  "file_at b disk medium s0 h c0 len (s\<lparr>g_MemRegions := rs\<rparr>) p = file_at b disk medium s0 h c0 len s p"
proof -
  have v: "same_volume s (s\<lparr>g_BootParams := bp\<rparr>)" "same_volume s (s\<lparr>g_MemRegions := rs\<rparr>)" by simp_all
  note V = volume_functions [OF v(1)] volume_functions [OF v(2)]
  show "file_at b disk medium s0 h c0 len (s\<lparr>g_BootParams := bp\<rparr>) p = file_at b disk medium s0 h c0 len s p"
    "file_at b disk medium s0 h c0 len (s\<lparr>g_MemRegions := rs\<rparr>) p = file_at b disk medium s0 h c0 len s p"
    by (simp_all add: file_at_def at_pos_def at_sector_def Let_def V file_data_def)
qed

lemma ready_outside [simp]:
  "ready b disk medium lba dir_len (s\<lparr>g_BootParams := bp\<rparr>) = ready b disk medium lba dir_len s"
  "ready b disk medium lba dir_len (s\<lparr>g_MemRegions := rs\<rparr>) = ready b disk medium lba dir_len s"
  by (simp_all add: ready_def root_at_def Let_def free_handle_def same_volume_def)

lemma names:
  "ascii ''/kernel.bin'' = 0x2F # ascii ''kernel.bin''" "ascii ''/userland.elf'' = 0x2F # ascii ''userland.elf''"
  "ascii ''kernel.bin'' \<noteq> []" "ascii ''userland.elf'' \<noteq> []"
  "strchr (ascii ''kernel.bin'') 0x2F = None" "strchr (ascii ''userland.elf'') 0x2F = None"
  by (simp_all add: ascii_def)

lemma load_small:
  fixes s1 :: "'a boot_scheme"
  assumes "file_at b disk medium s 0 c0 len s1 0" "len < 65536" "0x40000 \<le> unat base" "unat base + len \<le> 4294967296"
  shows "\<exists>s2. load_kernel b disk (FilePtr 0) base s1 = Some s2 \<and>
    (base = MEMORY_USERLAND_ADDR \<longrightarrow> load_userland b disk (FilePtr 0) 0 s1 = Some (of_nat len, s2)) \<and>
    loaded b disk medium s 0 c0 len base 0 s1 s2 \<and> world s2 = (world s1)\<lparr>mem := mem (world s2)\<rparr> \<and>
    g_BootParams s2 = g_BootParams s1 \<and> g_MemRegions s2 = g_MemRegions s1 \<and>
    loads base (file_byte medium s c0) 0 len (mem (world s1)) (mem (world s2))"
proof -
  obtain s2 where "load_kernel b disk (FilePtr 0) (base + of_nat 0) s1 = Some s2"
    "base = MEMORY_USERLAND_ADDR \<longrightarrow> load_userland b disk (FilePtr 0) (of_nat 0) s1 = Some (of_nat len, s2)"
    "loaded b disk medium s 0 c0 len base 0 s1 s2"
    using load_loops [OF assms(1) _ assms(3,4)] by auto
  then show ?thesis using assms(2) by (auto simp: loaded_def)
qed

text \<open>The module: its bytes are at \<open>0x50000\<close> and the parameters describe it.\<close>

definition with_module :: "nat \<Rightarrow> BootParams \<Rightarrow> BootParams" where
  "with_module len bp = bp\<lparr>Modules := (Modules bp)(0 := \<lparr>image_data = MEMORY_USERLAND_ADDR, image_size = of_nat len,
     image_name = ascii ''userland.elf'' @ [0]\<rparr>), ModuleCount := 1\<rparr>"

lemma load_module_ready:
  fixes s :: "'a boot_scheme"
  assumes rd: "ready b disk medium lba dir_len s" and f: "file_on disk medium s lba dir_len (ascii ''userland.elf'') k"
    and len: "file_length medium lba k < 65536"
  shows "\<exists>s'. load_module b disk env s = Some s' \<and> world s' = (world s)\<lparr>mem := mem (world s')\<rparr> \<and>
    loads MEMORY_USERLAND_ADDR (content medium s lba k) 0 (file_length medium lba k) (mem (world s)) (mem (world s')) \<and>
    g_BootParams s' = with_module (file_length medium lba k) (g_BootParams s)"
proof -
  let ?s = "s\<lparr>g_BootParams := (g_BootParams s)\<lparr>ModuleCount := 0\<rparr>\<rparr>"
  let ?c = "first_cluster (dir_entry medium lba k)" and ?len = "file_length medium lba k"
  have v: "same_volume s ?s" by simp
  obtain s1 where o: "FAT_Open b disk (name_addr env) (stack_entry env) (ascii ''/userland.elf'') ?s = Some (Some (FilePtr 0), s1)"
    "outside s1 = outside ?s" "file_at b disk medium ?s 0 ?c ?len s1 0"
    using FAT_Open_ready [of b disk medium lba dir_len ?s "ascii ''userland.elf''" k "name_addr env" "stack_entry env"] rd f
      file_on_same_volume [OF v] unfolding names(2) by (auto simp: names)
  have "0x40000 \<le> unat MEMORY_USERLAND_ADDR" "unat MEMORY_USERLAND_ADDR + ?len \<le> 4294967296"
    using len by (simp_all add: MEMORY_USERLAND_ADDR_def)
  note L = load_small [OF file_at_base [OF o(3) v] len this]
  obtain s2 where l: "load_userland b disk (FilePtr 0) 0 s1 = Some (of_nat ?len, s2)" "world s2 = (world s1)\<lparr>mem := mem (world s2)\<rparr>"
    "g_BootParams s2 = g_BootParams s1" "loads MEMORY_USERLAND_ADDR (content medium s lba k) 0 ?len (mem (world s1)) (mem (world s2))"
    using L unfolding content_def by blast
  define s3 where "s3 = FAT_Close (FilePtr 0) s2"
  have out: "outside s3 = outside s2" by (simp add: s3_def)
  define s' where "s' = print (ascii ''Loaded userland.elf (%u bytes at 0x%x)'' @ [0x0D, 0x0A]) [of_nat ?len, MEMORY_USERLAND_ADDR]
     (s3\<lparr>g_BootParams := with_module ?len (g_BootParams s3)\<rparr>)"
  have "load_module b disk env s = Some s'"
    by (simp add: load_module_def Let_def o(1) l(1) s'_def s3_def with_module_def)
  moreover have "world s' = world s2" "g_BootParams s' = with_module ?len (g_BootParams s2)"
    using out by (simp_all add: s'_def print_def outside_def)
  ultimately show ?thesis using o(2) l(2-4) by (auto simp: outside_def with_module_def)
qed

section \<open>From power-on to the kernel\<close>

lemma outside_fold_update [simp]: "outside (fold (\<lambda>i. update_file (int i) f) xs s) = outside s"
  by (induction xs arbitrary: s) simp_all

lemma outside_FAT_Initialize: "outside (snd (FAT_Initialize b disk s)) = outside s"
proof -
  have "outside (snd (FAT_ReadBootSector b disk t)) = outside t" "outside (snd (FAT_ReadFat b disk t)) = outside t"
    "outside (snd (read_root b disk lba t)) = outside t" for t :: "'a boot_scheme" and lba
    by (simp_all add: FAT_ReadBootSector_def FAT_ReadFat_def read_root_def outside_def split: prod.split)
  note F = this
  obtain ok1 s1 where 1: "FAT_ReadBootSector b disk s = (ok1, s1)" by fastforce
  obtain ok2 s2 where 2: "FAT_ReadFat b disk s1 = (ok2, s2)" by fastforce
  let ?lba = "ucast (ReservedSectors s2) + ucast (SectorsPerFat s2) * ucast (FatCount s2) :: u32"
  let ?s3 = "s2\<lparr>RootDirectory := (RootDirectory s2)
       \<lparr>Public := \<lparr>Handle = ROOT_DIRECTORY_HANDLE, IsDirectory = True, Position = 0, Size = 32 * ucast (DirEntryCount s2)\<rparr>,
        Opened := True, FirstCluster := ?lba, CurrentCluster := ?lba, CurrentSectorInCluster := 0\<rparr>\<rparr>"
  obtain ok4 s4 where 4: "read_root b disk ?lba ?s3 = (ok4, s4)" by fastforce
  have o: "outside s1 = outside s" "outside s2 = outside s1" "outside s4 = outside s2"
    using F(1) [of s] F(2) [of s1] F(3) [of ?lba ?s3] 1 2 4 by (simp_all add: outside_def)
  have d: "outside (t\<lparr>g_DataSectionLba := x\<rparr>) = outside t" for t :: "'a boot_scheme" and x by (simp add: outside_def)
  show ?thesis unfolding FAT_Initialize_def 1 by (simp add: Let_def 2 4 o d)
qed

lemma boot_clrscr_used [simp]: "TOTAL_USED_BLOCKS (boot_clrscr s) = TOTAL_USED_BLOCKS s"
proof -
  let ?P = "\<lambda>t. TOTAL_USED_BLOCKS t = TOTAL_USED_BLOCKS s"
  have "?P (fold (\<lambda>y. fold (\<lambda>x s. putcolor (int x) (int y) DEFAULT_COLOR (putchr (int x) (int y) 0 s))
                 [0..<unat SCREEN_WIDTH]) [0..<unat SCREEN_HEIGHT] s)"
    by (intro fold_invariant_upt [where P = ?P]) (simp_all add: putcolor_def putchr_def)
  then show ?thesis by (simp add: boot_clrscr_def Let_def boot_setcursor_def outb_def)
qed

lemma prepare_jump_effect:
  assumes "link_start env \<le> link_end env" "unat (link_end env) \<le> 0x20000"
    and "0x2000 \<le> ram_pages (g_BootParams s)" "ram_pages (g_BootParams s) \<le> 0x20000" "TOTAL_USED_BLOCKS (world s) = 0"
  defines "w \<equiv> world (prepare_jump env s)"
  shows "CR3 w = current_page_directory w" "bit (CR0 w) 31" "g_BootParams (prepare_jump env s) = g_BootParams s"
    "\<And>va. Vmm.walk (mem w) (CR3 w) va =
       (if va < 0x100000 then Some va
        else if 0xC0000000 \<le> va \<and> va < 0xC0400000 then Some (va - 0xC0000000 + KERNEL_ADDRESS)
        else None)"
    "\<And>x. 0x30000 \<le> unat x \<Longrightarrow> mem w x = mem (world s) x"
proof -
  let ?w1 = "boot_i686_GDT_Initialize (gdt_addr env) (world s)"
  have gdt: "TOTAL_USED_BLOCKS ?w1 = 0" "mem ?w1 = mem (world s)"
    using assms(5) by (simp_all add: boot_i686_GDT_Initialize_def i686_GDT_Load_def)
  have n: "unat ((0x400000 - KERNEL_ADDRESS) div PAGE_SIZE) = 768" by (simp add: KERNEL_ADDRESS_def PAGE_SIZE_def)
  have w: "w = unmap_low 768 (boot_Initialize_memories (link_start env) (link_end env) (g_BootParams s) ?w1)"
    by (simp add: w_def prepare_jump_def Let_def n unmap_low_def)
  note A = boot_address_space [OF assms(1-4) gdt(1), folded w]
  show "CR3 w = current_page_directory w" "bit (CR0 w) 31" using A(2,3) by simp_all
  show "g_BootParams (prepare_jump env s) = g_BootParams s" by (simp add: prepare_jump_def Let_def)
  show "Vmm.walk (mem w) (CR3 w) va =
       (if va < 0x100000 then Some va
        else if 0xC0000000 \<le> va \<and> va < 0xC0400000 then Some (va - 0xC0000000 + KERNEL_ADDRESS)
        else None)" for va unfolding A(2) by (rule A(4))
  show "mem w x = mem (world s) x" if "0x30000 \<le> unat x" for x using A(5) [OF that] gdt(2) by simp
qed

text \<open>The two images in memory.\<close>

lemma two_images:
  assumes "loads MEMORY_KERNEL_ADDR B 0 n m0 m1" "loads MEMORY_USERLAND_ADDR U 0 l m1 m2" "n < 65536" "l < 65536"
  shows "i < n \<Longrightarrow> m2 (MEMORY_KERNEL_ADDR + of_nat i) = B i" "j < l \<Longrightarrow> m2 (MEMORY_USERLAND_ADDR + of_nat j) = U j"
proof -
  have K: "unat (0x100000 + of_nat i :: u32) = 0x100000 + i" "unat (0x50000 + of_nat i :: u32) = 0x50000 + i"
    "unat (0xB0000 + of_nat i :: u32) = 0xB0000 + i" if "i < 65536" for i
    using that by (simp_all add: unat_word_ariths unat_of_nat32)
  have out: "\<not> in_range MEMORY_LOAD_KERNEL 65536 x" if "0x40000 \<le> unat x" for x
    using that by (simp add: in_range_unat MEMORY_LOAD_KERNEL_def)
  show "m2 (MEMORY_USERLAND_ADDR + of_nat j) = U j" if "j < l"
  proof -
    have "\<not> in_range MEMORY_LOAD_KERNEL 65536 (MEMORY_USERLAND_ADDR + of_nat j)"
      using that assms(4) by (intro out) (simp add: MEMORY_USERLAND_ADDR_def K)
    then show ?thesis using assms(2,4) that by (simp add: loads_def unat_of_nat32)
  qed
  show "m2 (MEMORY_KERNEL_ADDR + of_nat i) = B i" if "i < n"
  proof -
    have o: "\<not> in_range MEMORY_LOAD_KERNEL 65536 (MEMORY_KERNEL_ADDR + of_nat i)"
      using that assms(3) by (intro out) (simp add: MEMORY_KERNEL_ADDR_def K)
    have "unat (MEMORY_KERNEL_ADDR + of_nat i - MEMORY_USERLAND_ADDR) = 0xB0000 + i"
      using that assms(3) by (simp add: MEMORY_KERNEL_ADDR_def MEMORY_USERLAND_ADDR_def K)
    then have "m2 (MEMORY_KERNEL_ADDR + of_nat i) = m1 (MEMORY_KERNEL_ADDR + of_nat i)"
      using assms(2,4) o by (simp add: loads_def)
    also have "\<dots> = B i" using assms(1,3) o that by (simp add: loads_def unat_of_nat32)
    finally show ?thesis .
  qed
qed

text \<open>Up to the descriptor table: what \<open>start\<close> passes to its last part.\<close>

lemma start_loads:
  assumes "DISK_Initialize b (stack_disk env) (ucast bootDrive) = Some disk"
    and "FAT_Initialize b disk (s\<lparr>world := boot_clrscr (world s)\<rparr>) = (True, v)" "ready b disk medium lba dir_len v"
    and "file_on disk medium v lba dir_len (ascii ''kernel.bin'') k" "file_length medium lba k < 65536" "k < 15" "32 * Suc k < dir_len"
    and "file_on disk medium v lba dir_len (ascii ''userland.elf'') u" "file_length medium lba u < 65536"
    and "Memory_Detect e820 (stack_block env) (g_MemRegions s) = Some info"
  obtains s7 bp m0 m1 where "start b e820 env bootDrive s = Some (Jumps (prepare_jump env s7))"
    "TOTAL_USED_BLOCKS (world s7) = TOTAL_USED_BLOCKS (world s)" "Memory bp = info"
    "g_BootParams s7 = with_module (file_length medium lba u) bp"
    "loads MEMORY_KERNEL_ADDR (content medium v lba k) 0 (file_length medium lba k) m0 m1"
    "loads MEMORY_USERLAND_ADDR (content medium v lba u) 0 (file_length medium lba u) m1 (mem (world s7))"
proof -
  let ?s = "s\<lparr>world := boot_clrscr (world s)\<rparr>" and ?n = "file_length medium lba k" and ?l = "file_length medium lba u"
  let ?v = "v\<lparr>g_BootParams := (g_BootParams v)\<lparr>BootDevice := ucast bootDrive\<rparr>\<rparr>"
  have ov: "outside v = outside ?s" using outside_FAT_Initialize [of b disk ?s] assms(2) by simp
  have vv: "same_volume v ?v" by simp
  have kernel: "file_on disk medium ?v lba dir_len (ascii ''kernel.bin'') k" "ready b disk medium lba dir_len ?v"
    using assms(3,4) file_on_same_volume [OF vv] by simp_all
  obtain s4 where s4: "FAT_Open b disk (name_addr env) (stack_entry env) (ascii ''/kernel.bin'') ?v = Some (Some (FilePtr 0), s4)"
    "outside s4 = outside ?v" "file_at b disk medium ?v 0 (first_cluster (dir_entry medium lba k)) ?n s4 0"
    "root_at b disk medium s4 lba dir_len s4 0"
    using FAT_Open_ready [OF kernel(2,1) names(3,5), of "name_addr env" "stack_entry env"] assms(6,7) unfolding names(1) by blast
  have regions: "g_MemRegions s4 = g_MemRegions s" "world s4 = boot_clrscr (world s)" using s4(2) ov by (simp_all add: outside_def)
  define s5 where "s5 = s4\<lparr>g_BootParams := (g_BootParams s4)\<lparr>Memory := info\<rparr>, g_MemRegions := Regions info\<rparr>"
  have f5: "file_at b disk medium ?v 0 (first_cluster (dir_entry medium lba k)) ?n s5 0" using s4(3) by (simp add: s5_def)
  have r5: "root_at b disk medium s5 lba dir_len s5 0" by (rule root_at_self [OF s4(4)]) (simp add: s5_def)
  have "0x40000 \<le> unat MEMORY_KERNEL_ADDR" "unat MEMORY_KERNEL_ADDR + ?n \<le> 4294967296"
    using assms(5) by (simp_all add: MEMORY_KERNEL_ADDR_def)
  from load_small [OF f5 assms(5) this] obtain s6 where s6: "load_kernel b disk (FilePtr 0) MEMORY_KERNEL_ADDR s5 = Some s6"
    "loaded b disk medium ?v 0 (first_cluster (dir_entry medium lba k)) ?n MEMORY_KERNEL_ADDR 0 s5 s6"
    "world s6 = (world s5)\<lparr>mem := mem (world s6)\<rparr>" "g_BootParams s6 = g_BootParams s5"
    "loads MEMORY_KERNEL_ADDR (content medium ?v lba k) 0 ?n (mem (world s5)) (mem (world s6))"
    unfolding content_def by blast
  define c6 where "c6 = FAT_Close (FilePtr 0) s6"
  note R6 = ready_after_load [OF kernel(2) f5 r5 s6(2), folded c6_def]
  have userland: "file_on disk medium c6 lba dir_len (ascii ''userland.elf'') u"
    using assms(8) file_on_same_volume [OF same_volume_trans [OF vv R6(2)]] by simp
  obtain s7 where s7: "load_module b disk env c6 = Some s7" "world s7 = (world c6)\<lparr>mem := mem (world s7)\<rparr>"
    "loads MEMORY_USERLAND_ADDR (content medium c6 lba u) 0 ?l (mem (world c6)) (mem (world s7))"
    "g_BootParams s7 = with_module ?l (g_BootParams c6)"
    using load_module_ready [OF R6(1) userland assms(9), of env] by blast
  have w6: "world c6 = world s6" "g_BootParams c6 = g_BootParams s6" using R6(3) by (simp_all add: outside_def)
  have st: "start b e820 env bootDrive s = Some (Jumps (prepare_jump env s7))"
    using assms(1,2,10) s4(1) s6(1) s7(1) regions(1) by (simp add: start_def Let_def s5_def c6_def)
  have bp: "g_BootParams s7 = with_module ?l (g_BootParams s5)" using s7(4) w6(2) s6(4) by simp
  have used: "TOTAL_USED_BLOCKS (world s7) = TOTAL_USED_BLOCKS (world s)"
  proof -
    have "TOTAL_USED_BLOCKS (world s7) = TOTAL_USED_BLOCKS (world c6)" by (subst s7(2)) simp
    also have "\<dots> = TOTAL_USED_BLOCKS (world s5)" unfolding w6(1) by (subst s6(3)) simp
    finally show ?thesis using regions(2) by (simp add: s5_def)
  qed
  have images: "loads MEMORY_KERNEL_ADDR (content medium v lba k) 0 ?n (mem (world s5)) (mem (world c6))"
    "loads MEMORY_USERLAND_ADDR (content medium v lba u) 0 ?l (mem (world c6)) (mem (world s7))"
    using s6(5) s7(3) content_same_volume [OF vv] content_same_volume [OF same_volume_trans [OF vv R6(2)]]
    by (simp_all add: w6(1) fun_eq_iff [symmetric])
  have "Memory (g_BootParams s5) = info" by (simp add: s5_def)
  from that [OF st used this bp images] show thesis .
qed

section \<open>An example\<close>

text \<open>A floppy disk with a kernel of 600 bytes in the clusters 2 and 3 and a module of 100 bytes in cluster 4,
  and a machine with a single block of 64 MiB and a last block that is not memory.\<close>

definition boot_medium :: "nat \<Rightarrow> nat \<Rightarrow> u8" where
  "boot_medium n =
     (if n = 0 then bytes_at 11 [0, 2, 1, 1, 0, 2, 16, 0] (bytes_at 22 [1, 0] (\<lambda>i. 0))
      else if n = 1 \<or> n = 2 then bytes_at 0 [0xF0, 0xFF, 0xFF, 0x03, 0xF0, 0xFF, 0xFF, 0x0F] (\<lambda>i. 0)
      else if n = 3 then bytes_at 0 (ascii ''KERNEL  BIN'') (bytes_at 26 [2, 0, 0x58, 2, 0, 0]
        (bytes_at 32 (ascii ''USERLANDELF'') (bytes_at 58 [4, 0, 100, 0, 0, 0] (\<lambda>i. 0))))
      else (\<lambda>i. of_nat (n + i)))"

definition block_of :: "u32 \<Rightarrow> u32 \<Rightarrow> u32 \<Rightarrow> E820MemoryBlock" where
  "block_of base len ty = \<lparr>block_Base_Low = base, block_Base_High = 0, block_Length_Low = len, block_Length_High = 0,
     block_Type = ty, block_ACPI = 1\<rparr>"

definition boot_e820 :: e820_call where
  "boot_e820 block cont = (24, if cont = 0 then (block_of 0 0x4000000 1, 1) else (block_of 0xFFFC0000 0x40000 2, 0))"

definition example_env :: boot_env where
  "example_env = \<lparr>stack_disk = example_disk, stack_block = block_of 0 0 0, stack_entry = (\<lambda>i. 0), name_addr = 0,
     link_start = 0x10000, link_end = 0x20000, gdt_addr = 0x18000\<rparr>"

lemma boot_mountable: "mountable example_disk (boot_medium 0)"
  by (simp add: mountable_def table_of_def reserved_of_def root_size_of_def root_lba_of_def boot_medium_def bytes_at_def
      word16_def on_track_def lba_on_disk_def example_disk_def)

lemma boot_root: "root_lba_of (boot_medium 0) = 3" "root_size_of (boot_medium 0) = 512" "table_of (boot_medium 0) = 1"
  "reserved_of (boot_medium 0) = 1"
  by (simp_all add: table_of_def reserved_of_def root_size_of_def root_lba_of_def boot_medium_def bytes_at_def word16_def)

lemma boot_entry_names:
  "entry_name (dir_entry boot_medium 3 0) = ascii ''KERNEL  BIN''" "entry_name (dir_entry boot_medium 3 (Suc 0)) = ascii ''USERLANDELF''"
  by (simp_all add: entry_name_def dir_entry_def root_byte_def boot_medium_def bytes_at_def ascii_def upt_rec)

lemma boot_entries:
  "Attributes (dir_entry boot_medium 3 0) = 0" "Attributes (dir_entry boot_medium 3 (Suc 0)) = 0"
  "file_length boot_medium 3 0 = 600" "file_length boot_medium 3 (Suc 0) = 100"
  "first_cluster (dir_entry boot_medium 3 0) = 2" "first_cluster (dir_entry boot_medium 3 (Suc 0)) = 4"
  by (simp_all add: Attributes_def entry_size_def first_cluster_def FirstClusterLow_def FirstClusterHigh_def word16_def word32_def
      file_length_def dir_entry_def root_byte_def boot_medium_def bytes_at_def ascii_def)

lemma boot_chains:
  assumes "\<forall>i<512. BootSectorBytes v i = boot_medium 0 i" "\<forall>i<512. g_Fat v i = boot_medium 1 i" "g_DataSectionLba v = 4"
  shows "chain_ok example_disk v 2 600" "chain_ok example_disk v 4 100"
proof -
  have c: "chain v 2 0 = 2" "chain v 2 (Suc 0) = 3" "chain v 4 0 = 4"
    using assms(2) by (simp_all add: chain_def fat12_entry_def nibble_def boot_medium_def bytes_at_def)
  have v: "spc v = Suc 0" "SectorsPerCluster v = 1"
    using assms(1) by (simp_all add: spc_def SectorsPerCluster_def boot_medium_def bytes_at_def)
  have "chain v 2 k < 0xFF8 \<and> lba_on_disk example_disk (sector_of v 2 k)" if "512 * k < 600" for k
  proof -
    from that have "k = 0 \<or> k = Suc 0" by linarith
    then show ?thesis by (auto simp: c v assms(3) sector_of_def FAT_ClusterToLba_def lba_on_disk_def example_disk_def)
  qed
  then show "chain_ok example_disk v 2 600" by (simp add: chain_ok_def v)
  have "chain v 4 k < 0xFF8 \<and> lba_on_disk example_disk (sector_of v 4 k)" if "512 * k < 100" for k
  proof -
    from that have "k = 0" by linarith
    then show ?thesis by (auto simp: c v assms(3) sector_of_def FAT_ClusterToLba_def lba_on_disk_def example_disk_def)
  qed
  then show "chain_ok example_disk v 4 100" by (simp add: chain_ok_def v)
qed

lemma boot_files:
  assumes "chain_ok example_disk v 2 600" "chain_ok example_disk v 4 100"
  shows "file_on example_disk boot_medium v 3 512 (ascii ''kernel.bin'') 0"
    "file_on example_disk boot_medium v 3 512 (ascii ''userland.elf'') (Suc 0)"
proof -
  have n: "take 11 (fat_name (ascii ''kernel.bin'')) = ascii ''KERNEL  BIN''"
    "take 11 (fat_name (ascii ''userland.elf'')) = ascii ''USERLANDELF''" by code_simp+
  have "ascii ''KERNEL  BIN'' \<noteq> ascii ''USERLANDELF''" by (simp add: ascii_def)
  then show "file_on example_disk boot_medium v 3 512 (ascii ''kernel.bin'') 0"
    "file_on example_disk boot_medium v 3 512 (ascii ''userland.elf'') (Suc 0)"
    using assms by (auto simp: file_on_def boot_entries boot_entry_names n le_Suc_eq)
qed

section \<open>The hand-over\<close>

text \<open>C37 On a disk with a kernel and a userland image of less than 64 KiB each, \<open>start\<close> jumps into the
  kernel with paging on: the bytes of the kernel's file are at 3 GiB, those of the userland's file at the
  address and of the size that the parameters name, and the parameters hold the memory map of the firmware.\<close>

theorem start_hands_over:
  assumes "DISK_Initialize b (stack_disk env) (ucast bootDrive) = Some disk"
    and "FAT_Initialize b disk (s\<lparr>world := boot_clrscr (world s)\<rparr>) = (True, v)" "ready b disk medium lba dir_len v"
    and "file_on disk medium v lba dir_len (ascii ''kernel.bin'') k" "file_length medium lba k < 65536" "k < 15" "32 * Suc k < dir_len"
    and "file_on disk medium v lba dir_len (ascii ''userland.elf'') u" "file_length medium lba u < 65536"
    and "Memory_Detect e820 (stack_block env) (g_MemRegions s) = Some info"
    and "link_start env \<le> link_end env" "unat (link_end env) \<le> 0x20000"
    and "0x2000 \<le> unat (usable_ram info) div 4096" "unat (usable_ram info) div 4096 \<le> 0x20000" "TOTAL_USED_BLOCKS (world s) = 0"
  shows "\<exists>s'. start b e820 env bootDrive s = Some (Jumps s') \<and>
    (let w = world s'; bp = g_BootParams s'
     in bit (CR0 w) 31 \<and> Memory bp = info \<and> ModuleCount bp = 1 \<and>
        image_size (Modules bp 0) = of_nat (file_length medium lba u) \<and>
        (\<forall>i<file_length medium lba k. \<exists>pa. Vmm.walk (mem w) (CR3 w) (0xC0000000 + of_nat i) = Some pa \<and>
           mem w pa = content medium v lba k i) \<and>
        (\<forall>i<file_length medium lba u. \<exists>pa. Vmm.walk (mem w) (CR3 w) (image_data (Modules bp 0) + of_nat i) = Some pa \<and>
           mem w pa = content medium v lba u i))"
proof -
  let ?n = "file_length medium lba k" and ?l = "file_length medium lba u"
  obtain s7 bp m0 m1 where st: "start b e820 env bootDrive s = Some (Jumps (prepare_jump env s7))"
    and used: "TOTAL_USED_BLOCKS (world s7) = 0" and bp: "Memory bp = info" "g_BootParams s7 = with_module ?l bp"
    and images: "loads MEMORY_KERNEL_ADDR (content medium v lba k) 0 ?n m0 m1"
      "loads MEMORY_USERLAND_ADDR (content medium v lba u) 0 ?l m1 (mem (world s7))"
    using start_loads [OF assms(1-10)] assms(15) by metis
  have ram: "ram_pages (g_BootParams s7) = unat (usable_ram info) div 4096"
    by (simp add: ram_pages_def with_module_def bp)
  note J = prepare_jump_effect [OF assms(11,12) _ _ used, unfolded ram, OF assms(13,14)]
  let ?w = "world (prepare_jump env s7)"
  note I = two_images [OF images assms(5,9)]
  have K: "unat (0x100000 + of_nat i :: u32) = 0x100000 + i" "unat (0x50000 + of_nat i :: u32) = 0x50000 + i"
    "unat (0xC0000000 + of_nat i :: u32) = 0xC0000000 + i" if "i < 65536" for i
    using that by (simp_all add: unat_word_ariths unat_of_nat32)
  have k: "\<exists>pa. Vmm.walk (mem ?w) (CR3 ?w) (0xC0000000 + of_nat i) = Some pa \<and> mem ?w pa = content medium v lba k i" if "i < ?n" for i
  proof -
    have "i < 65536" using that assms(5) by simp
    then have w: "Vmm.walk (mem ?w) (CR3 ?w) (0xC0000000 + of_nat i) = Some (0x100000 + of_nat i)"
      unfolding J(4) by (simp add: word_less_nat_alt word_le_nat_alt K KERNEL_ADDRESS_def)
    have "0x30000 \<le> unat (0x100000 + of_nat i :: u32)" using \<open>i < 65536\<close> by (simp add: K)
    from J(5) [OF this] have "mem ?w (0x100000 + of_nat i) = content medium v lba k i"
      using I(1) [OF that] by (simp add: MEMORY_KERNEL_ADDR_def)
    with w show ?thesis by blast
  qed
  have m: "\<exists>pa. Vmm.walk (mem ?w) (CR3 ?w) (MEMORY_USERLAND_ADDR + of_nat i) = Some pa \<and> mem ?w pa = content medium v lba u i" if "i < ?l" for i
  proof -
    have "i < 65536" using that assms(9) by simp
    then have w: "Vmm.walk (mem ?w) (CR3 ?w) (MEMORY_USERLAND_ADDR + of_nat i) = Some (0x50000 + of_nat i)"
      unfolding J(4) by (simp add: word_less_nat_alt K MEMORY_USERLAND_ADDR_def)
    have "0x30000 \<le> unat (0x50000 + of_nat i :: u32)" using \<open>i < 65536\<close> by (simp add: K)
    from J(5) [OF this] have "mem ?w (0x50000 + of_nat i) = content medium v lba u i"
      using I(2) [OF that] by (simp add: MEMORY_USERLAND_ADDR_def)
    with w show ?thesis by blast
  qed
  have "Memory (g_BootParams s7) = info" "ModuleCount (g_BootParams s7) = 1"
    "image_size (Modules (g_BootParams s7) 0) = of_nat ?l" "image_data (Modules (g_BootParams s7) 0) = MEMORY_USERLAND_ADDR"
    by (simp_all add: with_module_def bp)
  then show ?thesis using st J(2) k m by (simp add: J(3) Let_def)
qed

theorem start_hands_over_witness:
  "\<forall>s0 :: boot. let s = s0\<lparr>OpenedFiles := replicate MAX_FILE_HANDLES (RootDirectory s0), world := (world s0)\<lparr>TOTAL_USED_BLOCKS := 0\<rparr>\<rparr>
    in \<exists>s'. start (image_bios example_disk boot_medium) boot_e820 example_env 0 s = Some (Jumps s') \<and>
       bit (CR0 (world s')) 31 \<and> ModuleCount (g_BootParams s') = 1 \<and> image_size (Modules (g_BootParams s') 0) = 100"
proof
  fix s0 :: boot
  let ?b = "image_bios example_disk boot_medium"
  let ?s = "s0\<lparr>OpenedFiles := replicate MAX_FILE_HANDLES (RootDirectory s0), world := (world s0)\<lparr>TOTAL_USED_BLOCKS := 0\<rparr>\<rparr>"
  let ?t = "?s\<lparr>world := boot_clrscr (world ?s)\<rparr>"
  have reads: "reads_medium ?b example_disk boot_medium" by (rule image_bios_reads) (simp_all add: example_disk_def)
  have disk: "DISK_Initialize ?b (stack_disk example_env) (ucast (0 :: u16)) = Some example_disk"
    by (simp add: DISK_Initialize_def image_bios_def example_disk_def)
  have "length (OpenedFiles ?t) = MAX_FILE_HANDLES" by simp
  from FAT_Initialize_layout [OF reads boot_mountable this, unfolded boot_root]
  obtain v where v: "FAT_Initialize ?b example_disk ?t = (True, v)" "root_at ?b example_disk boot_medium v 3 512 v 0"
    "\<forall>i<512. BootSectorBytes v i = boot_medium 0 i" "\<forall>i<512. g_Fat v i = boot_medium 1 i" "g_DataSectionLba v = 4"
    "length (OpenedFiles v) = MAX_FILE_HANDLES" "free_handle v = Some 0" by auto
  have rd: "ready ?b example_disk boot_medium 3 512 v" using v(2,6,7) by (simp add: ready_def)
  note files = boot_files [OF boot_chains [OF v(3-5)]]
  let ?info = "\<lparr>RegionCount = 1, Regions = (g_MemRegions s0)(0 := region_of (block_of 0 0x4000000 1))\<rparr>"
  have info: "Memory_Detect boot_e820 (stack_block example_env) (g_MemRegions ?s) = Some ?info"
    by (simp add: Memory_Detect_def boot_e820_def detect_loop.simps)
  have ram: "usable_ram ?info = 0x4000000" by (simp add: usable_ram_def region_length_def region_of_def block_of_def)
  have "TOTAL_USED_BLOCKS (world ?s) = 0" by simp
  from start_hands_over [OF disk v(1) rd files(1) _ _ _ files(2) _ info _ _ _ _ this] show
    "let s = ?s in \<exists>s'. start ?b boot_e820 example_env 0 s = Some (Jumps s') \<and>
       bit (CR0 (world s')) 31 \<and> ModuleCount (g_BootParams s') = 1 \<and> image_size (Modules (g_BootParams s') 0) = 100"
    by (auto simp: Let_def boot_entries ram example_env_def)
qed

end
