(* ===== verification/Userland.thy ===== *)
theory Userland
  imports Syscall "HOL-Library.Monad_Syntax"
begin

text \<open>
  The user program: \<open>src/userland/Umain.c\<close> with its library \<open>lib/syscall.h\<close>, \<open>lib/syscall.c\<close>,
  \<open>lib/stdlib.h\<close>, \<open>lib/stdio.h\<close> and \<open>include/time.c\<close>; beside it the wrappers of \<open>src/kernel/lib\<close>, which
  raise the same interrupt.

  The program sees the memory of its task and the interrupt \<open>0x80\<close>. The state has a memory, as the task
  reads it, and whatever is behind the interrupt, a type variable; the interrupt itself is a parameter,
  a function of the number in EAX, of EBX where the call sets it, and of the state behind, to the value
  in EAX. Below, the kernel's dispatcher is put in its place. A result \<open>None\<close> stands for a call or a
  loop that does not return. Format strings and string literals are their characters.
\<close>

section \<open>lib/syscall.h and lib/syscall.c\<close>

record 'k user =
  user_mem :: ram
  behind :: 'k

type_synonym 'k int80 = "u32 \<Rightarrow> u32 option \<Rightarrow> 'k \<Rightarrow> (u32 \<times> 'k) option"

definition SYS_SLEEP :: u32 where "SYS_SLEEP = 2"
definition SYS_MALLOC :: u32 where "SYS_MALLOC = 3"
definition SYS_FREE :: u32 where "SYS_FREE = 4"
definition SYS_PUTC :: u32 where "SYS_PUTC = 5"
definition SYS_EXIT :: u32 where "SYS_EXIT = 6"
definition SYS_GETKEY :: u32 where "SYS_GETKEY = 7"

definition syscall0 :: "'k int80 \<Rightarrow> u32 \<Rightarrow> 'k user \<Rightarrow> (u32 \<times> 'k user) option" where
  "syscall0 int80 num s = do { (ret, k) \<leftarrow> int80 num None (behind s); Some (ret, s\<lparr>behind := k\<rparr>) }"

definition syscall1 :: "'k int80 \<Rightarrow> u32 \<Rightarrow> u32 \<Rightarrow> 'k user \<Rightarrow> (u32 \<times> 'k user) option" where
  "syscall1 int80 num arg1 s = do { (ret, k) \<leftarrow> int80 num (Some arg1) (behind s); Some (ret, s\<lparr>behind := k\<rparr>) }"

definition sys_sleep :: "'k int80 \<Rightarrow> u32 \<Rightarrow> 'k user \<Rightarrow> 'k user option" where
  "sys_sleep int80 ms s = map_option snd (syscall1 int80 SYS_SLEEP ms s)"

definition sys_malloc :: "'k int80 \<Rightarrow> u32 \<Rightarrow> 'k user \<Rightarrow> (u32 \<times> 'k user) option" where
  "sys_malloc int80 n s = syscall1 int80 SYS_MALLOC n s"

definition sys_free :: "'k int80 \<Rightarrow> u32 \<Rightarrow> 'k user \<Rightarrow> 'k user option" where
  "sys_free int80 ptr s = map_option snd (syscall1 int80 SYS_FREE ptr s)"

definition sys_putc :: "'k int80 \<Rightarrow> u8 \<Rightarrow> 'k user \<Rightarrow> 'k user option" where
  "sys_putc int80 c s = map_option snd (syscall1 int80 SYS_PUTC (ucast c) s)"

definition sys_getkey :: "'k int80 \<Rightarrow> 'k user \<Rightarrow> (u8 \<times> 'k user) option" where
  "sys_getkey int80 s = do { (ret, s') \<leftarrow> syscall0 int80 SYS_GETKEY s; Some (ucast ret, s') }"

text \<open>What \<open>sys_exit\<close> leaves behind the interrupt; the program does not go on.\<close>

definition sys_exit :: "'k int80 \<Rightarrow> 'k user \<Rightarrow> 'k option" where
  "sys_exit int80 s = map_option (\<lambda>(ret, s'). behind s') (syscall0 int80 SYS_EXIT s)"

section \<open>include/time.c\<close>

definition sleepm :: "'k int80 \<Rightarrow> u32 \<Rightarrow> 'k user \<Rightarrow> 'k user option" where
  "sleepm int80 milliseconds s = map_option snd (syscall1 int80 2 milliseconds s)"

definition sleep :: "'k int80 \<Rightarrow> u32 \<Rightarrow> 'k user \<Rightarrow> 'k user option" where
  "sleep int80 seconds s = sleepm int80 (seconds * 1000) s"

section \<open>src/kernel/lib/time.c and stdlib.c\<close>

text \<open>The kernel's library calls the same interrupt.\<close>

definition kernel_sleep :: "'k int80 \<Rightarrow> u16 \<Rightarrow> 'k user \<Rightarrow> 'k user option" where
  "kernel_sleep int80 seconds s = map_option snd (syscall1 int80 2 (ucast seconds * 1000) s)"

definition kernel_sleepm :: "'k int80 \<Rightarrow> u32 \<Rightarrow> 'k user \<Rightarrow> 'k user option" where
  "kernel_sleepm int80 milliseconds s = map_option snd (syscall1 int80 2 milliseconds s)"

definition kernel_malloc :: "'k int80 \<Rightarrow> u32 \<Rightarrow> 'k user \<Rightarrow> (u32 \<times> 'k user) option" where
  "kernel_malloc int80 n s = syscall1 int80 3 n s"

definition kernel_free :: "'k int80 \<Rightarrow> u32 \<Rightarrow> 'k user \<Rightarrow> 'k user option" where
  "kernel_free int80 ptr s = map_option snd (syscall1 int80 4 ptr s)"

section \<open>lib/stdlib.h\<close>

definition user_malloc :: "'k int80 \<Rightarrow> u32 \<Rightarrow> 'k user \<Rightarrow> (u32 \<times> 'k user) option" where
  "user_malloc int80 n s = sys_malloc int80 n s"

definition user_free :: "'k int80 \<Rightarrow> u32 \<Rightarrow> 'k user \<Rightarrow> 'k user option" where
  "user_free int80 ptr s = sys_free int80 ptr s"

definition calloc :: "'k int80 \<Rightarrow> u32 \<Rightarrow> u32 \<Rightarrow> 'k user \<Rightarrow> (u32 \<times> 'k user) option" where
  "calloc int80 nmemb n s =
     (let total = nmemb * n
      in do { (ptr, s1) \<leftarrow> sys_malloc int80 total s;
              if ptr = 0 then Some (0, s1)
              else Some (ptr, s1\<lparr>user_mem := fold (\<lambda>i m. m(ptr + of_nat i := 0)) [0..<unat total] (user_mem s1)\<rparr>) })"

section \<open>lib/stdio.h\<close>

definition userland_hex_chars :: "u8 list" where
  "userland_hex_chars = [0x30, 0x31, 0x32, 0x33, 0x34, 0x35, 0x36, 0x37, 0x38, 0x39, 0x61, 0x62, 0x63, 0x64, 0x65, 0x66]"

definition user_putc :: "'k int80 \<Rightarrow> u8 \<Rightarrow> 'k user \<Rightarrow> 'k user option" where
  "user_putc int80 c s = sys_putc int80 c s"

text \<open>The loop of \<open>print\<close> over the characters of a literal and over a string in memory.\<close>

fun print_chars :: "'k int80 \<Rightarrow> u8 list \<Rightarrow> 'k user \<Rightarrow> 'k user option" where
  "print_chars int80 [] s = Some s"
| "print_chars int80 (c # cs) s = do { s1 \<leftarrow> user_putc int80 c s; print_chars int80 cs s1 }"

partial_function (option) print_from :: "'k int80 \<Rightarrow> u32 \<Rightarrow> 'k user \<Rightarrow> 'k user option" where
  "print_from int80 a s =
     (if user_mem s a = 0 then Some s
      else do { s1 \<leftarrow> user_putc int80 (user_mem s a) s; print_from int80 (a + 1) s1 })"

definition user_print :: "'k int80 \<Rightarrow> u32 \<Rightarrow> 'k user \<Rightarrow> 'k user option" where
  "user_print int80 a s = (if a = 0 then print_chars int80 (ascii ''(null)'') s else print_from int80 a s)"

definition println :: "'k int80 \<Rightarrow> u32 \<Rightarrow> 'k user \<Rightarrow> 'k user option" where
  "println int80 a s = do { s1 \<leftarrow> user_print int80 a s; user_putc int80 0x0A s1 }"

definition println_chars :: "'k int80 \<Rightarrow> u8 list \<Rightarrow> 'k user \<Rightarrow> 'k user option" where
  "println_chars int80 cs s = do { s1 \<leftarrow> print_chars int80 cs s; user_putc int80 0x0A s1 }"

partial_function (option) user_digits :: "u64 \<Rightarrow> u64 \<Rightarrow> u8 list \<Rightarrow> u8 list option" where
  "user_digits number radix buffer =
     (if radix = 0 then None
      else let buffer' = buffer @ [userland_hex_chars ! unat (number mod radix)]
           in if number div radix > 0 then user_digits (number div radix) radix buffer' else Some buffer')"

definition user_printf_unsigned :: "'k int80 \<Rightarrow> u64 \<Rightarrow> u64 \<Rightarrow> 'k user \<Rightarrow> 'k user option" where
  "user_printf_unsigned int80 number radix s =
     do { buffer \<leftarrow> user_digits number radix []; print_chars int80 (rev buffer) s }"

definition user_printf_signed :: "'k int80 \<Rightarrow> u64 \<Rightarrow> u64 \<Rightarrow> 'k user \<Rightarrow> 'k user option" where
  "user_printf_signed int80 number radix s =
     (if sint number < 0
      then do { s1 \<leftarrow> user_putc int80 0x2D s; user_printf_unsigned int80 (- number) radix s1 }
      else user_printf_unsigned int80 number radix s)"

text \<open>\<open>vprintf\<close>, with the states, lengths and variables of the kernel's \<open>printf\<close>, whose names and values
  are the same: the switch on the directive, the output of a number, the assignments at the end.\<close>

definition user_spec_char ::
  "'k int80 \<Rightarrow> (nat \<Rightarrow> u32) \<Rightarrow> u8 \<Rightarrow> printf_vars \<Rightarrow> 'k user \<Rightarrow> (printf_vars \<times> 'k user) option" where
  "user_spec_char int80 va c p s =
     (if c = 0x63 then do { s1 \<leftarrow> user_putc int80 (ucast (va (pf_arg p))) s; Some (p\<lparr>pf_arg := pf_arg p + 1\<rparr>, s1) }
      else if c = 0x73 then do { s1 \<leftarrow> user_print int80 (va (pf_arg p)) s; Some (p\<lparr>pf_arg := pf_arg p + 1\<rparr>, s1) }
      else if c = 0x25 then do { s1 \<leftarrow> user_putc int80 0x25 s; Some (p, s1) }
      else if c = 0x64 \<or> c = 0x69 then Some (p\<lparr>pf_number := True, pf_radix := 10, pf_sign := True\<rparr>, s)
      else if c = 0x75 then Some (p\<lparr>pf_number := True, pf_radix := 10, pf_sign := False\<rparr>, s)
      else if c = 0x58 \<or> c = 0x78 \<or> c = 0x70 then Some (p\<lparr>pf_number := True, pf_radix := 16, pf_sign := False\<rparr>, s)
      else if c = 0x6F then Some (p\<lparr>pf_number := True, pf_radix := 8, pf_sign := False\<rparr>, s)
      else Some (p, s))"

definition user_print_number ::
  "'k int80 \<Rightarrow> (nat \<Rightarrow> u32) \<Rightarrow> printf_vars \<Rightarrow> 'k user \<Rightarrow> (printf_vars \<times> 'k user) option" where
  "user_print_number int80 va p s =
     (let v = va_number va (pf_arg p) (pf_length p) (pf_sign p)
      in do { s1 \<leftarrow> (if pf_sign p then user_printf_signed int80 v (pf_radix p) s
                     else user_printf_unsigned int80 v (pf_radix p) s);
              Some (p\<lparr>pf_arg := pf_arg p + arg_words (pf_length p)\<rparr>, s1) })"

definition user_reset :: "printf_vars \<Rightarrow> printf_vars" where
  "user_reset p = p\<lparr>pf_state := STATE_NORMAL, pf_length := LENGTH_DEFAULT, pf_radix := 10, pf_sign := False, pf_number := False\<rparr>"

definition user_printf_spec ::
  "'k int80 \<Rightarrow> (nat \<Rightarrow> u32) \<Rightarrow> u8 \<Rightarrow> printf_vars \<Rightarrow> 'k user \<Rightarrow> (printf_vars \<times> 'k user) option" where
  "user_printf_spec int80 va c p s =
     do { (p1, s1) \<leftarrow> user_spec_char int80 va c p s;
          (p2, s2) \<leftarrow> (if pf_number p1 then user_print_number int80 va p1 s1 else Some (p1, s1));
          Some (user_reset p2, s2) }"

definition user_printf_char ::
  "'k int80 \<Rightarrow> (nat \<Rightarrow> u32) \<Rightarrow> u8 \<Rightarrow> printf_vars \<Rightarrow> 'k user \<Rightarrow> (printf_vars \<times> 'k user) option" where
  "user_printf_char int80 va c p s =
     (case pf_state p of
        STATE_NORMAL \<Rightarrow> if c = 0x25 then Some (p\<lparr>pf_state := STATE_LENGTH\<rparr>, s)
                        else do { s1 \<leftarrow> user_putc int80 c s; Some (p, s1) }
      | STATE_LENGTH \<Rightarrow> if c = 0x68 then Some (p\<lparr>pf_length := LENGTH_SHORT, pf_state := STATE_LENGTH_SHORT\<rparr>, s)
                        else if c = 0x6C then Some (p\<lparr>pf_length := LENGTH_LONG, pf_state := STATE_LENGTH_LONG\<rparr>, s)
                        else user_printf_spec int80 va c p s
      | STATE_LENGTH_SHORT \<Rightarrow> if c = 0x68 then Some (p\<lparr>pf_length := LENGTH_SHORT_SHORT, pf_state := STATE_SPEC\<rparr>, s)
                              else user_printf_spec int80 va c p s
      | STATE_LENGTH_LONG \<Rightarrow> if c = 0x6C then Some (p\<lparr>pf_length := LENGTH_LONG_LONG, pf_state := STATE_SPEC\<rparr>, s)
                             else user_printf_spec int80 va c p s
      | STATE_SPEC \<Rightarrow> user_printf_spec int80 va c p s)"

fun user_printf_loop ::
  "'k int80 \<Rightarrow> (nat \<Rightarrow> u32) \<Rightarrow> u8 list \<Rightarrow> printf_vars \<Rightarrow> 'k user \<Rightarrow> (printf_vars \<times> 'k user) option" where
  "user_printf_loop int80 va [] p s = Some (p, s)"
| "user_printf_loop int80 va (c # fmt) p s =
     do { (p1, s1) \<leftarrow> user_printf_char int80 va c p s; user_printf_loop int80 va fmt p1 s1 }"

text \<open>A null pointer for the format is \<open>None\<close>.\<close>

definition vprintf :: "'k int80 \<Rightarrow> u8 list option \<Rightarrow> (nat \<Rightarrow> u32) \<Rightarrow> 'k user \<Rightarrow> 'k user option" where
  "vprintf int80 fmt va s =
     (case fmt of None \<Rightarrow> Some s
      | Some cs \<Rightarrow> do { (p, s1) \<leftarrow> user_printf_loop int80 va cs pf_init s; Some s1 })"

definition user_printf :: "'k int80 \<Rightarrow> u8 list \<Rightarrow> (nat \<Rightarrow> u32) \<Rightarrow> 'k user \<Rightarrow> 'k user option" where
  "user_printf int80 fmt va s = vprintf int80 (Some fmt) va s"

definition print_uint :: "'k int80 \<Rightarrow> u32 \<Rightarrow> 'k user \<Rightarrow> 'k user option" where
  "print_uint int80 n s = user_printf int80 (ascii ''%u'') (\<lambda>_. n) s"

definition print_int :: "'k int80 \<Rightarrow> u32 \<Rightarrow> 'k user \<Rightarrow> 'k user option" where
  "print_int int80 n s = user_printf int80 (ascii ''%d'') (\<lambda>_. n) s"

definition print_hex :: "'k int80 \<Rightarrow> u32 \<Rightarrow> 'k user \<Rightarrow> 'k user option" where
  "print_hex int80 n s = do { s1 \<leftarrow> print_chars int80 (ascii ''0x'') s; user_printf int80 (ascii ''%x'') (\<lambda>_. n) s1 }"

text \<open>The loop of \<open>readline\<close>; a \<open>char\<close> is signed.\<close>

definition user_store :: "u32 \<Rightarrow> u8 \<Rightarrow> 'k user \<Rightarrow> 'k user" where
  "user_store a c s = s\<lparr>user_mem := (user_mem s)(a := c)\<rparr>"

partial_function (option) readline_loop :: "'k int80 \<Rightarrow> u32 \<Rightarrow> u32 \<Rightarrow> u32 \<Rightarrow> 'k user \<Rightarrow> (u32 \<times> 'k user) option" where
  "readline_loop int80 buf len i s =
     do { (c, s1) \<leftarrow> sys_getkey int80 s;
          if c = 0x0D \<or> c = 0x0A then do { s2 \<leftarrow> sys_putc int80 0x0A s1; Some (i, s2) }
          else if c = 0x08 \<or> c = 127 then
            (if i > 0 then do { s2 \<leftarrow> sys_putc int80 0x08 s1; s3 \<leftarrow> sys_putc int80 0x20 s2; s4 \<leftarrow> sys_putc int80 0x08 s3;
                                readline_loop int80 buf len (i - 1) s4 }
             else readline_loop int80 buf len i s1)
          else if sint c < 0x20 then readline_loop int80 buf len i s1
          else if i < len - 1
            then do { s2 \<leftarrow> sys_putc int80 c (user_store (buf + i) c s1); readline_loop int80 buf len (i + 1) s2 }
          else readline_loop int80 buf len i s1 }"

definition readline :: "'k int80 \<Rightarrow> u32 \<Rightarrow> u32 \<Rightarrow> 'k user \<Rightarrow> (u32 \<times> 'k user) option" where
  "readline int80 buf len s = do { (i, s1) \<leftarrow> readline_loop int80 buf len 0 s; Some (i, user_store (buf + i) 0 s1) }"

section \<open>Umain.c\<close>

definition INPUT_BUF_SIZE :: u32 where "INPUT_BUF_SIZE = 256"

text \<open>One turn of the loop, with the value of \<open>prompt\<close>, and the buffer on the stack at \<open>buf\<close>.\<close>

definition shell_turn :: "'k int80 \<Rightarrow> u32 \<Rightarrow> u32 \<Rightarrow> 'k user \<Rightarrow> (u32 \<times> 'k user) option" where
  "shell_turn int80 buf prompt s =
     do { s1 \<leftarrow> user_printf int80 (ascii ''%u> '') (\<lambda>_. prompt) s;
          (n, s2) \<leftarrow> readline int80 buf INPUT_BUF_SIZE s1;
          if user_mem s2 buf = 0 then Some (prompt + 1, s2)
          else do { s3 \<leftarrow> print_chars int80 (ascii ''Echo: '') s2; s4 \<leftarrow> println int80 buf s3; Some (prompt + 1, s4) } }"

partial_function (option) shell_loop :: "'k int80 \<Rightarrow> u32 \<Rightarrow> u32 \<Rightarrow> 'k user \<Rightarrow> 'k user option" where
  "shell_loop int80 buf prompt s = do { (prompt', s1) \<leftarrow> shell_turn int80 buf prompt s; shell_loop int80 buf prompt' s1 }"

definition shell_banner :: "'k int80 \<Rightarrow> 'k user \<Rightarrow> 'k user option" where
  "shell_banner int80 s =
     do { s1 \<leftarrow> println_chars int80 (ascii ''========================================'') s;
          s2 \<leftarrow> println_chars int80 (ascii ''  MyKernel - Userland Echo Shell'') s1;
          s3 \<leftarrow> println_chars int80 (ascii ''  Type a line and press Enter.'') s2;
          println_chars int80 (ascii ''========================================'') s3 }"

definition user_start :: "'k int80 \<Rightarrow> u32 \<Rightarrow> 'k user \<Rightarrow> 'k user option" where
  "user_start int80 buf s = do { s1 \<leftarrow> shell_banner int80 s; shell_loop int80 buf 1 s1 }"

end
