(* ===== verification/Shell.thy ===== *)
theory Shell
  imports Userland
begin

text \<open>
  What the user program does on a console: an interrupt \<open>0x80\<close> whose output call returns and puts out the
  character. The locale \<open>console\<close> is that contract; the kernel's dispatcher fulfils it with \<open>put_c\<close>.

  The lemmas show what the output functions print, that the line editor of \<open>readline\<close> keeps its buffer,
  and what one turn of the shell prints on the kernel's screen for the keys that are pressed.
\<close>

section \<open>Output\<close>

definition put_out :: "(u8 \<Rightarrow> 'k \<Rightarrow> 'k) \<Rightarrow> u8 list \<Rightarrow> 'k user \<Rightarrow> 'k user" where
  "put_out emit cs s = s\<lparr>behind := fold emit cs (behind s)\<rparr>"

lemma put_out_simps [simp]:
  "put_out emit [] s = s" "put_out emit ds (put_out emit cs s) = put_out emit (cs @ ds) s"
  "user_mem (put_out emit cs s) = user_mem s" "behind (put_out emit cs s) = fold emit cs (behind s)"
  by (simp_all add: put_out_def)

lemma put_out_record [simp]: "put_out emit cs \<lparr>user_mem = m, behind = k\<rparr> = \<lparr>user_mem = m, behind = fold emit cs k\<rparr>"
  by (simp add: put_out_def)

lemma char_back [simp]: "ucast (ucast c :: u32) = (c :: u8)"
  by (simp add: word_unat_eq_iff unsigned_ucast_eq take_bit_word_eq_self)

text \<open>The string that \<open>print\<close> finds at an address.\<close>

definition ustring :: "ram \<Rightarrow> u32 \<Rightarrow> u8 list \<Rightarrow> bool" where
  "ustring m a cs \<longleftrightarrow> (if a = 0 then cs = ascii ''(null)'' else cstring (\<lambda>_. False) m a cs)"

lemma user_digits_eq: "1 < unat radix \<Longrightarrow> user_digits number radix buffer = to_digits number radix buffer"
proof (induction "unat number" arbitrary: number buffer rule: less_induct)
  case less
  have IH: "user_digits (number div radix) radix B = to_digits (number div radix) radix B" if "number div radix > 0" for B
  proof (rule less.hyps [OF _ less.prems])
    have "unat number div unat radix > 0" using that by (simp add: word_less_nat_alt unat_div)
    then have "0 < unat number" by (cases "unat number") simp_all
    then have "unat number div unat radix < unat number" by (rule div_less_dividend [OF less.prems])
    then show "unat (number div radix) < unat number" by (simp only: unat_div)
  qed
  have "userland_hex_chars = g_HexChars" by (simp only: userland_hex_chars_def g_HexChars_def)
  then show ?case
    unfolding user_digits.simps [of number] to_digits.simps [of number] Let_def using IH by (simp only: if_True if_False split: if_split) blast
qed

locale console =
  fixes int80 :: "'k int80" and emit :: "u8 \<Rightarrow> 'k \<Rightarrow> 'k"
  assumes emits: "\<exists>ret. int80 SYS_PUTC (Some (ucast c)) k = Some (ret, emit c k)"
begin

lemma putc_out: "sys_putc int80 c s = Some (put_out emit [c] s)" "user_putc int80 c s = Some (put_out emit [c] s)"
proof -
  obtain ret where "int80 SYS_PUTC (Some (ucast c)) (behind s) = Some (ret, emit c (behind s))" using emits by blast
  then show "sys_putc int80 c s = Some (put_out emit [c] s)" by (simp add: sys_putc_def syscall1_def put_out_def)
  then show "user_putc int80 c s = Some (put_out emit [c] s)" by (simp add: user_putc_def)
qed

lemma print_chars_out: "print_chars int80 cs s = Some (put_out emit cs s)"
  by (induction cs arbitrary: s) (simp_all add: putc_out)

lemma print_from_out: "cstring (\<lambda>_. False) (user_mem s) a cs \<Longrightarrow> print_from int80 a s = Some (put_out emit cs s)"
proof (induction cs arbitrary: a s)
  case Nil
  then show ?case by (subst print_from.simps) simp
next
  case (Cons c cs)
  then show ?case by (subst print_from.simps) (simp add: putc_out)
qed

lemma print_out: "ustring (user_mem s) a cs \<Longrightarrow> user_print int80 a s = Some (put_out emit cs s)"
  by (simp add: user_print_def ustring_def print_from_out print_chars_out split: if_splits)

lemma number_out:
  "1 < unat radix \<Longrightarrow> user_printf_unsigned int80 v radix s = Some (put_out emit (numeral_text (unat radix) (unat v)) s)"
  "user_printf_signed int80 v 10 s = Some (put_out emit (signed_text v) s)"
  by (simp_all add: user_printf_unsigned_def user_printf_signed_def signed_text_def user_digits_eq to_digits_text
      print_chars_out putc_out)

lemma spec_out:
  assumes "directive_of l c = String_arg \<longrightarrow> ustring (user_mem s) (va i) (strs i)"
  shows "user_printf_spec int80 va c (pf_init\<lparr>pf_state := st, pf_length := l, pf_arg := i\<rparr>) s =
    Some (pf_init\<lparr>pf_arg := i + directive_words (directive_of l c)\<rparr>,
          put_out emit (directive_text va strs i (directive_of l c)) s)"
proof -
  have str: "user_print int80 (va i) s = Some (put_out emit (strs i) s)" if "c = 0x73"
    using assms that by (intro print_out) (simp_all add: directive_of_def)
  show ?thesis
    by (auto simp: user_printf_spec_def user_spec_char_def user_print_number_def directive_of_def user_reset_def pf_init_def
        Let_def str number_out putc_out)
qed

lemma printf_char_out:
  "user_printf_char int80 va c (pf_at st l i) s =
     (case lexer st l c of Shift st' l' \<Rightarrow> Some (pf_at st' l' i, s) | Put_char \<Rightarrow> Some (pf_at st l i, put_out emit [c] s)
      | End_directive \<Rightarrow> user_printf_spec int80 va c (pf_at st l i) s)"
  by (cases st) (simp_all add: user_printf_char_def putc_out)

lemma printf_loop_out:
  "\<forall>j\<in>string_args i (parse_from st l fmt). ustring (user_mem s) (va j) (strs j) \<Longrightarrow>
   \<exists>p. user_printf_loop int80 va fmt (pf_at st l i) s = Some (p, put_out emit (render va strs i (parse_from st l fmt)) s)"
proof (induction fmt arbitrary: i st l s)
  case (Cons c fmt)
  show ?case
  proof (cases "lexer st l c")
    case (Shift st' l')
    then show ?thesis using Cons.IH [of i st' l' s] Cons.prems by (simp add: printf_char_out)
  next
    case Put_char
    then show ?thesis using Cons.IH [of i st l "put_out emit [c] s"] Cons.prems by (simp add: printf_char_out)
  next
    case End_directive
    let ?d = "directive_of l c" and ?j = "i + directive_words (directive_of l c)"
    have str: "?d = String_arg \<longrightarrow> ustring (user_mem s) (va i) (strs i)" using Cons.prems by (simp add: End_directive)
    show ?thesis
      using Cons.IH [of ?j STATE_NORMAL LENGTH_DEFAULT "put_out emit (directive_text va strs i ?d) s"] Cons.prems
        spec_out [where va = va and strs = strs, OF str]
      by (simp add: printf_char_out End_directive pf_at_normal(1))
  qed
qed simp

lemma printf_out:
  assumes "\<forall>j\<in>string_args 0 (parse fmt). ustring (user_mem s) (va j) (strs j)"
  shows "user_printf int80 fmt va s = Some (put_out emit (render va strs 0 (parse fmt)) s)"
  using printf_loop_out [of 0 STATE_NORMAL LENGTH_DEFAULT fmt s va strs] assms
  by (auto simp: user_printf_def vprintf_def parse_from_parse pf_at_normal(2) [symmetric])

end

section \<open>The line editor\<close>

text \<open>A key other than Enter changes the line and puts characters out; \<open>n\<close> characters have room.\<close>

definition edit :: "nat \<Rightarrow> u8 list \<Rightarrow> u8 \<Rightarrow> u8 list \<times> u8 list" where
  "edit n line c =
     (if c = 0x08 \<or> c = 127 then (if line = [] then ([], []) else (butlast line, [0x08, 0x20, 0x08]))
      else if sint c < 0x20 then (line, [])
      else if length line < n then (line @ [c], [c]) else (line, []))"

definition enter :: "u8 \<Rightarrow> bool" where "enter c \<longleftrightarrow> c = 0x0D \<or> c = 0x0A"

text \<open>The keys \<open>ks\<close> are delivered one after the other and the editor answers each: the line and the
  state behind the interrupt that result.\<close>

fun feed :: "'k int80 \<Rightarrow> (u8 \<Rightarrow> 'k \<Rightarrow> 'k) \<Rightarrow> nat \<Rightarrow> u8 list \<Rightarrow> u8 list \<Rightarrow> 'k \<Rightarrow> (u8 list \<times> 'k) option" where
  "feed int80 emit n line [] k = Some (line, k)"
| "feed int80 emit n line (c # ks) k =
     do { (ret, k1) \<leftarrow> int80 SYS_GETKEY None k;
          if ucast ret = c \<and> \<not> enter c
          then (case edit n line c of (line', echo) \<Rightarrow> feed int80 emit n line' ks (fold emit echo k1))
          else None }"

definition printable :: "u8 list \<Rightarrow> bool" where
  "printable cs \<longleftrightarrow> (\<forall>c\<in>set cs. 0x20 \<le> sint c \<and> c \<noteq> 127)"

lemma printable_edit: "printable line \<Longrightarrow> length line \<le> n \<Longrightarrow> printable (fst (edit n line c)) \<and> length (fst (edit n line c)) \<le> n"
  by (auto simp: printable_def edit_def dest: in_set_butlastD)

lemma printable_nonzero: "printable cs \<Longrightarrow> 0 \<notin> set cs"
  by (auto simp: printable_def)

text \<open>The line in the buffer.\<close>

definition holds_line :: "ram \<Rightarrow> u32 \<Rightarrow> u8 list \<Rightarrow> bool" where
  "holds_line m buf line \<longleftrightarrow> (\<forall>i<length line. m (buf + of_nat i) = line ! i)"

lemma holds_line_butlast: "holds_line m buf line \<Longrightarrow> holds_line m buf (butlast line)"
  by (simp add: holds_line_def nth_butlast)

lemma offset_inj: "i < 2 ^ 32 \<Longrightarrow> j < 2 ^ 32 \<Longrightarrow> buf + of_nat i = buf + (of_nat j :: u32) \<longleftrightarrow> i = j"
  using of_nat32_inject [of i j] by simp

lemma holds_line_snoc:
  assumes "holds_line m buf line" "length line < 2 ^ 32 - 1"
  shows "holds_line (m(buf + of_nat (length line) := c)) buf (line @ [c])"
  unfolding holds_line_def
proof (intro allI impI)
  fix i assume i: "i < length (line @ [c])"
  show "(m(buf + of_nat (length line) := c)) (buf + of_nat i) = (line @ [c]) ! i"
  proof (cases "i = length line")
    case False
    then have "buf + of_nat i \<noteq> buf + (of_nat (length line) :: u32)"
      using offset_inj [of i "length line" buf] i assms(2) by simp
    moreover have "i < length line" using i False by simp
    ultimately show ?thesis using assms(1) by (simp add: holds_line_def nth_append)
  qed simp
qed

lemma holds_line_cstring:
  "holds_line m buf line \<Longrightarrow> 0 \<notin> set line \<Longrightarrow> m (buf + of_nat (length line)) = 0 \<Longrightarrow> cstring (\<lambda>_. False) m buf line"
proof (induction line arbitrary: buf)
  case (Cons c cs)
  have "holds_line m (buf + 1) cs"
    unfolding holds_line_def
  proof (intro allI impI)
    fix i assume "i < length cs"
    then show "m (buf + 1 + of_nat i) = cs ! i" using Cons.prems(1)[unfolded holds_line_def, rule_format, of "Suc i"]
      by (simp add: ac_simps)
  qed
  moreover have "m buf = c" using Cons.prems(1)[unfolded holds_line_def, rule_format, of 0] by simp
  ultimately show ?case using Cons.IH [of "buf + 1"] Cons.prems by (auto simp: ac_simps)
qed (simp add: holds_line_def)

text \<open>Memory changes only inside the buffer.\<close>

definition inside :: "u32 \<Rightarrow> u32 \<Rightarrow> ram \<Rightarrow> ram \<Rightarrow> bool" where
  "inside buf len m m' \<longleftrightarrow> (\<forall>a. unat (a - buf) \<ge> unat len \<longrightarrow> m' a = m a)"

lemma inside_store: "inside buf len m m' \<Longrightarrow> unat i < unat len \<Longrightarrow> inside buf len m (m'(buf + i := c))"
  by (auto simp: inside_def)

context console
begin

lemma getkey_user: "int80 SYS_GETKEY None (behind s) = Some (r, k) \<Longrightarrow> sys_getkey int80 s = Some (ucast r, s\<lparr>behind := k\<rparr>)"
  by (simp add: sys_getkey_def syscall0_def)

text \<open>One key that does not end the line.\<close>

lemma readline_loop_key:
  assumes key: "sys_getkey int80 s = Some (c, s\<lparr>behind := k\<rparr>)" "\<not> enter c"
    and line: "0 < len" "length line \<le> unat len - 1" "holds_line (user_mem s) buf line"
    and e: "e = edit (unat len - 1) line c"
  shows "\<exists>t. readline_loop int80 buf len (of_nat (length line)) s = readline_loop int80 buf len (of_nat (length (fst e))) t \<and>
    behind t = fold emit (snd e) k \<and> holds_line (user_mem t) buf (fst e) \<and> inside buf len (user_mem s) (user_mem t)"
proof -
  let ?s = "s\<lparr>behind := k\<rparr>"
  have lt: "length line < 2 ^ 32 - 1" "length line < unat len"
    using line(1,2) unat_u32_lt [of len] by (simp_all add: word_less_nat_alt)
  have i: "unat (of_nat (length line) :: u32) = length line" using lt(1) by (simp add: unat_of_nat32)
  have l1: "unat (len - 1) = unat len - 1" using line(1) by (intro unat_minus_one) auto
  have ne: "c \<noteq> 0x0D" "c \<noteq> 0x0A" using key(2) by (simp_all add: enter_def)
  note unfold_loop = readline_loop.simps [of int80 buf len "of_nat (length line)" s] key(1)
  consider (erase) "c = 0x08 \<or> c = 127" "line \<noteq> []" | (nothing) "c = 0x08 \<or> c = 127" "line = []"
    | (control) "\<not> (c = 0x08 \<or> c = 127)" "sint c < 0x20"
    | (type) "\<not> (c = 0x08 \<or> c = 127)" "\<not> sint c < 0x20" "length line < unat len - 1"
    | (full) "\<not> (c = 0x08 \<or> c = 127)" "\<not> sint c < 0x20" "\<not> length line < unat len - 1" by blast
  then show ?thesis
  proof cases
    case erase
    have "(of_nat (length line) :: u32) > 0" "of_nat (length line) - 1 = (of_nat (length (butlast line)) :: u32)"
      using erase(2) i by (simp_all add: word_less_nat_alt of_nat_diff Suc_leI)
    then show ?thesis
      by (intro exI [of _ "put_out emit [0x08, 0x20, 0x08] ?s"])
        (use erase ne line(3) in \<open>auto simp: unfold_loop e edit_def putc_out put_out_def holds_line_butlast inside_def\<close>)
  next
    case nothing
    then show ?thesis
      by (intro exI [of _ ?s]) (use ne line(3) in \<open>auto simp: readline_loop.simps [of int80 buf len 0 s] key(1) e edit_def inside_def\<close>)
  next
    case control
    then show ?thesis
      by (intro exI [of _ ?s]) (use ne line(3) in \<open>auto simp: unfold_loop e edit_def inside_def\<close>)
  next
    case full
    have "\<not> of_nat (length line) < len - 1" using full(3) i l1 by (simp add: word_less_nat_alt)
    then show ?thesis
      by (intro exI [of _ ?s]) (use full ne line(3) in \<open>auto simp: unfold_loop e edit_def inside_def\<close>)
  next
    case type
    have "of_nat (length line) < len - 1" using type(3) i l1 by (simp add: word_less_nat_alt)
    then show ?thesis
      by (intro exI [of _ "put_out emit [c] (user_store (buf + of_nat (length line)) c ?s)"])
        (use type ne holds_line_snoc [OF line(3) lt(1)] inside_store [of buf len "user_mem s" "user_mem s" "of_nat (length line)"] lt(2) i
          in \<open>auto simp: unfold_loop e edit_def putc_out put_out_def user_store_def inside_def add.commute\<close>)
  qed
qed

lemma readline_loop_feed:
  assumes "feed int80 emit (unat len - 1) line ks (behind s) = Some (line', k1)"
    and "int80 SYS_GETKEY None k1 = Some (r, k2)" "enter (ucast r)"
    and "0 < len" "printable line" "length line \<le> unat len - 1" "holds_line (user_mem s) buf line"
  shows "\<exists>m. readline_loop int80 buf len (of_nat (length line)) s =
      Some (of_nat (length line'), \<lparr>user_mem = m, behind = emit 0x0A k2\<rparr>) \<and>
    printable line' \<and> length line' \<le> unat len - 1 \<and> holds_line m buf line' \<and> inside buf len (user_mem s) m"
  using assms(1,5-7)
proof (induction ks arbitrary: line s)
  case Nil
  then have "line' = line" "k1 = behind s" by simp_all
  then have "readline_loop int80 buf len (of_nat (length line)) s =
      Some (of_nat (length line'), \<lparr>user_mem = user_mem s, behind = emit 0x0A k2\<rparr>)"
    using getkey_user [of s r k2] assms(2,3)
    by (subst readline_loop.simps) (simp add: enter_def putc_out put_out_def)
  then show ?case using Nil \<open>line' = line\<close> by (auto simp: inside_def)
next
  case (Cons c ks)
  let ?e = "edit (unat len - 1) line c"
  obtain r0 k where key: "int80 SYS_GETKEY None (behind s) = Some (r0, k)" "ucast r0 = c" "\<not> enter c"
    "feed int80 emit (unat len - 1) (fst ?e) ks (fold emit (snd ?e) k) = Some (line', k1)"
    using Cons.prems(1) by (auto simp: split_beta split: bind_splits if_splits)
  have g: "sys_getkey int80 s = Some (c, s\<lparr>behind := k\<rparr>)" using getkey_user [OF key(1)] key(2) by simp
  obtain t where t: "readline_loop int80 buf len (of_nat (length line)) s = readline_loop int80 buf len (of_nat (length (fst ?e))) t"
    "behind t = fold emit (snd ?e) k" "holds_line (user_mem t) buf (fst ?e)" "inside buf len (user_mem s) (user_mem t)"
    using readline_loop_key [OF g key(3) assms(4) Cons.prems(3,4) refl] by blast
  have pe: "printable (fst ?e)" "length (fst ?e) \<le> unat len - 1" using printable_edit [OF Cons.prems(2,3), of c] by simp_all
  show ?case using Cons.IH [OF _ pe t(3)] key(4) t(1,2,4) by (auto simp: inside_def)
qed

lemma readline_feed:
  assumes "feed int80 emit (unat len - 1) [] ks (behind s) = Some (line, k1)"
    and "int80 SYS_GETKEY None k1 = Some (r, k2)" "enter (ucast r)" "0 < len"
  shows "\<exists>m. readline int80 buf len s = Some (of_nat (length line), \<lparr>user_mem = m, behind = emit 0x0A k2\<rparr>) \<and>
    printable line \<and> length line < unat len \<and> cstring (\<lambda>_. False) m buf line \<and> inside buf len (user_mem s) m"
proof -
  obtain m where m: "readline_loop int80 buf len 0 s = Some (of_nat (length line), \<lparr>user_mem = m, behind = emit 0x0A k2\<rparr>)"
    "printable line" "length line \<le> unat len - 1" "holds_line m buf line" "inside buf len (user_mem s) m"
    using readline_loop_feed [OF assms, of buf] by (auto simp: printable_def holds_line_def)
  let ?m = "m(buf + of_nat (length line) := 0)"
  have lt: "length line < unat len" using m(3) assms(4) by (simp add: word_less_nat_alt)
  have n: "length line < 2 ^ 32 - 1" using m(3) unat_u32_lt [of len] assms(4) by (simp add: word_less_nat_alt)
  have "holds_line ?m buf line"
    using holds_line_butlast [OF holds_line_snoc [OF m(4) n, of 0]] by simp
  then have "cstring (\<lambda>_. False) ?m buf line" using printable_nonzero [OF m(2)] by (intro holds_line_cstring) simp_all
  moreover have "inside buf len (user_mem s) ?m" using inside_store [OF m(5)] lt n by (simp add: unat_of_nat32)
  ultimately show ?thesis using m lt by (auto simp: readline_def user_store_def)
qed

end

section \<open>A turn of the shell\<close>

context console
begin

lemma prompt_out: "user_printf int80 (ascii ''%u> '') (\<lambda>_. prompt) s = Some (put_out emit (numeral_text 10 (unat prompt) @ ascii ''> '') s)"
proof -
  have p: "parse (ascii ''%u> '') = [Unsigned_number LENGTH_DEFAULT 10, Literal_char 0x3E, Literal_char 0x20]"
    by (simp add: ascii_def directive_of_def)
  have r: "render (\<lambda>_. prompt) (\<lambda>_. []) 0 (parse (ascii ''%u> '')) = numeral_text 10 (unat prompt) @ ascii ''> ''"
    "string_args 0 (parse (ascii ''%u> '')) = {}"
    unfolding p by (simp_all add: va_number_def ascii_def unat_ucast32_64)
  show ?thesis unfolding r(1) [symmetric] by (rule printf_out) (simp add: r(2))
qed

lemma banner_out: "\<exists>cs. \<forall>s. shell_banner int80 s = Some (put_out emit cs s)"
  by (rule exI, rule allI) (simp add: shell_banner_def println_chars_def print_chars_out putc_out)

lemma turn_out:
  assumes "feed int80 emit 255 [] ks (fold emit (numeral_text 10 (unat prompt) @ ascii ''> '') (behind s)) = Some (line, k1)"
    and "int80 SYS_GETKEY None k1 = Some (r, k2)" "enter (ucast r)" "buf \<noteq> 0"
  shows "\<exists>m. shell_turn int80 buf prompt s = Some (prompt + 1, \<lparr>user_mem = m,
      behind = fold emit ([0x0A] @ (if line = [] then [] else ascii ''Echo: '' @ line @ [0x0A])) k2\<rparr>) \<and>
    printable line \<and> length line < 256 \<and> cstring (\<lambda>_. False) m buf line \<and> inside buf INPUT_BUF_SIZE (user_mem s) m"
proof -
  let ?s = "put_out emit (numeral_text 10 (unat prompt) @ ascii ''> '') s"
  have "feed int80 emit (unat INPUT_BUF_SIZE - 1) [] ks (behind ?s) = Some (line, k1)" "0 < INPUT_BUF_SIZE"
    using assms(1) by (simp_all add: INPUT_BUF_SIZE_def)
  from readline_feed [OF this(1) assms(2,3) this(2), of buf] obtain m where
    R: "readline int80 buf INPUT_BUF_SIZE ?s = Some (of_nat (length line), \<lparr>user_mem = m, behind = emit 0x0A k2\<rparr>)"
    "printable line" "length line < 256" "cstring (\<lambda>_. False) m buf line" "inside buf INPUT_BUF_SIZE (user_mem s) m"
    by (auto simp: INPUT_BUF_SIZE_def)
  have z: "m buf = 0 \<longleftrightarrow> line = []" using R(4) by (cases line) auto
  have "ustring m buf line" using R(4) assms(4) by (simp add: ustring_def)
  then have "shell_turn int80 buf prompt s = Some (prompt + 1, \<lparr>user_mem = m,
      behind = fold emit ([0x0A] @ (if line = [] then [] else ascii ''Echo: '' @ line @ [0x0A])) k2\<rparr>)"
    by (simp add: shell_turn_def prompt_out R(1) z print_chars_out println_def print_out putc_out put_out_record del: put_out_simps(2))
  with R(2-5) show ?thesis by blast
qed

end

section \<open>The shell on the kernel\<close>

text \<open>The interrupt is the dispatcher; \<open>regs\<close> are the registers that the call does not set.\<close>

definition kernel_int80 ::
  "('a board_scheme \<Rightarrow> 'a board_scheme) \<Rightarrow> syscall_saved_regs_t \<Rightarrow> 'a board_scheme int80" where
  "kernel_int80 hlt regs num arg k =
     map_option (\<lambda>(regs', k'). (reg_eax regs', k'))
       (syscall_dispatcher hlt (regs\<lparr>reg_eax := num, reg_ebx := (case arg of None \<Rightarrow> reg_ebx regs | Some b \<Rightarrow> b)\<rparr>) k)"

interpretation kernel_console: console "kernel_int80 hlt regs" put_c
  by unfold_locales (simp add: kernel_int80_def SYS_PUTC_def syscall_print_def)

lemma kernel_getkey:
  "kernel_int80 hlt regs SYS_GETKEY None k = map_option (\<lambda>(key, k'). (ucast key, k')) (get_key hlt k)"
  by (simp add: kernel_int80_def SYS_GETKEY_def syscall_getkey_def split: option.split)

text \<open>Each wrapper of the library reaches the handler of the kernel for it.\<close>

definition call_regs :: "syscall_saved_regs_t \<Rightarrow> u32 \<Rightarrow> u32 \<Rightarrow> syscall_saved_regs_t" where
  "call_regs regs num arg = regs\<lparr>reg_eax := num, reg_ebx := arg\<rparr>"

lemma kernel_syscall:
  "syscall1 (kernel_int80 hlt regs) num arg s =
     map_option (\<lambda>(r, k). (reg_eax r, s\<lparr>behind := k\<rparr>)) (syscall_dispatcher hlt (call_regs regs num arg) (behind s))"
  "syscall0 (kernel_int80 hlt regs) num s =
     map_option (\<lambda>(r, k). (reg_eax r, s\<lparr>behind := k\<rparr>)) (syscall_dispatcher hlt (call_regs regs num (reg_ebx regs)) (behind s))"
proof -
  show "syscall1 (kernel_int80 hlt regs) num arg s =
     map_option (\<lambda>(r, k). (reg_eax r, s\<lparr>behind := k\<rparr>)) (syscall_dispatcher hlt (call_regs regs num arg) (behind s))"
    by (cases "syscall_dispatcher hlt (call_regs regs num arg) (behind s)")
      (auto simp: syscall1_def kernel_int80_def call_regs_def)
  show "syscall0 (kernel_int80 hlt regs) num s =
     map_option (\<lambda>(r, k). (reg_eax r, s\<lparr>behind := k\<rparr>)) (syscall_dispatcher hlt (call_regs regs num (reg_ebx regs)) (behind s))"
    by (cases "syscall_dispatcher hlt (call_regs regs num (reg_ebx regs)) (behind s)")
      (auto simp: syscall0_def kernel_int80_def call_regs_def)
qed

lemma wrappers_reach_handlers:
  fixes s :: "('a board_scheme) user"
  shows "sys_sleep (kernel_int80 hlt regs) ms s =
      map_option (\<lambda>(r, k). s\<lparr>behind := k\<rparr>) (syscall_sleep hlt (call_regs regs 2 ms) (behind s))"
    "sys_malloc (kernel_int80 hlt regs) n s =
      map_option (\<lambda>(r, k). (reg_eax r, s\<lparr>behind := k\<rparr>)) (syscall_malloc (call_regs regs 3 n) (behind s))"
    "sys_free (kernel_int80 hlt regs) ptr s =
      map_option (\<lambda>(r, k). s\<lparr>behind := k\<rparr>) (syscall_free (call_regs regs 4 ptr) (behind s))"
    "sys_putc (kernel_int80 hlt regs) c s = Some (s\<lparr>behind := put_c c (behind s)\<rparr>)"
    "sys_exit (kernel_int80 hlt regs) s = map_option snd (syscall_exit hlt (call_regs regs 6 (reg_ebx regs)) (behind s))"
    "sys_getkey (kernel_int80 hlt regs) s = map_option (\<lambda>(c, k). (c, s\<lparr>behind := k\<rparr>)) (get_key hlt (behind s))"
proof -
  note W = sys_sleep_def sys_malloc_def sys_free_def sys_putc_def sys_exit_def kernel_syscall
    SYS_SLEEP_def SYS_MALLOC_def SYS_FREE_def SYS_EXIT_def SYS_PUTC_def syscall_print_def option.map_comp
  have [simp]: "reg_eax (call_regs regs n a) = n" "reg_ebx (call_regs regs n a) = a" for n a by (simp_all add: call_regs_def)
  show "sys_sleep (kernel_int80 hlt regs) ms s =
      map_option (\<lambda>(r, k). s\<lparr>behind := k\<rparr>) (syscall_sleep hlt (call_regs regs 2 ms) (behind s))"
    "sys_malloc (kernel_int80 hlt regs) n s =
      map_option (\<lambda>(r, k). (reg_eax r, s\<lparr>behind := k\<rparr>)) (syscall_malloc (call_regs regs 3 n) (behind s))"
    "sys_free (kernel_int80 hlt regs) ptr s =
      map_option (\<lambda>(r, k). s\<lparr>behind := k\<rparr>) (syscall_free (call_regs regs 4 ptr) (behind s))"
    "sys_putc (kernel_int80 hlt regs) c s = Some (s\<lparr>behind := put_c c (behind s)\<rparr>)"
    "sys_exit (kernel_int80 hlt regs) s = map_option snd (syscall_exit hlt (call_regs regs 6 (reg_ebx regs)) (behind s))"
    by (simp_all add: W) (rule option.map_cong, rule refl, auto)+
  show "sys_getkey (kernel_int80 hlt regs) s = map_option (\<lambda>(c, k). (c, s\<lparr>behind := k\<rparr>)) (get_key hlt (behind s))"
    by (cases "get_key hlt (behind s)") (auto simp: sys_getkey_def syscall0_def kernel_getkey)
qed

text \<open>The seconds of the two libraries: the kernel's have 16 bits and do not wrap, the user's do.\<close>

lemma sleep_seconds:
  "kernel_sleep int80 seconds s = kernel_sleepm int80 (of_nat (1000 * unat seconds)) s"
  "sleep int80 n s = sys_sleep int80 (of_nat (1000 * unat n)) s"
proof -
  have "ucast seconds = (of_nat (unat seconds) :: u32)" by (simp add: word_unat_eq_iff unat_ucast16_32 unat_of_nat32 unat_u16_lt less_trans [OF unat_u16_lt])
  then show "kernel_sleep int80 seconds s = kernel_sleepm int80 (of_nat (1000 * unat seconds)) s"
    by (simp add: kernel_sleep_def kernel_sleepm_def mult.commute)
  show "sleep int80 n s = sys_sleep int80 (of_nat (1000 * unat n)) s"
    by (simp add: sleep_def sleepm_def sys_sleep_def SYS_SLEEP_def mult.commute)
qed

text \<open>The program does not return, and \<open>calloc\<close> multiplies without looking at the overflow.\<close>

lemma shell_loop_never_returns: "shell_loop int80 buf prompt s = None"
proof (rule ccontr)
  assume "shell_loop int80 buf prompt s \<noteq> None"
  then obtain t where "shell_loop int80 buf prompt s = Some t" by auto
  then show False
    by (rule shell_loop.raw_induct [where P = "\<lambda>_ _ _ _ _. False", rotated]) (auto split: bind_splits)
qed

lemma user_start_never_returns: "user_start int80 buf s = None"
  by (simp add: user_start_def shell_loop_never_returns split: bind_splits)

lemma zero_fill: "n < 2 ^ 32 \<Longrightarrow> fold (\<lambda>i m. m(ptr + of_nat i := 0)) [0..<n] (m :: ram) a = (if unat (a - ptr) < n then 0 else m a)"
proof (induction n)
  case (Suc n)
  have "a = ptr + of_nat n \<longleftrightarrow> unat (a - ptr) = n"
  proof
    assume "unat (a - ptr) = n"
    moreover have "of_nat (unat (a - ptr)) = a - ptr" by simp
    ultimately have "a - ptr = of_nat n" by simp
    then show "a = ptr + of_nat n" by (simp add: algebra_simps)
  qed (use Suc.prems unat_of_nat32 [of n] in simp)
  with Suc show ?case by (simp add: less_Suc_eq)
qed simp

lemma calloc_zeroes:
  assumes "sys_malloc int80 (nmemb * n) s = Some (ptr, s1)" "ptr \<noteq> 0"
  shows "\<exists>m. calloc int80 nmemb n s = Some (ptr, s1\<lparr>user_mem := m\<rparr>) \<and>
    (\<forall>a. m a = (if a - ptr < nmemb * n then 0 else user_mem s1 a))"
proof -
  have "fold (\<lambda>i m. m(ptr + of_nat i := 0)) [0..<unat (nmemb * n)] (user_mem s1) a =
      (if a - ptr < nmemb * n then 0 else user_mem s1 a)" for a
    using zero_fill [of "unat (nmemb * n)" ptr "user_mem s1" a] unat_u32_lt [of "nmemb * n"]
    by (simp add: word_less_nat_alt)
  then show ?thesis using assms
    by (intro exI [of _ "fold (\<lambda>i m. m(ptr + of_nat i := 0)) [0..<unat (nmemb * n)] (user_mem s1)"]) (simp add: calloc_def)
qed

lemma calloc_overflow: "calloc int80 0x10000 0x10000 s = sys_malloc int80 0 s"
proof -
  have m: "(0x10000 * 0x10000 :: u32) = 0" by simp
  show ?thesis unfolding calloc_def m Let_def by (cases "sys_malloc int80 0 s") auto
qed

text \<open>The screen driver has no case for the character \<open>'\b'\<close>: it is put on the screen, and what \<open>readline\<close>
  puts out to erase a character moves the cursor three columns on.\<close>

lemma put_c_moves_on:
  assumes "on_screen s" "position s < 1999" "c = 0x08 \<or> c = 0x20"
  shows "on_screen (put_c c s)" "position (put_c c s) = position s + 1"
  using put_plain_effect(1,3) [OF assms(1), of c] assms(2,3) by (auto simp: put_c_def)

lemma erase_moves_on:
  assumes "on_screen s" "position s < 1997"
  shows "position (fold put_c [0x08, 0x20, 0x08] s) = position s + 3"
proof -
  have 1: "on_screen (put_c 0x08 s)" "position (put_c 0x08 s) = position s + 1"
    using put_c_moves_on [of s "0x08"] assms by simp_all
  have 2: "on_screen (put_c 0x20 (put_c 0x08 s))" "position (put_c 0x20 (put_c 0x08 s)) = position s + 2"
    using put_c_moves_on [of "put_c 0x08 s" "0x20"] 1 assms(2) by simp_all
  show ?thesis using put_c_moves_on(2) [of "put_c 0x20 (put_c 0x08 s)" "0x08"] 2 assms(2) by simp
qed

section \<open>An example\<close>

text \<open>A typist who answers with \<open>h\<close> when the cursor is at position \<open>p\<close>, and else with Enter.\<close>

definition typist :: "int \<Rightarrow> board \<Rightarrow> board" where
  "typist p k = set_key (if position k = p then 0x68 else 0x0D) k"

definition shell_board :: board where
  "shell_board = (demo_board TASK_RUNNIG TASK_READY)\<lparr>g_ScreenX := 0, g_ScreenY := 0\<rparr>"

definition after_key :: "u8 \<Rightarrow> board \<Rightarrow> board" where
  "after_key c k = set_key 0 (set_key c ((set_key 0 k)\<lparr>IF_flag := True\<rparr>)\<lparr>IF_flag := False\<rparr>)"

lemma after_key_screen [simp]: "position (after_key c k) = position k" "on_screen (after_key c k) = on_screen k"
  by (simp_all add: after_key_def set_key_def position_def on_screen_def)

lemma typist_key: "get_key (typist p) k = (let c = (if position k = p then 0x68 else 0x0D) in Some (c, after_key c k))"
proof -
  let ?t = "(set_key 0 k)\<lparr>IF_flag := True\<rparr>"
  have "key_loop (typist p) ?t = key_loop (typist p) (typist p ?t)"
    by (subst key_loop.simps) (simp add: set_key_def key_info_key_def)
  also have "\<dots> = Some (typist p ?t)"
    by (subst key_loop.simps) (simp add: typist_def set_key_def key_info_key_def)
  finally show ?thesis
    by (simp add: get_key_def typist_def set_key_def key_info_key_def position_def after_key_def Let_def)
qed

lemma plain_text:
  "on_screen k \<Longrightarrow> \<forall>c\<in>set cs. c \<noteq> 0x0A \<and> c \<noteq> 0x09 \<and> c \<noteq> 0x0D \<Longrightarrow> position k + int (length cs) \<le> 1999 \<Longrightarrow>
   on_screen (fold put_c cs k) \<and> position (fold put_c cs k) = position k + int (length cs)"
proof (induction cs arbitrary: k)
  case (Cons c cs)
  then show ?case using put_plain_effect(1,3) [OF Cons.prems(1), of c] Cons.IH [of "put_c c k"]
    by (auto simp: put_c_def)
qed simp

lemma shell_board_screen: "on_screen shell_board" "position shell_board = 0"
  by (simp_all add: shell_board_def on_screen_def position_def)

section \<open>Properties\<close>

text \<open>C38 \<open>readline\<close> on the kernel returns with Enter: the line is what the editor made of the keys before
  it, shorter than the buffer and without control characters; it lies in the buffer and ends with a
  NUL, and no memory outside the buffer has changed.\<close>

theorem readline_correct:
  assumes "feed (kernel_int80 hlt regs) put_c (unat len - 1) [] ks (behind s) = Some (line, k1)"
    and "get_key hlt k1 = Some (key, k2)" "enter key" "0 < len"
  shows "\<exists>m. readline (kernel_int80 hlt regs) buf len s = Some (of_nat (length line), \<lparr>user_mem = m, behind = put_c 0x0A k2\<rparr>) \<and>
    printable line \<and> length line < unat len \<and> cstring (\<lambda>_. False) m buf line \<and> inside buf len (user_mem s) m"
proof -
  have "kernel_int80 hlt regs SYS_GETKEY None k1 = Some (ucast key, k2)" "enter (ucast (ucast key :: u32))"
    using assms(2,3) by (simp_all add: kernel_getkey)
  from kernel_console.readline_feed [OF assms(1) this assms(4)] show ?thesis .
qed

theorem readline_correct_witness:
  "\<exists>m k. readline (kernel_int80 (typist 0) (demo_regs 0 0)) 0x8000 16 \<lparr>user_mem = (\<lambda>_. 0), behind = shell_board\<rparr> =
     Some (1, \<lparr>user_mem = m, behind = k\<rparr>) \<and> cstring (\<lambda>_. False) m 0x8000 [0x68] \<and>
     inside 0x8000 16 (\<lambda>_. 0) m"
proof -
  let ?k1 = "put_c 0x68 (after_key 0x68 shell_board)"
  have e: "edit 15 [] 0x68 = ([0x68], [0x68])" "\<not> enter 0x68" "enter 0x0D" by (simp_all add: edit_def enter_def)
  have "position ?k1 = 1" using plain_text [of "after_key 0x68 shell_board" "[0x68]"] by (simp add: shell_board_screen)
  then have 2: "get_key (typist 0) ?k1 = Some (0x0D, after_key 0x0D ?k1)" by (simp add: typist_key)
  have 1: "feed (kernel_int80 (typist 0) (demo_regs 0 0)) put_c (unat (16 :: u32) - 1) [] [0x68]
      (behind \<lparr>user_mem = (\<lambda>_. 0), behind = shell_board\<rparr>) = Some ([0x68], ?k1)"
    by (simp add: kernel_getkey typist_key shell_board_screen e)
  show ?thesis using readline_correct [OF 1 2 e(3), of "0x8000"] by auto
qed

text \<open>C39 One turn of the shell on the kernel prints the number of the prompt, the echo of the keys, a line
  feed, and for a line that is not empty \<open>Echo:\<close> and the line; the next prompt has the next number.\<close>

theorem shell_turn_correct:
  assumes "feed (kernel_int80 hlt regs) put_c 255 [] ks (fold put_c (numeral_text 10 (unat prompt) @ ascii ''> '') (behind s)) = Some (line, k1)"
    and "get_key hlt k1 = Some (key, k2)" "enter key" "buf \<noteq> 0"
  shows "\<exists>m. shell_turn (kernel_int80 hlt regs) buf prompt s = Some (prompt + 1, \<lparr>user_mem = m,
      behind = fold put_c ([0x0A] @ (if line = [] then [] else ascii ''Echo: '' @ line @ [0x0A])) k2\<rparr>) \<and>
    printable line \<and> length line < 256 \<and> cstring (\<lambda>_. False) m buf line"
proof -
  have "kernel_int80 hlt regs SYS_GETKEY None k1 = Some (ucast key, k2)" "enter (ucast (ucast key :: u32))"
    using assms(2,3) by (simp_all add: kernel_getkey)
  from kernel_console.turn_out [OF assms(1) this assms(4)] show ?thesis by blast
qed

theorem shell_turn_correct_witness:
  "\<exists>m k. shell_turn (kernel_int80 (typist 3) (demo_regs 0 0)) 0x8000 1 \<lparr>user_mem = (\<lambda>_. 0), behind = shell_board\<rparr> =
     Some (2, \<lparr>user_mem = m, behind = fold put_c (([0x0A] @ ascii ''Echo: h'' @ [0x0A])) k\<rparr>) \<and> cstring (\<lambda>_. False) m 0x8000 [0x68]"
proof -
  let ?k0 = "fold put_c (numeral_text 10 (unat (1 :: u32)) @ ascii ''> '') shell_board"
  let ?k1 = "put_c 0x68 (after_key 0x68 ?k0)"
  have e: "edit 255 [] 0x68 = ([0x68], [0x68])" "\<not> enter 0x68" "enter 0x0D" by (simp_all add: edit_def enter_def)
  have n: "numeral_text 10 (unat (1 :: u32)) = [0x31]" by code_simp
  have k0: "on_screen ?k0" "position ?k0 = 3"
    using plain_text [of shell_board "[0x31] @ ascii ''> ''"] unfolding n by (simp_all add: shell_board_screen ascii_def)
  have "position ?k1 = 4" using plain_text [of "after_key 0x68 ?k0" "[0x68]"] k0 by simp
  then have 2: "get_key (typist 3) ?k1 = Some (0x0D, after_key 0x0D ?k1)" by (simp add: typist_key)
  have 1: "feed (kernel_int80 (typist 3) (demo_regs 0 0)) put_c 255 [] [0x68]
      (fold put_c (numeral_text 10 (unat (1 :: u32)) @ ascii ''> '') (behind \<lparr>user_mem = (\<lambda>_. 0), behind = shell_board\<rparr>)) =
      Some ([0x68], ?k1)"
    using k0 by (simp add: kernel_getkey typist_key e del: fold_append)
  have t: "[0x0A] @ (if [0x68] = [] then [] else ascii ''Echo: '' @ [0x68] @ [0x0A]) = ([0x0A] @ ascii ''Echo: h'' @ [0x0A])"
    by (simp add: ascii_def)
  show ?thesis using shell_turn_correct [OF 1 2 e(3), of "0x8000", unfolded t] by auto
qed

end
