(* ===== verification/Reports.thy ===== *)
theory Reports
  imports Descriptors "HOL-Library.Monad_Syntax"
begin

text \<open>
  What the kernel reports on its screen: the dump of the heap, \<open>heap_dump\<close> of
  \<open>src/kernel/mm/handler/malloc.c\<close>, and the text of an exception without a handler, with the table of names
  of \<open>src/kernel/arch/i686/isr.c\<close>.

  The lemmas show that the dump ends and has one line for each block of the list, in its order, and what
  the common handler prints.
\<close>

section \<open>The dump of the heap\<close>

partial_function (option) dump_loop :: "u32 \<Rightarrow> 'a screen_scheme \<Rightarrow> 'a screen_scheme option" where
  "dump_loop it s =
     (if it = 0 then Some s
      else do { s1 \<leftarrow> printf put_c (ascii ''block %p: size=%u free=%d next=%p payload=%p end=%p'' @ [0x0A])
                        (\<lambda>i. [it, bsize (blocks s it), of_bool (bfree (blocks s it)), bnext (blocks s it),
                              it + 12, it + 12 + bsize (blocks s it)] ! i) s;
                dump_loop (bnext (blocks s1 it)) s1 })"

definition heap_dump :: "'a screen_scheme \<Rightarrow> 'a screen_scheme option" where
  "heap_dump s =
     do { s1 \<leftarrow> printf put_c (ascii ''heap dump: head=%p total_pages=%u virt_base=0x%x'' @ [0x0A])
                  (\<lambda>i. [malloc_list_head s, total_malloc_pages s, malloc_virt_address s] ! i) s;
          dump_loop (malloc_list_head s1) s1 }"

lemma put_text_keeps:
  assumes "on_screen s"
  shows "on_screen (fold put_c cs s) \<and> screen_only s (fold put_c cs s)"
  using assms
proof (induction cs arbitrary: s)
  case (Cons c cs)
  have "on_screen (put_c c s)" "screen_only s (put_c c s)" using put_c_keeps [OF Cons.prems] by simp_all
  with Cons.IH [of "put_c c s"] show ?case by (auto intro: screen_only_trans)
qed (simp add: screen_only_refl)

lemma screen_only_heap:
  "screen_only s s' \<Longrightarrow> blocks s' = blocks s \<and> malloc_list_head s' = malloc_list_head s"
  by (auto simp: screen_only_def)

lemma print_words:
  assumes "on_screen s" "string_args 0 (parse fmt) = {}"
  shows "printf put_c fmt va s = Some (fold put_c (render va (\<lambda>_. []) 0 (parse fmt)) s)"
  using assms by (intro kernel_sink.printf_text) simp_all

text \<open>Two hexadecimal and decimal texts, and the line of a block.\<close>

definition hex_text :: "u32 \<Rightarrow> u8 list" where "hex_text w = numeral_text 16 (unat w)"
definition dec_text :: "u32 \<Rightarrow> u8 list" where "dec_text w = numeral_text 10 (unat w)"

definition block_line :: "u32 \<Rightarrow> malloc_block \<Rightarrow> u8 list" where
  "block_line p b = ascii ''block '' @ hex_text p @ ascii '': size='' @ dec_text (bsize b) @ ascii '' free='' @
     dec_text (of_bool (bfree b)) @ ascii '' next='' @ hex_text (bnext b) @ ascii '' payload='' @ hex_text (p + 12) @
     ascii '' end='' @ hex_text (p + 12 + bsize b) @ [0x0A]"

fun list_lines :: "(u32 \<Rightarrow> malloc_block) \<Rightarrow> u32 \<Rightarrow> nat \<Rightarrow> u8 list" where
  "list_lines H p 0 = []"
| "list_lines H p (Suc n) = block_line p (H p) @ list_lines H (bnext (H p)) n"

lemma render_literal: "render va strs i (map Literal_char cs @ ds) = cs @ render va strs i ds"
  by (induction cs) simp_all

lemma default_number:
  "numeral_text r (unat (va_number va i LENGTH_DEFAULT False)) = numeral_text r (unat (va i))"
  by (simp add: va_number_def unat_ucast32_64)

lemma signed_small: "signed_text 0 = numeral_text 10 0" "signed_text 1 = numeral_text 10 (Suc 0)"
  by code_simp+

abbreviation block_format :: "u8 list" where
  "block_format \<equiv> ascii ''block %p: size=%u free=%d next=%p payload=%p end=%p'' @ [0x0A]"

lemma parse_block_format:
  "parse block_format =
     map Literal_char (ascii ''block '') @ Unsigned_number LENGTH_DEFAULT 16 # map Literal_char (ascii '': size='') @
     Unsigned_number LENGTH_DEFAULT 10 # map Literal_char (ascii '' free='') @ Signed_number LENGTH_DEFAULT #
     map Literal_char (ascii '' next='') @ Unsigned_number LENGTH_DEFAULT 16 # map Literal_char (ascii '' payload='') @
     Unsigned_number LENGTH_DEFAULT 16 # map Literal_char (ascii '' end='') @ Unsigned_number LENGTH_DEFAULT 16 #
     map Literal_char [0x0A] @ []"
  by code_simp

lemma render_block:
  "render (\<lambda>i. [p, bsize b, of_bool (bfree b), bnext b, p + 12, p + 12 + bsize b] ! i) (\<lambda>_. []) 0 (parse block_format) = block_line p b"
  unfolding parse_block_format
  by (simp only: render_literal render.simps directive_text.simps directive_words.simps arg_words_def default_number)
    (cases "bfree b"; simp add: va_number_def signed_small block_line_def hex_text_def dec_text_def)

lemma block_format_words: "string_args 0 (parse block_format) = {}"
  by code_simp

lemma dump_loop_lines:
  "seg (blocks s) p a bs 0 e \<Longrightarrow> on_screen s \<Longrightarrow>
   dump_loop p s = Some (fold put_c (list_lines (blocks s) p (length bs)) s)"
proof (induction bs arbitrary: p a s)
  case Nil
  then show ?case by (subst dump_loop.simps) simp
next
  case (Cons b bs)
  obtain n f where b: "b = (n, f)" by fastforce
  let ?t = "fold put_c (block_line p (blocks s p)) s"
  have p: "p \<noteq> 0" "seg (blocks s) (bnext (blocks s p)) (a + 12 + n) bs 0 e" using Cons.prems(1) b by simp_all
  have t: "on_screen ?t" "blocks ?t = blocks s"
    using put_text_keeps [OF Cons.prems(2)] screen_only_heap by blast+
  have "dump_loop (bnext (blocks s p)) ?t = Some (fold put_c (list_lines (blocks s) (bnext (blocks s p)) (length bs)) ?t)"
    using Cons.IH [of ?t] t p(2) by simp
  then show ?case
    using p(1) print_words [OF Cons.prems(2) block_format_words]
    by (subst dump_loop.simps) (simp add: render_block t(2))
qed

definition dump_head :: "u32 \<Rightarrow> u32 \<Rightarrow> u32 \<Rightarrow> u8 list" where
  "dump_head p n v = ascii ''heap dump: head='' @ hex_text p @ ascii '' total_pages='' @ dec_text n @ ascii '' virt_base=0x'' @
     hex_text v @ [0x0A]"

lemma parse_head_format:
  "parse (ascii ''heap dump: head=%p total_pages=%u virt_base=0x%x'' @ [0x0A]) =
     map Literal_char (ascii ''heap dump: head='') @ Unsigned_number LENGTH_DEFAULT 16 # map Literal_char (ascii '' total_pages='') @
     Unsigned_number LENGTH_DEFAULT 10 # map Literal_char (ascii '' virt_base=0x'') @ Unsigned_number LENGTH_DEFAULT 16 #
     map Literal_char [0x0A] @ []"
  "string_args 0 (parse (ascii ''heap dump: head=%p total_pages=%u virt_base=0x%x'' @ [0x0A])) = {}"
  by code_simp+

lemma render_head:
  "render (\<lambda>i. [p, n, v] ! i) (\<lambda>_. []) 0 (parse (ascii ''heap dump: head=%p total_pages=%u virt_base=0x%x'' @ [0x0A])) = dump_head p n v"
  unfolding parse_head_format(1)
  by (simp only: render_literal render.simps directive_text.simps directive_words.simps arg_words_def default_number)
    (simp add: dump_head_def hex_text_def dec_text_def)

text \<open>The dump of a heap with the blocks \<open>bs\<close>.\<close>

lemma heap_dump_lines:
  assumes "heap_inv s bs" "on_screen s"
  shows "heap_dump s = Some (fold put_c (dump_head (malloc_list_head s) (total_malloc_pages s) (malloc_virt_address s) @
    list_lines (blocks s) (malloc_list_head s) (length bs)) s)"
proof -
  let ?t = "fold put_c (dump_head (malloc_list_head s) (total_malloc_pages s) (malloc_virt_address s)) s"
  have t: "on_screen ?t" "blocks ?t = blocks s" "malloc_list_head ?t = malloc_list_head s"
    using put_text_keeps [OF assms(2)] screen_only_heap by blast+
  have "seg (blocks s) (malloc_list_head s) (unat (malloc_virt_address s)) bs 0 (heap_end s)"
    using assms(1) unfolding heap_inv_def by blast
  from dump_loop_lines [of ?t, unfolded t(2), OF this t(1)] show ?thesis
    using print_words [OF assms(2) parse_head_format(2)] by (simp add: heap_dump_def render_head t(3))
qed

section \<open>Exceptions without a handler\<close>

definition g_Exceptions :: "u8 list list" where
  "g_Exceptions = map ascii
     [''Divide by zero error'', ''Debug'', ''Non-maskable Interrupt'', ''Breakpoint'', ''Overflow'', ''Bound Range Exceeded'',
      ''Invalid Opcode'', ''Device Not Available'', ''Double Fault'', ''Coprocessor Segment Overrun'', ''Invalid TSS'',
      ''Segment Not Present'', ''Stack-Segment Fault'', ''General Protection Fault'', ''Page Fault'', [],
      ''x87 Floating-Point Exception'', ''Alignment Check'', ''Machine Check'', ''SIMD Floating-Point Exception'',
      ''Virtualization Exception'', ''Control Protection Exception '', [], [], [], [], [], [],
      ''Hypervisor Injection Exception'', ''VMM Communication Exception'', ''Security Exception'', []]"

text \<open>The names lie where the handler finds them.\<close>

definition exception_names :: "(u32 \<Rightarrow> u32) \<Rightarrow> ram \<Rightarrow> bool" where
  "exception_names exc m \<longleftrightarrow> (\<forall>n<32. cstring in_text m (exc (of_nat n)) (g_Exceptions ! n))"

text \<open>The first line of the report.\<close>

definition exception_head :: "u32 \<Rightarrow> u8 list" where
  "exception_head n = ascii ''Unhandled exception '' @ signed_text (scast n) @ ascii '' '' @ g_Exceptions ! unat n @ [0x0A]"

definition report_line :: "u8 list \<times> u32 list \<Rightarrow> u8 list" where
  "report_line l = render (\<lambda>i. snd l ! i) (\<lambda>_. []) 0 (parse (fst l))"

lemma print_lines_words:
  "\<forall>l\<in>set ls. string_args 0 (parse (fst l)) = {} \<Longrightarrow> on_screen s \<Longrightarrow>
   print_lines (printf put_c) ls s = Some (fold put_c (concat (map report_line ls)) s)"
proof (induction ls arbitrary: s)
  case (Cons l ls)
  obtain fmt args where l: "l = (fmt, args)" by fastforce
  have "on_screen (fold put_c (report_line l) s)" using put_text_keeps [OF Cons.prems(2)] by blast
  with Cons print_words [OF Cons.prems(2), of fmt "\<lambda>i. args ! i"] show ?case by (simp add: l report_line_def)
qed simp

lemma report_formats: "\<forall>l\<in>set (drop 1 (panic_lines exc r)). string_args 0 (parse (fst l)) = {}"
proof -
  have "string_args 0 (parse (ascii ''  eax=%x  ebx=%x  ecx=%x  edx=%x  esi=%x  edi=%x'' @ [0x0A])) = {}"
    "string_args 0 (parse (ascii ''  esp=%x  ebp=%x  eip=%x  eflags=%x  cs=%x  ds=%x  ss=%x'' @ [0x0A])) = {}"
    "string_args 0 (parse (ascii ''  interrupt=%x  errorcode=%x'' @ [0x0A])) = {}"
    "string_args 0 (parse (ascii ''KERNEL PANIC!'' @ [0x0A])) = {}" by code_simp+
  then show ?thesis by (simp add: panic_lines_def)
qed

lemma exception_report:
  assumes "g_ISRHandlers s (unat (f_interrupt r)) = 0" "f_interrupt r < 32" "on_screen s" "exception_names exc (mem s)"
  shows "i686_ISR_Handler call exc r s =
    Some (r, fold put_c (exception_head (f_interrupt r) @ concat (map report_line (drop 1 (panic_lines exc r)))) s)"
proof -
  let ?n = "f_interrupt r" and ?fmt = "ascii ''Unhandled exception %d %s'' @ [0x0A]"
  have p: "parse ?fmt = map Literal_char (ascii ''Unhandled exception '') @ Signed_number LENGTH_DEFAULT #
      map Literal_char (ascii '' '') @ String_arg # map Literal_char [0x0A] @ []" by code_simp
  have a: "string_args 0 (parse ?fmt) = {1}" by code_simp
  have "unat ?n < 32" using assms(2) by (simp add: word_less_nat_alt)
  then have name: "cstring in_text (mem s) (exc ?n) (g_Exceptions ! unat ?n)"
    using assms(4) by (auto simp: exception_names_def dest: spec [of _ "unat ?n"])
  have "printf put_c ?fmt (\<lambda>i. [?n, exc ?n] ! i) s =
      Some (fold put_c (render (\<lambda>i. [?n, exc ?n] ! i) (\<lambda>_. g_Exceptions ! unat ?n) 0 (parse ?fmt)) s)"
    by (rule kernel_sink.printf_text) (use assms(3) name in \<open>simp_all add: a\<close>)
  moreover have "render (\<lambda>i. [?n, exc ?n] ! i) (\<lambda>_. g_Exceptions ! unat ?n) 0 (parse ?fmt) = exception_head ?n"
    unfolding p by (simp only: render_literal render.simps directive_text.simps directive_words.simps arg_words_def)
      (simp add: va_number_def exception_head_def)
  ultimately have head: "printf put_c ?fmt (\<lambda>i. [?n, exc ?n] ! i) s = Some (fold put_c (exception_head ?n) s)" by simp
  have t: "on_screen (fold put_c (exception_head ?n) s)" using put_text_keeps [OF assms(3)] by blast
  have ls: "panic_lines exc r = (?fmt, [?n, exc ?n]) # drop 1 (panic_lines exc r)" by (simp add: panic_lines_def)
  have "print_lines (printf put_c) (panic_lines exc r) s =
      Some (fold put_c (exception_head ?n @ concat (map report_line (drop 1 (panic_lines exc r)))) s)"
    by (subst ls, simp del: drop_Suc One_nat_def add: head print_lines_words [OF report_formats t])
  moreover have "\<not> ?n \<ge> 32" using assms(2) leD by blast
  ultimately show ?thesis using assms(1) by (simp add: i686_ISR_Handler_def)
qed

end
