(* ===== verification/Spec2Isabelle.thy ===== *)
theory Spec2Isabelle
  imports Boot_Interrupts Kernel_Start Boot_Start Shell Reports
begin

text \<open>
  ToyKernel: a boot loader, a 32-bit kernel and a user program for the i686, modelled from its C sources.
  File names are relative to \<open>src/\<close> of the repository.

  \<^bold>\<open>The program.\<close> Stage 2 of the boot loader (\<open>src/bootloader/stage2\<close>) asks the firmware for the memory
  map, mounts the FAT12 disk, copies \<open>kernel.bin\<close> and the user image into memory, sets up its own frame
  bitmap and page tables and jumps to the kernel at 3 GiB. The kernel (\<open>src/kernel\<close>) clears its bss, takes
  over the memory map, sets up frames, pages, segments, interrupt gates and controllers, makes an idle task
  and a task from the ELF image and schedules. From then on it runs in handlers: the timer wakes and switches
  tasks, the keyboard stores a key, and \<open>int 0x80\<close> calls one of seven functions. The user program
  (\<open>src/userland\<close>) is a shell that reads a line through these calls and prints it.

  \<^bold>\<open>The state.\<close> One record per C file with static data, each extending the one below, so that an operation
  of a lower part works on the state of every higher part: \<open>pmm\<close> (flat memory and bitmap variables), \<open>vmm\<close>
  (page directory, CR0, CR3, interrupt flag), \<open>heap\<close>, \<open>io\<close> (log of port writes), \<open>screen\<close>, \<open>kernel\<close>
  (tasks and registers), \<open>board\<close> (clock and keyboard), \<open>machine\<close> (descriptor tables). The disk driver has
  \<open>fat\<close>, extended by \<open>boot\<close> with the machine and the boot parameters; the user program has \<open>user\<close>, its memory
  and whatever is behind the interrupt. Integers are words of the width the source gives them. Bitmap, page
  tables, screen cells and images are bytes of the flat memory, without bounds, as the code has them; heap
  blocks, tasks and kernel stacks are stores of their own, indexed by address.

  A result \<open>None\<close> means that the C code does not come back, unless the function is one that returns a null
  pointer or an error, which its theory says. Loops that may run for ever are partial functions into
  \<open>option\<close>; no operation takes fuel. The functional properties state that the operation comes back; the
  invariants speak of every step that does. Three loops do not end: growing the heap by more than 255 pages,
  \<open>boot_print_buffer_never_ends\<close>, and the shell itself, \<open>user_start_never_returns\<close>.

  \<^bold>\<open>Theories of the kernel.\<close>
  \<^item> \<open>Prelude\<close>, \<open>CMemory\<close>: integer types, loop combinators, little-endian accesses; \<open>lib/string.c\<close>.
  \<^item> \<open>Pmm\<close>: \<open>mm/pmm/pmm.c\<close>. The bitmap as a set of frames, the search as first fit, the invariant, allocation,
    release and refusal. The locale \<open>page_allocator\<close> is what clients use, interpreted as \<open>pa\<close>.
  \<^item> \<open>Vmm\<close>, \<open>Address_Space\<close>: \<open>mm/vmm/vmm.c\<close>. The processor's page walk \<open>walk\<close> and its change by every mapping
    operation; the initial address space, stage by stage.
  \<^item> \<open>Malloc\<close>: \<open>mm/handler/malloc.c\<close>. The block list as an abstract list of sizes and flags; first fit, growth
    and release as functions of that list. \<open>Heap_Setup\<close>: the page tables before and after \<open>malloc_init\<close>.
  \<^item> \<open>Elf\<close>: \<open>loader/elf.c\<close>. A valid image is mapped for ring 3 and reads as the file; others are refused.
  \<^item> \<open>Screen\<close>, \<open>Stdio\<close>: \<open>drivers/display/screen.c\<close>, \<open>interrupts/io.c\<close>, \<open>lib/stdio.c\<close>, \<open>lib/stdlib.c\<close>. The cursor
    stays on the screen; \<open>printf\<close> against a parser and renderer of formats. The locale \<open>char_sink\<close> is what
    \<open>printf\<close> needs of its output function, interpreted for the kernel's and the boot loader's.
  \<^item> \<open>Task\<close>: \<open>scheduler/task.c\<close> with \<open>task.asm\<close> and \<open>usermode.asm\<close>. The ring of tasks, which one is picked,
    the switch and the first instructions of a new task.
  \<^item> \<open>Pic\<close>, \<open>Syscall\<close>: \<open>interrupts/pic.c\<close>, \<open>keyboard/keyboard.c\<close>, \<open>interrupts/syscall.c\<close>. Key codes, clock,
    sleeping; \<open>kernel_step\<close> is one handler, and the scheduling invariant holds along \<open>kernel_reaches\<close>.
  \<^item> \<open>Descriptors\<close>, \<open>Hal\<close>: \<open>arch/i686\<close>, \<open>interrupts/idt.c\<close>, \<open>exceptions.c\<close>, \<open>hal\<close>, \<open>kmain.c\<close>. The tables as the
    processor reads them; the start composed of all parts.
  \<^item> \<open>Kernel_Start\<close>: the start end to end, from the hand-over of the boot loader to the first instruction in ring
    3. It follows the allocator through all of it: \<open>start_ok\<close> asks for eleven frames and two for every page of the
    user's segment, and \<open>module_ok\<close> says what the image and its place must satisfy.
  \<^item> \<open>Reports\<close>: \<open>heap_dump\<close> and the text of an exception without a handler.

  \<^bold>\<open>Theories of the boot loader.\<close>
  \<^item> \<open>Boot_Stdio\<close>, \<open>Boot_Memory\<close>, \<open>Boot_Interrupts\<close>: its copies of kernel files, with the lemmas on which calls
    they do the same and where they do not.
  \<^item> \<open>Fat\<close>, \<open>Fat_Files\<close>, \<open>Fat_Handles\<close>: \<open>disk.c\<close>, \<open>fat.c\<close>, \<open>ctype.c\<close>. A file is the bytes of its cluster chain.
    The locale \<open>byte_stream\<close> is the contract of the reading loop, interpreted for open files and for the root
    directory; \<open>driver_view\<close> is a part of the state that reading keeps, interpreted for the table of handles
    and, in \<open>Boot_Load\<close>, for everything outside the driver. \<open>driver_reaches\<close> is any order of driver calls.
  \<^item> \<open>Boot_Main\<close>, \<open>Boot_Load\<close>, \<open>Boot_Paging\<close>, \<open>Boot_Start\<close>: \<open>main.c\<close>, \<open>memdetects.c\<close>, \<open>memory.c\<close>. What the
    loading loops leave in memory, that the paging set-up does not touch it, and the hand-over to the kernel.

  \<^bold>\<open>Theories of the user program.\<close>
  \<^item> \<open>Userland\<close>: \<open>Umain.c\<close> and its library over a parameter \<open>int80\<close>, and the kernel library's wrappers.
  \<^item> \<open>Shell\<close>: the locale \<open>console\<close>, an \<open>int 0x80\<close> whose output call puts out its character, interpreted with
    the kernel's dispatcher; what one turn of the shell prints on the kernel's screen.

  \<^bold>\<open>Parameters.\<close> Code and hardware outside the C sources are arguments: \<open>dev\<close>, what a port reads after the
  writes so far; \<open>hlt\<close>, what the interrupts do to the state while the processor halts; \<open>bios\<close> and \<open>e820\<close>, the
  calls of the firmware; \<open>layout\<close>, \<open>handler_addresses\<close>, \<open>code_addresses\<close> and \<open>boot_env\<close>, the addresses that
  compiler and linker choose and the contents of uninitialised local variables; \<open>exc\<close> and the other string
  addresses, where literals lie; the bytes that follow the scancode table; \<open>call\<close>, a registered
  handler. Properties name what they need of them, and the witnesses give concrete functions.

  \<^bold>\<open>Not modelled.\<close>
  \<^item> The boot sector and the 16-bit code of stage 2, the stubs that save registers around a handler and the
    frame that \<open>iret\<close> pops, in assembly; linker scripts and makefiles.
  \<^item> The TLB, and the aliasing by page tables: an access goes to the flat memory at the address the code
    uses, so the kernel's addresses at 3 GiB and the frames behind them are different cells. Which frame an
    address names is \<open>walk\<close>, and what the mapping operations do to it is proved.
  \<^item> Interrupts that arrive inside a handler, between \<open>sti\<close> at the end of the gate set-up and the first call of
    \<open>schedule\<close>, or between two calls of the user program; \<open>kernel_step\<close> has them one at a time.
  \<^item> Stack frames of the compiler, and what happens when a kernel stack overflows.
  \<^item> The messages of the ELF loader; the messages of the disk driver are recorded as format and arguments and
    not put on the screen.
  \<^item> The overlap of the driver's buffers with other memory of the boot loader, the bound of 256 regions of
    \<open>g_MemRegions\<close>, and the fault of a division by zero, where HOL gives a value.
  \<^item> The page permissions of heap memory that a user program gets by \<open>malloc\<close>: \<open>map_page\<close> sets no user bit, so
    ring 3 would fault on it, and the user model reads its memory without a check.
\<close>

end
